(* ===== verification/Prelude.thy ===== *)
theory Prelude
  imports
    Main
    "HOL-Library.Word"
    "HOL-Library.Sublist"
    "HOL-Library.List_Lexorder"
    "HOL-Library.Char_ord"
    "HOL-Library.AList"
begin

text \<open>
  Shared vocabulary of the hubsync development: machine types, Go errors as values, the faults
  a SQL driver can report, the string helpers of Go's \<^verbatim>\<open>strings\<close> package that
  the sources use, keyed tables (a SQL table with a primary key as a list of rows) and the
  generic theory of a view that is materialised from an event log.
\<close>

section \<open>Machine types and Go errors\<close>

text \<open>
  A Go \<^verbatim>\<open>[]byte\<close> is a list of 8-bit words; an \<^verbatim>\<open>int64\<close> that the program only
  stores and compares is an \<open>int\<close>; what travels on the wire keeps its width.
\<close>

type_synonym byte = "8 word"
type_synonym bytes = "8 word list"
type_synonym uint32 = "32 word"
type_synonym uint64 = "64 word"

text \<open>\<^verbatim>\<open>int64(uint64(v))\<close> gives every int64 back.\<close>

lemma int64_uint64_inverse:
  assumes "- (2 ^ 63) \<le> v" and "v \<le> 2 ^ 63 - 1"
  shows "sint (word_of_int v :: uint64) = v"
  using assms by (simp add: int_word_sint)

lemma uint64_of_int: "0 \<le> v \<Longrightarrow> v < 2 ^ 64 \<Longrightarrow> uint (word_of_int v :: uint64) = v"
  by (simp add: uint_word_of_int)

datatype errno = ENOENT | ENOTDIR | EISDIR | ENOTEMPTY | EEXIST | EINVAL

text \<open>
  Go errors: a driver error of the database, a path error of the \<^verbatim>\<open>os\<close> package
  (operation, path, errno), a sentinel value compared with \<^verbatim>\<open>errors.Is\<close>, a plain message
  (\<^verbatim>\<open>errors.New\<close> or \<^verbatim>\<open>fmt.Errorf\<close> without \<^verbatim>\<open>%w\<close>) and a wrapped error, with its context in
  front (\<^verbatim>\<open>fmt.Errorf("ctx: %w", err)\<close>) or behind (\<^verbatim>\<open>fmt.Errorf("%w: detail", err)\<close>).
\<close>

datatype err =
    Sql_error string
  | Fs_error string "string list" errno
  | Sentinel string
  | Error_string string
  | Wrap string err
  | Detail err string

type_synonym 'a res = "err + 'a"

fun errno_str :: "errno \<Rightarrow> string" where
  "errno_str ENOENT = ''no such file or directory''"
| "errno_str ENOTDIR = ''not a directory''"
| "errno_str EISDIR = ''is a directory''"
| "errno_str ENOTEMPTY = ''directory not empty''"
| "errno_str EEXIST = ''file exists''"
| "errno_str EINVAL = ''invalid argument''"

fun abs_path_str :: "string list \<Rightarrow> string" where
  "abs_path_str [] = ''''"
| "abs_path_str (c # cs) = ''/'' @ c @ abs_path_str cs"

text \<open>The text of an error, \<^verbatim>\<open>err.Error()\<close>.\<close>

fun err_str :: "err \<Rightarrow> string" where
  "err_str (Sql_error s) = s"
| "err_str (Fs_error oper p e) = oper @ '' '' @ abs_path_str p @ '': '' @ errno_str e"
| "err_str (Sentinel s) = s"
| "err_str (Error_string s) = s"
| "err_str (Wrap ctx e) = ctx @ '': '' @ err_str e"
| "err_str (Detail e detail) = err_str e @ '': '' @ detail"

text \<open>\<^verbatim>\<open>errors.Is(err, sentinel)\<close> and \<^verbatim>\<open>errors.Is(err, os.ErrNotExist)\<close>.\<close>

fun errors_Is :: "err \<Rightarrow> string \<Rightarrow> bool" where
  "errors_Is (Sentinel s) t = (s = t)"
| "errors_Is (Wrap ctx e) t = errors_Is e t"
| "errors_Is (Detail e detail) t = errors_Is e t"
| "errors_Is _ t = False"

fun is_not_exist :: "err \<Rightarrow> bool" where
  "is_not_exist (Fs_error oper p e) = (e = ENOENT)"
| "is_not_exist (Wrap ctx e) = is_not_exist e"
| "is_not_exist (Detail e detail) = is_not_exist e"
| "is_not_exist _ = False"

text \<open>
  The database driver is not part of the sources. Where a statement can fail, the model asks
  a fault function whether it does; \<open>no_faults\<close> is the driver that never fails.
  Every call of \<^verbatim>\<open>time.Now()\<close> of one operation reads the clock of its environment.
\<close>

datatype sql_op =
    SQL_BEGIN | SQL_COMMIT | SQL_SELECT | SQL_INSERT | SQL_DELETE | SQL_UPSERT | SQL_UPDATE | SQL_CREATE | SQL_DROP | SQL_PREPARE

type_synonym sql_faults = "sql_op \<Rightarrow> string option"

definition no_faults :: sql_faults where
  "no_faults = (\<lambda>_. None)"

lemma no_faults_apply [simp]: "no_faults x = None"
  by (simp add: no_faults_def)

record env =
  env_now :: int
  env_sql :: sql_faults

definition env_at :: "int \<Rightarrow> env" where
  "env_at t = \<lparr>env_now = t, env_sql = no_faults\<rparr>"

lemma env_at_sel [simp]: "env_now (env_at t) = t" "env_sql (env_at t) = no_faults"
  by (simp_all add: env_at_def)

section \<open>Strings\<close>

definition HasPrefix :: "string \<Rightarrow> string \<Rightarrow> bool" where
  "HasPrefix s p = prefix p s"

definition HasSuffix :: "string \<Rightarrow> string \<Rightarrow> bool" where
  "HasSuffix s p = suffix p s"

definition TrimPrefix :: "string \<Rightarrow> string \<Rightarrow> string" where
  "TrimPrefix s p = (if HasPrefix s p then drop (length p) s else s)"

definition TrimSuffix :: "string \<Rightarrow> string \<Rightarrow> string" where
  "TrimSuffix s p = (if HasSuffix s p then take (length s - length p) s else s)"

text \<open>\<^verbatim>\<open>strings.Index(s, "c")\<close> for a one-byte separator; \<open>None\<close> is Go's \<open>-1\<close>.\<close>

fun index_of :: "char \<Rightarrow> string \<Rightarrow> nat option" where
  "index_of c [] = None"
| "index_of c (x # xs) = (if x = c then Some 0 else map_option Suc (index_of c xs))"

lemma HasPrefix_append [simp]: "HasPrefix (p @ s) p"
  by (simp add: HasPrefix_def)

lemma HasPrefix_iff: "HasPrefix s p \<longleftrightarrow> (\<exists>t. s = p @ t)"
  by (auto simp: HasPrefix_def prefix_def)

lemma HasPrefix_code [code, simp]:
  "HasPrefix s [] = True"
  "HasPrefix [] (c # p) = False"
  "HasPrefix (x # s) (c # p) = (x = c \<and> HasPrefix s p)"
  by (auto simp: HasPrefix_def)

lemma HasSuffix_append [simp]: "HasSuffix (s @ p) p"
  by (simp add: HasSuffix_def suffix_def)

lemma HasSuffix_iff: "HasSuffix s p \<longleftrightarrow> (\<exists>t. s = t @ p)"
  by (auto simp: HasSuffix_def suffix_def)

lemma HasSuffix_code [code]: "HasSuffix s p = HasPrefix (rev s) (rev p)"
  by (simp add: HasSuffix_def HasPrefix_def suffix_to_prefix)

lemma TrimPrefix_append [simp]: "TrimPrefix (p @ s) p = s"
  by (simp add: TrimPrefix_def)

lemma TrimSuffix_append [simp]: "TrimSuffix (s @ p) p = s"
  by (simp add: TrimSuffix_def)

lemma TrimPrefix_id: "\<not> HasPrefix s p \<Longrightarrow> TrimPrefix s p = s"
  by (simp add: TrimPrefix_def)

lemma TrimSuffix_id: "\<not> HasSuffix s p \<Longrightarrow> TrimSuffix s p = s"
  by (simp add: TrimSuffix_def)

lemma index_of_None_iff: "index_of c s = None \<longleftrightarrow> c \<notin> set s"
  by (induction s) auto

lemma index_of_SomeD:
  "index_of c s = Some i \<Longrightarrow> i < length s \<and> s ! i = c \<and> c \<notin> set (take i s)"
  by (induction s arbitrary: i) (auto split: if_splits)

lemma index_of_append:
  "c \<notin> set a \<Longrightarrow> index_of c (a @ c # b) = Some (length a)"
  by (induction a) auto

text \<open>
  \<^verbatim>\<open>%q\<close>: the string in double quotes, with quotes and backslashes escaped; escapes of control
  characters are not modelled.
\<close>

definition fmt_q :: "string \<Rightarrow> string" where
  "fmt_q s =
     CHR 0x22 # concat (map (\<lambda>c. if c = CHR 0x22 \<or> c = CHR 0x5C then [CHR 0x5C, c] else [c]) s) @ [CHR 0x22]"

text \<open>
  \<^verbatim>\<open>fmt.Sprintf("%d", v)\<close> and \<^verbatim>\<open>fmt.Sscanf(s, "%d", &v)\<close> into an int64 that is 0 before: leading
  blanks and a sign are skipped, the digits up to the first other character are read, and
  text without a number, or a number that does not fit, leaves 0.
\<close>

fun dec_digits :: "nat \<Rightarrow> string" where
  "dec_digits n =
     (if n < 10 then [char_of (48 + n)] else dec_digits (n div 10) @ [char_of (48 + n mod 10)])"

declare dec_digits.simps [simp del]

definition fmt_d :: "int \<Rightarrow> string" where
  "fmt_d v = (if v < 0 then ''-'' @ dec_digits (nat (- v)) else dec_digits (nat v))"

definition is_digit :: "char \<Rightarrow> bool" where
  "is_digit c = (let n = of_char c :: nat in 48 \<le> n \<and> n \<le> 57)"

definition read_digits :: "string \<Rightarrow> nat" where
  "read_digits ds = foldl (\<lambda>a c. 10 * a + (of_char c - 48)) 0 ds"

definition sscanf_d :: "string \<Rightarrow> int" where
  "sscanf_d s =
     (let t = dropWhile (\<lambda>c. c = CHR '' '') s;
          neg = HasPrefix t ''-'';
          u = (if neg \<or> HasPrefix t ''+'' then tl t else t);
          n = int (read_digits (takeWhile is_digit u));
          v = (if neg then - n else n)
      in if - (2 ^ 63) \<le> v \<and> v \<le> 2 ^ 63 - 1 then v else 0)"

lemma digit_char:
  fixes n :: nat
  assumes "n < 10"
  shows "of_char (char_of (48 + n) :: char) = 48 + n" "is_digit (char_of (48 + n))"
  using assms by (simp_all add: is_digit_def Let_def)

lemma dec_digits_ok: "read_digits (dec_digits n) = n \<and> (\<forall>c \<in> set (dec_digits n). is_digit c) \<and> dec_digits n \<noteq> []"
proof (induction n rule: dec_digits.induct)
  case (1 n)
  show ?case
  proof (cases "n < 10")
    case True
    then show ?thesis using digit_char [OF True] by (simp add: dec_digits.simps [of n] read_digits_def)
  next
    case False
    have "n mod 10 < 10" by simp
    with 1 [OF False] digit_char [OF this] False show ?thesis
      by (simp add: dec_digits.simps [of n] read_digits_def)
  qed
qed

lemma dec_digits_inj: "dec_digits i = dec_digits j \<longleftrightarrow> i = j"
  using dec_digits_ok by metis

lemma takeWhile_digits: "takeWhile is_digit (dec_digits n) = dec_digits n"
  using dec_digits_ok [of n] by (simp add: takeWhile_eq_all_conv)

lemma sscanf_fmt:
  assumes "- (2 ^ 63) \<le> v" "v \<le> 2 ^ 63 - 1"
  shows "sscanf_d (fmt_d v) = v"
proof -
  have nb: "dropWhile (\<lambda>c. c = CHR '' '') (dec_digits n) = dec_digits n"
    "\<not> HasPrefix (dec_digits n) ''-''" "\<not> HasPrefix (dec_digits n) ''+''" for n
  proof -
    from dec_digits_ok [of n] obtain c cs where "dec_digits n = c # cs" "is_digit c"
      by (metis list.exhaust list.set_intros(1))
    moreover from this(2) have "c \<noteq> CHR '' ''" "c \<noteq> CHR ''-''" "c \<noteq> CHR ''+''" by (auto simp: is_digit_def)
    ultimately show "dropWhile (\<lambda>c. c = CHR '' '') (dec_digits n) = dec_digits n"
      "\<not> HasPrefix (dec_digits n) ''-''" "\<not> HasPrefix (dec_digits n) ''+''"
      by simp_all
  qed
  show ?thesis
    using assms dec_digits_ok nb
    by (cases "v < 0") (simp_all add: sscanf_d_def fmt_d_def Let_def takeWhile_digits)
qed

section \<open>Replaying an event log\<close>

text \<open>
  \<open>replay\<close> is the reference semantics of a log whose events set or remove the value of one
  key each.
\<close>

definition replay :: "('e \<Rightarrow> 'k) \<Rightarrow> ('e \<Rightarrow> 'v option) \<Rightarrow> 'e list \<Rightarrow> ('k \<Rightarrow> 'v option) \<Rightarrow> 'k \<Rightarrow> 'v option"
  where "replay key val es m = fold (\<lambda>e m. m(key e := val e)) es m"

lemma replay_Nil [simp]: "replay key val [] m = m"
  by (simp add: replay_def)

lemma replay_Cons [simp]: "replay key val (e # es) m = replay key val es (m(key e := val e))"
  by (simp add: replay_def)

lemma replay_append: "replay key val (xs @ ys) m = replay key val ys (replay key val xs m)"
  by (simp add: replay_def)

lemma replay_untouched: "k \<notin> key ` set es \<Longrightarrow> replay key val es m k = m k"
  by (induction es arbitrary: m) auto

lemma replay_touched:
  "k \<in> key ` set es \<Longrightarrow> replay key val es m k = replay key val es m' k"
proof (induction es arbitrary: m m')
  case Nil
  then show ?case by simp
next
  case (Cons e es)
  show ?case
  proof (cases "k \<in> key ` set es")
    case True
    then show ?thesis using Cons.IH by simp
  next
    case False
    with Cons.prems have "k = key e" by auto
    with False show ?thesis by (simp add: replay_untouched)
  qed
qed

text \<open>Replaying a suffix over a state that already contains part of it changes nothing.\<close>

lemma replay_idempotent:
  "replay key val (ys @ zs) (replay key val (xs @ ys) m) = replay key val (xs @ ys @ zs) m"
proof
  fix k
  show "replay key val (ys @ zs) (replay key val (xs @ ys) m) k = replay key val (xs @ ys @ zs) m k"
  proof (cases "k \<in> key ` set (ys @ zs)")
    case True
    from replay_touched [OF True] show ?thesis
      by (simp add: replay_append)
  next
    case False
    then have "k \<notin> key ` set ys" "k \<notin> key ` set zs" by auto
    then show ?thesis by (simp add: replay_append replay_untouched)
  qed
qed

lemma replay_pointwise_cong:
  assumes "\<And>e. e \<in> set es \<Longrightarrow> val e = val' e"
  shows "replay key val es m = replay key val' es m"
  using assms by (induction es arbitrary: m) auto

section \<open>Keyed tables\<close>

text \<open>
  A SQL table with a primary key: the list of its rows in rowid order. \<open>tbl_upsert\<close> is
  \<^verbatim>\<open>INSERT ... ON CONFLICT(key) DO UPDATE\<close> (an existing row keeps its place),
  \<open>tbl_replace\<close> is \<^verbatim>\<open>INSERT OR REPLACE\<close> (the conflicting row goes, the new one is appended),
  \<open>tbl_update\<close> is \<^verbatim>\<open>UPDATE ... WHERE key = ?\<close>.
\<close>

definition tbl_lookup :: "('r \<Rightarrow> 'k) \<Rightarrow> 'k \<Rightarrow> 'r list \<Rightarrow> 'r option" where
  "tbl_lookup key k rows = find (\<lambda>r. key r = k) rows"

definition tbl_delete :: "('r \<Rightarrow> 'k) \<Rightarrow> 'k \<Rightarrow> 'r list \<Rightarrow> 'r list" where
  "tbl_delete key k rows = filter (\<lambda>r. key r \<noteq> k) rows"

definition tbl_replace :: "('r \<Rightarrow> 'k) \<Rightarrow> 'r \<Rightarrow> 'r list \<Rightarrow> 'r list" where
  "tbl_replace key new rows = tbl_delete key (key new) rows @ [new]"

definition tbl_update :: "('r \<Rightarrow> 'k) \<Rightarrow> 'k \<Rightarrow> ('r \<Rightarrow> 'r) \<Rightarrow> 'r list \<Rightarrow> 'r list" where
  "tbl_update key k f rows = map (\<lambda>r. if key r = k then f r else r) rows"

definition tbl_upsert :: "('r \<Rightarrow> 'k) \<Rightarrow> ('r \<Rightarrow> 'r) \<Rightarrow> 'r \<Rightarrow> 'r list \<Rightarrow> 'r list" where
  "tbl_upsert key conflict new rows =
     (if key new \<in> key ` set rows then tbl_update key (key new) conflict rows else rows @ [new])"

definition tbl_inv :: "('r \<Rightarrow> 'k) \<Rightarrow> 'r list \<Rightarrow> bool" where
  "tbl_inv key rows = distinct (map key rows)"

named_theorems tbl "equations and invariants of keyed tables"

lemma tbl_lookup_simps [simp]:
  "tbl_lookup key k [] = None"
  "tbl_lookup key k (r # rows) = (if key r = k then Some r else tbl_lookup key k rows)"
  by (simp_all add: tbl_lookup_def)

lemma tbl_lookup_None: "tbl_lookup key k rows = None \<longleftrightarrow> k \<notin> key ` set rows"
  by (induction rows) auto

lemma tbl_lookup_SomeD: "tbl_lookup key k rows = Some r \<Longrightarrow> r \<in> set rows \<and> key r = k"
  by (induction rows) (auto split: if_splits)

lemma tbl_lookup_append:
  "tbl_lookup key k (xs @ ys) =
     (case tbl_lookup key k xs of None \<Rightarrow> tbl_lookup key k ys | Some r \<Rightarrow> Some r)"
  by (induction xs) auto

lemma tbl_lookup_in: "tbl_inv key rows \<Longrightarrow> r \<in> set rows \<Longrightarrow> tbl_lookup key (key r) rows = Some r"
  by (induction rows) (auto simp: tbl_inv_def image_iff)

lemma tbl_lookup_iff:
  "tbl_inv key rows \<Longrightarrow> tbl_lookup key k rows = Some r \<longleftrightarrow> r \<in> set rows \<and> key r = k"
  using tbl_lookup_in tbl_lookup_SomeD by metis

lemma tbl_lookup_delete [tbl]:
  "tbl_lookup key j (tbl_delete key k rows) = (if j = k then None else tbl_lookup key j rows)"
  by (induction rows) (auto simp: tbl_delete_def)

lemma tbl_lookup_replace [tbl]:
  "tbl_lookup key j (tbl_replace key new rows) =
     (if j = key new then Some new else tbl_lookup key j rows)"
  by (simp add: tbl_replace_def tbl_lookup_append tbl_lookup_delete split: option.split)

lemma tbl_lookup_update [tbl]:
  assumes "\<And>r. key r = k \<Longrightarrow> key (f r) = k"
  shows "tbl_lookup key j (tbl_update key k f rows) =
     (if j = k then map_option f (tbl_lookup key j rows) else tbl_lookup key j rows)"
  using assms by (induction rows) (auto simp: tbl_update_def)

lemma tbl_lookup_upsert [tbl]:
  assumes "\<And>r. key r = key new \<Longrightarrow> key (conflict r) = key new"
  shows "tbl_lookup key j (tbl_upsert key conflict new rows) =
     (if j = key new
      then (case tbl_lookup key j rows of None \<Rightarrow> Some new | Some r \<Rightarrow> Some (conflict r))
      else tbl_lookup key j rows)"
proof (cases "key new \<in> key ` set rows")
  case True
  then obtain r where "tbl_lookup key (key new) rows = Some r"
    by (metis option.exhaust tbl_lookup_None)
  with True assms show ?thesis
    by (simp add: tbl_upsert_def tbl_lookup_update)
next
  case False
  then show ?thesis
    by (auto simp: tbl_upsert_def tbl_lookup_append tbl_lookup_None [THEN iffD2] split: option.split)
qed

lemma tbl_inv_Nil [simp]: "tbl_inv key []"
  by (simp add: tbl_inv_def)

lemma tbl_inv_delete [tbl]: "tbl_inv key rows \<Longrightarrow> tbl_inv key (tbl_delete key k rows)"
  by (simp add: tbl_inv_def tbl_delete_def distinct_map_filter)

lemma tbl_inv_replace [tbl]: "tbl_inv key rows \<Longrightarrow> tbl_inv key (tbl_replace key new rows)"
  by (auto simp: tbl_inv_def tbl_replace_def tbl_delete_def distinct_map_filter)

lemma map_key_update:
  assumes "\<And>r. key r = k \<Longrightarrow> key (f r) = k"
  shows "map key (tbl_update key k f rows) = map key rows"
  using assms by (induction rows) (auto simp: tbl_update_def)

lemma tbl_inv_update [tbl]:
  assumes "\<And>r. key r = k \<Longrightarrow> key (f r) = k" and "tbl_inv key rows"
  shows "tbl_inv key (tbl_update key k f rows)"
  using assms by (simp add: tbl_inv_def map_key_update)

lemma tbl_inv_upsert [tbl]:
  assumes "\<And>r. key r = key new \<Longrightarrow> key (conflict r) = key new" and "tbl_inv key rows"
  shows "tbl_inv key (tbl_upsert key conflict new rows)"
  using assms by (auto simp: tbl_upsert_def tbl_inv_def map_key_update)

lemma set_tbl_delete: "set (tbl_delete key k rows) = {r \<in> set rows. key r \<noteq> k}"
  by (auto simp: tbl_delete_def)

text \<open>
  A table as a map from keys to the values of its rows; two tables with distinct keys that
  hold the same rows are the same map.
\<close>

definition tbl_map :: "('r \<Rightarrow> 'k) \<Rightarrow> ('r \<Rightarrow> 'v) \<Rightarrow> 'r list \<Rightarrow> 'k \<Rightarrow> 'v option" where
  "tbl_map key val rows k = map_option val (tbl_lookup key k rows)"

lemma tbl_map_of: "tbl_map key val rows = map_of (map (\<lambda>r. (key r, val r)) rows)"
  by (rule ext, induction rows) (auto simp: tbl_map_def)

lemma tbl_map_filter:
  assumes "tbl_inv key rows"
  shows "tbl_lookup key k (filter P rows) =
     (case tbl_lookup key k rows of None \<Rightarrow> None | Some r \<Rightarrow> if P r then Some r else None)"
  using assms
proof (induction rows)
  case Nil
  then show ?case by simp
next
  case (Cons r rows)
  then have "key r \<notin> key ` set rows" and IH: "tbl_lookup key k (filter P rows) =
     (case tbl_lookup key k rows of None \<Rightarrow> None | Some r \<Rightarrow> if P r then Some r else None)"
    by (auto simp: tbl_inv_def)
  then have "tbl_lookup key (key r) rows = None" by (simp add: tbl_lookup_None)
  with IH show ?case by auto
qed

text \<open>
  A Go map that the code builds row by row (\<^verbatim>\<open>m[key(r)] = val(r)\<close>) and later ranges over:
  an association list; the order of its entries is the order of a range loop, which no
  result of the program may depend on.
\<close>

definition gomap_of :: "('r \<Rightarrow> 'k) \<Rightarrow> ('r \<Rightarrow> 'v) \<Rightarrow> 'r list \<Rightarrow> ('k \<times> 'v) list" where
  "gomap_of key val rows = fold (\<lambda>r m. AList.update (key r) (val r) m) rows []"

lemma map_of_fold_update:
  "map_of (fold (\<lambda>r m. AList.update (key r) (val r) m) rows m0) =
     replay key (\<lambda>r. Some (val r)) rows (map_of m0)"
  by (induction rows arbitrary: m0) (simp_all add: update_conv')

lemma map_of_gomap_of [tbl]:
  assumes "tbl_inv key rows"
  shows "map_of (gomap_of key val rows) = tbl_map key val rows"
proof
  fix k
  have "replay key (\<lambda>r. Some (val r)) rows m k =
      (case tbl_lookup key k rows of None \<Rightarrow> m k | Some r \<Rightarrow> Some (val r))" for m
    using assms
  proof (induction rows arbitrary: m)
    case Nil
    then show ?case by simp
  next
    case (Cons r rows)
    then have "tbl_inv key rows" "key r \<notin> key ` set rows" by (auto simp: tbl_inv_def)
    moreover from this(2) have "tbl_lookup key (key r) rows = None" by (simp add: tbl_lookup_None)
    ultimately show ?case using Cons.IH by (auto split: option.splits)
  qed
  then show "map_of (gomap_of key val rows) k = tbl_map key val rows k"
    by (simp add: gomap_of_def map_of_fold_update tbl_map_def split: option.split)
qed

lemma distinct_gomap_of [simp]: "distinct (map fst (gomap_of key val rows))"
proof -
  have "distinct (map fst m) \<Longrightarrow>
      distinct (map fst (fold (\<lambda>r m. AList.update (key r) (val r) m) rows m))" for m
    by (induction rows arbitrary: m) (simp_all add: distinct_update)
  then show ?thesis by (simp add: gomap_of_def)
qed


section \<open>Views materialised from an event log\<close>

text \<open>
  Both the hub's \<^verbatim>\<open>hub_entry\<close> table and a client's \<^verbatim>\<open>hub_tree\<close> table are views of the change
  log: applying an event sets or removes the value of one key. The locale states what one
  step of a concrete store has to do to its view, and proves once what follows for whole
  runs: the view is the replay of the log, and replaying a suffix again, from any point at
  or before the state of the view, leads to the same final view.
\<close>

locale log_view =
  fixes view :: "'s \<Rightarrow> 'k \<Rightarrow> 'v option"
    and apply_event :: "'e \<Rightarrow> 's \<Rightarrow> 's"
    and key :: "'e \<Rightarrow> 'k"
    and val :: "'e \<Rightarrow> 'v option"
    and inv :: "'s \<Rightarrow> bool"
  assumes view_apply: "inv s \<Longrightarrow> view (apply_event e s) = (view s)(key e := val e)"
    and inv_apply: "inv s \<Longrightarrow> inv (apply_event e s)"
begin

lemma inv_fold: "inv s \<Longrightarrow> inv (fold apply_event es s)"
  by (induction es arbitrary: s) (simp_all add: inv_apply)

lemma view_fold: "inv s \<Longrightarrow> view (fold apply_event es s) = replay key val es (view s)"
  by (induction es arbitrary: s) (simp_all add: view_apply inv_apply)

lemma view_catch_up:
  assumes "inv s" and "view s = replay key val (xs @ ys) m"
  shows "view (fold apply_event (ys @ zs) s) = replay key val (xs @ ys @ zs) m"
  using assms by (simp add: view_fold replay_idempotent del: fold_append)

end

section \<open>Lists\<close>

lemma distinct_map_Cons_neq: "distinct (map f (x # xs)) \<Longrightarrow> y \<in> set xs \<Longrightarrow> f y \<noteq> f x"
  by simp (metis imageI)

lemma find_SomeD: "find P xs = Some x \<Longrightarrow> x \<in> set xs \<and> P x"
  by (induction xs) (auto split: if_splits)

lemma find_None_iff_all: "find P xs = None \<longleftrightarrow> (\<forall>x \<in> set xs. \<not> P x)"
  by (induction xs) auto

lemma sort_key_distinct_unique:
  fixes xs ys :: "'a list" and f :: "'a \<Rightarrow> 'b::linorder"
  assumes "set xs = set ys" "distinct (map f xs)" "distinct (map f ys)"
  shows "sort_key f xs = sort_key f ys"
proof -
  have "distinct (map f (sort_key f xs))" "distinct (map f (sort_key f ys))"
    using assms by (simp_all add: distinct_map)
  moreover have "set (sort_key f xs) = set (sort_key f ys)" using assms by simp
  ultimately have "map f (sort_key f xs) = map f (sort_key f ys)"
    by (metis list.set_map sorted_distinct_set_unique sorted_sort_key)
  moreover have "inj_on f (set (sort_key f xs) \<union> set (sort_key f ys))"
    using assms by (simp add: distinct_map)
  ultimately show ?thesis by (rule map_inj_on)
qed

end
