(* ===== verification/Hubsync_Types.thy ===== *)
theory Hubsync_Types
  imports Prelude
begin

text \<open>
  The data model shared by the hub and its clients (\<^verbatim>\<open>hubsync.go\<close>, \<^verbatim>\<open>hasher.go\<close>): digests and
  their hexadecimal form, file kinds, change-log entries and tree entries.
\<close>

section \<open>Digests\<close>

text \<open>A \<^verbatim>\<open>Digest\<close> holds the raw bytes of a content hash; the empty digest means "unset".\<close>

type_synonym Digest = bytes

definition Digest_IsZero :: "Digest \<Rightarrow> bool" where
  "Digest_IsZero d = (length d = 0)"

definition Digest_Size :: "Digest \<Rightarrow> nat" where
  "Digest_Size d = length d"

lemma Digest_IsZero_iff [simp]: "Digest_IsZero d \<longleftrightarrow> d = []"
  by (simp add: Digest_IsZero_def)

definition hex_digits :: string where
  "hex_digits = ''0123456789abcdef''"

definition hex_char :: "nat \<Rightarrow> char" where
  "hex_char n = hex_digits ! n"

text \<open>\<^verbatim>\<open>hex.EncodeToString\<close>: two lowercase digits per byte, high nibble first.\<close>

definition hex_byte :: "byte \<Rightarrow> string" where
  "hex_byte b = [hex_char (unat b div 16), hex_char (unat b mod 16)]"

definition Digest_Hex :: "Digest \<Rightarrow> string" where
  "Digest_Hex d = concat (map hex_byte d)"

text \<open>The value of a hexadecimal digit of either case, as \<^verbatim>\<open>encoding/hex\<close> reads it.\<close>

definition from_hex_char :: "char \<Rightarrow> nat option" where
  "from_hex_char c =
     (let n = of_char c :: nat in
      if 48 \<le> n \<and> n \<le> 57 then Some (n - 48)
      else if 97 \<le> n \<and> n \<le> 102 then Some (n - 87)
      else if 65 \<le> n \<and> n \<le> 70 then Some (n - 55)
      else None)"

text \<open>
  \<^verbatim>\<open>hex.DecodeString\<close>: pairs of digits; a character that is no digit, or an odd number of
  digits, is an error. The text of the invalid-byte error leaves out the byte.
\<close>

fun hex_DecodeString :: "string \<Rightarrow> bytes res" where
  "hex_DecodeString [] = Inr []"
| "hex_DecodeString [c] =
     (case from_hex_char c of
        None \<Rightarrow> Inl (Error_string ''encoding/hex: invalid byte'')
      | Some _ \<Rightarrow> Inl (Error_string ''encoding/hex: odd length hex string''))"
| "hex_DecodeString (c # d # cs) =
     (case (from_hex_char c, from_hex_char d) of
        (Some h, Some l) \<Rightarrow>
          (case hex_DecodeString cs of
             Inl e \<Rightarrow> Inl e
           | Inr bs \<Rightarrow> Inr (word_of_nat (16 * h + l) # bs))
      | _ \<Rightarrow> Inl (Error_string ''encoding/hex: invalid byte''))"

definition ParseDigest :: "string \<Rightarrow> Digest res" where
  "ParseDigest s =
     (case hex_DecodeString s of
        Inl e \<Rightarrow> Inl (Wrap ''invalid digest hex'' e)
      | Inr b \<Rightarrow> Inr b)"

text \<open>\<^verbatim>\<open>shortHex\<close> of \<^verbatim>\<open>client.go\<close>: at most twelve digits for log messages.\<close>

definition shortHex :: "Digest \<Rightarrow> string" where
  "shortHex d = (let h = Digest_Hex d in if 12 < length h then take 12 h else h)"

section \<open>File kinds and change operations\<close>

text \<open>\<^verbatim>\<open>FileKind\<close> is a Go int; three of its values are named.\<close>

type_synonym FileKind = int

definition FileKindFile :: FileKind where "FileKindFile = 0"
definition FileKindDirectory :: FileKind where "FileKindDirectory = 1"
definition FileKindSymlink :: FileKind where "FileKindSymlink = 2"

lemmas FileKind_defs = FileKindFile_def FileKindDirectory_def FileKindSymlink_def

definition FileKind_Label :: "FileKind \<Rightarrow> string" where
  "FileKind_Label k =
     (if k = FileKindFile then ''file''
      else if k = FileKindDirectory then ''directory''
      else if k = FileKindSymlink then ''symlink''
      else '''')"

text \<open>The decoding half of \<^verbatim>\<open>FileKind.UnmarshalJSON\<close>, after the JSON string has been read.\<close>

definition FileKind_of_label :: "string \<Rightarrow> FileKind res" where
  "FileKind_of_label s =
     (if s = ''file'' then Inr FileKindFile
      else if s = ''directory'' then Inr FileKindDirectory
      else if s = ''symlink'' then Inr FileKindSymlink
      else Inl (Error_string (''FileKind.UnmarshalJSON: unknown label '' @ fmt_q s)))"

datatype ChangeOp = OpCreate | OpUpdate | OpDelete

record ChangeEntry =
  ce_version :: int
  ce_path :: string
  ce_op :: ChangeOp
  ce_kind :: FileKind
  ce_digest :: Digest
  ce_size :: int
  ce_mode :: uint32
  ce_mtime :: int

record TreeEntry =
  te_path :: string
  te_kind :: FileKind
  te_digest :: Digest
  te_size :: int
  te_mode :: uint32
  te_mtime :: int

definition InlineThreshold :: int where
  "InlineThreshold = 64 * 1024"

text \<open>The tree entry that a create or update event describes; a delete describes none.\<close>

definition tree_of_change :: "ChangeEntry \<Rightarrow> TreeEntry option" where
  "tree_of_change c =
     (if ce_op c = OpDelete then None
      else Some \<lparr>te_path = ce_path c, te_kind = ce_kind c, te_digest = ce_digest c,
                te_size = ce_size c, te_mode = ce_mode c, te_mtime = ce_mtime c\<rparr>)"

text \<open>
  Content hashing. The streaming hashers of \<^verbatim>\<open>crypto/sha256\<close> and \<^verbatim>\<open>xxh3\<close> are not modelled: a
  hasher is its name and its digest function, which the operations take as an argument.
\<close>

record Hasher =
  hash_name :: string
  hash_sum :: "bytes \<Rightarrow> Digest"

definition HashXXH128 :: string where "HashXXH128 = ''xxh128''"
definition HashSHA256 :: string where "HashSHA256 = ''sha256''"
definition DefaultHash :: string where "DefaultHash = HashXXH128"

definition NewHasher :: "(bytes \<Rightarrow> Digest) \<Rightarrow> (bytes \<Rightarrow> Digest) \<Rightarrow> string \<Rightarrow> Hasher res" where
  "NewHasher xxh128 sha256 name =
     (if name = HashXXH128 then Inr \<lparr>hash_name = HashXXH128, hash_sum = xxh128\<rparr>
      else if name = HashSHA256 then Inr \<lparr>hash_name = HashSHA256, hash_sum = sha256\<rparr>
      else Inl (Error_string (''unknown hash algorithm: '' @ fmt_q name)))"

section \<open>Digest round trips\<close>

lemma hex_char_lt16:
  assumes "n < 16"
  shows "from_hex_char (hex_char n) = Some n"
proof -
  have "list_all (\<lambda>n. from_hex_char (hex_char n) = Some n) [0..<16]"
    by code_simp
  then show ?thesis using assms by (auto simp: list_all_iff)
qed

lemma hex_byte_decode:
  "hex_DecodeString (hex_byte b @ s) =
     (case hex_DecodeString s of Inl e \<Rightarrow> Inl e | Inr bs \<Rightarrow> Inr (b # bs))"
proof -
  have "unat b < 256" using unsigned_less [where ?'a = nat and w = b] by simp
  then have h: "unat b div 16 < 16" and l: "unat b mod 16 < 16" by auto
  have d: "16 * (unat b div 16) + unat b mod 16 = unat b" by simp
  show ?thesis
    by (simp add: hex_byte_def hex_char_lt16 [OF h] hex_char_lt16 [OF l] d split: sum.split)
qed

lemma hex_decode_encode: "hex_DecodeString (Digest_Hex d) = Inr d"
  by (induction d) (simp_all add: Digest_Hex_def hex_byte_decode)

lemma length_Digest_Hex [simp]: "length (Digest_Hex d) = 2 * length d"
  by (induction d) (simp_all add: Digest_Hex_def hex_byte_def)

lemma hex_decode_length: "hex_DecodeString s = Inr bs \<Longrightarrow> length s = 2 * length bs"
  by (induction s arbitrary: bs rule: hex_DecodeString.induct)
     (auto split: option.splits sum.splits)

end
