(* ===== verification/Hub_Store.thy ===== *)
theory Hub_Store
  imports Hubsync_Types
begin

text \<open>
  The hub's database (\<^verbatim>\<open>store.go\<close>): the append-only \<^verbatim>\<open>change_log\<close>, the materialised tree
  \<^verbatim>\<open>hub_entry\<close> with its archive columns, and \<^verbatim>\<open>hub_config_cache\<close>. Tables are lists of rows
  in rowid order, SQL statements are written out over them, and every statement can fail
  through the fault function of the environment. The lemmas show that \<^verbatim>\<open>Append\<close> is atomic,
  that versions are contiguous, and that the tree is the replay of the log.
\<close>

section \<open>Rows\<close>

record changeLogRow =
  cl_version :: int
  cl_path :: string
  cl_op :: ChangeOp
  cl_kind :: int
  cl_digest :: "bytes option"
  cl_size :: int
  cl_mode :: uint32
  cl_mtime :: int

text \<open>\<^verbatim>\<open>Digest(r.Digest)\<close>: a NULL blob scans as nil and becomes the empty digest.\<close>

definition digest_of_blob :: "bytes option \<Rightarrow> Digest" where
  "digest_of_blob b = (case b of None \<Rightarrow> [] | Some d \<Rightarrow> d)"

definition blob_of_digest :: "Digest \<Rightarrow> bytes option" where
  "blob_of_digest d = (if Digest_IsZero d then None else Some d)"

lemma digest_blob_inverse [simp]: "digest_of_blob (blob_of_digest d) = d"
  by (simp add: digest_of_blob_def blob_of_digest_def)

definition toChangeEntry :: "changeLogRow \<Rightarrow> ChangeEntry" where
  "toChangeEntry r =
     \<lparr>ce_version = cl_version r, ce_path = cl_path r, ce_op = cl_op r, ce_kind = cl_kind r,
      ce_digest = digest_of_blob (cl_digest r), ce_size = cl_size r, ce_mode = cl_mode r,
      ce_mtime = cl_mtime r\<rparr>"

text \<open>The archive column; the empty Go string stands for NULL.\<close>

datatype ArchiveState =
    ArchiveStateNull | ArchiveStateDirty | ArchiveStateArchived | ArchiveStateUnpinned

record HubEntry =
  he_path :: string
  he_kind :: FileKind
  he_digest :: Digest
  he_size :: int
  he_mode :: uint32
  he_mtime :: int
  he_version :: int
  he_archive_state :: ArchiveState
  he_archive_file_id :: string
  he_archive_sha1 :: Digest
  he_archive_uploaded_at :: int
  he_updated_at :: int

record hubEntryRow =
  hr_path :: string
  hr_kind :: int
  hr_digest :: "bytes option"
  hr_size :: "int option"
  hr_mode :: "int option"
  hr_mtime :: "int option"
  hr_version :: int
  hr_archive_state :: "ArchiveState option"
  hr_archive_file_id :: "string option"
  hr_archive_sha1 :: "bytes option"
  hr_archive_uploaded_at :: "int option"
  hr_updated_at :: int

text \<open>Nullable columns that are not valid keep the zero value of the Go field.\<close>

definition toEntry :: "hubEntryRow \<Rightarrow> HubEntry" where
  "toEntry r =
     \<lparr>he_path = hr_path r, he_kind = hr_kind r, he_digest = digest_of_blob (hr_digest r),
      he_size = (case hr_size r of None \<Rightarrow> 0 | Some v \<Rightarrow> v),
      he_mode = (case hr_mode r of None \<Rightarrow> 0 | Some v \<Rightarrow> word_of_int v),
      he_mtime = (case hr_mtime r of None \<Rightarrow> 0 | Some v \<Rightarrow> v),
      he_version = hr_version r,
      he_archive_state = (case hr_archive_state r of None \<Rightarrow> ArchiveStateNull | Some a \<Rightarrow> a),
      he_archive_file_id = (case hr_archive_file_id r of None \<Rightarrow> '''' | Some f \<Rightarrow> f),
      he_archive_sha1 = digest_of_blob (hr_archive_sha1 r),
      he_archive_uploaded_at = (case hr_archive_uploaded_at r of None \<Rightarrow> 0 | Some v \<Rightarrow> v),
      he_updated_at = hr_updated_at r\<rparr>"

definition HubEntry_TreeEntry :: "HubEntry \<Rightarrow> TreeEntry" where
  "HubEntry_TreeEntry e =
     \<lparr>te_path = he_path e, te_kind = he_kind e, te_digest = he_digest e, te_size = he_size e,
      te_mode = he_mode e, te_mtime = he_mtime e\<rparr>"

lemma toEntry_sel [simp]:
  "he_path (toEntry r) = hr_path r" "he_kind (toEntry r) = hr_kind r"
  "he_digest (toEntry r) = digest_of_blob (hr_digest r)" "he_version (toEntry r) = hr_version r"
  by (simp_all add: toEntry_def)

section \<open>The store\<close>

text \<open>
  \<open>log_seq\<close> is SQLite's AUTOINCREMENT counter of \<^verbatim>\<open>change_log\<close>: the largest version ever
  assigned. An insert fails with \<^verbatim>\<open>SQLITE_FULL\<close> once it has reached the largest int64.
\<close>

record HubStore =
  change_log :: "changeLogRow list"
  log_seq :: int
  hub_entry :: "hubEntryRow list"
  config_cache :: "(string \<times> string) list"

definition max_int64 :: int where
  "max_int64 = 2 ^ 63 - 1"

text \<open>The tables \<^verbatim>\<open>initHubSchema\<close> creates in a fresh database; an existing one is kept.\<close>

definition empty_store :: HubStore where
  "empty_store = \<lparr>change_log = [], log_seq = 0, hub_entry = [], config_cache = []\<rparr>"

definition initHubSchema :: "HubStore option \<Rightarrow> HubStore" where
  "initHubSchema db = (case db of None \<Rightarrow> empty_store | Some s \<Rightarrow> s)"

definition ConfigCacheGet :: "sql_faults \<Rightarrow> string \<Rightarrow> HubStore \<Rightarrow> string option res" where
  "ConfigCacheGet sql k s =
     (case sql SQL_SELECT of
        Some m \<Rightarrow> Inl (Sql_error m)
      | None \<Rightarrow> Inr (map_option snd (tbl_lookup fst k (config_cache s))))"

definition ConfigCacheSet :: "sql_faults \<Rightarrow> string \<Rightarrow> string \<Rightarrow> HubStore \<Rightarrow> HubStore \<times> unit res" where
  "ConfigCacheSet sql k v s =
     (case sql SQL_UPSERT of
        Some m \<Rightarrow> (s, Inl (Sql_error m))
      | None \<Rightarrow> (s\<lparr>config_cache := tbl_upsert fst (\<lambda>_. (k, v)) (k, v) (config_cache s)\<rparr>, Inr ()))"

definition ensureHashAlgo :: "sql_faults \<Rightarrow> string \<Rightarrow> HubStore \<Rightarrow> HubStore \<times> unit res" where
  "ensureHashAlgo sql algo s =
     (case ConfigCacheGet sql ''hash_algo'' s of
        Inl e \<Rightarrow> (s, Inl e)
      | Inr None \<Rightarrow> ConfigCacheSet sql ''hash_algo'' algo s
      | Inr (Some existing) \<Rightarrow>
          if existing \<noteq> algo
          then (s, Inl (Error_string (''hub DB was initialized with hash='' @ fmt_q existing @
                 '' but config requests hash='' @ fmt_q algo @
                 ''; wipe .hubsync/ and re-bootstrap to switch algorithms'')))
          else (s, Inr ()))"

text \<open>\<^verbatim>\<open>NewHubStore\<close>: open or create the tables, then record or check the hash algorithm.\<close>

definition NewHubStore :: "sql_faults \<Rightarrow> HubStore option \<Rightarrow> string option \<Rightarrow> HubStore \<times> unit res" where
  "NewHubStore sql db algo =
     (let s = initHubSchema db in
      case algo of None \<Rightarrow> (s, Inr ()) | Some a \<Rightarrow> ensureHashAlgo sql a s)"

section \<open>Append\<close>

definition new_log_row :: "ChangeEntry \<Rightarrow> int \<Rightarrow> changeLogRow" where
  "new_log_row e version =
     \<lparr>cl_version = version, cl_path = ce_path e, cl_op = ce_op e, cl_kind = ce_kind e,
      cl_digest = blob_of_digest (ce_digest e), cl_size = ce_size e, cl_mode = ce_mode e,
      cl_mtime = ce_mtime e\<rparr>"

text \<open>The row the upsert inserts when the path has none: its archive columns are NULL.\<close>

definition new_entry_row :: "ChangeEntry \<Rightarrow> int \<Rightarrow> int \<Rightarrow> hubEntryRow" where
  "new_entry_row e version now =
     \<lparr>hr_path = ce_path e, hr_kind = ce_kind e, hr_digest = blob_of_digest (ce_digest e),
      hr_size = Some (ce_size e), hr_mode = Some (uint (ce_mode e)), hr_mtime = Some (ce_mtime e),
      hr_version = version, hr_archive_state = None, hr_archive_file_id = None,
      hr_archive_sha1 = None, hr_archive_uploaded_at = None, hr_updated_at = now\<rparr>"

text \<open>
  The \<^verbatim>\<open>ON CONFLICT(path) DO UPDATE\<close> clause: the scanner columns are overwritten, the archive
  handle is kept, and the archive state goes to dirty when the row was unpinned or when its
  digest changes (\<^verbatim>\<open>IS NOT\<close> compares NULLs too).
\<close>

definition conflict_row :: "ChangeEntry \<Rightarrow> int \<Rightarrow> int \<Rightarrow> hubEntryRow \<Rightarrow> hubEntryRow" where
  "conflict_row e version now r =
     r\<lparr>hr_kind := ce_kind e, hr_digest := blob_of_digest (ce_digest e),
       hr_size := Some (ce_size e), hr_mode := Some (uint (ce_mode e)),
       hr_mtime := Some (ce_mtime e), hr_version := version, hr_updated_at := now,
       hr_archive_state :=
         (if hr_archive_state r = Some ArchiveStateUnpinned then Some ArchiveStateDirty
          else if hr_digest r \<noteq> blob_of_digest (ce_digest e) then Some ArchiveStateDirty
          else hr_archive_state r)\<rparr>"

definition apply_entry_row :: "ChangeEntry \<Rightarrow> int \<Rightarrow> int \<Rightarrow> hubEntryRow list \<Rightarrow> hubEntryRow list" where
  "apply_entry_row e version now rows =
     (if ce_op e = OpDelete then tbl_delete hr_path (ce_path e) rows
      else tbl_upsert hr_path (conflict_row e version now) (new_entry_row e version now) rows)"

text \<open>
  \<^verbatim>\<open>HubStore.Append\<close>: one transaction. Whatever statement fails, the deferred rollback leaves
  the store as it was and the error is returned.
\<close>

definition Append :: "env \<Rightarrow> ChangeEntry \<Rightarrow> HubStore \<Rightarrow> HubStore \<times> int res" where
  "Append en e s =
     (case env_sql en SQL_BEGIN of
        Some m \<Rightarrow> (s, Inl (Sql_error m))
      | None \<Rightarrow>
     (case (if log_seq s = max_int64 then Some ''database or disk is full'' else env_sql en SQL_INSERT) of
        Some m \<Rightarrow> (s, Inl (Wrap ''insert change_log'' (Sql_error m)))
      | None \<Rightarrow>
          let version = log_seq s + 1;
              fault = (if ce_op e = OpDelete then env_sql en SQL_DELETE else env_sql en SQL_UPSERT);
              ctx = (if ce_op e = OpDelete then ''delete hub_entry'' else ''upsert hub_entry'')
          in (case fault of
                Some m \<Rightarrow> (s, Inl (Wrap ctx (Sql_error m)))
              | None \<Rightarrow>
             (case env_sql en SQL_COMMIT of
                Some m \<Rightarrow> (s, Inl (Sql_error m))
              | None \<Rightarrow>
                  (s\<lparr>change_log := change_log s @ [new_log_row e version],
                     log_seq := version,
                     hub_entry := apply_entry_row e version (env_now en) (hub_entry s)\<rparr>,
                   Inr version)))))"

section \<open>Queries\<close>

definition rows_tree :: "hubEntryRow list \<Rightarrow> (string \<times> TreeEntry) list" where
  "rows_tree rows = gomap_of hr_path (\<lambda>r. HubEntry_TreeEntry (toEntry r)) rows"

text \<open>Both snapshots swallow a query error and return the empty map.\<close>

definition TreeSnapshot :: "sql_faults \<Rightarrow> HubStore \<Rightarrow> (string \<times> TreeEntry) list" where
  "TreeSnapshot sql s =
     (case sql SQL_SELECT of Some _ \<Rightarrow> [] | None \<Rightarrow> rows_tree (hub_entry s))"

definition ScanBaselineSnapshot :: "sql_faults \<Rightarrow> HubStore \<Rightarrow> (string \<times> TreeEntry) list" where
  "ScanBaselineSnapshot sql s =
     (case sql SQL_SELECT of
        Some _ \<Rightarrow> []
      | None \<Rightarrow> rows_tree (filter (\<lambda>r. hr_archive_state r = None \<or>
                  hr_archive_state r \<noteq> Some ArchiveStateUnpinned) (hub_entry s)))"

definition EntrySnapshot :: "sql_faults \<Rightarrow> HubStore \<Rightarrow> HubEntry list res" where
  "EntrySnapshot sql s =
     (case sql SQL_SELECT of
        Some m \<Rightarrow> Inl (Sql_error m)
      | None \<Rightarrow> Inr (map toEntry (hub_entry s)))"

text \<open>
  SQLite's \<^verbatim>\<open>LIKE\<close> over ASCII text: \<^verbatim>\<open>%\<close> matches any run of characters, \<^verbatim>\<open>_\<close> any one
  character, and letters match without regard to case.
\<close>

definition ascii_upper :: "char \<Rightarrow> char" where
  "ascii_upper c =
     (let n = of_char c :: nat in if 97 \<le> n \<and> n \<le> 122 then char_of (n - 32) else c)"

fun sql_like :: "string \<Rightarrow> string \<Rightarrow> bool" where
  "sql_like [] s = (s = [])"
| "sql_like (p # ps) [] = (p = CHR ''%'' \<and> sql_like ps [])"
| "sql_like (p # ps) (c # cs) =
     (if p = CHR ''%'' then sql_like ps (c # cs) \<or> sql_like (p # ps) cs
      else if p = CHR ''_'' then sql_like ps cs
      else ascii_upper p = ascii_upper c \<and> sql_like ps cs)"

definition EntriesByPrefix :: "sql_faults \<Rightarrow> string \<Rightarrow> HubStore \<Rightarrow> HubEntry list res" where
  "EntriesByPrefix sql p s =
     (if p = '''' then EntrySnapshot sql s
      else (case sql SQL_SELECT of
              Some m \<Rightarrow> Inl (Sql_error m)
            | None \<Rightarrow> Inr (map toEntry (filter (\<lambda>r. hr_path r = TrimSuffix p ''/'' \<or>
                           sql_like (p @ ''%'') (hr_path r)) (hub_entry s)))))"

definition EntryLookup :: "sql_faults \<Rightarrow> string \<Rightarrow> HubStore \<Rightarrow> HubEntry option res" where
  "EntryLookup sql p s =
     (case sql SQL_SELECT of
        Some m \<Rightarrow> Inl (Sql_error m)
      | None \<Rightarrow> Inr (map_option toEntry (tbl_lookup hr_path p (hub_entry s))))"

definition TreeLookup :: "sql_faults \<Rightarrow> string \<Rightarrow> HubStore \<Rightarrow> TreeEntry option" where
  "TreeLookup sql p s =
     (case EntryLookup sql p s of
        Inl _ \<Rightarrow> None
      | Inr None \<Rightarrow> None
      | Inr (Some e) \<Rightarrow> Some (HubEntry_TreeEntry e))"

definition PathByDigest :: "sql_faults \<Rightarrow> Digest \<Rightarrow> HubStore \<Rightarrow> string option" where
  "PathByDigest sql d s =
     (if Digest_IsZero d then None
      else (case sql SQL_SELECT of
              Some _ \<Rightarrow> None
            | None \<Rightarrow> map_option hr_path
                (find (\<lambda>r. hr_digest r = Some d \<and> hr_kind r = 0) (hub_entry s))))"

definition ChangesSince :: "sql_faults \<Rightarrow> int \<Rightarrow> HubStore \<Rightarrow> ChangeEntry list res" where
  "ChangesSince sql since s =
     (case sql SQL_SELECT of
        Some m \<Rightarrow> Inl (Sql_error m)
      | None \<Rightarrow> Inr (map toChangeEntry
                 (sort_key cl_version (filter (\<lambda>r. since < cl_version r) (change_log s)))))"

text \<open>\<^verbatim>\<open>SELECT MAX(version)\<close>: NULL, read as 0, when the log is empty.\<close>

definition LatestVersion :: "sql_faults \<Rightarrow> HubStore \<Rightarrow> int res" where
  "LatestVersion sql s =
     (case sql SQL_SELECT of
        Some m \<Rightarrow> Inl (Sql_error m)
      | None \<Rightarrow> Inr (if change_log s = [] then 0 else Max (set (map cl_version (change_log s)))))"

definition PendingArchiveRows :: "sql_faults \<Rightarrow> HubStore \<Rightarrow> HubEntry list res" where
  "PendingArchiveRows sql s =
     (case sql SQL_SELECT of
        Some m \<Rightarrow> Inl (Sql_error m)
      | None \<Rightarrow> Inr (map toEntry (sort_key hr_path (filter (\<lambda>r. hr_kind r = 0 \<and>
                 (hr_archive_state r = None \<or> hr_archive_state r = Some ArchiveStateDirty))
                 (hub_entry s)))))"

section \<open>Archive-state transitions\<close>

definition update_entry :: "sql_faults \<Rightarrow> string \<Rightarrow> (hubEntryRow \<Rightarrow> hubEntryRow) \<Rightarrow> HubStore \<Rightarrow> HubStore \<times> unit res" where
  "update_entry sql p f s =
     (case sql SQL_UPDATE of
        Some m \<Rightarrow> (s, Inl (Sql_error m))
      | None \<Rightarrow> (s\<lparr>hub_entry := tbl_update hr_path p f (hub_entry s)\<rparr>, Inr ()))"

definition MarkArchiveDirty :: "env \<Rightarrow> string \<Rightarrow> HubStore \<Rightarrow> HubStore \<times> unit res" where
  "MarkArchiveDirty en p =
     update_entry (env_sql en) p
       (\<lambda>r. r\<lparr>hr_archive_state := Some ArchiveStateDirty, hr_updated_at := env_now en\<rparr>)"

definition MarkArchived :: "env \<Rightarrow> string \<Rightarrow> string \<Rightarrow> bytes option \<Rightarrow> int \<Rightarrow> HubStore \<Rightarrow> HubStore \<times> unit res" where
  "MarkArchived en p fileID contentSHA1 uploadedAt =
     update_entry (env_sql en) p
       (\<lambda>r. r\<lparr>hr_archive_state := Some ArchiveStateArchived, hr_archive_file_id := Some fileID,
              hr_archive_sha1 := contentSHA1, hr_archive_uploaded_at := Some uploadedAt,
              hr_updated_at := env_now en\<rparr>)"

definition MarkUnpinned :: "env \<Rightarrow> string \<Rightarrow> HubStore \<Rightarrow> HubStore \<times> unit res" where
  "MarkUnpinned en p =
     update_entry (env_sql en) p
       (\<lambda>r. r\<lparr>hr_archive_state := Some ArchiveStateUnpinned, hr_updated_at := env_now en\<rparr>)"

section \<open>Glob expansion\<close>

text \<open>
  \<^verbatim>\<open>MatchGlobs\<close>: \<open>glob\<close> stands for \<^verbatim>\<open>doublestar.Match\<close>, a third-party matcher that may reject a
  pattern. The loops keep the paths already seen and stop at the first bad pattern.
\<close>

type_synonym glob_match = "string \<Rightarrow> string \<Rightarrow> bool res"

fun match_entries :: "glob_match \<Rightarrow> string \<Rightarrow> HubEntry list \<Rightarrow> string list \<Rightarrow> string list res" where
  "match_entries glob g [] out = Inr out"
| "match_entries glob g (e # es) out =
     (case glob g (he_path e) of
        Inl er \<Rightarrow> Inl (Wrap (''bad glob '' @ fmt_q g) er)
      | Inr ok \<Rightarrow>
          match_entries glob g es
            (if ok \<and> he_path e \<notin> set out then out @ [he_path e] else out))"

fun match_globs :: "glob_match \<Rightarrow> string list \<Rightarrow> HubEntry list \<Rightarrow> string list \<Rightarrow> string list res" where
  "match_globs glob [] es out = Inr out"
| "match_globs glob (g # gs) es out =
     (case match_entries glob g es out of
        Inl er \<Rightarrow> Inl er
      | Inr out' \<Rightarrow> match_globs glob gs es out')"

definition MatchGlobs :: "sql_faults \<Rightarrow> glob_match \<Rightarrow> string list \<Rightarrow> HubStore \<Rightarrow> string list res" where
  "MatchGlobs sql glob globs s =
     (case EntrySnapshot sql s of
        Inl e \<Rightarrow> Inl e
      | Inr entries \<Rightarrow>
          (case match_globs glob globs entries [] of
             Inl e \<Rightarrow> Inl e
           | Inr out \<Rightarrow> Inr (sort out)))"

section \<open>The tree is a view of the log\<close>

definition row_tree :: "hubEntryRow \<Rightarrow> TreeEntry" where
  "row_tree r = HubEntry_TreeEntry (toEntry r)"

definition tree_view :: "hubEntryRow list \<Rightarrow> string \<Rightarrow> TreeEntry option" where
  "tree_view rows = tbl_map hr_path row_tree rows"

lemma row_paths [simp]:
  "hr_path (new_entry_row e v t) = ce_path e" "hr_path (conflict_row e v t r) = hr_path r"
  by (simp_all add: new_entry_row_def conflict_row_def)

lemma row_tree_new: "ce_op e \<noteq> OpDelete \<Longrightarrow> Some (row_tree (new_entry_row e v t)) = tree_of_change e"
  by (simp add: row_tree_def HubEntry_TreeEntry_def toEntry_def new_entry_row_def tree_of_change_def)

lemma row_tree_conflict:
  "ce_op e \<noteq> OpDelete \<Longrightarrow> hr_path r = ce_path e \<Longrightarrow>
     Some (row_tree (conflict_row e v t r)) = tree_of_change e"
  by (simp add: row_tree_def HubEntry_TreeEntry_def toEntry_def conflict_row_def tree_of_change_def)

lemma apply_entry_row_inv: "tbl_inv hr_path rows \<Longrightarrow> tbl_inv hr_path (apply_entry_row e v t rows)"
  by (simp add: apply_entry_row_def tbl)

lemma lookup_apply_entry_row [tbl]:
  "tbl_lookup hr_path p (apply_entry_row e v t rows) =
     (if p \<noteq> ce_path e then tbl_lookup hr_path p rows
      else if ce_op e = OpDelete then None
      else Some (case tbl_lookup hr_path p rows of
                   None \<Rightarrow> new_entry_row e v t | Some r \<Rightarrow> conflict_row e v t r))"
  by (simp add: apply_entry_row_def tbl_lookup_delete tbl_lookup_upsert split: option.split)

lemma tree_view_apply:
  "tree_view (apply_entry_row e v t rows) = (tree_view rows)(ce_path e := tree_of_change e)"
proof
  fix p
  have "tbl_lookup hr_path p rows = Some r \<Longrightarrow> hr_path r = p" for r
    using tbl_lookup_SomeD by metis
  then show "tree_view (apply_entry_row e v t rows) p =
      ((tree_view rows)(ce_path e := tree_of_change e)) p"
    using row_tree_new [of e v t] row_tree_conflict [of e _ v t]
    by (auto simp: tree_view_def tbl_map_def lookup_apply_entry_row tree_of_change_def
             split: option.splits)
qed

interpretation hub_view: log_view
  tree_view "\<lambda>(e, v, t). apply_entry_row e v t" "\<lambda>(e, v, t). ce_path e"
  "\<lambda>(e, v, t). tree_of_change e" "tbl_inv hr_path"
  by unfold_locales (auto simp: tree_view_apply apply_entry_row_inv)

definition log_tree :: "changeLogRow list \<Rightarrow> string \<Rightarrow> TreeEntry option" where
  "log_tree log = replay cl_path (\<lambda>r. tree_of_change (toChangeEntry r)) log Map.empty"

lemma replay_map: "replay key val (map f xs) m = replay (\<lambda>x. key (f x)) (\<lambda>x. val (f x)) xs m"
  by (induction xs arbitrary: m) simp_all

lemma toChangeEntry_sel [simp]:
  "ce_path (toChangeEntry r) = cl_path r" "ce_version (toChangeEntry r) = cl_version r"
  by (simp_all add: toChangeEntry_def)

lemma toChangeEntry_new [simp]: "toChangeEntry (new_log_row e v) = e\<lparr>ce_version := v\<rparr>"
  by (simp add: toChangeEntry_def new_log_row_def)

lemma new_log_row_sel [simp]: "cl_path (new_log_row e v) = ce_path e" "cl_version (new_log_row e v) = v"
  by (simp_all add: new_log_row_def)

lemma tree_of_change_version [simp]: "tree_of_change (e\<lparr>ce_version := v\<rparr>) = tree_of_change e"
  by (simp add: tree_of_change_def)

lemma log_tree_snoc: "log_tree (log @ [new_log_row e v]) = (log_tree log)(ce_path e := tree_of_change e)"
  by (simp add: log_tree_def replay_append)

section \<open>The store invariant\<close>

text \<open>
  Rows have distinct paths, an unset digest is NULL, versions are \<open>1, 2, \<dots>\<close> without a gap and fit an int64, the counter
  is the length of the log, and the tree is the replay of the log.
\<close>

definition store_inv :: "HubStore \<Rightarrow> bool" where
  "store_inv s \<longleftrightarrow>
     tbl_inv hr_path (hub_entry s) \<and> (\<forall>r \<in> set (hub_entry s). hr_digest r \<noteq> Some []) \<and>
     log_seq s = int (length (change_log s)) \<and> log_seq s \<le> max_int64 \<and>
     map cl_version (change_log s) = map int [1..<Suc (length (change_log s))] \<and>
     tree_view (hub_entry s) = log_tree (change_log s)"

lemma store_inv_empty: "store_inv empty_store"
  by (simp add: store_inv_def empty_store_def max_int64_def tree_view_def log_tree_def tbl_map_def fun_eq_iff)

lemma Append_result:
  "(\<exists>er. Append en e s = (s, Inl er)) \<or>
   log_seq s \<noteq> max_int64 \<and>
   Append en e s =
     (s\<lparr>change_log := change_log s @ [new_log_row e (log_seq s + 1)], log_seq := log_seq s + 1,
        hub_entry := apply_entry_row e (log_seq s + 1) (env_now en) (hub_entry s)\<rparr>,
      Inr (log_seq s + 1))"
  by (simp add: Append_def Let_def split: option.split)

lemma Append_cases:
  obtains (error) er where "Append en e s = (s, Inl er)"
  | (ok) "log_seq s \<noteq> max_int64"
      "Append en e s =
        (s\<lparr>change_log := change_log s @ [new_log_row e (log_seq s + 1)], log_seq := log_seq s + 1,
           hub_entry := apply_entry_row e (log_seq s + 1) (env_now en) (hub_entry s)\<rparr>,
         Inr (log_seq s + 1))"
  using Append_result [of en e s] by blast

lemma Append_no_faults:
  "log_seq s \<noteq> max_int64 \<Longrightarrow> env_sql en = no_faults \<Longrightarrow>
     Append en e s =
        (s\<lparr>change_log := change_log s @ [new_log_row e (log_seq s + 1)], log_seq := log_seq s + 1,
           hub_entry := apply_entry_row e (log_seq s + 1) (env_now en) (hub_entry s)\<rparr>,
         Inr (log_seq s + 1))"
  by (simp add: Append_def Let_def)

lemma Append_error_unchanged: "Append en e s = (s', Inl er) \<Longrightarrow> s' = s"
  by (cases rule: Append_cases [of en e s]) auto

lemma set_tbl_upsert_cases:
  "r \<in> set (tbl_upsert key conflict new rows) \<Longrightarrow> r \<in> set rows \<or> r = new \<or> (\<exists>q \<in> set rows. r = conflict q)"
  by (auto simp: tbl_upsert_def tbl_update_def split: if_splits)

lemma apply_entry_row_digests:
  assumes "\<forall>r \<in> set rows. hr_digest r \<noteq> Some []"
  shows "\<forall>r \<in> set (apply_entry_row e v t rows). hr_digest r \<noteq> Some []"
  using assms
  by (auto simp: apply_entry_row_def set_tbl_delete new_entry_row_def conflict_row_def
        blob_of_digest_def dest!: set_tbl_upsert_cases split: if_splits)

lemma Append_inv:
  assumes "store_inv s"
  shows "store_inv (fst (Append en e s))"
proof (cases rule: Append_cases [of en e s])
  case (error er)
  with assms show ?thesis by simp
next
  case ok
  with assms apply_entry_row_digests [of "hub_entry s" e "log_seq s + 1" "env_now en"] show ?thesis
    by (auto simp: store_inv_def apply_entry_row_inv tree_view_apply log_tree_snoc)
qed

lemma update_entry_inv:
  assumes "store_inv s" and "\<And>r. hr_path (f r) = hr_path r" and "\<And>r. row_tree (f r) = row_tree r"
    and "\<And>r. hr_digest (f r) = hr_digest r"
  shows "store_inv (fst (update_entry sql p f s))"
proof -
  have "tree_view (tbl_update hr_path p f rows) = tree_view rows" for rows
    using assms(2,3)
    by (auto simp: fun_eq_iff tree_view_def tbl_map_def tbl_lookup_update option.map_comp comp_def)
  moreover have "\<forall>r \<in> set (tbl_update hr_path p f rows). hr_digest r \<noteq> Some []"
    if "\<forall>r \<in> set rows. hr_digest r \<noteq> Some []" for rows
    using that assms(4) by (auto simp: tbl_update_def)
  ultimately show ?thesis
    using assms by (auto simp: store_inv_def update_entry_def tbl_inv_update split: option.splits)
qed

lemma Mark_inv:
  assumes "store_inv s"
  shows "store_inv (fst (MarkArchiveDirty en p s))" "store_inv (fst (MarkUnpinned en p s))"
    "store_inv (fst (MarkArchived en p fid sha t s))"
  unfolding MarkArchiveDirty_def MarkUnpinned_def MarkArchived_def
  by (rule update_entry_inv [OF assms];
      simp add: row_tree_def toEntry_def HubEntry_TreeEntry_def)+

lemma ConfigCacheSet_inv: "store_inv s \<Longrightarrow> store_inv (fst (ConfigCacheSet sql k v s))"
  by (auto simp: store_inv_def ConfigCacheSet_def split: option.splits)

lemma ensureHashAlgo_inv: "store_inv s \<Longrightarrow> store_inv (fst (ensureHashAlgo sql a s))"
  by (auto simp: ensureHashAlgo_def ConfigCacheSet_inv split: sum.splits option.splits)

text \<open>Every way the program writes the database, as one step relation.\<close>

inductive store_step :: "HubStore \<Rightarrow> HubStore \<Rightarrow> bool" where
  step_append: "store_step s (fst (Append en e s))"
| step_dirty: "store_step s (fst (MarkArchiveDirty en p s))"
| step_archived: "store_step s (fst (MarkArchived en p fid sha t s))"
| step_unpinned: "store_step s (fst (MarkUnpinned en p s))"
| step_config: "store_step s (fst (ConfigCacheSet sql k v s))"
| step_hash: "store_step s (fst (ensureHashAlgo sql a s))"

inductive store_reachable :: "HubStore \<Rightarrow> bool" where
  reach_open: "store_reachable (fst (NewHubStore sql None algo))"
| reach_step: "store_reachable s \<Longrightarrow> store_step s t \<Longrightarrow> store_reachable t"

lemma store_step_inv: "store_step s t \<Longrightarrow> store_inv s \<Longrightarrow> store_inv t"
  by (induction rule: store_step.induct)
     (auto intro: Append_inv Mark_inv ConfigCacheSet_inv ensureHashAlgo_inv)

lemma store_reachable_inv: "store_reachable s \<Longrightarrow> store_inv s"
proof (induction rule: store_reachable.induct)
  case (reach_open sql algo)
  show ?case
    by (auto simp: NewHubStore_def initHubSchema_def Let_def store_inv_empty ensureHashAlgo_inv
             split: option.split)
next
  case (reach_step s t)
  then show ?case by (blast intro: store_step_inv)
qed

section \<open>Queries over an invariant store\<close>

lemma store_inv_versions:
  "store_inv s \<Longrightarrow> i < length (change_log s) \<Longrightarrow> cl_version (change_log s ! i) = int i + 1"
proof -
  assume "store_inv s" and i: "i < length (change_log s)"
  then have "map cl_version (change_log s) = map int [1..<Suc (length (change_log s))]"
    by (simp add: store_inv_def)
  then have "map cl_version (change_log s) ! i = map int [1..<Suc (length (change_log s))] ! i"
    by simp
  with i show ?thesis by (simp del: upt_Suc)
qed

lemma LatestVersion_inv:
  assumes "store_inv s"
  shows "LatestVersion no_faults s = Inr (log_seq s)"
proof (cases "change_log s = []")
  case True
  with assms show ?thesis by (simp add: LatestVersion_def store_inv_def)
next
  case False
  let ?n = "length (change_log s)"
  have "set (map cl_version (change_log s)) = int ` {1..<Suc ?n}"
    using assms unfolding store_inv_def by (metis list.set_map set_upt)
  moreover have "Max (int ` {1..<Suc ?n}) = int ?n"
    using False by (intro Max_eqI) (auto simp: Suc_le_eq)
  moreover have "log_seq s = int ?n" using assms by (simp add: store_inv_def)
  ultimately show ?thesis
    using False by (simp add: LatestVersion_def del: set_map)
qed

lemma filter_versions_drop:
  assumes "map cl_version rows = map int [Suc k..<Suc (k + length rows)]"
  shows "filter (\<lambda>r. int (k + j) < cl_version r) rows = drop j rows"
  using assms
proof (induction rows arbitrary: k j)
  case Nil
  then show ?case by simp
next
  case (Cons r rows)
  have "[Suc k..<Suc (k + length (r # rows))] = Suc k # [Suc (Suc k)..<Suc (Suc k + length rows)]"
    by (simp add: upt_conv_Cons del: upt_Suc)
  with Cons.prems have v: "cl_version r = int (Suc k)"
    and t: "map cl_version rows = map int [Suc (Suc k)..<Suc (Suc k + length rows)]"
    by (simp_all del: upt_Suc)
  show ?case
  proof (cases j)
    case 0
    have "filter (\<lambda>r. int k < cl_version r) rows = rows"
    proof (rule filter_True, rule ballI)
      fix x assume "x \<in> set rows"
      then have "cl_version x \<in> set (map cl_version rows)" by simp
      then have "cl_version x \<in> int ` set [Suc (Suc k)..<Suc (Suc k + length rows)]"
        unfolding t by (simp del: upt_Suc)
      then show "int k < cl_version x" by auto
    qed
    with 0 v show ?thesis by simp
  next
    case (Suc j')
    with Cons.IH [OF t, of j'] v show ?thesis by simp
  qed
qed

lemma sorted_map_int_upt: "sorted (map int [i..<j])"
  by (simp add: sorted_wrt_map sorted_wrt_iff_nth_less)

lemma sorted_drop_versions: "store_inv s \<Longrightarrow> sorted (map cl_version (drop j (change_log s)))"
proof -
  assume "store_inv s"
  then have "sorted (map cl_version (change_log s))"
    by (simp add: store_inv_def sorted_map_int_upt del: upt_Suc)
  then show ?thesis by (simp add: drop_map [symmetric] sorted_wrt_drop)
qed

text \<open>Catch-up from version \<open>j\<close> is the part of the log after its first \<open>j\<close> entries.\<close>

lemma ChangesSince_inv:
  assumes "store_inv s"
  shows "ChangesSince no_faults (int j) s = Inr (map toChangeEntry (drop j (change_log s)))"
proof -
  have "filter (\<lambda>r. int j < cl_version r) (change_log s) = drop j (change_log s)"
    using filter_versions_drop [of "change_log s" 0 j] assms by (simp add: store_inv_def del: upt_Suc)
  moreover have "sort_key cl_version (drop j (change_log s)) = drop j (change_log s)"
    by (rule sort_key_id_if_sorted) (rule sorted_drop_versions [OF assms])
  ultimately show ?thesis by (simp add: ChangesSince_def)
qed

lemma map_of_rows_tree: "tbl_inv hr_path rows \<Longrightarrow> map_of (rows_tree rows) = tree_view rows"
  by (simp add: rows_tree_def map_of_gomap_of tree_view_def row_tree_def [abs_def])

lemma TreeSnapshot_inv: "store_inv s \<Longrightarrow> map_of (TreeSnapshot no_faults s) = tree_view (hub_entry s)"
  by (simp add: TreeSnapshot_def map_of_rows_tree store_inv_def)

lemma log_tree_changes:
  "log_tree log = replay ce_path tree_of_change (map toChangeEntry log) Map.empty"
  by (simp add: log_tree_def replay_map)

lemma TreeLookup_view: "TreeLookup no_faults p s = tree_view (hub_entry s) p"
  by (simp add: TreeLookup_def EntryLookup_def tree_view_def tbl_map_def row_tree_def split: option.split)

section \<open>Properties of the store\<close>

text \<open>
  C1: In every reachable database the materialised tree that \<^verbatim>\<open>TreeSnapshot\<close> returns is exactly the
  replay of the change log that \<^verbatim>\<open>ChangesSince(0)\<close> returns.
\<close>

theorem tree_snapshot_is_replay_of_log:
  assumes "store_reachable s"
  shows "\<exists>changes. ChangesSince no_faults 0 s = Inr changes \<and>
           map_of (TreeSnapshot no_faults s) = replay ce_path tree_of_change changes Map.empty"
proof -
  from assms have inv: "store_inv s" by (rule store_reachable_inv)
  then have "tree_view (hub_entry s) = log_tree (change_log s)" by (simp add: store_inv_def)
  with ChangesSince_inv [OF inv, of 0] TreeSnapshot_inv [OF inv] show ?thesis
    by (simp add: log_tree_changes)
qed

definition ex_change :: "ChangeOp \<Rightarrow> Digest \<Rightarrow> ChangeEntry" where
  "ex_change oper d = \<lparr>ce_version = 0, ce_path = ''a'', ce_op = oper, ce_kind = 0, ce_digest = d, ce_size = 3,
     ce_mode = 420, ce_mtime = 7\<rparr>"

definition ex_store :: HubStore where
  "ex_store = fst (Append (env_at 5) (ex_change OpCreate [1]) (fst (NewHubStore no_faults None None)))"

lemma ex_store_reachable: "store_reachable ex_store"
  unfolding ex_store_def by (rule reach_step [OF reach_open step_append])

theorem tree_snapshot_is_replay_of_log_witness:
  "\<exists>changes. ChangesSince no_faults 0 ex_store = Inr changes \<and> length changes = 1 \<and>
     map_of (TreeSnapshot no_faults ex_store) = replay ce_path tree_of_change changes Map.empty"
proof -
  have "case ChangesSince no_faults 0 ex_store of Inr cs \<Rightarrow> length cs = 1 | _ \<Rightarrow> False" by code_simp
  with tree_snapshot_is_replay_of_log [OF ex_store_reachable] show ?thesis by auto
qed

text \<open>
  \<^verbatim>\<open>Append\<close> is atomic and assigns the next version: on any error the store is unchanged; on success
  the version is one more than the latest one, the log grows by exactly this entry, the tree
  shows the entry at its path, and every other row is untouched.
\<close>

theorem append_atomic_next_version:
  assumes "store_reachable s" and "Append en e s = (s', r)"
  shows "case r of
      Inl _ \<Rightarrow> s' = s
    | Inr v \<Rightarrow> LatestVersion no_faults s = Inr (v - 1) \<and> LatestVersion no_faults s' = Inr v \<and>
        ChangesSince no_faults (v - 1) s' = Inr [e\<lparr>ce_version := v\<rparr>] \<and>
        TreeLookup no_faults (ce_path e) s' = tree_of_change e \<and>
        (\<forall>p. p \<noteq> ce_path e \<longrightarrow> EntryLookup no_faults p s' = EntryLookup no_faults p s)"
proof (cases rule: Append_cases [of en e s])
  case (error er)
  with assms(2) show ?thesis by auto
next
  case ok
  from assms(1) have inv: "store_inv s" by (rule store_reachable_inv)
  with Append_inv [OF inv, of en e] ok assms(2) have inv': "store_inv s'" and v: "r = Inr (log_seq s + 1)"
    by simp_all
  have n: "log_seq s = int (length (change_log s))" using inv by (simp add: store_inv_def)
  have "ChangesSince no_faults (int (length (change_log s))) s' = Inr [e\<lparr>ce_version := log_seq s + 1\<rparr>]"
    using ok assms(2) ChangesSince_inv [OF inv', of "length (change_log s)"] by auto
  moreover have "TreeLookup no_faults (ce_path e) s' = tree_of_change e"
    using ok assms(2) by (auto simp: TreeLookup_view tree_view_apply)
  moreover have "\<forall>p. p \<noteq> ce_path e \<longrightarrow> EntryLookup no_faults p s' = EntryLookup no_faults p s"
    using ok assms(2) by (auto simp: EntryLookup_def lookup_apply_entry_row)
  ultimately show ?thesis
    using ok assms(2) v n LatestVersion_inv [OF inv] LatestVersion_inv [OF inv'] by auto
qed

theorem append_atomic_next_version_witness:
  "\<exists>s'. Append (env_at 6) (ex_change OpUpdate [2]) ex_store = (s', Inr 2) \<and>
     LatestVersion no_faults s' = Inr 2 \<and> ChangesSince no_faults 1 s' = Inr [(ex_change OpUpdate [2])\<lparr>ce_version := 2\<rparr>]"
proof -
  have "snd (Append (env_at 6) (ex_change OpUpdate [2]) ex_store) = Inr 2" by code_simp
  then obtain s' where s': "Append (env_at 6) (ex_change OpUpdate [2]) ex_store = (s', Inr 2)"
    by (cases "Append (env_at 6) (ex_change OpUpdate [2]) ex_store") simp
  from append_atomic_next_version [OF ex_store_reachable s'] s' show ?thesis by simp
qed

text \<open>
  What \<^verbatim>\<open>Append\<close> does to the archive columns of a created or updated row: a new row is NULL, a row that
  was unpinned or whose digest changes goes to dirty, any other row keeps its state, and the
  remote handle of an existing row is always kept.
\<close>

theorem append_archive_state:
  assumes "store_reachable s" and "Append en e s = (s', Inr v)" and "ce_op e \<noteq> OpDelete"
  shows "\<exists>r. EntryLookup no_faults (ce_path e) s' = Inr (Some r) \<and> he_version r = v \<and>
     (case EntryLookup no_faults (ce_path e) s of
        Inr (Some old) \<Rightarrow>
          he_archive_state r =
            (if he_archive_state old = ArchiveStateUnpinned \<or> he_digest old \<noteq> ce_digest e
             then ArchiveStateDirty else he_archive_state old) \<and>
          he_archive_file_id r = he_archive_file_id old
      | _ \<Rightarrow> he_archive_state r = ArchiveStateNull)"
proof (cases rule: Append_cases [of en e s])
  case (error er)
  with assms(2) show ?thesis by simp
next
  case ok
  from assms(1) have inv: "store_inv s" by (rule store_reachable_inv)
  have dig: "r \<in> set (hub_entry s) \<Longrightarrow>
      hr_digest r \<noteq> blob_of_digest d \<longleftrightarrow> digest_of_blob (hr_digest r) \<noteq> d" for r d
    using inv by (auto simp: store_inv_def blob_of_digest_def digest_of_blob_def split: option.splits)
  show ?thesis
  proof (cases "tbl_lookup hr_path (ce_path e) (hub_entry s)")
    case None
    with ok assms(2,3) show ?thesis
      by (auto simp: EntryLookup_def lookup_apply_entry_row toEntry_def new_entry_row_def)
  next
    case (Some old)
    then have "old \<in> set (hub_entry s)" using tbl_lookup_SomeD by metis
    with dig [of old "ce_digest e"] Some ok assms(2,3) show ?thesis
      by (auto simp: EntryLookup_def lookup_apply_entry_row toEntry_def conflict_row_def split: option.splits)
  qed
qed

theorem append_archive_state_witness:
  "\<exists>s' r. Append (env_at 6) (ex_change OpUpdate [2]) ex_store = (s', Inr 2) \<and>
     EntryLookup no_faults ''a'' s' = Inr (Some r) \<and> he_archive_state r = ArchiveStateDirty"
proof -
  have "snd (Append (env_at 6) (ex_change OpUpdate [2]) ex_store) = Inr 2" by code_simp
  then obtain s' where s': "Append (env_at 6) (ex_change OpUpdate [2]) ex_store = (s', Inr 2)"
    by (cases "Append (env_at 6) (ex_change OpUpdate [2]) ex_store") simp
  have op: "ce_op (ex_change OpUpdate [2]) \<noteq> OpDelete" by (simp add: ex_change_def)
  have old: "case EntryLookup no_faults ''a'' ex_store of Inr (Some e) \<Rightarrow> he_digest e = [1] | _ \<Rightarrow> False"
    by code_simp
  from append_archive_state [OF ex_store_reachable s' op] old s' show ?thesis
    by (auto simp: ex_change_def split: sum.splits option.splits)
qed

end
