(* ===== verification/Filesystem.thy ===== *)
theory Filesystem
  imports Prelude
begin

text \<open>
  The part of Go's \<^verbatim>\<open>os\<close> and \<^verbatim>\<open>path/filepath\<close> packages that hubsync uses. A file system is an
  association list from absolute, cleaned paths (lists of components) to files and
  directories; the root is always a directory. Each call returns what the system call
  would, errors included; symbolic links, permissions, the umask and I/O faults of the
  device are not modelled.
\<close>

section \<open>Paths\<close>

type_synonym fpath = "string list"

fun split_slash :: "string \<Rightarrow> string list" where
  "split_slash [] = [[]]"
| "split_slash (c # cs) =
     (if c = CHR ''/'' then [] # split_slash cs
      else (case split_slash cs of [] \<Rightarrow> [[c]] | w # ws \<Rightarrow> (c # w) # ws))"

fun join_slash :: "string list \<Rightarrow> string" where
  "join_slash [] = ''''"
| "join_slash [w] = w"
| "join_slash (w # v # ws) = w @ ''/'' @ join_slash (v # ws)"

text \<open>\<^verbatim>\<open>filepath.Clean\<close> of an absolute directory followed by more components.\<close>

fun clean_onto :: "fpath \<Rightarrow> string list \<Rightarrow> fpath" where
  "clean_onto d [] = d"
| "clean_onto d (c # cs) =
     (if c = '''' \<or> c = ''.'' then clean_onto d cs
      else if c = ''..'' then clean_onto (butlast d) cs
      else clean_onto (d @ [c]) cs)"

definition filepath_Join :: "fpath \<Rightarrow> string \<Rightarrow> fpath" where
  "filepath_Join dir rel = clean_onto dir (split_slash rel)"

definition filepath_Dir :: "fpath \<Rightarrow> fpath" where
  "filepath_Dir p = butlast p"

definition filepath_Base :: "fpath \<Rightarrow> string" where
  "filepath_Base p = (if p = [] then ''/'' else last p)"

text \<open>\<^verbatim>\<open>filepath.Ext\<close>: from the last dot of the last component, or empty.\<close>

definition filepath_Ext :: "string \<Rightarrow> string" where
  "filepath_Ext base =
     (if CHR ''.'' \<in> set base
      then ''.'' @ rev (takeWhile (\<lambda>c. c \<noteq> CHR ''.'') (rev base)) else '''')"

text \<open>A component that \<^verbatim>\<open>Clean\<close> keeps: not empty, no dot entry and no separator inside.\<close>

definition plain_name :: "string \<Rightarrow> bool" where
  "plain_name c \<longleftrightarrow> c \<noteq> '''' \<and> c \<noteq> ''.'' \<and> c \<noteq> ''..'' \<and> CHR ''/'' \<notin> set c"

lemma split_slash_nonempty [simp]: "split_slash s \<noteq> []"
  by (induction s) (auto split: list.split)

lemma split_slash_plain: "CHR ''/'' \<notin> set s \<Longrightarrow> split_slash s = [s]"
  by (induction s) auto

lemma split_slash_append:
  "CHR ''/'' \<notin> set a \<Longrightarrow> split_slash (a @ CHR ''/'' # b) = a # split_slash b"
  by (induction a) auto

lemma split_join:
  "ws \<noteq> [] \<Longrightarrow> \<forall>w \<in> set ws. CHR ''/'' \<notin> set w \<Longrightarrow> split_slash (join_slash ws) = ws"
  by (induction ws rule: join_slash.induct) (auto simp: split_slash_plain split_slash_append)

lemma join_split: "join_slash (split_slash s) = s"
proof (induction s)
  case Nil
  then show ?case by simp
next
  case (Cons c s)
  obtain w ws where sw: "split_slash s = w # ws" using split_slash_nonempty by (metis list.exhaust)
  with Cons show ?case by (cases ws) auto
qed

lemma clean_onto_plain: "\<forall>c \<in> set cs. plain_name c \<Longrightarrow> clean_onto d cs = d @ cs"
  by (induction cs arbitrary: d) (auto simp: plain_name_def)

lemma clean_onto_append: "clean_onto d (xs @ ys) = clean_onto (clean_onto d xs) ys"
  by (induction d xs rule: clean_onto.induct) auto

lemma Join_join_slash:
  "cs \<noteq> [] \<Longrightarrow> \<forall>c \<in> set cs. plain_name c \<Longrightarrow> filepath_Join d (join_slash cs) = d @ cs"
  by (simp add: filepath_Join_def split_join plain_name_def clean_onto_plain)

text \<open>
  A hub-relative path as the scanner produces them: at least one component, all plain.
  Joining it to a directory stays inside that directory and is injective.
\<close>

definition plain_path :: "string \<Rightarrow> bool" where
  "plain_path p \<longleftrightarrow> (\<forall>c \<in> set (split_slash p). plain_name c)"

lemma Join_plain_path: "plain_path p \<Longrightarrow> filepath_Join d p = d @ split_slash p"
  by (simp add: filepath_Join_def plain_path_def clean_onto_plain)

lemma Join_plain_inj:
  assumes "plain_path p" "plain_path q" "filepath_Join d p = filepath_Join d q"
  shows "p = q"
proof -
  from assms have "split_slash p = split_slash q" by (simp add: Join_plain_path)
  then show ?thesis using join_split by metis
qed

section \<open>Nodes\<close>

datatype node = NFile (file_data: bytes) (file_mode: uint32) (file_mtime: int) | NDir

type_synonym fs = "(fpath \<times> node) list"

definition fs_node :: "fs \<Rightarrow> fpath \<Rightarrow> node option" where
  "fs_node f p = (if p = [] then Some NDir else map_of f p)"

definition is_dir :: "fs \<Rightarrow> fpath \<Rightarrow> bool" where
  "is_dir f p = (fs_node f p = Some NDir)"

definition is_file :: "fs \<Rightarrow> fpath \<Rightarrow> bool" where
  "is_file f p = (case fs_node f p of Some (NFile d m t) \<Rightarrow> True | _ \<Rightarrow> False)"

fun prefixes_of :: "'a list \<Rightarrow> 'a list list" where
  "prefixes_of [] = [[]]"
| "prefixes_of (x # xs) = [] # map ((#) x) (prefixes_of xs)"

text \<open>Why a path that has no node cannot be reached: below a file, or simply missing.\<close>

definition path_errno :: "fs \<Rightarrow> fpath \<Rightarrow> errno" where
  "path_errno f p =
     (if \<exists>q \<in> set (prefixes_of (butlast p)). is_file f q then ENOTDIR else ENOENT)"

definition fs_put :: "fpath \<Rightarrow> node \<Rightarrow> fs \<Rightarrow> fs" where
  "fs_put p n f = AList.update p n f"

definition fs_del :: "fpath \<Rightarrow> fs \<Rightarrow> fs" where
  "fs_del p f = AList.delete p f"

named_theorems fs_simps "what a node is after a file-system operation"

lemma fs_node_put [fs_simps]:
  "fs_node (fs_put p n f) q = (if q = p \<and> p \<noteq> [] then Some n else fs_node f q)"
  by (simp add: fs_node_def fs_put_def update_conv')

lemma fs_node_del [fs_simps]:
  "fs_node (fs_del p f) q = (if q = p \<and> p \<noteq> [] then None else fs_node f q)"
  by (simp add: fs_node_def fs_del_def delete_conv')

section \<open>System calls\<close>

definition os_Stat :: "fs \<Rightarrow> fpath \<Rightarrow> node res" where
  "os_Stat f p =
     (case fs_node f p of
        None \<Rightarrow> Inl (Fs_error ''stat'' p (path_errno f p))
      | Some n \<Rightarrow> Inr n)"

definition os_ReadFile :: "fs \<Rightarrow> fpath \<Rightarrow> bytes res" where
  "os_ReadFile f p =
     (case fs_node f p of
        None \<Rightarrow> Inl (Fs_error ''open'' p (path_errno f p))
      | Some NDir \<Rightarrow> Inl (Fs_error ''read'' p EISDIR)
      | Some (NFile d m t) \<Rightarrow> Inr d)"

text \<open>\<^verbatim>\<open>os.Open\<close> also succeeds on a directory; reading from that handle then yields nothing.\<close>

definition os_Open :: "fs \<Rightarrow> fpath \<Rightarrow> bytes res" where
  "os_Open f p =
     (case fs_node f p of
        None \<Rightarrow> Inl (Fs_error ''open'' p (path_errno f p))
      | Some NDir \<Rightarrow> Inr []
      | Some (NFile d m t) \<Rightarrow> Inr d)"

text \<open>
  \<^verbatim>\<open>os.WriteFile\<close>: truncates an existing file, which keeps its mode, or creates one in an
  existing directory.
\<close>

definition os_WriteFile :: "int \<Rightarrow> fpath \<Rightarrow> bytes \<Rightarrow> uint32 \<Rightarrow> fs \<Rightarrow> fs \<times> unit res" where
  "os_WriteFile now p d mode f =
     (case fs_node f p of
        Some NDir \<Rightarrow> (f, Inl (Fs_error ''open'' p EISDIR))
      | Some (NFile old m t) \<Rightarrow> (fs_put p (NFile d m now) f, Inr ())
      | None \<Rightarrow>
          if is_dir f (butlast p) then (fs_put p (NFile d mode now) f, Inr ())
          else (f, Inl (Fs_error ''open'' p (path_errno f p))))"

text \<open>Opening with \<^verbatim>\<open>O_CREATE\<close> and without \<^verbatim>\<open>O_TRUNC\<close>: a file that exists keeps its content.\<close>

definition open_create :: "int \<Rightarrow> fpath \<Rightarrow> fs \<Rightarrow> fs \<times> unit res" where
  "open_create now p f =
     (case fs_node f p of
        Some NDir \<Rightarrow> (f, Inl (Fs_error ''open'' p EISDIR))
      | Some (NFile d m t) \<Rightarrow> (f, Inr ())
      | None \<Rightarrow> os_WriteFile now p [] 420 f)"

text \<open>\<^verbatim>\<open>os.MkdirAll\<close>: creates every missing directory on the way; a file on the way is an error.\<close>

definition os_MkdirAll :: "fpath \<Rightarrow> fs \<Rightarrow> fs \<times> unit res" where
  "os_MkdirAll p f =
     (if \<exists>q \<in> set (prefixes_of p). is_file f q
      then (f, Inl (Fs_error ''mkdir'' p ENOTDIR))
      else (fold (\<lambda>q f. if fs_node f q = None then fs_put q NDir f else f) (prefixes_of p) f, Inr ()))"

definition has_children :: "fs \<Rightarrow> fpath \<Rightarrow> bool" where
  "has_children f p = (\<exists>e \<in> set f. fst e \<noteq> [] \<and> butlast (fst e) = p)"

definition os_Remove :: "fpath \<Rightarrow> fs \<Rightarrow> fs \<times> unit res" where
  "os_Remove p f =
     (case fs_node f p of
        None \<Rightarrow> (f, Inl (Fs_error ''remove'' p (path_errno f p)))
      | Some (NFile d m t) \<Rightarrow> (fs_del p f, Inr ())
      | Some NDir \<Rightarrow>
          if p = [] then (f, Inl (Fs_error ''remove'' p EINVAL))
          else if has_children f p then (f, Inl (Fs_error ''remove'' p ENOTEMPTY))
          else (fs_del p f, Inr ()))"

text \<open>
  \<^verbatim>\<open>os.Rename\<close>: Go refuses a destination that is a directory; a file replaces a file; a
  directory moves with everything below it.
\<close>

definition move_below :: "fpath \<Rightarrow> fpath \<Rightarrow> fs \<Rightarrow> fs" where
  "move_below a b f = map (\<lambda>(p, n). if prefix a p then (b @ drop (length a) p, n) else (p, n)) f"

definition os_Rename :: "fpath \<Rightarrow> fpath \<Rightarrow> fs \<Rightarrow> fs \<times> unit res" where
  "os_Rename a b f =
     (case fs_node f a of
        None \<Rightarrow> (f, Inl (Fs_error ''rename'' a (path_errno f a)))
      | Some n \<Rightarrow>
          if is_dir f b then (f, Inl (Fs_error ''rename'' b EEXIST))
          else if \<not> is_dir f (butlast b) then (f, Inl (Fs_error ''rename'' b (path_errno f b)))
          else (case n of
                  NFile d m t \<Rightarrow> (fs_put b (NFile d m t) (fs_del a f), Inr ())
                | NDir \<Rightarrow>
                    if prefix a b then (f, Inl (Fs_error ''rename'' b EINVAL))
                    else if is_file f b then (f, Inl (Fs_error ''rename'' b ENOTDIR))
                    else (move_below a b f, Inr ())))"

text \<open>\<^verbatim>\<open>os.Chtimes\<close> and \<^verbatim>\<open>os.Chmod\<close>, whose errors every caller ignores.\<close>

definition os_Chtimes :: "fpath \<Rightarrow> int \<Rightarrow> fs \<Rightarrow> fs" where
  "os_Chtimes p t f = (case fs_node f p of Some (NFile d m _) \<Rightarrow> fs_put p (NFile d m t) f | _ \<Rightarrow> f)"

definition os_Chmod :: "fpath \<Rightarrow> uint32 \<Rightarrow> fs \<Rightarrow> fs" where
  "os_Chmod p mode f = (case fs_node f p of Some (NFile d m t) \<Rightarrow> fs_put p (NFile d mode t) f | _ \<Rightarrow> f)"

section \<open>Laws of the calls\<close>

lemma prefixes_of_iff: "q \<in> set (prefixes_of p) \<longleftrightarrow> prefix q p"
  by (induction p arbitrary: q) (auto simp: prefix_Cons)

lemma os_Remove_node:
  "fs_node (fst (os_Remove p f)) q =
     (if q = p \<and> snd (os_Remove p f) = Inr () then None else fs_node f q)"
  by (auto simp: os_Remove_def fs_simps fs_node_def [of _ "[]"] split: option.splits node.splits)

lemma os_Remove_file: "is_file f p \<Longrightarrow> os_Remove p f = (fs_del p f, Inr ())"
  by (auto simp: os_Remove_def is_file_def split: option.splits node.splits)

lemma os_WriteFile_node:
  assumes "snd (os_WriteFile now p d mode f) = Inr ()"
  shows "\<exists>m. fs_node (fst (os_WriteFile now p d mode f)) p = Some (NFile d m now)"
    and "q \<noteq> p \<Longrightarrow> fs_node (fst (os_WriteFile now p d mode f)) q = fs_node f q"
  using assms
  by (auto simp: os_WriteFile_def fs_simps fs_node_def [of f "[]"] split: option.splits node.splits if_splits)

lemma os_WriteFile_error: "snd (os_WriteFile now p d mode f) = Inl e \<Longrightarrow> fst (os_WriteFile now p d mode f) = f"
  by (auto simp: os_WriteFile_def split: option.splits node.splits if_splits)

lemma mkdir_fold_node:
  "fs_node (fold (\<lambda>q f. if fs_node f q = None then fs_put q NDir f else f) ps f) q =
     (if fs_node f q = None \<and> q \<in> set ps then Some NDir else fs_node f q)"
proof (induction ps arbitrary: f)
  case Nil
  then show ?case by simp
next
  case (Cons p ps)
  have "fs_node f [] = Some NDir" by (simp add: fs_node_def)
  then show ?case by (auto simp: Cons fs_simps)
qed

lemma os_MkdirAll_node:
  "fs_node (fst (os_MkdirAll p f)) q =
     (if snd (os_MkdirAll p f) = Inr () \<and> fs_node f q = None \<and> prefix q p then Some NDir
      else fs_node f q)"
  by (simp add: os_MkdirAll_def mkdir_fold_node prefixes_of_iff)

lemma os_MkdirAll_dir:
  assumes "snd (os_MkdirAll p f) = Inr ()" and "prefix q p"
  shows "is_dir (fst (os_MkdirAll p f)) q"
proof -
  have "\<not> is_file f q" using assms by (auto simp: os_MkdirAll_def prefixes_of_iff split: if_splits)
  then have "fs_node f q = None \<or> fs_node f q = Some NDir"
    by (cases "fs_node f q") (auto simp: is_file_def split: node.splits)
  with assms show ?thesis by (auto simp: is_dir_def os_MkdirAll_node)
qed

lemma os_MkdirAll_file:
  "fs_node f q = Some n \<Longrightarrow> fs_node (fst (os_MkdirAll p f)) q = Some n"
  by (simp add: os_MkdirAll_node)

lemma os_Chtimes_node:
  "fs_node (os_Chtimes p t f) q =
     (if q = p then map_option (\<lambda>n. case n of NFile d m _ \<Rightarrow> NFile d m t | NDir \<Rightarrow> NDir) (fs_node f p)
      else fs_node f q)"
  by (auto simp: os_Chtimes_def fs_simps fs_node_def [of f "[]"] split: option.splits node.splits)

section \<open>Directory walks\<close>

text \<open>
  \<^verbatim>\<open>lstree.Walk\<close> is a third-party package: a walk is a parameter of the operations that use it.
  It lists the entries below a directory that the ignorer lets through. \<open>walk_ok\<close> states what
  the code relies on; \<open>walk_list\<close> is a concrete walk that satisfies it.
\<close>

record walk_entry =
  we_path :: string
  we_is_dir :: bool
  we_size :: int
  we_mtime :: int

type_synonym ignorer = "string \<Rightarrow> bool \<Rightarrow> bool"
type_synonym walker = "fs \<Rightarrow> fpath \<Rightarrow> ignorer \<Rightarrow> walk_entry list res"

definition walk_files :: "walk_entry list \<Rightarrow> string list" where
  "walk_files es = map we_path (filter (\<lambda>e. \<not> we_is_dir e) es)"

text \<open>A walk does not enter an ignored directory, so a file below one is not seen either.\<close>

definition walk_visible :: "ignorer \<Rightarrow> string \<Rightarrow> bool" where
  "walk_visible ign p \<longleftrightarrow>
     \<not> ign p False \<and>
     (\<forall>q \<in> set (prefixes_of (butlast (split_slash p))). q \<noteq> [] \<longrightarrow> \<not> ign (join_slash q) True)"

text \<open>
  The walk succeeds; its file entries have distinct plain paths, are exactly the files below
  the directory that the ignorer lets through, and carry the size and modification time of the file.
\<close>

definition walk_ok :: "walker \<Rightarrow> fs \<Rightarrow> fpath \<Rightarrow> ignorer \<Rightarrow> bool" where
  "walk_ok walk f dir ign \<longleftrightarrow>
     (\<exists>es. walk f dir ign = Inr es \<and> distinct (walk_files es) \<and>
       (\<forall>e \<in> set es. \<not> we_is_dir e \<longrightarrow>
          plain_path (we_path e) \<and> walk_visible ign (we_path e) \<and>
          (\<exists>d m. fs_node f (filepath_Join dir (we_path e)) = Some (NFile d m (we_mtime e)) \<and>
                 we_size e = int (length d))) \<and>
       (\<forall>p. plain_path p \<longrightarrow> walk_visible ign p \<longrightarrow> is_file f (filepath_Join dir p) \<longrightarrow>
          p \<in> set (walk_files es)))"

definition walk_list_entry :: "fpath \<Rightarrow> ignorer \<Rightarrow> fpath \<times> node \<Rightarrow> walk_entry option" where
  "walk_list_entry dir ign pn =
     (let rel = join_slash (drop (length dir) (fst pn)) in
      if prefix dir (fst pn) \<and> dir \<noteq> fst pn \<and> (\<forall>c \<in> set (drop (length dir) (fst pn)). plain_name c)
      then (case snd pn of
              NFile d m t \<Rightarrow>
                if walk_visible ign rel
                then Some \<lparr>we_path = rel, we_is_dir = False, we_size = int (length d), we_mtime = t\<rparr>
                else None
            | NDir \<Rightarrow> None)
      else None)"

definition walk_list :: walker where
  "walk_list f dir ign = Inr (List.map_filter (walk_list_entry dir ign) (AList.clearjunk f))"

lemma plain_below_dir_iff:
  "prefix dir p \<and> dir \<noteq> p \<and> (\<forall>c \<in> set (drop (length dir) p). plain_name c) \<and>
     rel = join_slash (drop (length dir) p) \<longleftrightarrow> plain_path rel \<and> p = dir @ split_slash rel"
proof
  assume *: "prefix dir p \<and> dir \<noteq> p \<and> (\<forall>c \<in> set (drop (length dir) p). plain_name c) \<and>
     rel = join_slash (drop (length dir) p)"
  then have "drop (length dir) p \<noteq> []" by (auto simp: prefix_def)
  with * have "split_slash rel = drop (length dir) p" by (auto simp: split_join plain_name_def)
  with * show "plain_path rel \<and> p = dir @ split_slash rel" by (auto simp: plain_path_def prefix_def)
next
  assume "plain_path rel \<and> p = dir @ split_slash rel"
  then show "prefix dir p \<and> dir \<noteq> p \<and> (\<forall>c \<in> set (drop (length dir) p). plain_name c) \<and>
     rel = join_slash (drop (length dir) p)"
    by (auto simp: plain_path_def join_split)
qed

lemma walk_list_entry_iff:
  "walk_list_entry dir ign (p, n) = Some e \<longleftrightarrow>
     (\<exists>d m. n = NFile d m (we_mtime e) \<and> \<not> we_is_dir e \<and> we_size e = int (length d)) \<and>
     plain_path (we_path e) \<and> p = dir @ split_slash (we_path e) \<and> walk_visible ign (we_path e)"
  using plain_below_dir_iff [of dir p "we_path e"]
  by (cases e; cases n) (auto simp: walk_list_entry_def Let_def)

lemma set_map_filter_iff: "y \<in> set (List.map_filter g xs) \<longleftrightarrow> (\<exists>x \<in> set xs. g x = Some y)"
  by (induction xs) (auto simp: map_filter_simps split: option.split)

lemma distinct_walk_list:
  assumes "distinct (map fst f)"
  shows "distinct (map we_path (List.map_filter (walk_list_entry dir ign) f))"
  using assms
proof (induction f)
  case Nil
  then show ?case by (simp add: map_filter_simps)
next
  case (Cons pn f)
  obtain p n where pn: "pn = (p, n)" by fastforce
  have "we_path e \<noteq> we_path e'"
    if "walk_list_entry dir ign pn = Some e" "q \<in> set f" "walk_list_entry dir ign q = Some e'" for e e' q
  proof
    assume eq: "we_path e = we_path e'"
    obtain p' n' where q: "q = (p', n')" by fastforce
    from that pn q have "p = dir @ split_slash (we_path e)" "p' = dir @ split_slash (we_path e')"
      by (auto simp: walk_list_entry_iff)
    with eq have "p = p'" by simp
    with that(2) q pn Cons.prems show False by (force simp: image_iff)
  qed
  with Cons show ?case
    by (auto simp: map_filter_simps set_map_filter_iff image_iff split: option.split)
qed

lemma walk_list_ok: "walk_ok walk_list f dir ign"
proof -
  let ?es = "List.map_filter (walk_list_entry dir ign) (AList.clearjunk f)"
  have "e \<in> set ?es \<Longrightarrow> \<not> we_is_dir e" for e
    by (auto simp: set_map_filter_iff walk_list_entry_iff)
  then have files: "walk_files ?es = map we_path ?es" by (simp add: walk_files_def)
  have sound: "plain_path (we_path e) \<and> walk_visible ign (we_path e) \<and>
      (\<exists>d m. fs_node f (filepath_Join dir (we_path e)) = Some (NFile d m (we_mtime e)) \<and>
             we_size e = int (length d))" if e: "e \<in> set ?es" for e
  proof -
    from e obtain p n where pn: "(p, n) \<in> set (AList.clearjunk f)" and "walk_list_entry dir ign (p, n) = Some e"
      by (auto simp: set_map_filter_iff)
    then obtain d m where *: "n = NFile d m (we_mtime e)" "plain_path (we_path e)"
      "p = dir @ split_slash (we_path e)" "walk_visible ign (we_path e)" "we_size e = int (length d)"
      by (auto simp: walk_list_entry_iff)
    from pn have "map_of f p = Some n" by (metis distinct_clearjunk map_of_clearjunk map_of_is_SomeI)
    with * show ?thesis by (auto simp: fs_node_def Join_plain_path)
  qed
  have complete: "p \<in> set (map we_path ?es)"
    if "plain_path p" "walk_visible ign p" "is_file f (filepath_Join dir p)" for p
  proof -
    let ?q = "dir @ split_slash p"
    let ?e = "\<lambda>d t. \<lparr>we_path = p, we_is_dir = False, we_size = int (length d), we_mtime = t\<rparr>"
    from that obtain d m t where "map_of f ?q = Some (NFile d m t)"
      by (auto simp: is_file_def fs_node_def Join_plain_path split: option.splits node.splits)
    then have "(?q, NFile d m t) \<in> set (AList.clearjunk f)" by (metis map_of_SomeD map_of_clearjunk)
    moreover have "walk_list_entry dir ign (?q, NFile d m t) = Some (?e d t)"
      using that by (simp add: walk_list_entry_iff)
    ultimately have "?e d t \<in> set ?es" unfolding set_map_filter_iff by blast
    then show ?thesis by (force simp: image_iff)
  qed
  show ?thesis
    unfolding walk_ok_def walk_list_def
    using sound complete distinct_walk_list [OF distinct_clearjunk]
    by (intro exI [of _ ?es] conjI ballI impI allI) (simp_all add: files del: set_map)
qed

end
