(* ===== verification/Scanner.thy ===== *)
theory Scanner
  imports Hub_Store Filesystem
begin

text \<open>
  The directory scanner (\<^verbatim>\<open>scanner.go\<close>): what it ignores, the digests it computes or reuses, and
  the diff of a scan against the current tree. The lemmas show that a scan's diff does not
  depend on map iteration order, lists every path at most once with creates and updates
  before deletes, and exactly accounts for the difference.
\<close>

section \<open>Ignored paths\<close>

text \<open>\<^verbatim>\<open>hubsyncIgnorer\<close> always hides \<^verbatim>\<open>.hubsync/\<close>; \<open>base\<close> is the third-party gitignore matcher, if any.\<close>

definition IsIgnored :: "ignorer option \<Rightarrow> ignorer" where
  "IsIgnored base relPath isDir =
     (if relPath = ''.hubsync'' \<or> HasPrefix relPath ''.hubsync/'' then True
      else (case base of Some b \<Rightarrow> b relPath isDir | None \<Rightarrow> False))"

section \<open>Scanning\<close>

record FileInfo =
  fi_path :: string
  fi_size :: int
  fi_mode :: uint32
  fi_mtime :: int
  fi_digest :: Digest

text \<open>\<^verbatim>\<open>hashFile\<close>; the path in its errors is the absolute one, where \<^verbatim>\<open>os.DirFS\<close> gives the relative one.\<close>

definition hashFile :: "(bytes \<Rightarrow> Digest) \<Rightarrow> fs \<Rightarrow> fpath \<Rightarrow> string \<Rightarrow> Digest res" where
  "hashFile hash f dir p =
     (case os_ReadFile f (filepath_Join dir p) of Inl e \<Rightarrow> Inl e | Inr d \<Rightarrow> Inr (hash d))"

text \<open>The permission bits that \<^verbatim>\<open>os.Lstat\<close> reports; 0644 when it fails.\<close>

definition lstat_mode :: "fs \<Rightarrow> fpath \<Rightarrow> uint32" where
  "lstat_mode f p = (case fs_node f p of Some (NFile d m t) \<Rightarrow> m | Some NDir \<Rightarrow> 493 | None \<Rightarrow> 420)"

text \<open>
  One file entry of the walk: when size and modification time agree with a row that has a
  digest, that digest is reused without reading the file.
\<close>

definition scan_entry :: "(bytes \<Rightarrow> Digest) \<Rightarrow> fs \<Rightarrow> fpath \<Rightarrow> (string \<times> TreeEntry) list \<Rightarrow> walk_entry \<Rightarrow> FileInfo res" where
  "scan_entry hash f dir tree e =
     (let info = \<lparr>fi_path = we_path e, fi_size = we_size e,
                  fi_mode = lstat_mode f (filepath_Join dir (we_path e)),
                  fi_mtime = we_mtime e, fi_digest = []\<rparr>;
          hashed = (case hashFile hash f dir (we_path e) of
                      Inl er \<Rightarrow> Inl (Wrap (''hash '' @ we_path e) er)
                    | Inr d \<Rightarrow> Inr (info\<lparr>fi_digest := d\<rparr>))
      in (case map_of tree (we_path e) of
            Some existing \<Rightarrow>
              if te_mtime existing = fi_mtime info \<and> te_size existing = fi_size info \<and>
                 \<not> Digest_IsZero (te_digest existing)
              then Inr (info\<lparr>fi_digest := te_digest existing\<rparr>) else hashed
          | None \<Rightarrow> hashed))"

fun scan_entries :: "(bytes \<Rightarrow> Digest) \<Rightarrow> fs \<Rightarrow> fpath \<Rightarrow> (string \<times> TreeEntry) list \<Rightarrow> walk_entry list \<Rightarrow>
    (string \<times> FileInfo) list \<Rightarrow> (string \<times> FileInfo) list res" where
  "scan_entries hash f dir tree [] result = Inr result"
| "scan_entries hash f dir tree (e # es) result =
     (if we_is_dir e then scan_entries hash f dir tree es result
      else (case scan_entry hash f dir tree e of
              Inl er \<Rightarrow> Inl er
            | Inr info \<Rightarrow> scan_entries hash f dir tree es (AList.update (we_path e) info result)))"

definition ScanAll :: "(bytes \<Rightarrow> Digest) \<Rightarrow> walker \<Rightarrow> ignorer \<Rightarrow> fs \<Rightarrow> fpath \<Rightarrow> (string \<times> TreeEntry) list \<Rightarrow>
    (string \<times> FileInfo) list res" where
  "ScanAll hash walk ign f dir tree =
     (case (case walk f dir ign of Inl e \<Rightarrow> Inl e | Inr es \<Rightarrow> scan_entries hash f dir tree es []) of
        Inl e \<Rightarrow> Inl (Wrap (''scan '' @ abs_path_str dir) e)
      | Inr result \<Rightarrow> Inr result)"

section \<open>Diff\<close>

definition upsert_change :: "ChangeOp \<Rightarrow> string \<Rightarrow> FileInfo \<Rightarrow> ChangeEntry" where
  "upsert_change oper p info =
     \<lparr>ce_version = 0, ce_path = p, ce_op = oper, ce_kind = FileKindFile, ce_digest = fi_digest info,
      ce_size = fi_size info, ce_mode = fi_mode info, ce_mtime = fi_mtime info\<rparr>"

definition delete_change :: "string \<Rightarrow> int \<Rightarrow> ChangeEntry" where
  "delete_change p mtime =
     \<lparr>ce_version = 0, ce_path = p, ce_op = OpDelete, ce_kind = FileKindFile, ce_digest = [],
      ce_size = 0, ce_mode = 0, ce_mtime = mtime\<rparr>"

definition diff_scanned :: "(string \<times> TreeEntry) list \<Rightarrow> string \<times> FileInfo \<Rightarrow> ChangeEntry option" where
  "diff_scanned tree pi =
     (case map_of tree (fst pi) of
        None \<Rightarrow> Some (upsert_change OpCreate (fst pi) (snd pi))
      | Some existing \<Rightarrow>
          if te_digest existing \<noteq> fi_digest (snd pi) then Some (upsert_change OpUpdate (fst pi) (snd pi))
          else None)"

definition diff_missing :: "(string \<times> FileInfo) list \<Rightarrow> string \<times> TreeEntry \<Rightarrow> ChangeEntry option" where
  "diff_missing scanned pt =
     (case map_of scanned (fst pt) of
        None \<Rightarrow> Some (delete_change (fst pt) 0)
      | Some _ \<Rightarrow> None)"

definition Diff :: "(string \<times> FileInfo) list \<Rightarrow> (string \<times> TreeEntry) list \<Rightarrow> ChangeEntry list" where
  "Diff scanned tree =
     (let creates = List.map_filter (diff_scanned tree) scanned;
          deletes = List.map_filter (diff_missing scanned) tree
      in sort_key ce_path creates @ sort_key ce_path deletes)"

section \<open>What a scan returns\<close>

lemma change_sel [simp]:
  "ce_path (upsert_change oper p i) = p" "ce_op (upsert_change oper p i) = oper"
  "ce_digest (upsert_change oper p i) = fi_digest i"
  "ce_path (delete_change p t) = p" "ce_op (delete_change p t) = OpDelete"
  by (simp_all add: upsert_change_def delete_change_def)

lemma scan_entries_map:
  "scan_entries hash f dir tree es acc = Inr result \<Longrightarrow>
     map_of result p =
       (case find (\<lambda>e. \<not> we_is_dir e \<and> we_path e = p) (rev es) of
          None \<Rightarrow> map_of acc p
        | Some e \<Rightarrow> (case scan_entry hash f dir tree e of Inl _ \<Rightarrow> None | Inr i \<Rightarrow> Some i))"
proof (induction es arbitrary: acc)
  case Nil
  then show ?case by simp
next
  case (Cons e es)
  have find_snoc: "find P (xs @ [x]) = (case find P xs of None \<Rightarrow> if P x then Some x else None | Some y \<Rightarrow> Some y)"
    for P xs and x :: walk_entry by (induction xs) auto
  show ?case
  proof (cases "we_is_dir e")
    case True
    with Cons show ?thesis by (simp add: find_snoc split: option.splits)
  next
    case False
    with Cons.prems obtain i where i: "scan_entry hash f dir tree e = Inr i"
      and rest: "scan_entries hash f dir tree es (AList.update (we_path e) i acc) = Inr result"
      by (auto split: sum.splits)
    from Cons.IH [OF rest] i False show ?thesis
      by (auto simp: find_snoc update_conv' split: option.splits)
  qed
qed

lemma scan_entries_distinct:
  "distinct (map fst acc) \<Longrightarrow> scan_entries hash f dir tree es acc = Inr result \<Longrightarrow> distinct (map fst result)"
proof (induction es arbitrary: acc)
  case Nil
  then show ?case by simp
next
  case (Cons e es)
  then show ?case
    using distinct_update [OF Cons.prems(1)] by (cases "we_is_dir e") (auto split: sum.splits)
qed

lemma scan_entries_ok:
  assumes "\<And>e. e \<in> set es \<Longrightarrow> \<not> we_is_dir e \<Longrightarrow> is_file f (filepath_Join dir (we_path e))"
  shows "\<exists>result. scan_entries hash f dir tree es acc = Inr result"
  using assms
proof (induction es arbitrary: acc)
  case Nil
  then show ?case by simp
next
  case (Cons e es)
  have "\<exists>i. scan_entry hash f dir tree e = Inr i" if "\<not> we_is_dir e"
    using Cons.prems [of e] that
    by (auto simp: scan_entry_def hashFile_def os_ReadFile_def is_file_def Let_def split: option.splits node.splits)
  moreover have "\<exists>result. scan_entries hash f dir tree es acc' = Inr result" for acc'
    using Cons by simp
  ultimately show ?case by (cases "we_is_dir e") auto
qed

lemma find_unique:
  assumes "x \<in> set xs" "P x" "\<And>y. y \<in> set xs \<Longrightarrow> P y \<Longrightarrow> y = x"
  shows "find P xs = Some x"
proof (cases "find P xs")
  case None
  with assms(1,2) show ?thesis by (simp add: find_None_iff_all)
next
  case (Some y)
  from find_SomeD [OF this] assms(3) Some show ?thesis by blast
qed

text \<open>The digest a scan records for a file: reused when the cache applies, computed otherwise.\<close>

definition scan_digest :: "(bytes \<Rightarrow> Digest) \<Rightarrow> TreeEntry option \<Rightarrow> bytes \<Rightarrow> int \<Rightarrow> Digest" where
  "scan_digest hash row d mtime =
     (case row of
        Some t \<Rightarrow> if te_mtime t = mtime \<and> te_size t = int (length d) \<and> te_digest t \<noteq> [] then te_digest t else hash d
      | None \<Rightarrow> hash d)"

definition scan_info :: "(bytes \<Rightarrow> Digest) \<Rightarrow> TreeEntry option \<Rightarrow> string \<Rightarrow> node \<Rightarrow> FileInfo" where
  "scan_info hash row p n =
     \<lparr>fi_path = p, fi_size = int (length (file_data n)), fi_mode = file_mode n, fi_mtime = file_mtime n,
      fi_digest = scan_digest hash row (file_data n) (file_mtime n)\<rparr>"

lemma scan_entry_file:
  assumes "fs_node f (filepath_Join dir (we_path e)) = Some (NFile d m (we_mtime e))"
    and "we_size e = int (length d)"
  shows "scan_entry hash f dir tree e =
     Inr (scan_info hash (map_of tree (we_path e)) (we_path e) (NFile d m (we_mtime e)))"
  using assms
  by (auto simp: scan_entry_def scan_info_def scan_digest_def hashFile_def os_ReadFile_def lstat_mode_def
           Let_def split: option.splits)

text \<open>
  With a walk that lists the files of the directory, a scan succeeds and its result is the
  map from every visible file to its information.
\<close>

lemma ScanAll_spec:
  assumes "walk_ok walk f dir ign"
  shows "\<exists>scanned. ScanAll hash walk ign f dir tree = Inr scanned \<and> distinct (map fst scanned) \<and>
     (\<forall>p. map_of scanned p =
        (if plain_path p \<and> walk_visible ign p \<and> is_file f (filepath_Join dir p)
         then Some (scan_info hash (map_of tree p) p (the (fs_node f (filepath_Join dir p)))) else None))"
proof -
  from assms obtain es where es: "walk f dir ign = Inr es" "distinct (walk_files es)"
    and sound: "\<And>e. e \<in> set es \<Longrightarrow> \<not> we_is_dir e \<Longrightarrow> plain_path (we_path e) \<and> walk_visible ign (we_path e) \<and>
       (\<exists>d m. fs_node f (filepath_Join dir (we_path e)) = Some (NFile d m (we_mtime e)) \<and> we_size e = int (length d))"
    and complete: "\<And>p. plain_path p \<Longrightarrow> walk_visible ign p \<Longrightarrow> is_file f (filepath_Join dir p) \<Longrightarrow> p \<in> set (walk_files es)"
    unfolding walk_ok_def by blast
  have isf: "is_file f (filepath_Join dir (we_path e))" if "e \<in> set es" "\<not> we_is_dir e" for e
    using sound [OF that] by (auto simp: is_file_def)
  then obtain result where result: "scan_entries hash f dir tree es [] = Inr result"
    using scan_entries_ok [of es f dir hash tree "[]"] by blast
  have "map_of result p = (if plain_path p \<and> walk_visible ign p \<and> is_file f (filepath_Join dir p)
      then Some (scan_info hash (map_of tree p) p (the (fs_node f (filepath_Join dir p)))) else None)" for p
  proof (cases "\<exists>e \<in> set es. \<not> we_is_dir e \<and> we_path e = p")
    case True
    then obtain e where e: "e \<in> set es" "\<not> we_is_dir e" "we_path e = p" by blast
    have uniq: "y = e" if "y \<in> set (rev es)" "\<not> we_is_dir y \<and> we_path y = p" for y
      using es(2) e that by (auto simp: walk_files_def distinct_map inj_on_def)
    have "find (\<lambda>e. \<not> we_is_dir e \<and> we_path e = p) (rev es) = Some e"
      by (rule find_unique [OF _ _ uniq]) (use e in simp_all)
    moreover from sound [OF e(1,2)] obtain d m where
      "fs_node f (filepath_Join dir p) = Some (NFile d m (we_mtime e))" "we_size e = int (length d)"
      using e(3) by auto
    moreover from this have "scan_entry hash f dir tree e =
        Inr (scan_info hash (map_of tree p) p (NFile d m (we_mtime e)))"
      using scan_entry_file [of f dir e d m hash tree] e(3) by simp
    ultimately show ?thesis
      using scan_entries_map [OF result, of p] sound [OF e(1,2)] isf [OF e(1,2)] e(3) by auto
  next
    case False
    then have "find (\<lambda>e. \<not> we_is_dir e \<and> we_path e = p) (rev es) = None"
      by (auto simp: find_None_iff_all)
    moreover have "\<not> (plain_path p \<and> walk_visible ign p \<and> is_file f (filepath_Join dir p))"
      using complete [of p] False by (auto simp: walk_files_def)
    ultimately show ?thesis using scan_entries_map [OF result, of p] by auto
  qed
  moreover have "distinct (map fst result)" using scan_entries_distinct [OF _ result] by simp
  ultimately show ?thesis using es(1) result by (auto simp: ScanAll_def)
qed

section \<open>What a diff lists\<close>

lemma in_map_filter_keyed:
  assumes "distinct (map fst xs)" "\<And>x y. g x = Some y \<Longrightarrow> key y = fst x"
  shows "y \<in> set (List.map_filter g xs) \<longleftrightarrow> (\<exists>v. map_of xs (key y) = Some v \<and> g (key y, v) = Some y)"
proof
  assume "y \<in> set (List.map_filter g xs)"
  then obtain x where x: "x \<in> set xs" "g x = Some y" by (auto simp: set_map_filter_iff)
  then have "x = (key y, snd x)" using assms(2) by (metis prod.collapse)
  with x assms(1) show "\<exists>v. map_of xs (key y) = Some v \<and> g (key y, v) = Some y"
    by (metis map_of_is_SomeI)
next
  assume "\<exists>v. map_of xs (key y) = Some v \<and> g (key y, v) = Some y"
  then show "y \<in> set (List.map_filter g xs)"
    by (auto simp: set_map_filter_iff dest: map_of_SomeD)
qed

lemma diff_scanned_key: "diff_scanned tree x = Some c \<Longrightarrow> ce_path c = fst x"
  by (auto simp: diff_scanned_def split: option.splits if_splits)

lemma diff_missing_key: "diff_missing scanned x = Some c \<Longrightarrow> ce_path c = fst x"
  by (auto simp: diff_missing_def split: option.splits)

lemma diff_scanned_op: "diff_scanned tree x = Some c \<Longrightarrow> ce_op c \<noteq> OpDelete"
  by (cases "map_of tree (fst x)") (auto simp: diff_scanned_def split: if_splits)

lemma diff_scanned_sel:
  "diff_scanned tree (p, i) = Some c \<Longrightarrow>
     ce_digest c = fi_digest i \<and> ce_size c = fi_size i \<and> ce_mtime c = fi_mtime i"
  by (cases "map_of tree p") (auto simp: diff_scanned_def upsert_change_def split: if_splits)

lemma diff_missing_op: "diff_missing scanned x = Some c \<Longrightarrow> ce_op c = OpDelete"
  by (auto simp: diff_missing_def split: option.splits)

lemma Diff_set:
  assumes "distinct (map fst scanned)" "distinct (map fst tree)"
  shows "c \<in> set (Diff scanned tree) \<longleftrightarrow>
     (\<exists>i. map_of scanned (ce_path c) = Some i \<and> diff_scanned tree (ce_path c, i) = Some c) \<or>
     (\<exists>t. map_of tree (ce_path c) = Some t \<and> diff_missing scanned (ce_path c, t) = Some c)"
  unfolding Diff_def Let_def set_append set_sort Un_iff
  by (simp add: in_map_filter_keyed [OF assms(1) diff_scanned_key] in_map_filter_keyed [OF assms(2) diff_missing_key])

lemma distinct_map_filter_fst:
  assumes "distinct (map fst xs)" "\<And>x y. g x = Some y \<Longrightarrow> key y = fst x"
  shows "distinct (map key (List.map_filter g xs))"
  using assms
proof (induction xs)
  case Nil
  then show ?case by simp
next
  case (Cons x xs)
  have ne: "key y \<noteq> key z" if "g x = Some y" "z \<in> set (List.map_filter g xs)" for y z
  proof -
    from that(2) obtain w where w: "w \<in> set xs" "g w = Some z" by (auto simp: set_map_filter_iff)
    then have "key y = fst x" "key z = fst w" using Cons.prems(2) that(1) by blast+
    moreover from w(1) have "fst w \<in> fst ` set xs" by (rule imageI)
    moreover have "fst x \<notin> fst ` set xs" using Cons.prems(1) by simp
    ultimately show ?thesis by metis
  qed
  have IH: "distinct (map key (List.map_filter g xs))" using Cons by simp
  show ?case
  proof (cases "g x")
    case None
    with IH show ?thesis by simp
  next
    case (Some y)
    with ne have "key y \<notin> key ` set (List.map_filter g xs)" by blast
    with IH Some show ?thesis by simp
  qed
qed

lemma Diff_parts_disjoint:
  assumes "c \<in> set (List.map_filter (diff_scanned tree) scanned)"
    and "d \<in> set (List.map_filter (diff_missing scanned) tree)"
  shows "ce_path c \<noteq> ce_path d"
proof -
  from assms(1) obtain x where "x \<in> set scanned" "ce_path c = fst x"
    by (auto simp: set_map_filter_iff dest: diff_scanned_key)
  moreover from assms(2) have "ce_path d \<notin> fst ` set scanned"
    unfolding set_map_filter_iff diff_missing_def map_of_eq_None_iff [symmetric]
    by (auto split: option.splits)
  ultimately show ?thesis by force
qed

lemma Diff_distinct:
  assumes "distinct (map fst scanned)" "distinct (map fst tree)"
  shows "distinct (map ce_path (Diff scanned tree))"
proof -
  let ?c = "List.map_filter (diff_scanned tree) scanned" and ?d = "List.map_filter (diff_missing scanned) tree"
  have "distinct (map ce_path ?c)"
    by (rule distinct_map_filter_fst [OF assms(1) diff_scanned_key])
  moreover have "distinct (map ce_path ?d)"
    by (rule distinct_map_filter_fst [OF assms(2) diff_missing_key])
  moreover have "ce_path ` set ?c \<inter> ce_path ` set ?d = {}"
    using Diff_parts_disjoint by blast
  ultimately show ?thesis
    by (auto simp: Diff_def Let_def distinct_map inj_on_def)
qed

lemma Diff_None_iff:
  assumes "distinct (map fst scanned)" "distinct (map fst tree)"
  shows "p \<notin> ce_path ` set (Diff scanned tree) \<longleftrightarrow>
     map_option fi_digest (map_of scanned p) = map_option te_digest (map_of tree p)"
proof -
  have "p \<in> ce_path ` set (Diff scanned tree) \<longleftrightarrow>
      (\<exists>i c. map_of scanned p = Some i \<and> diff_scanned tree (p, i) = Some c) \<or>
      (\<exists>t c. map_of tree p = Some t \<and> diff_missing scanned (p, t) = Some c)" (is "?l \<longleftrightarrow> ?r1 \<or> ?r2")
  proof
    assume ?l
    then show "?r1 \<or> ?r2" unfolding image_iff Bex_def Diff_set [OF assms] by auto
  next
    assume "?r1 \<or> ?r2"
    then obtain c where "ce_path c = p" "(\<exists>i. map_of scanned p = Some i \<and> diff_scanned tree (p, i) = Some c) \<or>
      (\<exists>t. map_of tree p = Some t \<and> diff_missing scanned (p, t) = Some c)"
      using diff_scanned_key diff_missing_key by (metis fst_conv)
    then have "c \<in> set (Diff scanned tree)" by (simp add: Diff_set [OF assms])
    with \<open>ce_path c = p\<close> show ?l by auto
  qed
  then show ?thesis
    by (cases "map_of scanned p"; cases "map_of tree p")
       (auto simp: diff_scanned_def diff_missing_def)
qed

lemma set_map_of_eq:
  assumes "distinct (map fst xs)" "distinct (map fst ys)" "map_of xs = map_of ys"
  shows "set xs = set ys"
proof -
  have "(k, v) \<in> set xs \<longleftrightarrow> (k, v) \<in> set ys" for k v
    using assms by (metis map_of_eq_Some_iff)
  then show ?thesis by auto
qed

section \<open>Properties of the scanner\<close>

text \<open>
  A diff accounts exactly for the difference between the scan and the tree: it lists every
  path at most once; it lists a path iff the scanned digest and the digest in the tree differ
  (presence included); and a listed entry is a create, an update or a delete according to
  whether the path is new, in both, or gone, with the scanned information.
\<close>

theorem diff_accounts_for_difference:
  assumes "distinct (map fst scanned)" "distinct (map fst tree)"
  shows "distinct (map ce_path (Diff scanned tree)) \<and>
    (\<forall>p. p \<in> ce_path ` set (Diff scanned tree) \<longleftrightarrow>
       map_option fi_digest (map_of scanned p) \<noteq> map_option te_digest (map_of tree p)) \<and>
    (\<forall>c \<in> set (Diff scanned tree).
       c = (case map_of scanned (ce_path c) of
              None \<Rightarrow> delete_change (ce_path c) 0
            | Some i \<Rightarrow> upsert_change (if map_of tree (ce_path c) = None then OpCreate else OpUpdate) (ce_path c) i))"
proof (intro conjI allI ballI)
  show "distinct (map ce_path (Diff scanned tree))" by (rule Diff_distinct [OF assms])
  show "p \<in> ce_path ` set (Diff scanned tree) \<longleftrightarrow>
      map_option fi_digest (map_of scanned p) \<noteq> map_option te_digest (map_of tree p)" for p
    using Diff_None_iff [OF assms, of p] by blast
  show "c = (case map_of scanned (ce_path c) of
                  None \<Rightarrow> delete_change (ce_path c) 0
                | Some i \<Rightarrow> upsert_change (if map_of tree (ce_path c) = None then OpCreate else OpUpdate) (ce_path c) i)"
    if "c \<in> set (Diff scanned tree)" for c
    using that unfolding Diff_set [OF assms]
    by (auto simp: diff_scanned_def diff_missing_def split: option.splits if_splits)
qed

definition ex_info :: "Digest \<Rightarrow> FileInfo" where
  "ex_info d = \<lparr>fi_path = ''b'', fi_size = 1, fi_mode = 420, fi_mtime = 5, fi_digest = d\<rparr>"

definition ex_tree_entry :: TreeEntry where
  "ex_tree_entry = \<lparr>te_path = ''a'', te_kind = 0, te_digest = [1], te_size = 1, te_mode = 420, te_mtime = 4\<rparr>"

theorem diff_accounts_for_difference_witness:
  "Diff [(''b'', ex_info [7])] [(''a'', ex_tree_entry)] =
     [upsert_change OpCreate ''b'' (ex_info [7]), delete_change ''a'' 0] \<and>
   distinct (map ce_path (Diff [(''b'', ex_info [7])] [(''a'', ex_tree_entry)]))"
  using diff_accounts_for_difference [of "[(''b'', ex_info [7])]" "[(''a'', ex_tree_entry)]"]
  by (simp add: Diff_def diff_scanned_def diff_missing_def)

text \<open>
  The change list is deterministic and ordered for move deduplication: it does not depend on
  the iteration order of the two Go maps, creates and updates come before deletes, and each
  group is sorted by path.
\<close>

theorem diff_order:
  assumes "distinct (map fst scanned)" "distinct (map fst scanned')"
    and "distinct (map fst tree)" "distinct (map fst tree')"
    and "map_of scanned = map_of scanned'" "map_of tree = map_of tree'"
  shows "Diff scanned tree = Diff scanned' tree' \<and>
    (\<exists>ups dels. Diff scanned tree = ups @ dels \<and>
       (\<forall>c \<in> set ups. ce_op c \<noteq> OpDelete) \<and> (\<forall>c \<in> set dels. ce_op c = OpDelete) \<and>
       sorted (map ce_path ups) \<and> sorted (map ce_path dels))"
proof
  have "diff_scanned tree = diff_scanned tree'" "diff_missing scanned = diff_missing scanned'"
    using assms(5,6) by (simp_all add: diff_scanned_def diff_missing_def fun_eq_iff)
  moreover have "set scanned = set scanned'" "set tree = set tree'"
    using set_map_of_eq assms by blast+
  ultimately have
    "sort_key ce_path (List.map_filter (diff_scanned tree) scanned) =
       sort_key ce_path (List.map_filter (diff_scanned tree') scanned')"
    "sort_key ce_path (List.map_filter (diff_missing scanned) tree) =
       sort_key ce_path (List.map_filter (diff_missing scanned') tree')"
    by (auto intro!: sort_key_distinct_unique distinct_map_filter_fst
        intro: diff_scanned_key diff_missing_key assms simp: set_map_filter_iff)
  then show "Diff scanned tree = Diff scanned' tree'" by (simp add: Diff_def)
next
  show "\<exists>ups dels. Diff scanned tree = ups @ dels \<and>
       (\<forall>c \<in> set ups. ce_op c \<noteq> OpDelete) \<and> (\<forall>c \<in> set dels. ce_op c = OpDelete) \<and>
       sorted (map ce_path ups) \<and> sorted (map ce_path dels)"
    unfolding Diff_def Let_def
    by (intro exI conjI, rule refl)
       (auto simp: set_map_filter_iff dest: diff_scanned_op diff_missing_op)
qed

theorem diff_order_witness:
  "Diff [(''b'', ex_info [7]), (''a'', ex_info [8])] [(''c'', ex_tree_entry)] =
   Diff [(''a'', ex_info [8]), (''b'', ex_info [7])] [(''c'', ex_tree_entry)]"
  by (rule diff_order [THEN conjunct1]) (simp_all add: fun_eq_iff)

end
