(* ===== verification/Hub.thy ===== *)
theory Hub
  imports Scanner
begin

text \<open>
  The hub (\<^verbatim>\<open>hub.go\<close>) and its event fan-out (\<^verbatim>\<open>broadcast.go\<close>): subscribers are buffered channels
  of 256 slots, a full buffer drops the event, and \<^verbatim>\<open>FullScan\<close> turns the difference between the
  directory and the database into log entries and events. The lemmas show that after a scan
  the database describes the directory, that unpinned rows survive, and that a second scan
  appends nothing.
\<close>

section \<open>Broadcaster\<close>

text \<open>
  Channels are numbered in the order of their creation; \<open>bc_subs\<close> is the subscriber set. A
  send on a closed channel or a second close panics: the value \<open>None\<close>.
\<close>

record chan =
  ch_buf :: "ChangeEntry list"
  ch_closed :: bool

record Broadcaster =
  bc_subs :: "nat list"
  bc_chans :: "chan list"

definition channel_cap :: nat where
  "channel_cap = 256"

definition NewBroadcaster :: Broadcaster where
  "NewBroadcaster = \<lparr>bc_subs = [], bc_chans = []\<rparr>"

definition Subscribe :: "Broadcaster \<Rightarrow> Broadcaster \<times> nat" where
  "Subscribe b =
     (let ch = length (bc_chans b) in
      (b\<lparr>bc_subs := ch # bc_subs b, bc_chans := bc_chans b @ [\<lparr>ch_buf = [], ch_closed = False\<rparr>]\<rparr>, ch))"

definition Unsubscribe :: "nat \<Rightarrow> Broadcaster \<Rightarrow> Broadcaster option" where
  "Unsubscribe ch b =
     (let b' = b\<lparr>bc_subs := removeAll ch (bc_subs b)\<rparr> in
      if ch < length (bc_chans b) \<and> \<not> ch_closed (bc_chans b ! ch)
      then Some (b'\<lparr>bc_chans := (bc_chans b)[ch := (bc_chans b ! ch)\<lparr>ch_closed := True\<rparr>]\<rparr>)
      else None)"

text \<open>\<^verbatim>\<open>select { case ch <- entry: default: }\<close>: enqueue when there is room, drop otherwise.\<close>

definition try_send :: "ChangeEntry \<Rightarrow> chan \<Rightarrow> chan option" where
  "try_send e c =
     (if ch_closed c then None
      else if length (ch_buf c) < channel_cap then Some (c\<lparr>ch_buf := ch_buf c @ [e]\<rparr>)
      else Some c)"

fun send_all :: "ChangeEntry \<Rightarrow> nat list \<Rightarrow> chan list \<Rightarrow> chan list option" where
  "send_all e [] cs = Some cs"
| "send_all e (ch # chs) cs =
     (if ch < length cs
      then (case try_send e (cs ! ch) of
              None \<Rightarrow> None
            | Some c \<Rightarrow> send_all e chs (cs[ch := c]))
      else None)"

definition Broadcast :: "ChangeEntry \<Rightarrow> Broadcaster \<Rightarrow> Broadcaster option" where
  "Broadcast e b =
     (case send_all e (bc_subs b) (bc_chans b) of
        None \<Rightarrow> None
      | Some cs \<Rightarrow> Some (b\<lparr>bc_chans := cs\<rparr>))"

text \<open>What the subscriber's receive does: take the oldest event of a non-empty buffer.\<close>

definition recv :: "nat \<Rightarrow> Broadcaster \<Rightarrow> (ChangeEntry \<times> Broadcaster) option" where
  "recv ch b =
     (if ch < length (bc_chans b)
      then (case ch_buf (bc_chans b ! ch) of
              [] \<Rightarrow> None
            | e # es \<Rightarrow> Some (e, b\<lparr>bc_chans := (bc_chans b)[ch := (bc_chans b ! ch)\<lparr>ch_buf := es\<rparr>]\<rparr>))
      else None)"

text \<open>Subscribed channels exist, are listed once and are open; no buffer exceeds its capacity.\<close>

definition bc_inv :: "Broadcaster \<Rightarrow> bool" where
  "bc_inv b \<longleftrightarrow> distinct (bc_subs b) \<and>
     (\<forall>ch \<in> set (bc_subs b). ch < length (bc_chans b) \<and> \<not> ch_closed (bc_chans b ! ch)) \<and>
     (\<forall>i < length (bc_chans b). length (ch_buf (bc_chans b ! i)) \<le> channel_cap)"

definition enqueue :: "ChangeEntry \<Rightarrow> chan \<Rightarrow> chan" where
  "enqueue e c = (if length (ch_buf c) < channel_cap then c\<lparr>ch_buf := ch_buf c @ [e]\<rparr> else c)"

lemma enqueue_sel [simp]: "ch_closed (enqueue e c) = ch_closed c"
  by (simp add: enqueue_def)

lemma send_all_open:
  assumes "distinct chs" "\<forall>ch \<in> set chs. ch < length cs \<and> \<not> ch_closed (cs ! ch)"
  shows "\<exists>cs'. send_all e chs cs = Some cs' \<and> length cs' = length cs \<and>
     (\<forall>i < length cs. cs' ! i = (if i \<in> set chs then enqueue e (cs ! i) else cs ! i))"
  using assms
proof (induction chs arbitrary: cs)
  case Nil
  then show ?case by simp
next
  case (Cons ch chs)
  let ?cs = "cs[ch := enqueue e (cs ! ch)]"
  from Cons.prems have room: "ch < length cs" "try_send e (cs ! ch) = Some (enqueue e (cs ! ch))"
    by (simp_all add: try_send_def enqueue_def)
  have "\<forall>c \<in> set chs. c < length ?cs \<and> \<not> ch_closed (?cs ! c)"
    using Cons.prems by (auto simp: nth_list_update)
  with Cons.IH [of ?cs] Cons.prems(1) obtain cs' where "send_all e chs ?cs = Some cs'" "length cs' = length cs"
    and "\<forall>i < length cs. cs' ! i = (if i \<in> set chs then enqueue e (?cs ! i) else ?cs ! i)"
    by auto
  with room Cons.prems(1) show ?case by (auto simp: nth_list_update)
qed

lemma Broadcast_inv_result:
  assumes "bc_inv b"
  shows "\<exists>b'. Broadcast e b = Some b' \<and> bc_inv b' \<and> bc_subs b' = bc_subs b \<and>
     length (bc_chans b') = length (bc_chans b) \<and>
     (\<forall>i < length (bc_chans b). bc_chans b' ! i =
        (if i \<in> set (bc_subs b) then enqueue e (bc_chans b ! i) else bc_chans b ! i))"
proof -
  from assms send_all_open [of "bc_subs b" "bc_chans b" e] obtain cs' where
    cs': "send_all e (bc_subs b) (bc_chans b) = Some cs'" "length cs' = length (bc_chans b)"
    "\<forall>i < length (bc_chans b). cs' ! i = (if i \<in> set (bc_subs b) then enqueue e (bc_chans b ! i) else bc_chans b ! i)"
    by (auto simp: bc_inv_def)
  moreover have "\<forall>i < length cs'. length (ch_buf (cs' ! i)) \<le> channel_cap"
    using assms cs'(2,3) by (simp add: bc_inv_def enqueue_def)
  ultimately show ?thesis using assms by (auto simp: Broadcast_def bc_inv_def)
qed

lemma Subscribe_inv: "bc_inv b \<Longrightarrow> bc_inv (fst (Subscribe b))"
  by (fastforce simp: bc_inv_def Subscribe_def Let_def nth_append)

lemma Unsubscribe_inv:
  assumes "bc_inv b" "Unsubscribe ch b = Some b'"
  shows "bc_inv b'"
  using assms
  by (auto simp: bc_inv_def Unsubscribe_def Let_def distinct_removeAll nth_list_update split: if_splits)

lemma recv_inv:
  assumes "bc_inv b" "recv ch b = Some (e, b')"
  shows "bc_inv b'"
proof -
  from assms(2) obtain es where ch: "ch < length (bc_chans b)" "ch_buf (bc_chans b ! ch) = e # es"
    and b': "b' = b\<lparr>bc_chans := (bc_chans b)[ch := (bc_chans b ! ch)\<lparr>ch_buf := es\<rparr>]\<rparr>"
    by (auto simp: recv_def split: if_splits list.splits)
  from assms(1) ch(1) have "length (ch_buf (bc_chans b ! ch)) \<le> channel_cap" by (simp add: bc_inv_def)
  with assms(1) ch show ?thesis by (auto simp: bc_inv_def b' nth_list_update)
qed

section \<open>Full scan\<close>

text \<open>
  The state a hub works on: its database, its broadcaster and the file system that holds the
  watched directory. The scanner's configuration never changes.
\<close>

record ScannerCfg =
  sc_dir :: fpath
  sc_ignorer :: ignorer
  sc_hasher :: Hasher

record Hub =
  hub_db :: HubStore
  hub_bc :: Broadcaster
  hub_fs :: fs

definition panic_closed :: err where
  "panic_closed = Sentinel ''panic: send on closed channel''"

text \<open>
  The loop of \<^verbatim>\<open>FullScan\<close>: append each change and broadcast it with its version; the first append that
  fails ends the scan. Call \<open>i\<close> of \<^verbatim>\<open>Append\<close> runs in environment \<open>envs i\<close>.
\<close>

fun append_changes :: "(nat \<Rightarrow> env) \<Rightarrow> ChangeEntry list \<Rightarrow> Hub \<Rightarrow> Hub \<times> unit res" where
  "append_changes envs [] h = (h, Inr ())"
| "append_changes envs (c # cs) h =
     (case Append (envs 0) c (hub_db h) of
        (s, Inl er) \<Rightarrow> (h\<lparr>hub_db := s\<rparr>, Inl (Wrap (''append change for '' @ ce_path c) er))
      | (s, Inr version) \<Rightarrow>
          (case Broadcast (c\<lparr>ce_version := version\<rparr>) (hub_bc h) of
             None \<Rightarrow> (h\<lparr>hub_db := s\<rparr>, Inl panic_closed)
           | Some bc \<Rightarrow> append_changes (\<lambda>i. envs (Suc i)) cs (h\<lparr>hub_db := s, hub_bc := bc\<rparr>)))"

definition FullScan :: "walker \<Rightarrow> ScannerCfg \<Rightarrow> sql_faults \<Rightarrow> (nat \<Rightarrow> env) \<Rightarrow> Hub \<Rightarrow> Hub \<times> unit res" where
  "FullScan walk sc sql envs h =
     (let tree = ScanBaselineSnapshot sql (hub_db h) in
      case ScanAll (hash_sum (sc_hasher sc)) walk (sc_ignorer sc) (hub_fs h) (sc_dir sc) tree of
        Inl er \<Rightarrow> (h, Inl er)
      | Inr scanned \<Rightarrow> append_changes envs (Diff scanned tree) h)"

section \<open>What a full scan does\<close>

definition hub_inv :: "Hub \<Rightarrow> bool" where
  "hub_inv h \<longleftrightarrow> store_inv (hub_db h) \<and> bc_inv (hub_bc h)"

abbreviation entry_row :: "string \<Rightarrow> Hub \<Rightarrow> hubEntryRow option" where
  "entry_row p h \<equiv> tbl_lookup hr_path p (hub_entry (hub_db h))"

definition is_unpinned :: "hubEntryRow \<Rightarrow> bool" where
  "is_unpinned r = (hr_archive_state r = Some ArchiveStateUnpinned)"

text \<open>The row that \<^verbatim>\<open>Append\<close> leaves for a create or update of a path with the given old row.\<close>

definition appended_row :: "ChangeEntry \<Rightarrow> int \<Rightarrow> int \<Rightarrow> hubEntryRow option \<Rightarrow> hubEntryRow option" where
  "appended_row c v t old =
     (if ce_op c = OpDelete then None
      else Some (case old of None \<Rightarrow> new_entry_row c v t | Some r \<Rightarrow> conflict_row c v t r))"

lemma appended_row_digest:
  "appended_row c v t old = Some r \<Longrightarrow>
     digest_of_blob (hr_digest r) = ce_digest c \<and> \<not> is_unpinned r \<and> hr_path r = (case old of None \<Rightarrow> ce_path c | Some q \<Rightarrow> hr_path q)"
  by (auto simp: appended_row_def new_entry_row_def conflict_row_def is_unpinned_def split: option.splits if_splits)

lemma append_changes_ok:
  assumes "hub_inv h" "\<And>i. env_sql (envs i) = no_faults"
    and "log_seq (hub_db h) + int (length cs) \<le> max_int64" "distinct (map ce_path cs)"
  shows "\<exists>h'. append_changes envs cs h = (h', Inr ()) \<and> hub_inv h' \<and> hub_fs h' = hub_fs h \<and>
     log_seq (hub_db h') = log_seq (hub_db h) + int (length cs) \<and>
     (\<forall>p. p \<notin> ce_path ` set cs \<longrightarrow> entry_row p h' = entry_row p h) \<and>
     (\<forall>c \<in> set cs. \<exists>v t. entry_row (ce_path c) h' = appended_row c v t (entry_row (ce_path c) h))"
  using assms
proof (induction cs arbitrary: envs h)
  case Nil
  then show ?case by simp
next
  case (Cons c cs)
  let ?v = "log_seq (hub_db h) + 1"
  obtain s where app: "Append (envs 0) c (hub_db h) = (s, Inr ?v)"
    and rows: "hub_entry s = apply_entry_row c ?v (env_now (envs 0)) (hub_entry (hub_db h))"
    and seq: "log_seq s = ?v"
    using Append_no_faults [OF _ Cons.prems(2), of "hub_db h" 0 c] Cons.prems(3) by simp_all
  have inv_s: "store_inv s"
    using Cons.prems(1) Append_inv [of "hub_db h" "envs 0" c] by (simp add: hub_inv_def app)
  from Cons.prems(1) Broadcast_inv_result [of "hub_bc h" "c\<lparr>ce_version := ?v\<rparr>"]
  obtain bc where bc: "Broadcast (c\<lparr>ce_version := ?v\<rparr>) (hub_bc h) = Some bc" "bc_inv bc"
    by (auto simp: hub_inv_def)
  let ?h = "h\<lparr>hub_db := s, hub_bc := bc\<rparr>"
  have step: "append_changes envs (c # cs) h = append_changes (\<lambda>i. envs (Suc i)) cs ?h"
    by (simp add: app bc)
  have "hub_inv ?h" using inv_s bc by (simp add: hub_inv_def)
  then obtain h' where IH: "append_changes (\<lambda>i. envs (Suc i)) cs ?h = (h', Inr ())" "hub_inv h'"
    "hub_fs h' = hub_fs h" "log_seq (hub_db h') = ?v + int (length cs)"
    "\<forall>p. p \<notin> ce_path ` set cs \<longrightarrow> entry_row p h' = entry_row p ?h"
    "\<forall>d \<in> set cs. \<exists>v t. entry_row (ce_path d) h' = appended_row d v t (entry_row (ce_path d) ?h)"
    using Cons.IH [OF _ Cons.prems(2), of ?h Suc] Cons.prems(3,4) seq by auto
  have look: "entry_row p ?h = (if p = ce_path c then appended_row c ?v (env_now (envs 0)) (entry_row p h)
      else entry_row p h)" for p
    by (simp add: rows lookup_apply_entry_row appended_row_def)
  have ne: "d \<in> set cs \<Longrightarrow> ce_path d \<noteq> ce_path c" for d
    by (rule distinct_map_Cons_neq [OF Cons.prems(4)])
  have "\<exists>v t. entry_row (ce_path d) h' = appended_row d v t (entry_row (ce_path d) h)" if "d \<in> set (c # cs)" for d
  proof (cases "d \<in> set cs")
    case True
    with IH(6) ne [OF True] look show ?thesis by metis
  next
    case False
    with that Cons.prems(4) have "d = c" "ce_path c \<notin> ce_path ` set cs" by auto
    with IH(5) look show ?thesis by auto
  qed
  moreover have "\<forall>p. p \<notin> ce_path ` set (c # cs) \<longrightarrow> entry_row p h' = entry_row p h"
    using IH(5) look by simp
  ultimately show ?case using step IH(1-4) by auto
qed

text \<open>The rows a scan compares with: every row that is not unpinned.\<close>

definition baseline :: "Hub \<Rightarrow> string \<Rightarrow> TreeEntry option" where
  "baseline h p =
     (case entry_row p h of None \<Rightarrow> None | Some r \<Rightarrow> if is_unpinned r then None else Some (row_tree r))"

definition scan_file :: "ScannerCfg \<Rightarrow> Hub \<Rightarrow> string \<Rightarrow> bool" where
  "scan_file sc h p \<longleftrightarrow> plain_path p \<and> walk_visible (sc_ignorer sc) p \<and> is_file (hub_fs h) (filepath_Join (sc_dir sc) p)"

definition scan_node :: "ScannerCfg \<Rightarrow> Hub \<Rightarrow> string \<Rightarrow> node" where
  "scan_node sc h p = the (fs_node (hub_fs h) (filepath_Join (sc_dir sc) p))"

text \<open>The changes a scan finds, and the digest it gives a file.\<close>

definition found_changes :: "walker \<Rightarrow> ScannerCfg \<Rightarrow> Hub \<Rightarrow> ChangeEntry list" where
  "found_changes walk sc h =
     (let tree = ScanBaselineSnapshot no_faults (hub_db h) in
      case ScanAll (hash_sum (sc_hasher sc)) walk (sc_ignorer sc) (hub_fs h) (sc_dir sc) tree of
        Inl _ \<Rightarrow> [] | Inr scanned \<Rightarrow> Diff scanned tree)"

definition found_digest :: "ScannerCfg \<Rightarrow> Hub \<Rightarrow> string \<Rightarrow> Digest" where
  "found_digest sc h p =
     scan_digest (hash_sum (sc_hasher sc)) (baseline h p) (file_data (scan_node sc h p)) (file_mtime (scan_node sc h p))"

lemma baseline_snapshot:
  assumes "hub_inv h"
  shows "map_of (ScanBaselineSnapshot no_faults (hub_db h)) = baseline h"
    and "distinct (map fst (ScanBaselineSnapshot no_faults (hub_db h)))"
proof -
  have inv: "tbl_inv hr_path (hub_entry (hub_db h))" using assms by (simp add: hub_inv_def store_inv_def)
  let ?P = "\<lambda>r. hr_archive_state r = None \<or> hr_archive_state r \<noteq> Some ArchiveStateUnpinned"
  have P: "?P r \<longleftrightarrow> \<not> is_unpinned r" for r by (auto simp: is_unpinned_def)
  have "tbl_inv hr_path (filter ?P (hub_entry (hub_db h)))"
    using inv by (simp add: tbl_inv_def distinct_map_filter)
  then show "map_of (ScanBaselineSnapshot no_faults (hub_db h)) = baseline h"
    using tbl_map_filter [OF inv, of _ ?P] P
    by (auto simp: ScanBaselineSnapshot_def map_of_rows_tree tree_view_def tbl_map_def baseline_def fun_eq_iff
        split: option.split)
  show "distinct (map fst (ScanBaselineSnapshot no_faults (hub_db h)))"
    by (simp add: ScanBaselineSnapshot_def rows_tree_def)
qed

lemma baseline_digest:
  "baseline h p = Some t \<Longrightarrow>
     \<exists>r. entry_row p h = Some r \<and> \<not> is_unpinned r \<and> te_digest t = digest_of_blob (hr_digest r)"
  by (auto simp: baseline_def row_tree_def HubEntry_TreeEntry_def split: option.splits if_splits)

text \<open>A scan that finds the files of the directory, and what its diff says of each path.\<close>

lemma found_changes_spec:
  assumes "hub_inv h" "walk_ok walk (hub_fs h) (sc_dir sc) (sc_ignorer sc)"
  shows "FullScan walk sc no_faults envs h = append_changes envs (found_changes walk sc h) h"
    and "distinct (map ce_path (found_changes walk sc h))"
    and "p \<in> ce_path ` set (found_changes walk sc h) \<longleftrightarrow>
           (if scan_file sc h p then Some (found_digest sc h p) else None) \<noteq> map_option te_digest (baseline h p)"
    and "c \<in> set (found_changes walk sc h) \<Longrightarrow>
           (if scan_file sc h (ce_path c)
            then ce_op c \<noteq> OpDelete \<and> ce_digest c = found_digest sc h (ce_path c) \<and>
                 ce_size c = int (length (file_data (scan_node sc h (ce_path c)))) \<and>
                 ce_mtime c = file_mtime (scan_node sc h (ce_path c))
            else ce_op c = OpDelete)"
proof -
  let ?tree = "ScanBaselineSnapshot no_faults (hub_db h)" and ?hash = "hash_sum (sc_hasher sc)"
  note tree = baseline_snapshot [OF assms(1)]
  from ScanAll_spec [OF assms(2), of ?hash ?tree] obtain scanned where
    scanned: "ScanAll ?hash walk (sc_ignorer sc) (hub_fs h) (sc_dir sc) ?tree = Inr scanned" "distinct (map fst scanned)"
    and map: "map_of scanned q = (if scan_file sc h q then Some (scan_info ?hash (baseline h q) q (scan_node sc h q)) else None)" for q
    by (auto simp: tree scan_file_def scan_node_def)
  have found: "found_changes walk sc h = Diff scanned ?tree"
    by (simp add: found_changes_def scanned)
  show "FullScan walk sc no_faults envs h = append_changes envs (found_changes walk sc h) h"
    by (simp add: FullScan_def scanned found)
  show "distinct (map ce_path (found_changes walk sc h))"
    unfolding found by (rule Diff_distinct [OF scanned(2) tree(2)])
  show "p \<in> ce_path ` set (found_changes walk sc h) \<longleftrightarrow>
      (if scan_file sc h p then Some (found_digest sc h p) else None) \<noteq> map_option te_digest (baseline h p)"
    using Diff_None_iff [OF scanned(2) tree(2), of p]
    by (cases "scan_file sc h p") (auto simp: found map tree scan_info_def found_digest_def)
  show "if scan_file sc h (ce_path c)
      then ce_op c \<noteq> OpDelete \<and> ce_digest c = found_digest sc h (ce_path c) \<and>
           ce_size c = int (length (file_data (scan_node sc h (ce_path c)))) \<and>
           ce_mtime c = file_mtime (scan_node sc h (ce_path c))
      else ce_op c = OpDelete"
    if "c \<in> set (found_changes walk sc h)"
  proof (cases "scan_file sc h (ce_path c)")
    case True
    with that have "diff_scanned ?tree (ce_path c, scan_info ?hash (baseline h (ce_path c)) (ce_path c)
        (scan_node sc h (ce_path c))) = Some c"
      unfolding found Diff_set [OF scanned(2) tree(2)] by (simp add: map diff_missing_def)
    from diff_scanned_op [OF this] diff_scanned_sel [OF this] True show ?thesis
      by (simp add: scan_info_def found_digest_def)
  next
    case False
    with that have "\<exists>t. diff_missing scanned (ce_path c, t) = Some c"
      unfolding found Diff_set [OF scanned(2) tree(2)] by (auto simp: map)
    with False show ?thesis by (auto dest: diff_missing_op)
  qed
qed

lemma entry_row_inv_digest:
  assumes "hub_inv h" "entry_row p h = Some r"
  shows "hr_digest r = blob_of_digest (digest_of_blob (hr_digest r))"
proof -
  have "r \<in> set (hub_entry (hub_db h))" using assms(2) tbl_lookup_SomeD by metis
  with assms(1) show ?thesis
    by (auto simp: hub_inv_def store_inv_def blob_of_digest_def digest_of_blob_def split: option.split)
qed

text \<open>
  The state after a scan that could append: every file of the directory has a row with the
  digest the scan found, unpinned rows without a file are as they were, and no other row is left.
\<close>

lemma FullScan_result:
  assumes inv: "hub_inv h" and walk: "walk_ok walk (hub_fs h) (sc_dir sc) (sc_ignorer sc)"
    and envs: "\<And>i. env_sql (envs i) = no_faults"
    and room: "log_seq (hub_db h) + int (length (found_changes walk sc h)) \<le> max_int64"
  obtains h' where "FullScan walk sc no_faults envs h = (h', Inr ())" "hub_inv h'" "hub_fs h' = hub_fs h"
    "\<And>p. scan_file sc h p \<Longrightarrow> \<exists>r. entry_row p h' = Some r \<and> \<not> is_unpinned r \<and>
         digest_of_blob (hr_digest r) = found_digest sc h p \<and>
         (entry_row p h' = entry_row p h \<or>
          hr_size r = Some (int (length (file_data (scan_node sc h p)))) \<and> hr_mtime r = Some (file_mtime (scan_node sc h p)))"
    "\<And>p. \<not> scan_file sc h p \<Longrightarrow>
         entry_row p h' = (case entry_row p h of None \<Rightarrow> None | Some r \<Rightarrow> if is_unpinned r then Some r else None)"
proof -
  let ?cs = "found_changes walk sc h"
  note found = found_changes_spec [OF inv walk]
  from append_changes_ok [where envs = envs, OF inv envs room found(2)] obtain h' where
    h': "append_changes envs ?cs h = (h', Inr ())" "hub_inv h'" "hub_fs h' = hub_fs h"
    and other: "\<And>p. p \<notin> ce_path ` set ?cs \<Longrightarrow> entry_row p h' = entry_row p h"
    and changed: "\<And>c. c \<in> set ?cs \<Longrightarrow> \<exists>v t. entry_row (ce_path c) h' = appended_row c v t (entry_row (ce_path c) h)"
    by blast
  have "\<exists>r. entry_row p h' = Some r \<and> \<not> is_unpinned r \<and> digest_of_blob (hr_digest r) = found_digest sc h p \<and>
      (entry_row p h' = entry_row p h \<or> hr_size r = Some (int (length (file_data (scan_node sc h p)))) \<and>
       hr_mtime r = Some (file_mtime (scan_node sc h p)))" if onfile: "scan_file sc h p" for p
  proof (cases "p \<in> ce_path ` set ?cs")
    case True
    then obtain c where c: "c \<in> set ?cs" "p = ce_path c" by blast
    with changed obtain v t where row: "entry_row p h' = appended_row c v t (entry_row p h)" by blast
    have "ce_op c \<noteq> OpDelete" "ce_digest c = found_digest sc h p"
      "ce_size c = int (length (file_data (scan_node sc h p)))" "ce_mtime c = file_mtime (scan_node sc h p)"
      using found(4) [OF c(1)] onfile c(2) by simp_all
    then show ?thesis unfolding row
      by (cases "entry_row p h")
         (simp_all add: appended_row_def new_entry_row_def conflict_row_def is_unpinned_def)
  next
    case False
    with onfile found(3) [of p] have "map_option te_digest (baseline h p) = Some (found_digest sc h p)" by simp
    with baseline_digest [of h p] other [OF False] show ?thesis by auto
  qed
  moreover have "entry_row p h' = (case entry_row p h of None \<Rightarrow> None | Some r \<Rightarrow> if is_unpinned r then Some r else None)"
    if onfile: "\<not> scan_file sc h p" for p
  proof (cases "p \<in> ce_path ` set ?cs")
    case True
    then obtain c where c: "c \<in> set ?cs" "p = ce_path c" by blast
    with found(4) [OF c(1)] onfile have "ce_op c = OpDelete" by simp
    moreover from True onfile found(3) [of p] have "baseline h p \<noteq> None" by simp
    ultimately show ?thesis
      using changed [OF c(1)] c(2) by (auto simp: appended_row_def baseline_def split: option.splits if_splits)
  next
    case False
    with onfile found(3) [of p] have "baseline h p = None" by simp
    with other [OF False] show ?thesis by (auto simp: baseline_def split: option.splits if_splits)
  qed
  ultimately show ?thesis using that [of h'] h' found(1) [of envs] by simp
qed

lemma FullScan_settled:
  assumes inv: "hub_inv h" and walk: "walk_ok walk (hub_fs h) (sc_dir sc) (sc_ignorer sc)"
    and envs: "\<And>i. env_sql (envs i) = no_faults"
    and room: "log_seq (hub_db h) + int (length (found_changes walk sc h)) \<le> max_int64"
    and scan: "FullScan walk sc no_faults envs h = (h', Inr ())"
  shows "found_changes walk sc h' = []"
proof -
  obtain h'' where h'': "FullScan walk sc no_faults envs h = (h'', Inr ())" "hub_inv h''" "hub_fs h'' = hub_fs h"
    and onfile: "\<And>p. scan_file sc h p \<Longrightarrow> \<exists>r. entry_row p h'' = Some r \<and> \<not> is_unpinned r \<and>
         digest_of_blob (hr_digest r) = found_digest sc h p \<and>
         (entry_row p h'' = entry_row p h \<or>
          hr_size r = Some (int (length (file_data (scan_node sc h p)))) \<and> hr_mtime r = Some (file_mtime (scan_node sc h p)))"
    and gone: "\<And>p. \<not> scan_file sc h p \<Longrightarrow>
         entry_row p h'' = (case entry_row p h of None \<Rightarrow> None | Some r \<Rightarrow> if is_unpinned r then Some r else None)"
    by (rule FullScan_result [where envs = envs, OF inv walk envs room]) blast
  with scan have [simp]: "h'' = h'" by simp
  have same: "scan_file sc h' p = scan_file sc h p" "scan_node sc h' p = scan_node sc h p" for p
    using h''(3) by (simp_all add: scan_file_def scan_node_def)
  have "(if scan_file sc h' p then Some (found_digest sc h' p) else None) = map_option te_digest (baseline h' p)" for p
  proof (cases "scan_file sc h p")
    case True
    from onfile [OF this] obtain r where r: "entry_row p h' = Some r" "\<not> is_unpinned r"
      "digest_of_blob (hr_digest r) = found_digest sc h p"
      "entry_row p h' = entry_row p h \<or>
          hr_size r = Some (int (length (file_data (scan_node sc h p)))) \<and> hr_mtime r = Some (file_mtime (scan_node sc h p))"
      by auto
    then have base: "baseline h' p = Some (row_tree r)" by (simp add: baseline_def)
    have "found_digest sc h' p = found_digest sc h p"
      using r(4)
    proof
      assume "entry_row p h' = entry_row p h"
      then show ?thesis by (simp add: found_digest_def baseline_def same)
    next
      assume "hr_size r = Some (int (length (file_data (scan_node sc h p)))) \<and> hr_mtime r = Some (file_mtime (scan_node sc h p))"
      with r(3) show ?thesis
        by (auto simp: found_digest_def [of _ h'] found_digest_def [of _ h] base same scan_digest_def row_tree_def
            HubEntry_TreeEntry_def toEntry_def split: option.splits if_splits)
    qed
    with True base r(3) show ?thesis by (simp add: same row_tree_def HubEntry_TreeEntry_def)
  next
    case False
    with gone [OF this] show ?thesis by (auto simp: same baseline_def split: option.split)
  qed
  then have "p \<notin> ce_path ` set (found_changes walk sc h')" for p
    using found_changes_spec(3) [of h' walk sc p] h''(2,3) walk by simp
  then have "c \<notin> set (found_changes walk sc h')" for c by (metis imageI)
  then show ?thesis by (metis list.set_intros(1) neq_Nil_conv)
qed

section \<open>Properties of the hub\<close>

text \<open>The cached digests are honest: a row that matches a file in size and time has its hash.\<close>

definition honest_cache :: "ScannerCfg \<Rightarrow> Hub \<Rightarrow> bool" where
  "honest_cache sc h \<longleftrightarrow>
     (\<forall>p t. scan_file sc h p \<longrightarrow> baseline h p = Some t \<longrightarrow>
        te_mtime t = file_mtime (scan_node sc h p) \<longrightarrow> te_size t = int (length (file_data (scan_node sc h p))) \<longrightarrow>
        te_digest t \<noteq> [] \<longrightarrow> te_digest t = hash_sum (sc_hasher sc) (file_data (scan_node sc h p)))"

lemma honest_found_digest:
  "honest_cache sc h \<Longrightarrow> scan_file sc h p \<Longrightarrow>
     found_digest sc h p = hash_sum (sc_hasher sc) (file_data (scan_node sc h p))"
  by (auto simp: honest_cache_def found_digest_def scan_digest_def split: option.split)


definition ex_cfg :: ScannerCfg where
  "ex_cfg = \<lparr>sc_dir = [''hub''], sc_ignorer = IsIgnored None,
     sc_hasher = \<lparr>hash_name = DefaultHash, hash_sum = (\<lambda>d. 9 # d)\<rparr>\<rparr>"

definition ex_hub :: Hub where
  "ex_hub = \<lparr>hub_db = empty_store, hub_bc = NewBroadcaster,
     hub_fs = [([''hub''], NDir), ([''hub'', ''a''], NFile [1, 2] 420 5)]\<rparr>"

lemma ex_hub_ok:
  "hub_inv ex_hub" "honest_cache ex_cfg ex_hub"
  "log_seq (hub_db ex_hub) + int (length (found_changes walk_list ex_cfg ex_hub)) \<le> max_int64"
proof -
  show "hub_inv ex_hub"
    by (simp add: hub_inv_def ex_hub_def store_inv_empty bc_inv_def NewBroadcaster_def)
  show "honest_cache ex_cfg ex_hub"
    by (simp add: honest_cache_def baseline_def ex_hub_def empty_store_def)
  show "log_seq (hub_db ex_hub) + int (length (found_changes walk_list ex_cfg ex_hub)) \<le> max_int64"
    by code_simp
qed


text \<open>
  Scanning is idempotent: after a successful scan, scanning the unchanged directory again appends
  nothing to the log, changes no row and broadcasts nothing.
\<close>

theorem full_scan_idempotent:
  assumes "hub_inv h" "walk_ok walk (hub_fs h) (sc_dir sc) (sc_ignorer sc)"
    and "\<forall>i. env_sql (envs i) = no_faults"
    and "log_seq (hub_db h) + int (length (found_changes walk sc h)) \<le> max_int64"
    and "FullScan walk sc no_faults envs h = (h', Inr ())"
  shows "FullScan walk sc no_faults envs' h' = (h', Inr ())"
proof -
  have envs: "\<And>i. env_sql (envs i) = no_faults" using assms(3) by blast
  obtain h'' where "FullScan walk sc no_faults envs h = (h'', Inr ())" "hub_inv h''" "hub_fs h'' = hub_fs h"
    by (rule FullScan_result [where envs = envs, OF assms(1,2) envs assms(4)]) blast
  with assms have "FullScan walk sc no_faults envs' h' = append_changes envs' (found_changes walk sc h') h'"
    using found_changes_spec(1) [of h' walk sc envs'] by simp
  with FullScan_settled [where envs = envs, OF assms(1,2) envs assms(4,5)] show ?thesis by simp
qed

theorem full_scan_idempotent_witness:
  "\<exists>h'. FullScan walk_list ex_cfg no_faults (\<lambda>i. env_at (int i)) ex_hub = (h', Inr ()) \<and>
     change_log (hub_db h') \<noteq> [] \<and>
     FullScan walk_list ex_cfg no_faults (\<lambda>i. env_at (9 + int i)) h' = (h', Inr ())"
proof -
  let ?r = "FullScan walk_list ex_cfg no_faults (\<lambda>i. env_at (int i)) ex_hub"
  have "snd ?r = Inr () \<and> change_log (hub_db (fst ?r)) \<noteq> []" by code_simp
  then obtain h' where h': "?r = (h', Inr ())" "change_log (hub_db h') \<noteq> []" by (cases ?r) auto
  have "\<forall>i. env_sql (env_at (int i)) = no_faults" by (simp add: env_at_def)
  from full_scan_idempotent [where envs = "\<lambda>i. env_at (int i)", OF ex_hub_ok(1) walk_list_ok this ex_hub_ok(3) h'(1)]
  show ?thesis using h' by blast
qed

text \<open>Every use of a broadcaster: subscribers come and go, events are sent and received.\<close>

inductive bc_step :: "Broadcaster \<Rightarrow> Broadcaster \<Rightarrow> bool" where
  bc_subscribe: "bc_step b (fst (Subscribe b))"
| bc_unsubscribe: "ch \<in> set (bc_subs b) \<Longrightarrow> Unsubscribe ch b = Some b' \<Longrightarrow> bc_step b b'"
| bc_broadcast: "Broadcast e b = Some b' \<Longrightarrow> bc_step b b'"
| bc_recv: "recv ch b = Some (e, b') \<Longrightarrow> bc_step b b'"

lemma bc_reachable_inv: "bc_step\<^sup>*\<^sup>* NewBroadcaster b \<Longrightarrow> bc_inv b"
proof (induction rule: rtranclp_induct)
  case base
  show ?case by (simp add: bc_inv_def NewBroadcaster_def)
next
  case (step b b')
  from step.hyps(2) step.IH show ?case
  proof (cases rule: bc_step.cases)
    case (bc_broadcast e)
    with Broadcast_inv_result [OF step.IH, of e] show ?thesis by auto
  qed (auto intro: Subscribe_inv Unsubscribe_inv recv_inv)
qed

text \<open>
  In every reachable state of the broadcaster a broadcast does not panic and a subscriber can be
  removed without a panic; the event goes to the end of the buffer of every subscriber whose
  buffer has room, is dropped for one whose 256 slots are full, and no other channel changes.
\<close>

theorem broadcast_fans_out:
  assumes "bc_step\<^sup>*\<^sup>* NewBroadcaster b"
  shows "(\<exists>b'. Broadcast e b = Some b' \<and> bc_subs b' = bc_subs b \<and>
       (\<forall>ch < length (bc_chans b). ch_buf (bc_chans b' ! ch) =
          (if ch \<in> set (bc_subs b) \<and> length (ch_buf (bc_chans b ! ch)) < 256
           then ch_buf (bc_chans b ! ch) @ [e] else ch_buf (bc_chans b ! ch)))) \<and>
     (\<forall>ch \<in> set (bc_subs b). Unsubscribe ch b \<noteq> None)"
proof -
  from assms have inv: "bc_inv b" by (rule bc_reachable_inv)
  from Broadcast_inv_result [OF this, of e] obtain b' where
    "Broadcast e b = Some b'" "bc_subs b' = bc_subs b"
    "\<forall>i < length (bc_chans b). bc_chans b' ! i =
        (if i \<in> set (bc_subs b) then enqueue e (bc_chans b ! i) else bc_chans b ! i)" by blast
  moreover have "\<forall>ch \<in> set (bc_subs b). Unsubscribe ch b \<noteq> None"
    using inv by (simp add: bc_inv_def Unsubscribe_def)
  ultimately show ?thesis by (auto simp: enqueue_def channel_cap_def)
qed

theorem broadcast_fans_out_witness:
  "\<exists>b'. Broadcast (delete_change ''x'' 0) (fst (Subscribe NewBroadcaster)) = Some b' \<and>
     ch_buf (bc_chans b' ! 0) = [delete_change ''x'' 0]"
proof -
  have "bc_step\<^sup>*\<^sup>* NewBroadcaster (fst (Subscribe NewBroadcaster))"
    by (rule r_into_rtranclp) (rule bc_subscribe)
  from broadcast_fans_out [OF this, of "delete_change ''x'' 0"] show ?thesis
    by (auto simp: Subscribe_def NewBroadcaster_def Let_def)
qed

end
