(* ===== verification/Push.thy ===== *)
theory Push
  imports Hub
begin

text \<open>
  Client pushes on the hub side (\<^verbatim>\<open>push.go\<close>, messages of \<^verbatim>\<open>hubsync.proto\<close>): each operation is checked
  against the version of the path in the log, written to disk, appended and broadcast. The
  lemmas show what each branch does to the files, the database and the subscribers, and that
  two edits based on the same version cannot both be accepted unless a policy forces it.
\<close>

section \<open>Messages\<close>

text \<open>Protobuf enums are open: a value without a name is kept as a number.\<close>

datatype OpKind = OpKind_OP_CREATE | OpKind_OP_UPDATE | OpKind_OP_DELETE | OpKind_other int

datatype ConflictPolicy =
    ConflictPolicy_FAIL | ConflictPolicy_HUB_WINS | ConflictPolicy_CLIENT_WINS | ConflictPolicy_other int

record PushOp =
  po_path :: string
  po_op :: OpKind
  po_base_version :: uint64
  po_digest :: bytes
  po_data :: bytes

record PushRequest =
  pq_ops :: "PushOp list"
  pq_on_conflict :: ConflictPolicy

datatype PushOutcome =
    PushAccepted (acc_version: uint64)
  | PushConflict (conf_reason: string) (conf_version: uint64) (conf_digest: bytes)

record PushResult =
  ps_path :: string
  ps_outcome :: PushOutcome

definition push_result :: "PushOp \<Rightarrow> PushOutcome \<Rightarrow> PushResult" where
  "push_result po out = \<lparr>ps_path = po_path po, ps_outcome = out\<rparr>"

section \<open>Operations\<close>

text \<open>
  \<^verbatim>\<open>versionForEntry\<close>: the largest version of a log row of this path that is no delete; a query
  error, or no such row (MAX is NULL), gives 0.
\<close>

definition versionForEntry :: "sql_faults \<Rightarrow> HubStore \<Rightarrow> TreeEntry \<Rightarrow> int" where
  "versionForEntry sql s entry =
     (case sql SQL_SELECT of
        Some _ \<Rightarrow> 0
      | None \<Rightarrow>
          (let vs = map cl_version (filter (\<lambda>r. cl_path r = te_path entry \<and> cl_op r \<noteq> OpDelete) (change_log s))
           in if vs = [] then 0 else Max (set vs)))"

text \<open>
  Append an entry and broadcast it with its version, as both write paths of a push end. A
  panic of the broadcast is the outer error.
\<close>

definition append_and_broadcast :: "env \<Rightarrow> PushOp \<Rightarrow> ChangeEntry \<Rightarrow> Hub \<Rightarrow> Hub \<times> PushResult res" where
  "append_and_broadcast en po entry h =
     (case Append en entry (hub_db h) of
        (s, Inl er) \<Rightarrow>
          (h\<lparr>hub_db := s\<rparr>, Inr (push_result po (PushConflict (''store error: '' @ err_str er) 0 [])))
      | (s, Inr version) \<Rightarrow>
          (case Broadcast (entry\<lparr>ce_version := version\<rparr>) (hub_bc h) of
             None \<Rightarrow> (h\<lparr>hub_db := s\<rparr>, Inl panic_closed)
           | Some bc \<Rightarrow>
               (h\<lparr>hub_db := s, hub_bc := bc\<rparr>, Inr (push_result po (PushAccepted (word_of_int version))))))"

definition accepted_entry :: "Hasher \<Rightarrow> int \<Rightarrow> PushOp \<Rightarrow> ChangeOp \<Rightarrow> ChangeEntry" where
  "accepted_entry hasher now po changeOp =
     \<lparr>ce_version = 0, ce_path = po_path po, ce_op = changeOp, ce_kind = FileKindFile,
      ce_digest = hash_sum hasher (po_data po), ce_size = int (length (po_data po)),
      ce_mode = 420, ce_mtime = now\<rparr>"

definition acceptWrite :: "ScannerCfg \<Rightarrow> env \<Rightarrow> PushOp \<Rightarrow> ChangeOp \<Rightarrow> Hub \<Rightarrow> Hub \<times> PushResult res" where
  "acceptWrite sc en po changeOp h =
     (let fullPath = filepath_Join (sc_dir sc) (po_path po) in
      case os_MkdirAll (filepath_Dir fullPath) (hub_fs h) of
        (f, Inl er) \<Rightarrow> (h\<lparr>hub_fs := f\<rparr>, Inr (push_result po (PushConflict (''mkdir: '' @ err_str er) 0 [])))
      | (f, Inr _) \<Rightarrow>
     (case os_WriteFile (env_now en) fullPath (po_data po) 420 f of
        (f', Inl er) \<Rightarrow> (h\<lparr>hub_fs := f'\<rparr>, Inr (push_result po (PushConflict (''write: '' @ err_str er) 0 [])))
      | (f', Inr _) \<Rightarrow>
          append_and_broadcast en po (accepted_entry (sc_hasher sc) (env_now en) po changeOp)
            (h\<lparr>hub_fs := f'\<rparr>)))"

definition pushCreate :: "ScannerCfg \<Rightarrow> env \<Rightarrow> PushOp \<Rightarrow> ConflictPolicy \<Rightarrow> Hub \<Rightarrow> Hub \<times> PushResult res" where
  "pushCreate sc en po policy h =
     (case TreeLookup (env_sql en) (po_path po) (hub_db h) of
        None \<Rightarrow> acceptWrite sc en po OpCreate h
      | Some existing \<Rightarrow>
          if policy = ConflictPolicy_CLIENT_WINS then acceptWrite sc en po OpUpdate h
          else (h, Inr (push_result po (PushConflict ''file already exists''
                 (word_of_int (versionForEntry (env_sql en) (hub_db h) existing)) (te_digest existing)))))"

text \<open>The dash in the message is the three bytes of its UTF-8 form.\<close>

definition hub_wins_reason :: string where
  "hub_wins_reason =
     ''version conflict (hub wins '' @ [CHR 0xE2, CHR 0x80, CHR 0x94] @ '' change dropped)''"

definition pushUpdate :: "ScannerCfg \<Rightarrow> env \<Rightarrow> PushOp \<Rightarrow> ConflictPolicy \<Rightarrow> Hub \<Rightarrow> Hub \<times> PushResult res" where
  "pushUpdate sc en po policy h =
     (case TreeLookup (env_sql en) (po_path po) (hub_db h) of
        None \<Rightarrow> (h, Inr (push_result po (PushConflict ''file not found on hub'' 0 [])))
      | Some existing \<Rightarrow>
          let currentVersion = versionForEntry (env_sql en) (hub_db h) existing in
          if word_of_int currentVersion = po_base_version po then acceptWrite sc en po OpUpdate h
          else if policy = ConflictPolicy_CLIENT_WINS then acceptWrite sc en po OpUpdate h
          else if policy = ConflictPolicy_HUB_WINS
          then (h, Inr (push_result po (PushConflict hub_wins_reason
                 (word_of_int currentVersion) (te_digest existing))))
          else (h, Inr (push_result po (PushConflict ''version conflict''
                 (word_of_int currentVersion) (te_digest existing)))))"

definition pushDelete :: "ScannerCfg \<Rightarrow> env \<Rightarrow> PushOp \<Rightarrow> ConflictPolicy \<Rightarrow> Hub \<Rightarrow> Hub \<times> PushResult res" where
  "pushDelete sc en po policy h =
     (case TreeLookup (env_sql en) (po_path po) (hub_db h) of
        None \<Rightarrow> (h, Inr (push_result po (PushAccepted 0)))
      | Some existing \<Rightarrow>
          let currentVersion = versionForEntry (env_sql en) (hub_db h) existing in
          if word_of_int currentVersion \<noteq> po_base_version po \<and> policy = ConflictPolicy_FAIL
          then (h, Inr (push_result po (PushConflict ''version conflict on delete''
                 (word_of_int currentVersion) (te_digest existing))))
          else
            append_and_broadcast en po (delete_change (po_path po) (env_now en))
              (h\<lparr>hub_fs := fst (os_Remove (filepath_Join (sc_dir sc) (po_path po)) (hub_fs h))\<rparr>))"

definition processPushOp :: "ScannerCfg \<Rightarrow> env \<Rightarrow> PushOp \<Rightarrow> ConflictPolicy \<Rightarrow> Hub \<Rightarrow> Hub \<times> PushResult res" where
  "processPushOp sc en po policy h =
     (case po_op po of
        OpKind_OP_CREATE \<Rightarrow> pushCreate sc en po policy h
      | OpKind_OP_UPDATE \<Rightarrow> pushUpdate sc en po policy h
      | OpKind_OP_DELETE \<Rightarrow> pushDelete sc en po policy h
      | OpKind_other n \<Rightarrow> (h, Inr (push_result po (PushConflict (''unknown op kind: '' @ fmt_d n) 0 []))))"

fun process_ops :: "ScannerCfg \<Rightarrow> (nat \<Rightarrow> env) \<Rightarrow> ConflictPolicy \<Rightarrow> PushOp list \<Rightarrow> Hub \<Rightarrow> Hub \<times> PushResult list res" where
  "process_ops sc envs policy [] h = (h, Inr [])"
| "process_ops sc envs policy (po # pos) h =
     (case processPushOp sc (envs 0) po policy h of
        (h', Inl er) \<Rightarrow> (h', Inl er)
      | (h', Inr r) \<Rightarrow>
          (case process_ops sc (\<lambda>i. envs (Suc i)) policy pos h' of
             (h'', Inl er) \<Rightarrow> (h'', Inl er)
           | (h'', Inr rs) \<Rightarrow> (h'', Inr (r # rs))))"

definition ProcessPush :: "ScannerCfg \<Rightarrow> (nat \<Rightarrow> env) \<Rightarrow> PushRequest \<Rightarrow> Hub \<Rightarrow> Hub \<times> PushResult list res" where
  "ProcessPush sc envs req h = process_ops sc envs (pq_on_conflict req) (pq_ops req) h"

section \<open>Versions of entries\<close>

text \<open>The version of the last event of every path, as a replay of the log.\<close>

definition change_version :: "ChangeEntry \<Rightarrow> int option" where
  "change_version c = (if ce_op c = OpDelete then None else Some (ce_version c))"

lemma change_version_row:
  "change_version (toChangeEntry r) = (if cl_op r = OpDelete then None else Some (cl_version r))"
  by (simp add: change_version_def toChangeEntry_def)

definition log_version :: "changeLogRow list \<Rightarrow> string \<Rightarrow> int option" where
  "log_version log = replay cl_path (\<lambda>r. change_version (toChangeEntry r)) log Map.empty"

lemma tree_of_change_row: "tree_of_change (toChangeEntry r) = None \<longleftrightarrow> cl_op r = OpDelete"
  by (simp add: tree_of_change_def toChangeEntry_def)

lemma max_version_log:
  assumes "map cl_version log = map int [1..<Suc (length log)]" "log_tree log p \<noteq> None"
  shows "\<exists>vs. map cl_version (filter (\<lambda>r. cl_path r = p \<and> cl_op r \<noteq> OpDelete) log) = vs \<and> vs \<noteq> [] \<and>
     log_version log p = Some (Max (set vs))"
  using assms
proof (induction log rule: rev_induct)
  case Nil
  then show ?case by (simp add: log_tree_def)
next
  case (snoc r log)
  then have v: "cl_version r = int (length log) + 1" and vs: "map cl_version log = map int [1..<Suc (length log)]"
    by simp_all
  let ?P = "\<lambda>r. cl_path r = p \<and> cl_op r \<noteq> OpDelete"
  have lt: "x < cl_version r" if "x \<in> set (map cl_version (filter ?P log))" for x
  proof -
    from that have "x \<in> set (map cl_version log)" by auto
    then show ?thesis unfolding vs v by (auto simp del: upt_Suc)
  qed
  show ?case
  proof (cases "cl_path r = p")
    case True
    with snoc.prems(2) have op: "cl_op r \<noteq> OpDelete"
      by (auto simp: log_tree_def replay_append tree_of_change_row)
    have "Max (set (map cl_version (filter ?P log) @ [cl_version r])) = cl_version r"
      by (rule Max_eqI) (use lt in \<open>auto intro: less_imp_le\<close>)
    with True op show ?thesis
      by (simp add: log_version_def replay_append change_version_row)
  next
    case False
    with snoc show ?thesis by (simp add: log_tree_def log_version_def replay_append)
  qed
qed

lemma versionForEntry_log:
  assumes "store_inv s" "TreeLookup no_faults p s = Some e"
  shows "te_path e = p" "log_version (change_log s) p = Some (versionForEntry no_faults s e)"
    "versionForEntry no_faults s e \<le> log_seq s" "0 < versionForEntry no_faults s e"
proof -
  from assms(2) obtain r where "tbl_lookup hr_path p (hub_entry s) = Some r" "e = row_tree r"
    by (auto simp: TreeLookup_view tree_view_def tbl_map_def)
  then show p: "te_path e = p"
    using tbl_lookup_SomeD [of hr_path p "hub_entry s"] by (simp add: row_tree_def HubEntry_TreeEntry_def)
  have log: "map cl_version (change_log s) = map int [1..<Suc (length (change_log s))]"
    "log_tree (change_log s) p \<noteq> None"
    using assms by (auto simp: store_inv_def TreeLookup_view)
  let ?vs = "map cl_version (filter (\<lambda>r. cl_path r = p \<and> cl_op r \<noteq> OpDelete) (change_log s))"
  from max_version_log [OF log] have vs: "?vs \<noteq> []" "log_version (change_log s) p = Some (Max (set ?vs))" by auto
  then show "log_version (change_log s) p = Some (versionForEntry no_faults s e)"
    by (simp add: versionForEntry_def p Let_def)
  have "Max (set ?vs) \<in> set ?vs" using vs(1) by (intro Max_in) (simp_all del: set_map add: set_empty)
  then have "Max (set ?vs) \<in> set (map cl_version (change_log s))" by auto
  then have "0 < Max (set ?vs) \<and> Max (set ?vs) \<le> int (length (change_log s))"
    unfolding log(1) by (auto simp del: upt_Suc)
  moreover have "versionForEntry no_faults s e = Max (set ?vs)"
    using vs(1) by (simp add: versionForEntry_def p Let_def)
  ultimately show "versionForEntry no_faults s e \<le> log_seq s" "0 < versionForEntry no_faults s e"
    using assms(1) by (simp_all add: store_inv_def)
qed

lemma log_version_snoc:
  "log_version (log @ [new_log_row e v]) = (log_version log)(ce_path e := if ce_op e = OpDelete then None else Some v)"
  by (simp add: log_version_def replay_append change_version_def)

section \<open>What an operation does\<close>

lemma push_result_sel [simp]: "ps_path (push_result po out) = po_path po" "ps_outcome (push_result po out) = out"
  by (simp_all add: push_result_def)

lemma append_and_broadcast_cases:
  assumes "hub_inv h"
  obtains (store_error) er where "append_and_broadcast en po entry h =
      (h, Inr (push_result po (PushConflict (''store error: '' @ err_str er) 0 [])))"
    "env_sql en \<noteq> no_faults \<or> log_seq (hub_db h) = max_int64"
  | (accepted) s bc where "append_and_broadcast en po entry h =
      (h\<lparr>hub_db := s, hub_bc := bc\<rparr>, Inr (push_result po (PushAccepted (word_of_int (log_seq (hub_db h) + 1)))))"
    "Append en entry (hub_db h) = (s, Inr (log_seq (hub_db h) + 1))"
    "Broadcast (entry\<lparr>ce_version := log_seq (hub_db h) + 1\<rparr>) (hub_bc h) = Some bc"
    "hub_inv (h\<lparr>hub_db := s, hub_bc := bc\<rparr>)"
proof (cases rule: Append_cases [of en entry "hub_db h"])
  case (error er)
  moreover have "env_sql en \<noteq> no_faults \<or> log_seq (hub_db h) = max_int64"
    using error Append_no_faults [of "hub_db h" en entry] by auto
  ultimately show ?thesis using store_error [of er] by (simp add: append_and_broadcast_def)
next
  case ok
  let ?v = "log_seq (hub_db h) + 1"
  from assms Broadcast_inv_result [of "hub_bc h" "entry\<lparr>ce_version := ?v\<rparr>"] obtain bc where
    bc: "Broadcast (entry\<lparr>ce_version := ?v\<rparr>) (hub_bc h) = Some bc" "bc_inv bc"
    by (auto simp: hub_inv_def)
  obtain s where s: "Append en entry (hub_db h) = (s, Inr ?v)" using ok by simp
  have "store_inv s" using Append_inv [of "hub_db h" en entry] assms s by (simp add: hub_inv_def)
  with s bc accepted [of bc s] show ?thesis by (simp add: append_and_broadcast_def hub_inv_def)
qed

text \<open>What every branch of a push keeps: invariants, no panic, and no store change on a conflict.\<close>

definition push_safe :: "Hub \<Rightarrow> PushOp \<Rightarrow> Hub \<times> PushResult res \<Rightarrow> bool" where
  "push_safe h po out \<longleftrightarrow>
     hub_inv (fst out) \<and>
     (\<exists>r. snd out = Inr r \<and> ps_path r = po_path po \<and>
        (case ps_outcome r of
           PushAccepted v \<Rightarrow>
             hub_db (fst out) = hub_db h \<and> v = 0 \<or>
             v = word_of_int (log_seq (hub_db h) + 1) \<and> log_seq (hub_db (fst out)) = log_seq (hub_db h) + 1
         | PushConflict _ _ _ \<Rightarrow> hub_db (fst out) = hub_db h \<and> hub_bc (fst out) = hub_bc h))"

lemma append_and_broadcast_safe:
  assumes "hub_inv h" "h' = h\<lparr>hub_fs := f\<rparr>"
  shows "push_safe h po (append_and_broadcast en po entry h')"
proof -
  from assms have "hub_inv h'" by (simp add: hub_inv_def)
  then show ?thesis
  proof (cases rule: append_and_broadcast_cases [where en = en and po = po and entry = entry])
    case (store_error er)
    with assms show ?thesis by (simp add: push_safe_def hub_inv_def)
  next
    case (accepted s bc)
    moreover have "log_seq s = log_seq (hub_db h') + 1"
      using accepted(2) by (cases rule: Append_cases [of en entry "hub_db h'"]) auto
    ultimately show ?thesis using assms by (simp add: push_safe_def)
  qed
qed

lemma acceptWrite_safe: "hub_inv h \<Longrightarrow> push_safe h po (acceptWrite sc en po changeOp h)"
  by (auto simp: acceptWrite_def Let_def append_and_broadcast_safe push_safe_def [of _ _ "(_, Inr (push_result _ (PushConflict _ _ _)))"]
        hub_inv_def split: prod.split sum.split)

lemma processPushOp_safe: "hub_inv h \<Longrightarrow> push_safe h po (processPushOp sc en po policy h)"
  using append_and_broadcast_safe [of h]
  by (auto simp: processPushOp_def pushCreate_def pushUpdate_def pushDelete_def Let_def acceptWrite_safe
        push_safe_def [of _ _ "(_, Inr (push_result _ _))"] split: OpKind.split option.split)

lemma process_ops_safe:
  "hub_inv h \<Longrightarrow> \<exists>h' rs. process_ops sc envs policy pos h = (h', Inr rs) \<and>
     map ps_path rs = map po_path pos \<and> hub_inv h'"
proof (induction pos arbitrary: envs h)
  case Nil
  then show ?case by simp
next
  case (Cons po pos)
  from processPushOp_safe [OF Cons.prems, of po sc "envs 0" policy] obtain h' r where
    "processPushOp sc (envs 0) po policy h = (h', Inr r)" "ps_path r = po_path po" "hub_inv h'"
    by (auto simp: push_safe_def prod_eq_iff)
  with Cons.IH [of h' "\<lambda>i. envs (Suc i)"] show ?case by auto
qed

text \<open>A write that the file system allows.\<close>

definition writable :: "fs \<Rightarrow> fpath \<Rightarrow> bool" where
  "writable f p \<longleftrightarrow> snd (os_MkdirAll (filepath_Dir p) f) = Inr () \<and> \<not> is_dir f p"

lemma writable_write:
  assumes "writable f p"
  obtains f' f'' where "os_MkdirAll (filepath_Dir p) f = (f', Inr ())" "os_WriteFile now p d mode f' = (f'', Inr ())"
    "os_ReadFile f'' p = Inr d"
proof -
  obtain f' where f': "os_MkdirAll (filepath_Dir p) f = (f', Inr ())"
    using assms by (cases "os_MkdirAll (filepath_Dir p) f") (auto simp: writable_def)
  have "p \<noteq> []" using assms by (auto simp: writable_def is_dir_def fs_node_def)
  then have "\<not> prefix p (filepath_Dir p)"
    by (metis append_butlast_last_id filepath_Dir_def not_Cons_self2 prefixE prefix_order.antisym
        prefixI self_append_conv)
  then have "\<not> is_dir f' p"
    using assms os_MkdirAll_node [of "filepath_Dir p" f p] f' by (auto simp: writable_def is_dir_def)
  moreover have "is_dir f' (butlast p)"
    using os_MkdirAll_dir [of "filepath_Dir p" f "butlast p"] f' by (simp add: filepath_Dir_def)
  ultimately have ok: "snd (os_WriteFile now p d mode f') = Inr ()"
    by (auto simp: os_WriteFile_def is_dir_def split: option.split node.split)
  then obtain f'' where f'': "os_WriteFile now p d mode f' = (f'', Inr ())"
    by (cases "os_WriteFile now p d mode f'") auto
  from os_WriteFile_node(1) [OF ok] f'' have "os_ReadFile f'' p = Inr d" by (auto simp: os_ReadFile_def)
  with f' f'' that show ?thesis by blast
qed

text \<open>The request is one the version check lets through.\<close>

definition push_current :: "HubStore \<Rightarrow> PushOp \<Rightarrow> bool" where
  "push_current s po \<longleftrightarrow>
     (case TreeLookup no_faults (po_path po) s of
        None \<Rightarrow> po_op po = OpKind_OP_CREATE
      | Some e \<Rightarrow> po_op po = OpKind_OP_UPDATE \<and> po_base_version po = word_of_int (versionForEntry no_faults s e))"

definition push_change :: "ScannerCfg \<Rightarrow> env \<Rightarrow> PushOp \<Rightarrow> ChangeEntry" where
  "push_change sc en po =
     accepted_entry (sc_hasher sc) (env_now en) po (if po_op po = OpKind_OP_CREATE then OpCreate else OpUpdate)"

lemma push_current_accepts:
  assumes "push_current (hub_db h) po" "env_sql en = no_faults"
  shows "processPushOp sc en po policy h =
     acceptWrite sc en po (if po_op po = OpKind_OP_CREATE then OpCreate else OpUpdate) h"
  using assms
  by (auto simp: push_current_def processPushOp_def pushCreate_def pushUpdate_def Let_def split: option.splits)

lemma acceptWrite_ok:
  assumes "hub_inv h" "env_sql en = no_faults" "log_seq (hub_db h) \<noteq> max_int64"
    and "writable (hub_fs h) (filepath_Join (sc_dir sc) (po_path po))"
  obtains h' where "acceptWrite sc en po changeOp h =
      (h', Inr (push_result po (PushAccepted (word_of_int (log_seq (hub_db h) + 1)))))"
    "os_ReadFile (hub_fs h') (filepath_Join (sc_dir sc) (po_path po)) = Inr (po_data po)"
    "Append en (accepted_entry (sc_hasher sc) (env_now en) po changeOp) (hub_db h) =
       (hub_db h', Inr (log_seq (hub_db h) + 1))"
    "Broadcast ((accepted_entry (sc_hasher sc) (env_now en) po changeOp)\<lparr>ce_version := log_seq (hub_db h) + 1\<rparr>)
       (hub_bc h) = Some (hub_bc h')" "hub_inv h'"
proof -
  let ?p = "filepath_Join (sc_dir sc) (po_path po)"
  from writable_write [OF assms(4)] obtain f' f'' where
    f: "os_MkdirAll (filepath_Dir ?p) (hub_fs h) = (f', Inr ())"
    "os_WriteFile (env_now en) ?p (po_data po) 420 f' = (f'', Inr ())" "os_ReadFile f'' ?p = Inr (po_data po)" .
  have inv: "hub_inv (h\<lparr>hub_fs := f''\<rparr>)" using assms(1) by (simp add: hub_inv_def)
  show ?thesis
  proof (cases rule: append_and_broadcast_cases [OF inv, where en = en and po = po
        and entry = "accepted_entry (sc_hasher sc) (env_now en) po changeOp"])
    case (1 er)
    with assms show ?thesis by simp
  next
    case (2 s bc)
    with f that [of "h\<lparr>hub_fs := f'', hub_db := s, hub_bc := bc\<rparr>"] show ?thesis
      by (simp add: acceptWrite_def Let_def)
  qed
qed

lemma TreeLookup_after_append:
  assumes "store_inv s" "Append en e s = (s', Inr v)" "ce_op e \<noteq> OpDelete"
  shows "TreeLookup no_faults (ce_path e) s' = tree_of_change e" "v = log_seq s + 1"
    "log_version (change_log s') (ce_path e) = Some v" "store_inv s'"
    "change_log s' = change_log s @ [new_log_row e v]"
proof -
  show "store_inv s'" using Append_inv [OF assms(1), of en e] assms(2) by simp
  show "TreeLookup no_faults (ce_path e) s' = tree_of_change e" "v = log_seq s + 1"
    "log_version (change_log s') (ce_path e) = Some v" "change_log s' = change_log s @ [new_log_row e v]"
    using assms(2,3)
    by (cases rule: Append_cases [of en e s];
        auto simp: TreeLookup_view tree_view_apply log_version_snoc)+
qed

section \<open>Properties of pushes\<close>

text \<open>
  Whatever the request and whatever statement of the database fails, a push answers every
  operation, in order and under its path, without a panic, and the hub's invariants hold
  afterwards.
\<close>

theorem push_answers_every_op:
  assumes "hub_inv h"
  shows "\<exists>h' rs. ProcessPush sc envs req h = (h', Inr rs) \<and>
     map ps_path rs = map po_path (pq_ops req) \<and> hub_inv h'"
  using process_ops_safe [OF assms] by (simp add: ProcessPush_def)

theorem push_answers_every_op_witness:
  "\<exists>h' rs. ProcessPush ex_cfg (\<lambda>i. env_at 7)
     \<lparr>pq_ops = [\<lparr>po_path = ''b'', po_op = OpKind_OP_CREATE, po_base_version = 0, po_digest = [], po_data = [3]\<rparr>],
      pq_on_conflict = ConflictPolicy_FAIL\<rparr> ex_hub = (h', Inr rs) \<and> map ps_path rs = [''b''] \<and> hub_inv h'"
  using push_answers_every_op [OF ex_hub_ok(1)] by force

text \<open>
  A push operation that ends in a conflict, whatever its reason, leaves the database and every
  subscriber as they were; one that is accepted with a version other than 0 adds exactly the
  next version.
\<close>

theorem push_conflict_changes_nothing:
  assumes "hub_inv h" "processPushOp sc en po policy h = (h', Inr r)"
  shows "case ps_outcome r of
      PushConflict reason v d \<Rightarrow> hub_db h' = hub_db h \<and> hub_bc h' = hub_bc h
    | PushAccepted v \<Rightarrow> v \<noteq> 0 \<longrightarrow>
        v = word_of_int (log_seq (hub_db h) + 1) \<and> LatestVersion no_faults (hub_db h') = Inr (log_seq (hub_db h) + 1)"
proof -
  from processPushOp_safe [OF assms(1), of po sc en policy] assms(2) have "push_safe h po (h', Inr r)" by simp
  moreover from this have "store_inv (hub_db h')" by (simp add: push_safe_def hub_inv_def)
  ultimately show ?thesis
    by (auto simp: push_safe_def LatestVersion_inv split: PushOutcome.splits)
qed

definition ex_op :: "OpKind \<Rightarrow> string \<Rightarrow> uint64 \<Rightarrow> PushOp" where
  "ex_op k p v = \<lparr>po_path = p, po_op = k, po_base_version = v, po_digest = [], po_data = [3]\<rparr>"

theorem push_conflict_changes_nothing_witness:
  "\<exists>h' r. processPushOp ex_cfg (env_at 7) (ex_op OpKind_OP_UPDATE ''b'' 4) ConflictPolicy_FAIL ex_hub = (h', Inr r) \<and>
     ps_outcome r = PushConflict ''file not found on hub'' 0 [] \<and> hub_db h' = hub_db ex_hub"
proof -
  let ?r = "push_result (ex_op OpKind_OP_UPDATE ''b'' 4) (PushConflict ''file not found on hub'' 0 [])"
  have "processPushOp ex_cfg (env_at 7) (ex_op OpKind_OP_UPDATE ''b'' 4) ConflictPolicy_FAIL ex_hub = (ex_hub, Inr ?r)"
    by (simp add: processPushOp_def ex_op_def pushUpdate_def TreeLookup_def EntryLookup_def ex_hub_def empty_store_def)
  from push_conflict_changes_nothing [OF ex_hub_ok(1) this] this show ?thesis by simp
qed

text \<open>
  A push that creates a path the hub does not have, or updates one at its current version, takes
  effect completely: the file holds the pushed bytes, the tree shows their hash and size at the next version, exactly
  this change is appended to the log, and every subscriber with room gets it.
\<close>

theorem push_write_takes_effect:
  assumes "hub_inv h" "env_sql en = no_faults" "log_seq (hub_db h) \<noteq> max_int64"
    and "push_current (hub_db h) po"
    and "writable (hub_fs h) (filepath_Join (sc_dir sc) (po_path po))"
  shows "\<exists>h' e. processPushOp sc en po policy h =
      (h', Inr (push_result po (PushAccepted (word_of_int (log_seq (hub_db h) + 1))))) \<and>
    os_ReadFile (hub_fs h') (filepath_Join (sc_dir sc) (po_path po)) = Inr (po_data po) \<and>
    TreeLookup no_faults (po_path po) (hub_db h') = Some e \<and>
    te_digest e = hash_sum (sc_hasher sc) (po_data po) \<and> te_size e = int (length (po_data po)) \<and>
    versionForEntry no_faults (hub_db h') e = log_seq (hub_db h) + 1 \<and>
    ChangesSince no_faults (log_seq (hub_db h)) (hub_db h') =
      Inr [(push_change sc en po)\<lparr>ce_version := log_seq (hub_db h) + 1\<rparr>] \<and>
    Broadcast ((push_change sc en po)\<lparr>ce_version := log_seq (hub_db h) + 1\<rparr>) (hub_bc h) = Some (hub_bc h')"
proof -
  let ?c = "push_change sc en po" and ?v = "log_seq (hub_db h) + 1"
  from acceptWrite_ok [OF assms(1-3,5)] obtain h' where
    acc: "acceptWrite sc en po (if po_op po = OpKind_OP_CREATE then OpCreate else OpUpdate) h =
      (h', Inr (push_result po (PushAccepted (word_of_int ?v))))"
    and file_ok: "os_ReadFile (hub_fs h') (filepath_Join (sc_dir sc) (po_path po)) = Inr (po_data po)"
    and app: "Append en ?c (hub_db h) = (hub_db h', Inr ?v)"
    and bc: "Broadcast (?c\<lparr>ce_version := ?v\<rparr>) (hub_bc h) = Some (hub_bc h')" and inv': "hub_inv h'"
    unfolding push_change_def by blast
  have c: "ce_path ?c = po_path po" "ce_op ?c \<noteq> OpDelete" by (simp_all add: push_change_def accepted_entry_def)
  have inv: "store_inv (hub_db h)" using assms(1) by (simp add: hub_inv_def)
  note after = TreeLookup_after_append [OF inv app c(2), unfolded c(1)]
  obtain e where e: "TreeLookup no_faults (po_path po) (hub_db h') = Some e"
    "te_digest e = hash_sum (sc_hasher sc) (po_data po)" "te_size e = int (length (po_data po))"
    using after(1) c(2) by (simp add: tree_of_change_def push_change_def accepted_entry_def)
  have "versionForEntry no_faults (hub_db h') e = ?v"
    using versionForEntry_log(2) [OF after(4) e(1)] after(3) by simp
  moreover have "ChangesSince no_faults (log_seq (hub_db h)) (hub_db h') = Inr [?c\<lparr>ce_version := ?v\<rparr>]"
    using ChangesSince_inv [OF after(4), of "length (change_log (hub_db h))"] after(5) inv
    by (simp add: store_inv_def)
  ultimately show ?thesis
    using acc file_ok e bc push_current_accepts [OF assms(4,2), of sc policy] by auto
qed

theorem push_write_takes_effect_witness:
  "\<exists>h'. processPushOp ex_cfg (env_at 7) (ex_op OpKind_OP_CREATE ''d/b'' 0) ConflictPolicy_FAIL ex_hub =
      (h', Inr (push_result (ex_op OpKind_OP_CREATE ''d/b'' 0) (PushAccepted 1))) \<and>
    os_ReadFile (hub_fs h') [''hub'', ''d'', ''b''] = Inr [3]"
proof -
  let ?po = "ex_op OpKind_OP_CREATE ''d/b'' 0"
  have cur: "push_current (hub_db ex_hub) ?po"
    by (simp add: push_current_def ex_op_def ex_hub_def empty_store_def TreeLookup_def EntryLookup_def)
  have wr: "writable (hub_fs ex_hub) (filepath_Join (sc_dir ex_cfg) (po_path ?po))" by code_simp
  have "log_seq (hub_db ex_hub) = 0" "(0::int) \<noteq> max_int64"
    by (simp_all add: ex_hub_def empty_store_def max_int64_def)
  moreover have "filepath_Join (sc_dir ex_cfg) (po_path ?po) = [''hub'', ''d'', ''b'']" "po_data ?po = [3]"
    by code_simp+
  ultimately show ?thesis
    using push_write_takes_effect [OF ex_hub_ok(1) _ _ cur wr, of "env_at 7"] by auto
qed



text \<open>
  A delete of an existing path under any policy other than FAIL is carried out even when it is
  based on a stale version: HUB_WINS does not protect the hub's newer content from a delete.
\<close>

theorem push_delete_ignores_hub_wins:
  assumes "hub_inv h" "env_sql en = no_faults" "log_seq (hub_db h) \<noteq> max_int64"
    and "TreeLookup no_faults (po_path po) (hub_db h) \<noteq> None" "po_op po = OpKind_OP_DELETE"
  shows "\<exists>h'. processPushOp sc en po ConflictPolicy_HUB_WINS h =
      (h', Inr (push_result po (PushAccepted (word_of_int (log_seq (hub_db h) + 1))))) \<and>
    TreeLookup no_faults (po_path po) (hub_db h') = None"
proof -
  let ?f = "fst (os_Remove (filepath_Join (sc_dir sc) (po_path po)) (hub_fs h))"
  let ?c = "delete_change (po_path po) (env_now en)"
  have inv: "hub_inv (h\<lparr>hub_fs := ?f\<rparr>)" using assms(1) by (simp add: hub_inv_def)
  have eq: "processPushOp sc en po ConflictPolicy_HUB_WINS h = append_and_broadcast en po ?c (h\<lparr>hub_fs := ?f\<rparr>)"
    using assms(2,4,5) by (auto simp: processPushOp_def pushDelete_def Let_def)
  show ?thesis
  proof (cases rule: append_and_broadcast_cases [OF inv, where en = en and po = po and entry = ?c])
    case (1 er)
    with assms show ?thesis by simp
  next
    case (2 s bc)
    then have "TreeLookup no_faults (po_path po) s = None"
      by (cases rule: Append_cases [of en ?c "hub_db h"])
         (auto simp: TreeLookup_view tree_view_apply tree_of_change_def)
    with 2 eq show ?thesis by simp
  qed
qed

theorem push_delete_ignores_hub_wins_witness:
  "\<exists>h h'. TreeLookup no_faults ''b'' (hub_db h) \<noteq> None \<and>
     processPushOp ex_cfg (env_at 8) (ex_op OpKind_OP_DELETE ''b'' 0) ConflictPolicy_HUB_WINS h =
       (h', Inr (push_result (ex_op OpKind_OP_DELETE ''b'' 0) (PushAccepted 2))) \<and>
     TreeLookup no_faults ''b'' (hub_db h') = None"
proof -
  let ?h = "fst (processPushOp ex_cfg (env_at 7) (ex_op OpKind_OP_CREATE ''b'' 0) ConflictPolicy_FAIL ex_hub)"
  have inv: "hub_inv ?h"
    using processPushOp_safe [OF ex_hub_ok(1)] by (auto simp: push_safe_def)
  have look: "TreeLookup no_faults ''b'' (hub_db ?h) \<noteq> None" and seq: "log_seq (hub_db ?h) = 1"
    by code_simp+
  from push_delete_ignores_hub_wins [OF inv, of "env_at 8" "ex_op OpKind_OP_DELETE ''b'' 0" ex_cfg] look seq
  show ?thesis by (auto simp: ex_op_def max_int64_def)
qed

text \<open>
  Push paths are not confined to the hub directory: a path with a parent reference is joined and
  cleaned, and the pushed bytes are written outside the directory.
\<close>

theorem push_path_escapes_directory:
  "\<exists>h'. processPushOp ex_cfg (env_at 7) (ex_op OpKind_OP_CREATE ''../etc/x'' 0) ConflictPolicy_FAIL ex_hub =
      (h', Inr (push_result (ex_op OpKind_OP_CREATE ''../etc/x'' 0) (PushAccepted 1))) \<and>
    os_ReadFile (hub_fs h') [''etc'', ''x''] = Inr [3]"
proof -
  let ?po = "ex_op OpKind_OP_CREATE ''../etc/x'' 0"
  let ?r = "processPushOp ex_cfg (env_at 7) ?po ConflictPolicy_FAIL ex_hub"
  have "snd ?r = Inr (push_result ?po (PushAccepted 1)) \<and> os_ReadFile (hub_fs (fst ?r)) [''etc'', ''x''] = Inr [3]"
    by code_simp
  then show ?thesis by (cases ?r) simp
qed

end
