(* ===== verification/Client_Store.thy ===== *)
theory Client_Store
  imports Push
begin

text \<open>
  The client's database (\<^verbatim>\<open>client_store.go\<close>) and the snapshot of it that the hub generates
  (\<^verbatim>\<open>snapshot.go\<close>): \<^verbatim>\<open>hub_tree\<close> mirrors the hub's tree, \<^verbatim>\<open>sync_state\<close> records the version reached and
  the hash algorithm. The lemmas show that \<^verbatim>\<open>ApplyChange\<close> is atomic and that \<^verbatim>\<open>hub_tree\<close> is a
  view of the event log.
\<close>

section \<open>Rows and tables\<close>

record hubTreeRow =
  ht_path :: string
  ht_kind :: int
  ht_digest :: "bytes option"
  ht_size :: int
  ht_mode :: uint32
  ht_mtime :: int
  ht_version :: int

record HubTreeEntry =
  hte_entry :: TreeEntry
  hte_version :: int

record ClientStore =
  hub_tree :: "hubTreeRow list"
  sync_state :: "(string \<times> string) list"

definition initClientSchema :: "ClientStore option \<Rightarrow> ClientStore" where
  "initClientSchema db = (case db of None \<Rightarrow> \<lparr>hub_tree = [], sync_state = []\<rparr> | Some s \<Rightarrow> s)"

text \<open>
  \<^verbatim>\<open>HubVersion\<close> and \<^verbatim>\<open>HashAlgo\<close> test \<^verbatim>\<open>!v.Valid\<close> before the error, and a failed query leaves \<^verbatim>\<open>v\<close>
  invalid: the error is never returned, the answer is 0 or the empty string.
\<close>

definition HubVersion :: "sql_faults \<Rightarrow> ClientStore \<Rightarrow> int res" where
  "HubVersion sql s =
     (case sql SQL_SELECT of
        Some _ \<Rightarrow> Inr 0
      | None \<Rightarrow>
          (case tbl_lookup fst ''hub_version'' (sync_state s) of
             None \<Rightarrow> Inr 0
           | Some kv \<Rightarrow> Inr (sscanf_d (snd kv))))"

definition HashAlgo :: "sql_faults \<Rightarrow> ClientStore \<Rightarrow> string res" where
  "HashAlgo sql s =
     (case sql SQL_SELECT of
        Some _ \<Rightarrow> Inr ''''
      | None \<Rightarrow>
          (case tbl_lookup fst ''hash_algo'' (sync_state s) of
             None \<Rightarrow> Inr ''''
           | Some kv \<Rightarrow> Inr (snd kv)))"

definition set_state :: "string \<Rightarrow> string \<Rightarrow> ClientStore \<Rightarrow> ClientStore" where
  "set_state k v s = s\<lparr>sync_state := tbl_replace fst (k, v) (sync_state s)\<rparr>"

definition SetHubVersion :: "sql_faults \<Rightarrow> int \<Rightarrow> ClientStore \<Rightarrow> ClientStore \<times> unit res" where
  "SetHubVersion sql version s =
     (case sql SQL_INSERT of
        Some m \<Rightarrow> (s, Inl (Sql_error m))
      | None \<Rightarrow> (set_state ''hub_version'' (fmt_d version) s, Inr ()))"

definition SetHashAlgo :: "sql_faults \<Rightarrow> string \<Rightarrow> ClientStore \<Rightarrow> ClientStore \<times> unit res" where
  "SetHashAlgo sql algo s =
     (case sql SQL_INSERT of
        Some m \<Rightarrow> (s, Inl (Sql_error m))
      | None \<Rightarrow> (set_state ''hash_algo'' algo s, Inr ()))"

definition tree_row :: "string \<Rightarrow> FileKind \<Rightarrow> Digest \<Rightarrow> int \<Rightarrow> uint32 \<Rightarrow> int \<Rightarrow> int \<Rightarrow> hubTreeRow" where
  "tree_row p kind digest sz mode mtime version =
     \<lparr>ht_path = p, ht_kind = kind, ht_digest = blob_of_digest digest, ht_size = sz, ht_mode = mode,
      ht_mtime = mtime, ht_version = version\<rparr>"

definition UpsertEntry :: "sql_faults \<Rightarrow> string \<Rightarrow> FileKind \<Rightarrow> Digest \<Rightarrow> int \<Rightarrow> uint32 \<Rightarrow> int \<Rightarrow> int \<Rightarrow>
    ClientStore \<Rightarrow> ClientStore \<times> unit res" where
  "UpsertEntry sql p kind digest sz mode mtime version s =
     (case sql SQL_INSERT of
        Some m \<Rightarrow> (s, Inl (Sql_error m))
      | None \<Rightarrow>
          (s\<lparr>hub_tree := tbl_replace ht_path (tree_row p kind digest sz mode mtime version) (hub_tree s)\<rparr>, Inr ()))"

definition DeleteEntry :: "sql_faults \<Rightarrow> string \<Rightarrow> ClientStore \<Rightarrow> ClientStore \<times> unit res" where
  "DeleteEntry sql p s =
     (case sql SQL_DELETE of
        Some m \<Rightarrow> (s, Inl (Sql_error m))
      | None \<Rightarrow> (s\<lparr>hub_tree := tbl_delete ht_path p (hub_tree s)\<rparr>, Inr ()))"

definition LookupByDigest :: "sql_faults \<Rightarrow> Digest \<Rightarrow> string \<Rightarrow> ClientStore \<Rightarrow> string option res" where
  "LookupByDigest sql digest excludePath s =
     (if Digest_IsZero digest then Inr None
      else (case sql SQL_SELECT of
              Some m \<Rightarrow> Inl (Sql_error m)
            | None \<Rightarrow> Inr (map_option ht_path
                (find (\<lambda>r. ht_digest r = Some digest \<and> ht_path r \<noteq> excludePath) (hub_tree s)))))"

definition tree_row_entry :: "hubTreeRow \<Rightarrow> HubTreeEntry" where
  "tree_row_entry r =
     \<lparr>hte_entry = \<lparr>te_path = ht_path r, te_kind = ht_kind r, te_digest = digest_of_blob (ht_digest r),
        te_size = ht_size r, te_mode = ht_mode r, te_mtime = ht_mtime r\<rparr>,
      hte_version = ht_version r\<rparr>"

definition ClientTreeSnapshot :: "sql_faults \<Rightarrow> ClientStore \<Rightarrow> (string \<times> HubTreeEntry) list res" where
  "ClientTreeSnapshot sql s =
     (case sql SQL_SELECT of
        Some m \<Rightarrow> Inl (Sql_error m)
      | None \<Rightarrow> Inr (gomap_of ht_path tree_row_entry (hub_tree s)))"

definition LookupEntry :: "sql_faults \<Rightarrow> string \<Rightarrow> ClientStore \<Rightarrow> HubTreeEntry option res" where
  "LookupEntry sql p s =
     (case sql SQL_SELECT of
        Some m \<Rightarrow> Inl (Sql_error m)
      | None \<Rightarrow> Inr (map_option tree_row_entry (tbl_lookup ht_path p (hub_tree s))))"

section \<open>Applying an event\<close>

text \<open>
  The rows and the state after the transaction of \<^verbatim>\<open>ApplyChange\<close>, whose eight arguments are the
  fields of the change.
\<close>

definition apply_tree :: "ChangeEntry \<Rightarrow> hubTreeRow list \<Rightarrow> hubTreeRow list" where
  "apply_tree c rows =
     (if ce_op c = OpDelete then tbl_delete ht_path (ce_path c) rows
      else tbl_replace ht_path (tree_row (ce_path c) (ce_kind c) (ce_digest c) (ce_size c) (ce_mode c)
             (ce_mtime c) (ce_version c)) rows)"

definition applied :: "ChangeEntry \<Rightarrow> ClientStore \<Rightarrow> ClientStore" where
  "applied c s = set_state ''hub_version'' (fmt_d (ce_version c)) (s\<lparr>hub_tree := apply_tree c (hub_tree s)\<rparr>)"

definition ApplyChange :: "sql_faults \<Rightarrow> ChangeEntry \<Rightarrow> ClientStore \<Rightarrow> ClientStore \<times> unit res" where
  "ApplyChange sql c s =
     (case sql SQL_BEGIN of
        Some m \<Rightarrow> (s, Inl (Sql_error m))
      | None \<Rightarrow>
     (case (if ce_op c = OpDelete then sql SQL_DELETE else sql SQL_INSERT) of
        Some m \<Rightarrow> (s, Inl (Sql_error m))
      | None \<Rightarrow>
     (case sql SQL_INSERT of
        Some m \<Rightarrow> (s, Inl (Sql_error m))
      | None \<Rightarrow>
     (case sql SQL_COMMIT of
        Some m \<Rightarrow> (s, Inl (Sql_error m))
      | None \<Rightarrow> (applied c s, Inr ())))))"

section \<open>Snapshots\<close>

text \<open>
  \<^verbatim>\<open>generateClientDB\<close>: a fresh client database with one row per entry of the hub's tree, all at
  the requested version. Creating, checkpointing and reading back the temporary file is not
  modelled: the bytes are the database.
\<close>

fun snapshot_rows :: "sql_faults \<Rightarrow> int \<Rightarrow> (string \<times> TreeEntry) list \<Rightarrow> ClientStore \<Rightarrow> ClientStore res" where
  "snapshot_rows sql version [] s = Inr s"
| "snapshot_rows sql version (pe # pes) s =
     (case UpsertEntry sql (fst pe) (te_kind (snd pe)) (te_digest (snd pe)) (te_size (snd pe))
             (te_mode (snd pe)) (te_mtime (snd pe)) version s of
        (s', Inl er) \<Rightarrow> Inl er
      | (s', Inr _) \<Rightarrow> snapshot_rows sql version pes s')"

definition generateClientDB :: "sql_faults \<Rightarrow> sql_faults \<Rightarrow> HubStore \<Rightarrow> int \<Rightarrow> string \<Rightarrow> ClientStore res" where
  "generateClientDB hsql csql store version hashAlgo =
     (case snapshot_rows csql version (TreeSnapshot hsql store) (initClientSchema None) of
        Inl er \<Rightarrow> Inl er
      | Inr s \<Rightarrow>
     (case SetHubVersion csql version s of
        (s', Inl er) \<Rightarrow> Inl er
      | (s', Inr _) \<Rightarrow>
          if hashAlgo \<noteq> '''' then
            (case SetHashAlgo csql hashAlgo s' of (s'', Inl er) \<Rightarrow> Inl er | (s'', Inr _) \<Rightarrow> Inr s'')
          else Inr s'))"

section \<open>The mirrored tree is a view of the log\<close>

definition client_view :: "ClientStore \<Rightarrow> string \<Rightarrow> TreeEntry option" where
  "client_view s = tbl_map ht_path (\<lambda>r. hte_entry (tree_row_entry r)) (hub_tree s)"

definition client_versions :: "ClientStore \<Rightarrow> string \<Rightarrow> int option" where
  "client_versions s = tbl_map ht_path ht_version (hub_tree s)"

definition client_inv :: "ClientStore \<Rightarrow> bool" where
  "client_inv s \<longleftrightarrow> tbl_inv ht_path (hub_tree s) \<and> tbl_inv fst (sync_state s)"

lemma tree_row_sel [simp]:
  "ht_path (tree_row p k d sz mode t v) = p" "ht_version (tree_row p k d sz mode t v) = v"
  by (simp_all add: tree_row_def)

lemma tree_row_view [simp]:
  "hte_entry (tree_row_entry (tree_row p k d sz mode t v)) =
     \<lparr>te_path = p, te_kind = k, te_digest = d, te_size = sz, te_mode = mode, te_mtime = t\<rparr>"
  by (simp add: tree_row_def tree_row_entry_def)

lemma set_state_sel [simp]: "hub_tree (set_state k v s) = hub_tree s"
  by (simp add: set_state_def)

lemma set_state_sync: "sync_state (set_state k v s) = tbl_replace fst (k, v) (sync_state s)"
  by (simp add: set_state_def)

lemma applied_view: "client_view (applied c s) = (client_view s)(ce_path c := tree_of_change c)"
  by (auto simp: fun_eq_iff client_view_def applied_def apply_tree_def tbl_map_def tbl tree_of_change_def)

lemma applied_versions: "client_versions (applied c s) = (client_versions s)(ce_path c := change_version c)"
  by (auto simp: fun_eq_iff client_versions_def applied_def apply_tree_def tbl_map_def tbl change_version_def)

lemma applied_inv: "client_inv s \<Longrightarrow> client_inv (applied c s)"
  by (simp add: client_inv_def applied_def apply_tree_def set_state_def tbl)

interpretation client_log: log_view client_view applied ce_path tree_of_change client_inv
  by unfold_locales (simp_all add: applied_view applied_inv)

interpretation client_ver: log_view client_versions applied ce_path change_version client_inv
  by unfold_locales (simp_all add: applied_versions applied_inv)

lemma ApplyChange_result:
  "ApplyChange sql c s = (applied c s, Inr ()) \<or> (\<exists>er. ApplyChange sql c s = (s, Inl er))"
  by (auto simp: ApplyChange_def split: option.split)

lemma ApplyChange_no_faults: "ApplyChange no_faults c s = (applied c s, Inr ())"
  by (simp add: ApplyChange_def)

lemma HubVersion_applied:
  assumes "- (2 ^ 63) \<le> ce_version c" "ce_version c \<le> 2 ^ 63 - 1"
  shows "HubVersion no_faults (applied c s) = Inr (ce_version c)"
  using sscanf_fmt [OF assms] by (simp add: HubVersion_def applied_def set_state_def tbl)

lemma snapshot_rows_ok:
  "client_inv s \<Longrightarrow> \<exists>s'. snapshot_rows no_faults v pes s = Inr s' \<and> client_inv s' \<and> sync_state s' = sync_state s \<and>
     client_view s' = replay fst (\<lambda>pe. Some ((snd pe)\<lparr>te_path := fst pe\<rparr>)) pes (client_view s) \<and>
     client_versions s' = replay fst (\<lambda>pe. Some v) pes (client_versions s)"
proof (induction pes arbitrary: s)
  case Nil
  then show ?case by simp
next
  case (Cons pe pes)
  let ?row = "tree_row (fst pe) (te_kind (snd pe)) (te_digest (snd pe)) (te_size (snd pe)) (te_mode (snd pe)) (te_mtime (snd pe)) v"
  let ?s = "s\<lparr>hub_tree := tbl_replace ht_path ?row (hub_tree s)\<rparr>"
  have "client_inv ?s" using Cons.prems by (simp add: client_inv_def tbl)
  moreover have "client_view ?s = (client_view s)(fst pe \<mapsto> (snd pe)\<lparr>te_path := fst pe\<rparr>)"
    "client_versions ?s = (client_versions s)(fst pe \<mapsto> v)"
    by (auto simp: fun_eq_iff client_view_def client_versions_def tbl_map_def tbl)
  ultimately show ?case using Cons.IH [of ?s] by (simp add: UpsertEntry_def del: fun_upd_apply)
qed

lemma replay_assoc:
  assumes "distinct (map fst al)"
  shows "replay fst (\<lambda>kv. Some (g kv)) al m k = (case map_of al k of None \<Rightarrow> m k | Some v \<Rightarrow> Some (g (k, v)))"
  using assms
proof (induction al arbitrary: m)
  case Nil
  then show ?case by simp
next
  case (Cons kv al)
  then have "fst kv \<notin> fst ` set al" by simp
  then have none: "map_of al (fst kv) = None" by (simp add: map_of_eq_None_iff)
  have "replay fst (\<lambda>kv. Some (g kv)) (kv # al) m k =
      (case map_of al k of None \<Rightarrow> (m(fst kv \<mapsto> g kv)) k | Some v \<Rightarrow> Some (g (k, v)))"
    using Cons by simp
  with none show ?case by (cases kv) (auto split: option.split)
qed

lemma tree_view_path: "tree_view rows p = Some t \<Longrightarrow> te_path t = p"
  using tbl_lookup_SomeD [of hr_path p rows]
  by (auto simp: tree_view_def tbl_map_def row_tree_def HubEntry_TreeEntry_def)

lemma generateClientDB_ok:
  assumes "store_inv st" "- (2 ^ 63) \<le> v" "v \<le> 2 ^ 63 - 1"
  shows "\<exists>s. generateClientDB no_faults no_faults st v algo = Inr s \<and> client_inv s \<and>
     client_view s = tree_view (hub_entry st) \<and>
     client_versions s = (\<lambda>p. if tree_view (hub_entry st) p = None then None else Some v) \<and>
     HubVersion no_faults s = Inr v \<and> HashAlgo no_faults s = Inr algo"
proof -
  let ?al = "TreeSnapshot no_faults st" and ?s0 = "initClientSchema None"
  have s0: "client_inv ?s0" "client_view ?s0 = Map.empty" "client_versions ?s0 = Map.empty" "sync_state ?s0 = []"
    by (auto simp: client_inv_def initClientSchema_def client_view_def client_versions_def tbl_map_def fun_eq_iff)
  from snapshot_rows_ok [OF s0(1), of v ?al] obtain s where
    rows: "snapshot_rows no_faults v ?al ?s0 = Inr s" "client_inv s" "sync_state s = []"
    and view: "client_view s = replay fst (\<lambda>pe. Some ((snd pe)\<lparr>te_path := fst pe\<rparr>)) ?al Map.empty"
    and ver: "client_versions s = replay fst (\<lambda>pe. Some v) ?al Map.empty"
    by (auto simp: s0)
  have dist: "distinct (map fst ?al)" by (simp add: TreeSnapshot_def rows_tree_def)
  have map: "map_of ?al = tree_view (hub_entry st)" by (rule TreeSnapshot_inv [OF assms(1)])
  have "client_view s = tree_view (hub_entry st)"
    unfolding view by (auto simp: fun_eq_iff replay_assoc [OF dist] map dest: tree_view_path split: option.split)
  moreover have "client_versions s = (\<lambda>p. if tree_view (hub_entry st) p = None then None else Some v)"
    unfolding ver by (auto simp: fun_eq_iff replay_assoc [OF dist] map split: option.split)
  moreover have "client_view (set_state k x s) = client_view s" "client_versions (set_state k x s) = client_versions s"
    for k x s by (simp_all add: client_view_def client_versions_def)
  moreover have "generateClientDB no_faults no_faults st v algo = Inr (if algo = '''' then set_state ''hub_version'' (fmt_d v) s
      else set_state ''hash_algo'' algo (set_state ''hub_version'' (fmt_d v) s))"
    by (simp add: generateClientDB_def rows(1) SetHubVersion_def SetHashAlgo_def del: no_faults_apply split: option.split) simp
  ultimately show ?thesis
    using rows(2,3) sscanf_fmt [OF assms(2,3)]
    by (cases "algo = ''''") (simp_all add: HubVersion_def HashAlgo_def client_inv_def set_state_sync tbl)
qed

end
