(* ===== verification/Protocol.thy ===== *)
theory Protocol
  imports Hubsync_Types
begin

text \<open>
  The wire between hub and clients: length-prefixed protobuf messages (\<^verbatim>\<open>protocol.go\<close>), the messages of
  the event stream (\<^verbatim>\<open>hubsync.proto\<close>) and bearer-token authentication (\<^verbatim>\<open>auth.go\<close>). Protobuf
  encoding is a third-party package: \<open>marshal\<close> and \<open>unmarshal\<close> are parameters.
\<close>

section \<open>Length-prefixed messages\<close>

text \<open>\<^verbatim>\<open>binary.BigEndian\<close>: most significant byte first; a byte keeps the low eight bits.\<close>

definition put_uint32 :: "uint32 \<Rightarrow> bytes" where
  "put_uint32 n =
     [word_of_nat (unat n div 16777216), word_of_nat (unat n div 65536), word_of_nat (unat n div 256),
      word_of_nat (unat n)]"

definition get_uint32 :: "bytes \<Rightarrow> uint32" where
  "get_uint32 b =
     word_of_nat (unat (b ! 0) * 16777216 + unat (b ! 1) * 65536 + unat (b ! 2) * 256 + unat (b ! 3))"

text \<open>
  \<^verbatim>\<open>WriteLengthPrefixed\<close>: \<open>write\<close> is the writer, which takes bytes or fails; the result is what the
  stream holds afterwards.
\<close>

definition WriteLengthPrefixed :: "('m \<Rightarrow> bytes res) \<Rightarrow> (bytes \<Rightarrow> bytes \<Rightarrow> bytes res) \<Rightarrow> 'm \<Rightarrow> bytes \<Rightarrow> bytes res" where
  "WriteLengthPrefixed marshal write msg w =
     (case marshal msg of
        Inl e \<Rightarrow> Inl (Wrap ''marshal proto'' e)
      | Inr d \<Rightarrow>
     (case write (put_uint32 (word_of_nat (length d))) w of
        Inl e \<Rightarrow> Inl (Wrap ''write length prefix'' e)
      | Inr w' \<Rightarrow>
     (case write d w' of
        Inl e \<Rightarrow> Inl (Wrap ''write proto data'' e)
      | Inr w'' \<Rightarrow> Inr w'')))"

definition plain_write :: "bytes \<Rightarrow> bytes \<Rightarrow> bytes res" where
  "plain_write b w = Inr (w @ b)"

definition io_EOF :: err where "io_EOF = Sentinel ''EOF''"
definition io_ErrUnexpectedEOF :: err where "io_ErrUnexpectedEOF = Sentinel ''unexpected EOF''"

text \<open>\<^verbatim>\<open>io.ReadFull\<close>: exactly \<open>n\<close> bytes, or EOF when there is none, or an unexpected EOF.\<close>

definition io_ReadFull :: "nat \<Rightarrow> bytes \<Rightarrow> (bytes \<times> bytes) res" where
  "io_ReadFull n r =
     (if n \<le> length r then Inr (take n r, drop n r)
      else if r = [] then Inl io_EOF else Inl io_ErrUnexpectedEOF)"

definition max_message :: nat where
  "max_message = 64 * 1024 * 1024"

definition ReadLengthPrefixed :: "(bytes \<Rightarrow> 'm res) \<Rightarrow> bytes \<Rightarrow> ('m \<times> bytes) res" where
  "ReadLengthPrefixed unmarshal r =
     (case io_ReadFull 4 r of
        Inl e \<Rightarrow> Inl e
      | Inr (buf, r') \<Rightarrow>
          let sz = get_uint32 buf in
          if 64 * 1024 * 1024 < sz
          then Inl (Error_string (''message too large: '' @ dec_digits (unat sz) @ '' bytes''))
          else (case io_ReadFull (unat sz) r' of
                  Inl e \<Rightarrow> Inl (Wrap ''read proto data'' e)
                | Inr (d, r'') \<Rightarrow>
                    (case unmarshal d of Inl e \<Rightarrow> Inl e | Inr m \<Rightarrow> Inr (m, r''))))"

text \<open>What the receive loop of a client reads: messages until the first error.\<close>

function read_messages :: "(bytes \<Rightarrow> 'm res) \<Rightarrow> bytes \<Rightarrow> 'm list \<times> err" where
  "read_messages unmarshal r =
     (case ReadLengthPrefixed unmarshal r of
        Inl e \<Rightarrow> ([], e)
      | Inr (m, r') \<Rightarrow> (let (ms, e) = read_messages unmarshal r' in (m # ms, e)))"
  by pat_completeness auto
termination
  by (relation "measure (\<lambda>(u, r). length r)")
     (auto simp: ReadLengthPrefixed_def io_ReadFull_def Let_def split: if_splits sum.splits)

declare read_messages.simps [simp del]

lemma length_put_uint32 [simp]: "length (put_uint32 n) = 4"
  by (simp add: put_uint32_def)

lemma get_put_uint32: "get_uint32 (put_uint32 n) = n"
proof -
  have byte: "unat (word_of_nat k :: byte) = k mod 256" for k by (simp add: unat_of_nat)
  have "unat n < 4294967296" using unsigned_less [where ?'a = nat and w = n] by simp
  then have "unat n div 16777216 mod 256 * 16777216 + unat n div 65536 mod 256 * 65536 +
      unat n div 256 mod 256 * 256 + unat n mod 256 = unat n"
  proof -
    have div: "unat n div 65536 = unat n div 256 div 256" "unat n div 16777216 = unat n div 256 div 256 div 256"
      by (simp_all add: div_mult2_eq [symmetric])
    have rem: "k = k div 256 * 256 + k mod 256" for k :: nat by simp
    have "unat n div 256 div 256 div 256 < 256"
      using \<open>unat n < 4294967296\<close> by (simp add: div_mult2_eq [symmetric] less_mult_imp_div_less)
    then have "unat n div 256 div 256 div 256 mod 256 = unat n div 256 div 256 div 256" by simp
    with rem [of "unat n"] rem [of "unat n div 256"] rem [of "unat n div 256 div 256"] show ?thesis
      unfolding div by linarith
  qed
  moreover have "get_uint32 (put_uint32 n) = word_of_nat (unat n div 16777216 mod 256 * 16777216 +
      unat n div 65536 mod 256 * 65536 + unat n div 256 mod 256 * 256 + unat n mod 256)"
    unfolding get_uint32_def put_uint32_def byte [symmetric] by simp
  ultimately show ?thesis by (simp only: of_nat_unat ucast_id)
qed

lemma ReadLengthPrefixed_framed:
  assumes "length d \<le> max_message"
  shows "ReadLengthPrefixed unmarshal (put_uint32 (word_of_nat (length d)) @ d @ r) =
     (case unmarshal d of Inl e \<Rightarrow> Inl e | Inr m \<Rightarrow> Inr (m, r))"
proof -
  have "length d < 2 ^ 32" using assms by (simp add: max_message_def)
  then have n: "unat (word_of_nat (length d) :: uint32) = length d" by (simp add: unat_of_nat)
  have "\<not> (64 * 1024 * 1024 :: uint32) < word_of_nat (length d)"
    using assms by (simp add: word_less_nat_alt n max_message_def)
  then show ?thesis
    by (simp add: ReadLengthPrefixed_def io_ReadFull_def get_put_uint32 n Let_def split: sum.split)
qed

section \<open>Messages of the event stream\<close>

text \<open>The kind is the enum's number; a message whose oneof is unset carries no event.\<close>

record FileChange =
  fc_kind :: int
  fc_digest :: bytes
  fc_size :: uint64
  fc_mode :: uint32
  fc_mtime :: int
  fc_data :: bytes

datatype Event = SyncEvent_Change FileChange | SyncEvent_Delete | SyncEvent_unset

record SyncEvent =
  ev_version :: uint64
  ev_path :: string
  ev_event :: Event

section \<open>Authentication\<close>

text \<open>
  \<^verbatim>\<open>AuthMiddleware\<close>: \<open>next_handler\<close> is the wrapped handler and \<open>denied\<close> the 401 answer. An absent header
  reads as the empty string.
\<close>

definition AuthMiddleware :: "string \<Rightarrow> 'resp \<Rightarrow> (string \<Rightarrow> 'resp) \<Rightarrow> string \<Rightarrow> 'resp" where
  "AuthMiddleware token denied next_handler auth =
     (if token = '''' then next_handler auth
      else if \<not> HasPrefix auth ''Bearer '' \<or> drop 7 auth \<noteq> token then denied
      else next_handler auth)"

text \<open>\<^verbatim>\<open>setAuth\<close> of the client: the header it sends, none for an empty token.\<close>

definition setAuth :: "string \<Rightarrow> string" where
  "setAuth token = (if token \<noteq> '''' then ''Bearer '' @ token else '''')"

section \<open>Properties of the wire\<close>

text \<open>
  C33: Framing round trip. When every message encodes to at most 64MB and decoding inverts encoding,
  a reader recovers from the concatenated frames exactly the messages written, in order, and
  then meets a clean end of the stream.
\<close>

theorem stream_roundtrip:
  assumes "\<And>m. m \<in> set msgs \<Longrightarrow> \<exists>d. marshal m = Inr d \<and> unmarshal d = Inr m \<and> length d \<le> 64 * 1024 * 1024"
    and "foldl (\<lambda>w m. case w of Inl e \<Rightarrow> Inl e | Inr b \<Rightarrow> WriteLengthPrefixed marshal plain_write m b) (Inr []) msgs = Inr stream"
  shows "read_messages unmarshal stream = (msgs, io_EOF)"
proof -
  define enc where "enc m = (case marshal m of Inr d \<Rightarrow> put_uint32 (word_of_nat (length d)) @ d)" for m
  have framed: "WriteLengthPrefixed marshal plain_write m w = Inr (w @ enc m)" if "m \<in> set msgs" for m w
    using assms(1) [OF that] by (auto simp: WriteLengthPrefixed_def plain_write_def enc_def)
  have fold: "foldl (\<lambda>w m. case w of Inl e \<Rightarrow> Inl e | Inr b \<Rightarrow> WriteLengthPrefixed marshal plain_write m b) (Inr w) ms =
      Inr (w @ concat (map enc ms))" if "set ms \<subseteq> set msgs" for ms w
    using that framed by (induction ms arbitrary: w) simp_all
  have read: "read_messages unmarshal (concat (map enc ms)) = (ms, io_EOF)" if "set ms \<subseteq> set msgs" for ms
    using that
  proof (induction ms)
    case Nil
    then show ?case by (simp add: read_messages.simps [of _ "[]"] ReadLengthPrefixed_def io_ReadFull_def)
  next
    case (Cons m ms)
    from Cons.prems assms(1) [of m] obtain d where d: "marshal m = Inr d" "unmarshal d = Inr m" "length d \<le> max_message"
      by (auto simp: max_message_def)
    have "ReadLengthPrefixed unmarshal (concat (map enc (m # ms))) = Inr (m, concat (map enc ms))"
      using ReadLengthPrefixed_framed [OF d(3), of unmarshal "concat (map enc ms)"] d by (simp add: enc_def)
    with Cons show ?case by (simp add: read_messages.simps [of _ "enc m @ concat (map enc ms)"])
  qed
  from assms(2) fold [of msgs "[]"] have "stream = concat (map enc msgs)" by simp
  with read [of msgs] show ?thesis by simp
qed

theorem stream_roundtrip_witness:
  "read_messages Inr [0, 0, 0, 2, 7, 8, 0, 0, 0, 1, 9] = ([[7, 8], [9]], io_EOF)"
  by (rule stream_roundtrip [where marshal = Inr])
     (auto simp: WriteLengthPrefixed_def plain_write_def put_uint32_def)

text \<open>
  With a token configured, a request passes iff its Authorization header is exactly "Bearer "
  followed by the token; without one every request passes; and the header that the client
  sends for a token always passes the hub's check for the same token.
\<close>

theorem auth_exact:
  "(AuthMiddleware token False (\<lambda>_. True) auth \<longleftrightarrow> token = '''' \<or> auth = ''Bearer '' @ token) \<and>
   AuthMiddleware token False (\<lambda>_. True) (setAuth token)"
proof -
  have "HasPrefix auth ''Bearer '' \<and> drop 7 auth = token \<longleftrightarrow> auth = ''Bearer '' @ token"
    by (auto simp: HasPrefix_iff)
  then show ?thesis by (auto simp: AuthMiddleware_def setAuth_def)
qed

end
