(* ===== verification/Archive_Storage.thy ===== *)
theory Archive_Storage
  imports Prelude
begin

text \<open>
  The object-store seam (\<^verbatim>\<open>archive/archive.go\<close>, \<^verbatim>\<open>archive/key.go\<close>, \<^verbatim>\<open>archive/fake.go\<close>). The Go interface
  \<^verbatim>\<open>ArchiveStorage\<close> is a record of operations over a remote state; its documented contract is the
  locales \<open>archive_objects\<close> and \<open>archive_storage\<close>, and the in-memory \<^verbatim>\<open>FakeStorage\<close> is proved to meet it.
\<close>

section \<open>Keys\<close>

definition JoinKey :: "string \<Rightarrow> string \<Rightarrow> string" where
  "JoinKey pre rel =
     (let rel' = TrimPrefix rel ''/'' in
      if pre = '''' then rel' else TrimSuffix pre ''/'' @ ''/'' @ rel')"

section \<open>The interface\<close>

record RemoteInfo =
  ri_file_id :: string
  ri_key :: string
  ri_size :: int
  ri_digest :: bytes
  ri_digest_algo :: string
  ri_content_sha1 :: string
  ri_uploaded_at :: int

text \<open>\<open>up_mtime\<close> is \<open>None\<close> for the zero \<^verbatim>\<open>time.Time\<close>, which is not the Unix epoch.\<close>

record UploadRequest =
  up_key :: string
  up_size :: int
  up_mtime :: "int option"
  up_source :: bytes
  up_digest :: bytes
  up_digest_algo :: string
  up_content_sha1 :: string

definition ErrNotExist :: string where
  "ErrNotExist = ''archive: remote object does not exist''"

definition ErrFileIDMismatch :: string where
  "ErrFileIDMismatch = ''archive: fileID mismatch''"

text \<open>
  One field per method of \<^verbatim>\<open>ArchiveStorage\<close>. \<^verbatim>\<open>Upload\<close> reads the clock; \<^verbatim>\<open>Download\<close> returns the bytes it
  streamed; a listing is the entries of its iterator and the error \<^verbatim>\<open>Err\<close> reports after them.
\<close>

record 'w ArchiveStorage =
  as_Upload :: "int \<Rightarrow> UploadRequest \<Rightarrow> 'w \<Rightarrow> 'w \<times> RemoteInfo res"
  as_HeadByKey :: "string \<Rightarrow> 'w \<Rightarrow> RemoteInfo res"
  as_Download :: "string \<Rightarrow> 'w \<Rightarrow> bytes res"
  as_PresignDownloadURL :: "string \<Rightarrow> 'w \<Rightarrow> string res"
  as_ListKeys :: "string \<Rightarrow> string \<Rightarrow> 'w \<Rightarrow> RemoteInfo list \<times> err option"
  as_DeleteByKey :: "string \<Rightarrow> string \<Rightarrow> 'w \<Rightarrow> 'w \<times> unit res"

text \<open>
  The contract the callers rely on, over an abstract view of the store that gives the head
  version of each key, its information and content.
\<close>

text \<open>What the store knows of an object it was given.\<close>

definition uploaded :: "UploadRequest \<Rightarrow> RemoteInfo \<Rightarrow> bool" where
  "uploaded req info \<longleftrightarrow> ri_key info = up_key req \<and> ri_digest info = up_digest req \<and> ri_digest_algo info = up_digest_algo req \<and>
     ri_size info = int (length (up_source req)) \<and> (up_content_sha1 req \<noteq> '''' \<longrightarrow> ri_content_sha1 info = up_content_sha1 req) \<and>
     ri_file_id info \<noteq> ''''"

locale archive_objects =
  fixes ops :: "'w ArchiveStorage"
    and remote :: "'w \<Rightarrow> string \<Rightarrow> (RemoteInfo \<times> bytes) option"
    and inv :: "'w \<Rightarrow> bool"
  assumes upload_ok: "inv w \<Longrightarrow> as_Upload ops now req w = (w', Inr info) \<Longrightarrow>
      remote w' = (remote w)(up_key req \<mapsto> (info, up_source req)) \<and> uploaded req info \<and>
      (\<forall>k i d. remote w k = Some (i, d) \<longrightarrow> ri_file_id i \<noteq> ri_file_id info)"
    and upload_error: "inv w \<Longrightarrow> as_Upload ops now req w = (w', Inl e) \<Longrightarrow>
      remote w' = remote w \<or> (\<exists>info. remote w' = (remote w)(up_key req \<mapsto> (info, up_source req)) \<and> uploaded req info)"
    and upload_inv: "inv w \<Longrightarrow> inv (fst (as_Upload ops now req w))"
    and head_ok: "inv w \<Longrightarrow> as_HeadByKey ops k w = Inr info \<Longrightarrow> \<exists>d. remote w k = Some (info, d)"
    and head_missing: "inv w \<Longrightarrow> as_HeadByKey ops k w = Inl e \<Longrightarrow> errors_Is e ErrNotExist \<Longrightarrow> remote w k = None"
    and download_ok: "inv w \<Longrightarrow> as_Download ops k w = Inr d \<Longrightarrow> \<exists>info. remote w k = Some (info, d)"
    and remote_key: "inv w \<Longrightarrow> remote w k = Some (info, d) \<Longrightarrow> ri_key info = k \<and> ri_file_id info \<noteq> ''''"
    and list_flat: "inv w \<Longrightarrow> as_ListKeys ops pre '''' w = (entries, None) \<Longrightarrow>
      set entries = {info. \<exists>k d. remote w k = Some (info, d) \<and> HasPrefix k pre}"
    and list_flat_entry: "inv w \<Longrightarrow> as_ListKeys ops pre '''' w = (entries, er) \<Longrightarrow> info \<in> set entries \<Longrightarrow>
      (\<exists>d. remote w (ri_key info) = Some (info, d)) \<and> HasPrefix (ri_key info) pre"
    and delete_frame: "inv w \<Longrightarrow> j \<noteq> k \<Longrightarrow> remote (fst (as_DeleteByKey ops k want w)) j = remote w j"
    and delete_guard: "inv w \<Longrightarrow> want \<noteq> '''' \<Longrightarrow> remote w k = Some (info, d) \<Longrightarrow> ri_file_id info \<noteq> want \<Longrightarrow>
      \<exists>w' e. as_DeleteByKey ops k want w = (w', Inl e) \<and> remote w' = remote w"
    and delete_inv: "inv w \<Longrightarrow> inv (fst (as_DeleteByKey ops k want w))"

text \<open>
  What the collector needs beyond it: in a listing with the delimiter an entry without a file id
  is a common prefix longer than the one that was listed.
\<close>

locale archive_storage = archive_objects +
  assumes list_marker: "inv w \<Longrightarrow> as_ListKeys ops pre ''/'' w = (entries, er) \<Longrightarrow> info \<in> set entries \<Longrightarrow>
      (\<exists>d. remote w (ri_key info) = Some (info, d)) \<and> HasPrefix (ri_key info) pre \<or>
      ri_file_id info = '''' \<and> (\<exists>x. ri_key info = pre @ x @ ''/'')"

section \<open>The in-memory store\<close>

text \<open>
  \<^verbatim>\<open>FakeStorage\<close>: the versions of each key, oldest first. The counter that names file ids is
  unbounded here; in Go it would wrap after \<open>2^64\<close> uploads.
\<close>

record fakeVersion =
  fv_info :: RemoteInfo
  fv_data :: bytes

record FakeStorage =
  fk_counter :: nat
  fk_versions :: "(string \<times> fakeVersion list) list"
  fk_presign_prefix :: string

definition NewFakeStorage :: FakeStorage where
  "NewFakeStorage = \<lparr>fk_counter = 0, fk_versions = [], fk_presign_prefix = ''https://fake.b2.example/''\<rparr>"

definition versions_at :: "string \<Rightarrow> FakeStorage \<Rightarrow> fakeVersion list" where
  "versions_at k w = (case map_of (fk_versions w) k of None \<Rightarrow> [] | Some vs \<Rightarrow> vs)"

definition fake_Upload :: "int \<Rightarrow> UploadRequest \<Rightarrow> FakeStorage \<Rightarrow> FakeStorage \<times> RemoteInfo res" where
  "fake_Upload now req w =
     (let n = fk_counter w + 1;
          info = \<lparr>ri_file_id = ''fake-'' @ dec_digits n, ri_key = up_key req, ri_size = int (length (up_source req)),
                  ri_digest = up_digest req, ri_digest_algo = up_digest_algo req,
                  ri_content_sha1 = up_content_sha1 req, ri_uploaded_at = now\<rparr>
      in (w\<lparr>fk_counter := n,
            fk_versions := AList.update (up_key req)
              (versions_at (up_key req) w @ [\<lparr>fv_info = info, fv_data = up_source req\<rparr>]) (fk_versions w)\<rparr>,
          Inr info))"

definition fake_HeadByKey :: "string \<Rightarrow> FakeStorage \<Rightarrow> RemoteInfo res" where
  "fake_HeadByKey k w =
     (let vs = versions_at k w in
      if vs = [] then Inl (Sentinel ErrNotExist) else Inr (fv_info (last vs)))"

definition fake_Download :: "string \<Rightarrow> FakeStorage \<Rightarrow> bytes res" where
  "fake_Download k w =
     (let vs = versions_at k w in
      if vs = [] then Inl (Sentinel ErrNotExist) else Inr (fv_data (last vs)))"

definition fake_PresignDownloadURL :: "string \<Rightarrow> FakeStorage \<Rightarrow> string res" where
  "fake_PresignDownloadURL k w =
     (case map_of (fk_versions w) k of
        None \<Rightarrow> Inl (Sentinel ErrNotExist)
      | Some _ \<Rightarrow> Inr (fk_presign_prefix w @ k))"

text \<open>\<^verbatim>\<open>strings.Index\<close> of a non-empty separator: the first position where it starts.\<close>

fun strings_Index :: "string \<Rightarrow> string \<Rightarrow> nat option" where
  "strings_Index [] sep = (if sep = [] then Some 0 else None)"
| "strings_Index (c # cs) sep =
     (if HasPrefix (c # cs) sep then Some 0 else map_option Suc (strings_Index cs sep))"

fun list_loop :: "string \<Rightarrow> string \<Rightarrow> FakeStorage \<Rightarrow> string list \<Rightarrow> string list \<Rightarrow> RemoteInfo list" where
  "list_loop pre delim w seen [] = []"
| "list_loop pre delim w seen (k # ks) =
     (if \<not> HasPrefix k pre then list_loop pre delim w seen ks
      else
        let rest = drop (length pre) k;
            object = fv_info (last (versions_at k w)) # list_loop pre delim w seen ks
        in if delim \<noteq> '''' then
             (case strings_Index rest delim of
                Some idx \<Rightarrow>
                  let common = pre @ take (idx + length delim) rest in
                  if common \<in> set seen then list_loop pre delim w seen ks
                  else \<lparr>ri_file_id = '''', ri_key = common, ri_size = 0, ri_digest = [], ri_digest_algo = '''',
                        ri_content_sha1 = '''', ri_uploaded_at = 0\<rparr> # list_loop pre delim w (common # seen) ks
              | None \<Rightarrow> object)
           else object)"

definition fake_ListKeys :: "string \<Rightarrow> string \<Rightarrow> FakeStorage \<Rightarrow> RemoteInfo list \<times> err option" where
  "fake_ListKeys pre delim w =
     (let keys = sort (map fst (filter (\<lambda>kv. snd kv \<noteq> []) (fk_versions w)))
      in (list_loop pre delim w [] keys, None))"

definition fake_DeleteByKey :: "string \<Rightarrow> string \<Rightarrow> FakeStorage \<Rightarrow> FakeStorage \<times> unit res" where
  "fake_DeleteByKey k wantFileID w =
     (let vs = versions_at k w in
      if vs = [] then (w, Inr ())
      else if wantFileID \<noteq> '''' \<and> ri_file_id (fv_info (last vs)) \<noteq> wantFileID
      then (w, Inl (Detail (Sentinel ErrFileIDMismatch) (''key='' @ k @ '' want='' @ wantFileID @ '' got='' @
                  ri_file_id (fv_info (last vs)))))
      else (w\<lparr>fk_versions := AList.delete k (fk_versions w)\<rparr>, Inr ()))"

definition fake_ops :: "FakeStorage ArchiveStorage" where
  "fake_ops = \<lparr>as_Upload = fake_Upload, as_HeadByKey = fake_HeadByKey, as_Download = fake_Download,
     as_PresignDownloadURL = fake_PresignDownloadURL, as_ListKeys = fake_ListKeys, as_DeleteByKey = fake_DeleteByKey\<rparr>"

section \<open>The in-memory store meets the contract\<close>

definition fake_remote :: "FakeStorage \<Rightarrow> string \<Rightarrow> (RemoteInfo \<times> bytes) option" where
  "fake_remote w k =
     (if versions_at k w = [] then None
      else Some (fv_info (last (versions_at k w)), fv_data (last (versions_at k w))))"

definition fake_inv :: "FakeStorage \<Rightarrow> bool" where
  "fake_inv w \<longleftrightarrow> distinct (map fst (fk_versions w)) \<and>
     (\<forall>k. \<forall>v \<in> set (versions_at k w). ri_key (fv_info v) = k \<and>
        (\<exists>n \<le> fk_counter w. ri_file_id (fv_info v) = ''fake-'' @ dec_digits n))"

lemma versions_at_upload:
  "versions_at k (fst (fake_Upload now req w)) =
     (if k = up_key req then versions_at k w @
        [\<lparr>fv_info = \<lparr>ri_file_id = ''fake-'' @ dec_digits (fk_counter w + 1), ri_key = up_key req,
            ri_size = int (length (up_source req)), ri_digest = up_digest req, ri_digest_algo = up_digest_algo req,
            ri_content_sha1 = up_content_sha1 req, ri_uploaded_at = now\<rparr>, fv_data = up_source req\<rparr>]
      else versions_at k w)"
  by (simp add: versions_at_def fake_Upload_def Let_def update_conv')

lemma versions_at_delete:
  "versions_at j (fst (fake_DeleteByKey k want w)) =
     (if j = k \<and> snd (fake_DeleteByKey k want w) = Inr () then [] else versions_at j w)"
  by (auto simp: fake_DeleteByKey_def Let_def versions_at_def delete_conv')

lemma list_loop_flat:
  "list_loop pre '''' w seen ks =
     map (\<lambda>k. fv_info (last (versions_at k w))) (filter (\<lambda>k. HasPrefix k pre) ks)"
  by (induction ks) simp_all

lemma fake_keys:
  assumes "distinct (map fst (fk_versions w))"
  shows "k \<in> set (map fst (filter (\<lambda>kv. snd kv \<noteq> []) (fk_versions w))) \<longleftrightarrow> versions_at k w \<noteq> []"
proof
  assume "k \<in> set (map fst (filter (\<lambda>kv. snd kv \<noteq> []) (fk_versions w)))"
  then obtain vs where "(k, vs) \<in> set (fk_versions w)" "vs \<noteq> []" by auto
  with assms show "versions_at k w \<noteq> []" by (simp add: versions_at_def)
next
  assume "versions_at k w \<noteq> []"
  then obtain vs where "(k, vs) \<in> set (fk_versions w)" "vs \<noteq> []"
    by (auto simp: versions_at_def dest: map_of_SomeD split: option.splits)
  then show "k \<in> set (map fst (filter (\<lambda>kv. snd kv \<noteq> []) (fk_versions w)))" by force
qed

lemma fake_inv_upload: "fake_inv w \<Longrightarrow> fake_inv (fst (fake_Upload now req w))"
proof -
  assume inv: "fake_inv w"
  have "distinct (map fst (fk_versions (fst (fake_Upload now req w))))"
    using inv by (simp add: fake_inv_def fake_Upload_def Let_def distinct_update)
  moreover have "fk_counter (fst (fake_Upload now req w)) = fk_counter w + 1"
    by (simp add: fake_Upload_def Let_def)
  moreover have "ri_key (fv_info v) = k \<and> (\<exists>n \<le> fk_counter w + 1. ri_file_id (fv_info v) = ''fake-'' @ dec_digits n)"
    if "v \<in> set (versions_at k (fst (fake_Upload now req w)))" for k v
  proof (cases "v \<in> set (versions_at k w)")
    case True
    with inv obtain n where "n \<le> fk_counter w" "ri_file_id (fv_info v) = ''fake-'' @ dec_digits n" "ri_key (fv_info v) = k"
      unfolding fake_inv_def by blast
    then show ?thesis by (intro conjI exI [of _ n]) simp_all
  next
    case False
    with that show ?thesis unfolding versions_at_upload
      by (auto intro: exI [of _ "fk_counter w + 1"] split: if_splits)
  qed
  ultimately show ?thesis by (simp add: fake_inv_def)
qed

lemma fake_inv_delete: "fake_inv w \<Longrightarrow> fake_inv (fst (fake_DeleteByKey k want w))"
proof -
  assume inv: "fake_inv w"
  have "distinct (map fst (fk_versions (fst (fake_DeleteByKey k want w))))"
    "fk_counter (fst (fake_DeleteByKey k want w)) = fk_counter w"
    using inv by (simp_all add: fake_inv_def fake_DeleteByKey_def Let_def distinct_delete)
  then show ?thesis using inv by (simp add: fake_inv_def versions_at_delete)
qed

lemma fake_remote_facts:
  assumes "fake_inv w" "fake_remote w k = Some (info, d)"
  shows "ri_key info = k" "\<exists>n \<le> fk_counter w. ri_file_id info = ''fake-'' @ dec_digits n"
proof -
  have "last (versions_at k w) \<in> set (versions_at k w)" "info = fv_info (last (versions_at k w))"
    using assms(2) by (auto simp: fake_remote_def split: if_splits)
  with assms(1) show "ri_key info = k" "\<exists>n \<le> fk_counter w. ri_file_id info = ''fake-'' @ dec_digits n"
    by (auto simp: fake_inv_def)
qed

lemma fake_upload_law:
  assumes inv: "fake_inv w" and up: "fake_Upload now req w = (w', Inr info)"
  shows "fake_remote w' = (fake_remote w)(up_key req \<mapsto> (info, up_source req)) \<and> uploaded req info \<and>
      (\<forall>k i d. fake_remote w k = Some (i, d) \<longrightarrow> ri_file_id i \<noteq> ri_file_id info)"
proof -
  have w': "w' = fst (fake_Upload now req w)" and info: "info = \<lparr>ri_file_id = ''fake-'' @ dec_digits (fk_counter w + 1),
      ri_key = up_key req, ri_size = int (length (up_source req)), ri_digest = up_digest req,
      ri_digest_algo = up_digest_algo req, ri_content_sha1 = up_content_sha1 req, ri_uploaded_at = now\<rparr>"
    using arg_cong [OF up, of fst] arg_cong [OF up, of snd] by (simp_all add: fake_Upload_def Let_def)
  have "fake_remote w' = (fake_remote w)(up_key req \<mapsto> (info, up_source req))"
    unfolding w' info by (auto simp: fun_eq_iff fake_remote_def versions_at_upload)
  moreover have "ri_file_id i \<noteq> ri_file_id info" if old: "fake_remote w k = Some (i, d)" for k i d
  proof -
    from fake_remote_facts(2) [OF inv old] obtain n where "n \<le> fk_counter w" "ri_file_id i = ''fake-'' @ dec_digits n"
      by blast
    then show ?thesis by (simp add: info dec_digits_inj)
  qed
  ultimately show ?thesis by (auto simp: info uploaded_def)
qed

lemma fake_list_law:
  assumes "fake_inv w" "fake_ListKeys pre '''' w = (entries, None)"
  shows "set entries = {info. \<exists>k d. fake_remote w k = Some (info, d) \<and> HasPrefix k pre}"
proof -
  have dist: "distinct (map fst (fk_versions w))" using assms(1) by (simp add: fake_inv_def)
  have "set entries = (\<lambda>k. fv_info (last (versions_at k w))) ` {k. versions_at k w \<noteq> [] \<and> HasPrefix k pre}"
    using assms(2) fake_keys [OF dist] by (auto simp: fake_ListKeys_def list_loop_flat Let_def)
  then show ?thesis by (auto simp: fake_remote_def)
qed

lemma fake_remote_delete:
  "fake_remote (fst (fake_DeleteByKey k want w)) j =
     (if j = k \<and> snd (fake_DeleteByKey k want w) = Inr () then None else fake_remote w j)"
  by (simp add: fake_remote_def versions_at_delete)

lemma fake_delete_guard:
  assumes "want \<noteq> ''''" "fake_remote w k = Some (info, d)" "ri_file_id info \<noteq> want"
  shows "\<exists>w' e. fake_DeleteByKey k want w = (w', Inl e) \<and> fake_remote w' = fake_remote w"
  using assms by (auto simp: fake_DeleteByKey_def fake_remote_def split: if_splits)

lemma fake_upload_no_error: "snd (fake_Upload now req w) \<noteq> Inl e"
  by (simp add: fake_Upload_def Let_def)

lemma strings_Index_SomeD: "strings_Index s sep = Some i \<Longrightarrow> take (i + length sep) s = take i s @ sep"
proof (induction s arbitrary: i)
  case Nil
  then show ?case by (simp split: if_splits)
next
  case (Cons c cs)
  then show ?case by (auto simp: HasPrefix_def prefix_def split: if_splits)
qed

lemma list_loop_entry:
  assumes "info \<in> set (list_loop pre delim w seen ks)"
  shows "(\<exists>k \<in> set ks. info = fv_info (last (versions_at k w)) \<and> HasPrefix k pre) \<or>
    delim \<noteq> '''' \<and> ri_file_id info = '''' \<and> (\<exists>x. ri_key info = pre @ x @ delim)"
  using assms
proof (induction ks arbitrary: seen)
  case Nil
  then show ?case by simp
next
  case (Cons k ks)
  show ?case
    using Cons by (fastforce simp: Let_def strings_Index_SomeD split: if_splits option.splits)
qed

lemma fake_list_entry:
  assumes "fake_inv w" "fake_ListKeys pre delim w = (entries, er)" "info \<in> set entries"
  shows "(\<exists>d. fake_remote w (ri_key info) = Some (info, d)) \<and> HasPrefix (ri_key info) pre \<or>
    delim \<noteq> '''' \<and> ri_file_id info = '''' \<and> (\<exists>x. ri_key info = pre @ x @ delim)"
proof -
  have dist: "distinct (map fst (fk_versions w))" using assms(1) by (simp add: fake_inv_def)
  from assms(2,3) have "info \<in> set (list_loop pre delim w [] (sort (map fst (filter (\<lambda>kv. snd kv \<noteq> []) (fk_versions w)))))"
    by (auto simp: fake_ListKeys_def Let_def)
  from list_loop_entry [OF this] show ?thesis
  proof
    assume "\<exists>k \<in> set (sort (map fst (filter (\<lambda>kv. snd kv \<noteq> []) (fk_versions w)))). info = fv_info (last (versions_at k w)) \<and> HasPrefix k pre"
    then obtain k where k: "k \<in> set (map fst (filter (\<lambda>kv. snd kv \<noteq> []) (fk_versions w)))"
      "info = fv_info (last (versions_at k w))" "HasPrefix k pre" by (metis set_sort)
    then have "fake_remote w k = Some (info, fv_data (last (versions_at k w)))"
      using fake_keys [OF dist, of k] by (simp add: fake_remote_def)
    with fake_remote_facts(1) [OF assms(1) this] k(3) show ?thesis by auto
  qed blast
qed

interpretation fake: archive_storage fake_ops fake_remote fake_inv
proof unfold_locales
  fix w w' :: FakeStorage and now req info e k j want d pre entries
  assume inv: "fake_inv w"
  show "fake_inv (fst (as_Upload fake_ops now req w))" "fake_inv (fst (as_DeleteByKey fake_ops k want w))"
    using inv by (simp_all add: fake_ops_def fake_inv_upload fake_inv_delete)
  show "\<exists>d. fake_remote w k = Some (info, d)" if "as_HeadByKey fake_ops k w = Inr info"
    using that by (auto simp: fake_ops_def fake_HeadByKey_def fake_remote_def Let_def split: if_splits)
  show "fake_remote w k = None" if "as_HeadByKey fake_ops k w = Inl e" "errors_Is e ErrNotExist"
    using that by (auto simp: fake_ops_def fake_HeadByKey_def fake_remote_def Let_def split: if_splits)
  show "(\<exists>d. fake_remote w (ri_key info) = Some (info, d)) \<and> HasPrefix (ri_key info) pre"
    if "as_ListKeys fake_ops pre '''' w = (entries, er)" "info \<in> set entries" for er
    using fake_list_entry [OF inv, of pre "''''"] that by (simp add: fake_ops_def)
  show "(\<exists>d. fake_remote w (ri_key info) = Some (info, d)) \<and> HasPrefix (ri_key info) pre \<or>
      ri_file_id info = '''' \<and> (\<exists>x. ri_key info = pre @ x @ ''/'')"
    if "as_ListKeys fake_ops pre ''/'' w = (entries, er)" "info \<in> set entries" for er
    using fake_list_entry [OF inv, of pre "''/''"] that by (simp add: fake_ops_def)
  show "\<exists>info. fake_remote w k = Some (info, d)" if "as_Download fake_ops k w = Inr d"
    using that by (auto simp: fake_ops_def fake_Download_def fake_remote_def Let_def split: if_splits)
  show "ri_key info = k \<and> ri_file_id info \<noteq> ''''" if "fake_remote w k = Some (info, d)"
    using fake_remote_facts [OF inv that] by auto
  show "fake_remote w' = fake_remote w \<or> (\<exists>info. fake_remote w' = (fake_remote w)(up_key req \<mapsto> (info, up_source req)) \<and> uploaded req info)"
    if "as_Upload fake_ops now req w = (w', Inl e)"
    using that fake_upload_no_error [of now req w e] by (simp add: fake_ops_def)
  show "set entries = {info. \<exists>k d. fake_remote w k = Some (info, d) \<and> HasPrefix k pre}"
    if "as_ListKeys fake_ops pre '''' w = (entries, None)"
    using fake_list_law [OF inv] that by (simp add: fake_ops_def)
  show "fake_remote (fst (as_DeleteByKey fake_ops k want w)) j = fake_remote w j" if "j \<noteq> k"
    using that by (simp add: fake_ops_def fake_remote_delete)
  show "\<exists>w' e. as_DeleteByKey fake_ops k want w = (w', Inl e) \<and> fake_remote w' = fake_remote w"
    if "want \<noteq> ''''" "fake_remote w k = Some (info, d)" "ri_file_id info \<noteq> want"
    using fake_delete_guard [OF that] by (simp add: fake_ops_def)
  assume "as_Upload fake_ops now req w = (w', Inr info)"
  then have "fake_Upload now req w = (w', Inr info)" by (simp add: fake_ops_def)
  from fake_upload_law [OF inv this]
  show "fake_remote w' = (fake_remote w)(up_key req \<mapsto> (info, up_source req)) \<and> uploaded req info \<and>
      (\<forall>k i d. fake_remote w k = Some (i, d) \<longrightarrow> ri_file_id i \<noteq> ri_file_id info)" .
qed

section \<open>Looking into the in-memory store\<close>

definition fake_Bytes :: "string \<Rightarrow> FakeStorage \<Rightarrow> bytes option" where
  "fake_Bytes k w = (let vs = versions_at k w in if vs = [] then None else Some (fv_data (last vs)))"

definition fake_VersionCount :: "string \<Rightarrow> FakeStorage \<Rightarrow> nat" where
  "fake_VersionCount k w = length (versions_at k w)"

text \<open>An upload adds one version of its key, the one that is then read.\<close>

lemma fake_Upload_visible:
  assumes "fake_Upload now req w = (w', Inr info)"
  shows "fake_Bytes (up_key req) w' = Some (up_source req)" "fake_VersionCount (up_key req) w' = fake_VersionCount (up_key req) w + 1"
  using assms by (auto simp: fake_Upload_def fake_Bytes_def fake_VersionCount_def versions_at_def update_conv' Let_def)

section \<open>The iterator of the in-memory store\<close>

text \<open>
  \<^verbatim>\<open>fakeIterator\<close>: a listing is handed out entry by entry, while the operations of the model return it whole with the error at its end.
  \<open>drain\<close> is the loop of a client, \<^verbatim>\<open>for it.Next() { use(it.Entry()) }\<close> followed by \<^verbatim>\<open>it.Err()\<close>.
\<close>

record fakeIterator =
  fi_entries :: "RemoteInfo list"
  fi_idx :: nat
  fi_err :: "err option"

definition no_remote :: RemoteInfo where
  "no_remote = \<lparr>ri_file_id = '''', ri_key = '''', ri_size = 0, ri_digest = [], ri_digest_algo = '''', ri_content_sha1 = '''', ri_uploaded_at = 0\<rparr>"

definition fi_Next :: "fakeIterator \<Rightarrow> fakeIterator \<times> bool" where
  "fi_Next it =
     (if fi_err it \<noteq> None \<or> length (fi_entries it) \<le> fi_idx it then (it, False) else (it\<lparr>fi_idx := fi_idx it + 1\<rparr>, True))"

definition fi_Entry :: "fakeIterator \<Rightarrow> RemoteInfo" where
  "fi_Entry it = (if fi_idx it = 0 \<or> length (fi_entries it) < fi_idx it then no_remote else fi_entries it ! (fi_idx it - 1))"

function fi_drain :: "fakeIterator \<Rightarrow> RemoteInfo list \<times> err option" where
  "fi_drain it =
     (case fi_Next it of
        (it', False) \<Rightarrow> ([], fi_err it')
      | (it', True) \<Rightarrow> (case fi_drain it' of (es, e) \<Rightarrow> (fi_Entry it' # es, e)))"
  by pat_completeness auto
termination
  by (relation "measure (\<lambda>it. length (fi_entries it) - fi_idx it)") (auto simp: fi_Next_def split: if_splits)

declare fi_drain.simps [simp del]

lemma fi_drain_from:
  "fi_err it = None \<Longrightarrow> fi_idx it \<le> length (fi_entries it) \<Longrightarrow> fi_drain it = (drop (fi_idx it) (fi_entries it), None)"
proof (induction it rule: fi_drain.induct)
  case (1 it)
  show ?case
  proof (cases "fi_idx it < length (fi_entries it)")
    case True
    let ?it = "it\<lparr>fi_idx := fi_idx it + 1\<rparr>"
    have nxt: "fi_Next it = (?it, True)" using True 1 by (simp add: fi_Next_def)
    have "fi_drain ?it = (drop (fi_idx it + 1) (fi_entries it), None)" using "1.IH" [OF nxt [symmetric]] True 1 by simp
    with True nxt show ?thesis by (subst fi_drain.simps) (simp add: fi_Entry_def Cons_nth_drop_Suc)
  next
    case False
    with 1 show ?thesis by (subst fi_drain.simps) (simp add: fi_Next_def)
  qed
qed

text \<open>Draining the iterator of a listing gives the listing.\<close>

lemma fi_drain_all: "fi_drain \<lparr>fi_entries = es, fi_idx = 0, fi_err = None\<rparr> = (es, None)"
  by (simp add: fi_drain_from)


end
