(* ===== verification/Delta.thy ===== *)
theory Delta
  imports Hubsync_Types
begin

unbundle bit_operations_syntax

text \<open>
  Rsync-style delta transfer (\<^verbatim>\<open>delta.go\<close>): block sizes, block signatures with a weak checksum
  and a strong hash, the sliding-window delta and its application. \<open>sha\<close> stands for
  SHA-256. The main lemma: applying the delta of a target against the signature of a base
  to that base gives the target back, unless two different blocks collide.
\<close>

section \<open>Block size\<close>

definition minBlockSize :: int where "minBlockSize = 1024"
definition maxBlockSize :: int where "maxBlockSize = 64 * 1024"
definition defaultBlockSize :: int where "defaultBlockSize = 8 * 1024"

text \<open>
  The integer square root stands for \<^verbatim>\<open>int(math.Sqrt(x))\<close>. Below the clamp at 64KB its argument
  is at most \<open>2^32\<close>, where the conversion to float64 is exact and the correctly rounded root
  of a non-square never reaches the next integer; above it both are clamped.
\<close>

fun isqrt :: "nat \<Rightarrow> nat" where
  "isqrt n = (if n = 0 then 0
     else let r = 2 * isqrt (n div 4) in if (r + 1) * (r + 1) \<le> n then r + 1 else r)"

declare isqrt.simps [simp del]

definition OptimalBlockSize :: "int \<Rightarrow> int" where
  "OptimalBlockSize fileSize =
     (if fileSize \<le> 0 then defaultBlockSize
      else let bs = int (isqrt (nat (24 * fileSize))) in
           if bs < minBlockSize then minBlockSize
           else if maxBlockSize < bs then maxBlockSize
           else bs)"

text \<open>Every entry point replaces a block size that is not positive by the default.\<close>

definition block_size :: "int \<Rightarrow> nat" where
  "block_size bs = nat (if bs \<le> 0 then defaultBlockSize else bs)"

lemma block_size_pos [simp]: "0 < block_size bs"
  by (simp add: block_size_def defaultBlockSize_def)

section \<open>Weak checksum\<close>

text \<open>The loop of \<^verbatim>\<open>weakHash\<close>: \<open>n\<close> is \<^verbatim>\<open>len(data) - i\<close>; both sums wrap as uint32.\<close>

fun weak_loop :: "nat \<Rightarrow> bytes \<Rightarrow> uint32 \<Rightarrow> uint32 \<Rightarrow> uint32 \<times> uint32" where
  "weak_loop n [] r1 r2 = (r1, r2)"
| "weak_loop n (b # bs) r1 r2 =
     weak_loop (n - 1) bs (r1 + ucast b) (r2 + word_of_nat n * ucast b)"

definition weakHash :: "bytes \<Rightarrow> uint32" where
  "weakHash data =
     (let (r1, r2) = weak_loop (length data) data 0 0;
          r1 = r1 AND 0xFFFF;
          r2 = r2 AND 0xFFFF
      in r1 OR push_bit 16 r2)"

section \<open>Signatures\<close>

record BlockSig =
  sig_index :: uint32
  sig_weak :: uint32
  sig_strong :: bytes

function sig_loop :: "(bytes \<Rightarrow> bytes) \<Rightarrow> nat \<Rightarrow> nat \<Rightarrow> bytes \<Rightarrow> BlockSig list" where
  "sig_loop sha bs n d =
     (if d = [] \<or> bs = 0 then []
      else let block = take bs d in
           \<lparr>sig_index = word_of_nat n, sig_weak = weakHash block, sig_strong = sha block\<rparr>
           # sig_loop sha bs (Suc n) (drop bs d))"
  by pat_completeness auto
termination
  by (relation "measure (\<lambda>(sha, bs, n, d). length d)") auto

declare sig_loop.simps [simp del]

lemma sig_loop_Nil [simp]: "sig_loop sha bs n [] = []"
  by (simp add: sig_loop.simps)

definition ComputeSignature :: "(bytes \<Rightarrow> bytes) \<Rightarrow> bytes \<Rightarrow> int \<Rightarrow> BlockSig list" where
  "ComputeSignature sha data blockSize = sig_loop sha (block_size blockSize) 0 data"

section \<open>Delta operations\<close>

datatype deltaOp = CopyBlock uint32 | DataBlock bytes

record DeltaOps =
  delta_ops :: "deltaOp list"
  target_size :: int

definition flush :: "bytes \<Rightarrow> deltaOp list" where
  "flush pending = (if pending = [] then [] else [DataBlock pending])"

text \<open>
  The lookup of one window: the weak hash selects the candidates in signature order, the
  strong hash picks the first that agrees.
\<close>

definition find_block :: "(bytes \<Rightarrow> bytes) \<Rightarrow> BlockSig list \<Rightarrow> bytes \<Rightarrow> BlockSig option" where
  "find_block sha sigs window =
     (let wh = weakHash window;
          candidates = filter (\<lambda>s. sig_weak s = wh) sigs
      in if candidates = [] then None
         else let sh = sha window in find (\<lambda>s. sig_strong s = sh) candidates)"

text \<open>
  The sliding window: \<open>rest\<close> is the target from the current position. A match flushes the
  pending literal and advances by a block, a miss moves one byte to the pending literal.
\<close>

function delta_loop :: "(bytes \<Rightarrow> bytes) \<Rightarrow> BlockSig list \<Rightarrow> nat \<Rightarrow> bytes \<Rightarrow> bytes \<Rightarrow> deltaOp list \<Rightarrow> deltaOp list"
where
  "delta_loop sha sigs bs rest pending ops =
     (if 0 < bs \<and> bs \<le> length rest then
        (case find_block sha sigs (take bs rest) of
           Some sig \<Rightarrow>
             delta_loop sha sigs bs (drop bs rest) [] (ops @ flush pending @ [CopyBlock (sig_index sig)])
         | None \<Rightarrow> delta_loop sha sigs bs (tl rest) (pending @ [hd rest]) ops)
      else ops @ flush (pending @ rest))"
  by pat_completeness auto
termination
  by (relation "measure (\<lambda>(sha, sigs, bs, rest, pending, ops). length rest)") auto

declare delta_loop.simps [simp del]

lemma delta_loop_stop:
  "\<not> (0 < bs \<and> bs \<le> length rest) \<Longrightarrow>
     delta_loop sha sigs bs rest pending ops = ops @ flush (pending @ rest)"
  by (subst delta_loop.simps) (simp only: if_False)

lemma delta_loop_hit:
  "0 < bs \<and> bs \<le> length rest \<Longrightarrow> find_block sha sigs (take bs rest) = Some sig \<Longrightarrow>
     delta_loop sha sigs bs rest pending ops =
     delta_loop sha sigs bs (drop bs rest) [] (ops @ flush pending @ [CopyBlock (sig_index sig)])"
  by (subst delta_loop.simps) simp

lemma delta_loop_miss:
  "0 < bs \<and> bs \<le> length rest \<Longrightarrow> find_block sha sigs (take bs rest) = None \<Longrightarrow>
     delta_loop sha sigs bs rest pending ops =
     delta_loop sha sigs bs (tl rest) (pending @ [hd rest]) ops"
  by (subst delta_loop.simps) simp

definition ComputeDelta :: "(bytes \<Rightarrow> bytes) \<Rightarrow> bytes \<Rightarrow> BlockSig list \<Rightarrow> int \<Rightarrow> DeltaOps" where
  "ComputeDelta sha target sigs blockSize =
     (let bs = block_size blockSize in
      \<lparr>delta_ops =
         (if target = [] \<or> sigs = []
          then (if target \<noteq> [] then [DataBlock target] else [])
          else delta_loop sha sigs bs target [] []),
       target_size = int (length target)\<rparr>)"

fun apply_op :: "bytes \<Rightarrow> nat \<Rightarrow> deltaOp \<Rightarrow> bytes" where
  "apply_op base bs (CopyBlock i) =
     (let start = unat i * bs;
          stop = (if length base < start + bs then length base else start + bs)
      in if start < length base then take (stop - start) (drop start base) else [])"
| "apply_op base bs (DataBlock d) = d"

definition ApplyDelta :: "bytes \<Rightarrow> DeltaOps \<Rightarrow> int \<Rightarrow> bytes" where
  "ApplyDelta base ops blockSize =
     fold (\<lambda>oper out. out @ apply_op base (block_size blockSize) oper) (delta_ops ops) []"

section \<open>Wire form\<close>

datatype ProtoDeltaOp = DeltaOp_CopyIndex uint32 | DeltaOp_Data bytes | DeltaOp_Unset

record DeltaResponse =
  dr_target_digest :: bytes
  dr_target_size :: uint64
  dr_ops :: "ProtoDeltaOp list"

fun op_to_proto :: "deltaOp \<Rightarrow> ProtoDeltaOp" where
  "op_to_proto (CopyBlock i) = DeltaOp_CopyIndex i"
| "op_to_proto (DataBlock d) = DeltaOp_Data d"

definition ToProto :: "DeltaOps \<Rightarrow> bytes \<Rightarrow> DeltaResponse" where
  "ToProto d targetDigest =
     \<lparr>dr_target_digest = targetDigest, dr_target_size = word_of_int (target_size d),
      dr_ops = map op_to_proto (delta_ops d)\<rparr>"

fun ops_from_proto :: "ProtoDeltaOp list \<Rightarrow> deltaOp list" where
  "ops_from_proto [] = []"
| "ops_from_proto (DeltaOp_CopyIndex i # ps) = CopyBlock i # ops_from_proto ps"
| "ops_from_proto (DeltaOp_Data d # ps) = DataBlock d # ops_from_proto ps"
| "ops_from_proto (DeltaOp_Unset # ps) = ops_from_proto ps"

definition DeltaOpsFromProto :: "DeltaResponse \<Rightarrow> DeltaOps" where
  "DeltaOpsFromProto resp =
     \<lparr>delta_ops = ops_from_proto (dr_ops resp), target_size = sint (dr_target_size resp)\<rparr>"

section \<open>Square root and block size\<close>

lemma isqrt_bounds: "isqrt n * isqrt n \<le> n \<and> n < (isqrt n + 1) * (isqrt n + 1)"
proof (induction n rule: isqrt.induct)
  case (1 n)
  show ?case
  proof (cases "n = 0")
    case True
    then show ?thesis by (simp add: isqrt.simps)
  next
    case False
    let ?q = "isqrt (n div 4)"
    from 1 False have lo: "?q * ?q \<le> n div 4" and hi: "n div 4 < (?q + 1) * (?q + 1)" by auto
    from lo have "4 * (?q * ?q) \<le> n" by linarith
    then have lo': "2 * ?q * (2 * ?q) \<le> n" by (simp add: algebra_simps)
    from hi have "n < 4 * ((?q + 1) * (?q + 1))" by linarith
    then have hi': "n < (2 * ?q + 2) * (2 * ?q + 2)" by (simp add: algebra_simps)
    show ?thesis
    proof (cases "(2 * ?q + 1) * (2 * ?q + 1) \<le> n")
      case True
      then have "isqrt n = 2 * ?q + 1" using False by (simp add: isqrt.simps [of n] Let_def)
      with True hi' show ?thesis by (simp add: algebra_simps)
    next
      case ge: False
      then have "isqrt n = 2 * ?q" using False by (simp add: isqrt.simps [of n] Let_def)
      with ge lo' show ?thesis by (simp add: algebra_simps)
    qed
  qed
qed

lemma isqrt_mono: "m \<le> n \<Longrightarrow> isqrt m \<le> isqrt n"
proof (rule ccontr)
  assume "m \<le> n" "\<not> isqrt m \<le> isqrt n"
  then have "isqrt n + 1 \<le> isqrt m" by simp
  then have "(isqrt n + 1) * (isqrt n + 1) \<le> isqrt m * isqrt m" by (intro mult_le_mono)
  with isqrt_bounds [of m] isqrt_bounds [of n] \<open>m \<le> n\<close> show False by linarith
qed

section \<open>The weak checksum in closed form\<close>

fun weighted_sum :: "nat \<Rightarrow> bytes \<Rightarrow> nat" where
  "weighted_sum n [] = 0"
| "weighted_sum n (b # bs) = n * unat b + weighted_sum (n - 1) bs"

lemma weak_loop_sums:
  "weak_loop n d r1 r2 =
     (r1 + word_of_nat (sum_list (map unat d)), r2 + word_of_nat (weighted_sum n d))"
proof (induction n d r1 r2 rule: weak_loop.induct)
  case (1 n r1 r2)
  then show ?case by simp
next
  case (2 n b bs r1 r2)
  then show ?case by (simp add: add.assoc)
qed

lemma and_FFFF: "(x :: uint32) AND 0xFFFF = word_of_nat (unat x mod 65536)"
proof -
  have "x AND 0xFFFF = take_bit 16 x" by (simp add: take_bit_eq_mask mask_eq_exp_minus_1)
  also have "\<dots> = word_of_nat (unat (take_bit 16 x))" by simp
  also have "unat (take_bit 16 x) = unat x mod 65536"
    by (simp add: take_bit_eq_mod unat_mod)
  finally show ?thesis .
qed

section \<open>Signatures and blocks\<close>

lemma sig_loop_nth:
  assumes "0 < bs" and "i < length (sig_loop sha bs n d)"
  shows "sig_loop sha bs n d ! i =
     \<lparr>sig_index = word_of_nat (n + i), sig_weak = weakHash (take bs (drop (i * bs) d)),
      sig_strong = sha (take bs (drop (i * bs) d))\<rparr> \<and> i * bs < length d"
  using assms
proof (induction sha bs n d arbitrary: i rule: sig_loop.induct)
  case (1 sha bs n d)
  then have d: "d \<noteq> []" by (auto simp: sig_loop.simps [of sha bs n d])
  show ?case
  proof (cases i)
    case 0
    with d 1 show ?thesis by (simp add: sig_loop.simps [of sha bs n d] Let_def)
  next
    case (Suc j)
    with d 1(2,3) have "j < length (sig_loop sha bs (Suc n) (drop bs d))"
      by (simp add: sig_loop.simps [of sha bs n d] Let_def)
    with 1(1) [OF _ refl, of j] 1(2) d Suc show ?thesis
      by (auto simp: sig_loop.simps [of sha bs n d] Let_def add.commute)
  qed
qed

lemma sig_loop_length: "0 < bs \<Longrightarrow> length (sig_loop sha bs n d) = (length d + bs - 1) div bs"
proof (induction sha bs n d rule: sig_loop.induct)
  case (1 sha bs n d)
  show ?case
  proof (cases "d = []")
    case True
    with 1(2) show ?thesis by (simp add: sig_loop.simps [of sha bs n d])
  next
    case False
    with 1 have "length (sig_loop sha bs n d) = Suc ((length d - bs + bs - 1) div bs)"
      by (simp add: sig_loop.simps [of sha bs n d] Let_def)
    also have "\<dots> = (length d + bs - 1) div bs"
    proof (cases "bs \<le> length d")
      case True
      then have "length d + bs - 1 = (length d - bs + bs - 1) + bs" using 1(2) by simp
      with 1(2) show ?thesis by (simp only: div_add_self2)
    next
      case le: False
      with 1(2) have "(length d - bs + bs - 1) div bs = 0" by simp
      moreover have "(length d + bs - 1) div bs = 1"
      proof (rule div_nat_eqI)
        have "0 < length d" using False by simp
        with le 1(2) show "bs * 1 \<le> length d + bs - 1" by linarith
        show "length d + bs - 1 < bs * Suc 1" using le 1(2) by simp
      qed
      ultimately show ?thesis by simp
    qed
    finally show ?thesis .
  qed
qed

section \<open>Applying a delta\<close>

lemma fold_append_concat: "fold (\<lambda>x out. out @ g x) xs acc = acc @ concat (map g xs)"
  by (induction xs arbitrary: acc) auto

lemma ApplyDelta_concat:
  "ApplyDelta base ops bs = concat (map (apply_op base (block_size bs)) (delta_ops ops))"
  by (simp add: ApplyDelta_def fold_append_concat)

lemma apply_flush [simp]: "concat (map (apply_op base bs) (flush p)) = p"
  by (simp add: flush_def)

lemma apply_copy: "unat i * bs < length base \<Longrightarrow> apply_op base bs (CopyBlock i) = take bs (drop (unat i * bs) base)"
  by (simp add: Let_def min_def)

text \<open>The blocks of a base, as \<^verbatim>\<open>ComputeSignature\<close> cuts them.\<close>

definition base_block :: "bytes \<Rightarrow> nat \<Rightarrow> nat \<Rightarrow> bytes" where
  "base_block base bs i = take bs (drop (i * bs) base)"

lemma find_block_SomeD:
  "find_block sha sigs w = Some sig \<Longrightarrow> sig \<in> set sigs \<and> sig_strong sig = sha w"
  by (auto simp: find_block_def Let_def split: if_splits dest!: find_SomeD)

lemma delta_loop_apply:
  assumes "\<And>w sig. length w = bs \<Longrightarrow> find_block sha sigs w = Some sig \<Longrightarrow>
      w \<in> set windows \<Longrightarrow> apply_op base bs (CopyBlock (sig_index sig)) = w"
    and "\<And>n. n + bs \<le> length rest \<Longrightarrow> take bs (drop n rest) \<in> set windows"
  shows "concat (map (apply_op base bs) (delta_loop sha sigs bs rest pending ops)) =
     concat (map (apply_op base bs) ops) @ pending @ rest"
  using assms
proof (induction sha sigs bs rest pending ops rule: delta_loop.induct)
  case (1 sha sigs bs rest pending ops)
  show ?case
  proof (cases "0 < bs \<and> bs \<le> length rest")
    case False
    then show ?thesis by (simp add: delta_loop_stop del: apply_op.simps)
  next
    case True
    show ?thesis
    proof (cases "find_block sha sigs (take bs rest)")
      case None
      have "n + bs \<le> length (tl rest) \<Longrightarrow> take bs (drop n (tl rest)) \<in> set windows" for n
        using 1(4) [of "Suc n"] True by (cases rest) auto
      moreover obtain x xs where "rest = x # xs" using True by (cases rest) auto
      ultimately show ?thesis
        using 1(1) [OF True None 1(3)] None True by (simp add: delta_loop_miss del: apply_op.simps)
    next
      case (Some sig)
      have "take bs rest \<in> set windows" using 1(4) [of 0] True by simp
      with 1(3) [OF _ Some] True have copy: "apply_op base bs (CopyBlock (sig_index sig)) = take bs rest"
        by simp
      have "n + bs \<le> length (drop bs rest) \<Longrightarrow> take bs (drop n (drop bs rest)) \<in> set windows" for n
        using 1(4) [of "n + bs"] True by (simp add: add.commute)
      with 1(2) [OF True Some 1(3)] Some True copy show ?thesis
        by (simp add: delta_loop_hit del: apply_op.simps)
    qed
  qed
qed

lemma ComputeSignature_sig:
  assumes "sig \<in> set (ComputeSignature sha base blockSize)"
    and "length (ComputeSignature sha base blockSize) \<le> 2 ^ 32"
  defines "bs \<equiv> block_size blockSize"
  shows "\<exists>i. i * bs < length base \<and> unat (sig_index sig) = i \<and>
           sig_strong sig = sha (base_block base bs i)"
proof -
  from assms obtain i where i: "i < length (sig_loop sha bs 0 base)" "sig = sig_loop sha bs 0 base ! i"
    unfolding ComputeSignature_def in_set_conv_nth by blast
  with sig_loop_nth [of bs i sha 0 base] assms(2) show ?thesis
    by (intro exI [of _ i])
       (auto simp: base_block_def bs_def ComputeSignature_def unat_of_nat intro!: mod_less)
qed

lemma delta_rebuilds:
  assumes "\<And>n i. n + block_size bs \<le> length target \<Longrightarrow> i * block_size bs < length base \<Longrightarrow>
      sha (take (block_size bs) (drop n target)) = sha (base_block base (block_size bs) i) \<Longrightarrow>
      take (block_size bs) (drop n target) = base_block base (block_size bs) i"
    and "length (ComputeSignature sha base bs) \<le> 2 ^ 32"
  shows "ApplyDelta base (ComputeDelta sha target (ComputeSignature sha base bs) bs) bs = target"
proof -
  let ?bs = "block_size bs" and ?sigs = "ComputeSignature sha base bs"
  let ?windows = "map (\<lambda>n. take ?bs (drop n target)) [0..<Suc (length target - ?bs)]"
  have copy: "apply_op base ?bs (CopyBlock (sig_index sig)) = w"
    if "length w = ?bs" "find_block sha ?sigs w = Some sig" "w \<in> set ?windows" for w sig
  proof -
    from that(3) obtain n where n: "n \<le> length target - ?bs" "w = take ?bs (drop n target)"
      by (auto simp: less_Suc_eq_le simp del: upt_Suc)
    with that(1) have n': "n + ?bs \<le> length target" by (auto simp: min_def split: if_splits)
    from find_block_SomeD [OF that(2)] ComputeSignature_sig [OF _ assms(2)] obtain i where
      i: "i * ?bs < length base" "unat (sig_index sig) = i" "sha w = sha (base_block base ?bs i)"
      by metis
    with assms(1) [OF n', of i] n(2) have "w = base_block base ?bs i" by simp
    with i show ?thesis by (simp add: apply_copy base_block_def del: apply_op.simps)
  qed
  show ?thesis
  proof (cases "target = [] \<or> ?sigs = []")
    case True
    then show ?thesis by (auto simp: ApplyDelta_concat ComputeDelta_def)
  next
    case False
    have "take ?bs (drop n target) \<in> set ?windows" if "n + ?bs \<le> length target" for n
      using that by (auto simp: image_iff simp del: upt_Suc intro!: bexI [of _ n])
    with delta_loop_apply [of ?bs sha ?sigs ?windows base target "[]" "[]"] copy False show ?thesis
      by (simp add: ApplyDelta_concat ComputeDelta_def del: apply_op.simps)
  qed
qed

lemma proto_inverse:
  assumes "0 \<le> target_size d" and "target_size d \<le> 2 ^ 63 - 1"
  shows "DeltaOpsFromProto (ToProto d digest) = d"
proof -
  have "ops_from_proto (map op_to_proto ops) = ops" for ops
  proof (induction ops)
    case (Cons oper ops)
    then show ?case by (cases oper) simp_all
  qed simp
  moreover have "sint (word_of_int (target_size d) :: uint64) = target_size d"
    using assms by (intro int64_uint64_inverse) simp_all
  ultimately show ?thesis by (simp add: DeltaOpsFromProto_def ToProto_def)
qed

section \<open>Properties of delta transfer\<close>

text \<open>
  C20: Delta round trip. The delta of a target against the signature of a base, applied to that base, is the
  target, for every block size, provided no window of the target has the SHA-256 of a
  different base block and the base has at most \<open>2^32\<close> blocks (block indices are uint32).
\<close>

theorem delta_roundtrip:
  assumes "\<And>n i. n + block_size bs \<le> length target \<Longrightarrow> i * block_size bs < length base \<Longrightarrow>
      sha (take (block_size bs) (drop n target)) = sha (base_block base (block_size bs) i) \<Longrightarrow>
      take (block_size bs) (drop n target) = base_block base (block_size bs) i"
    and "length (ComputeSignature sha base bs) \<le> 2 ^ 32"
  shows "ApplyDelta base (ComputeDelta sha target (ComputeSignature sha base bs) bs) bs = target"
  using assms by (rule delta_rebuilds)

theorem delta_roundtrip_witness:
  "ApplyDelta [1, 2, 3, 4, 5] (ComputeDelta (\<lambda>d. d) [9, 3, 4, 1, 2, 5] (ComputeSignature (\<lambda>d. d) [1, 2, 3, 4, 5] 2) 2) 2 =
     [9, 3, 4, 1, 2, 5] \<and>
   delta_ops (ComputeDelta (\<lambda>d. d) [9, 3, 4, 1, 2, 5] (ComputeSignature (\<lambda>d. d) [1, 2, 3, 4, 5] 2) 2) =
     [DataBlock [9], CopyBlock 1, CopyBlock 0, DataBlock [5]]"
proof
  have "length (ComputeSignature (\<lambda>d. d) [1, 2, 3, 4, 5] 2) = 3" by code_simp
  then show "ApplyDelta [1, 2, 3, 4, 5]
      (ComputeDelta (\<lambda>d. d) [9, 3, 4, 1, 2, 5] (ComputeSignature (\<lambda>d. d) [1, 2, 3, 4, 5] 2) 2) 2 = [9, 3, 4, 1, 2, 5]"
    by (intro delta_roundtrip) simp_all
  show "delta_ops (ComputeDelta (\<lambda>d. d) [9, 3, 4, 1, 2, 5] (ComputeSignature (\<lambda>d. d) [1, 2, 3, 4, 5] 2) 2) =
     [DataBlock [9], CopyBlock 1, CopyBlock 0, DataBlock [5]]"
    by code_simp
qed

text \<open>
  \<^verbatim>\<open>weakHash\<close> is the checksum its comment describes, although its sums wrap at 32 bits: the low half is the
  sum of the bytes modulo 65536, the high half the sum weighted by distance from the end.
\<close>

theorem weakHash_closed_form:
  "unat (weakHash d) =
     sum_list (map unat d) mod 65536 + 65536 * (weighted_sum (length d) d mod 65536)"
proof -
  let ?a = "sum_list (map unat d) mod 65536" and ?b = "weighted_sum (length d) d mod 65536"
  have "unat (word_of_nat n :: uint32) mod 65536 = n mod 65536" for n
    by (simp add: unat_of_nat mod_mod_cancel)
  then have "weakHash d = word_of_nat ?a OR push_bit 16 (word_of_nat ?b)"
    by (simp add: weakHash_def weak_loop_sums and_FFFF)
  also have "\<dots> = word_of_nat ?a + push_bit 16 (word_of_nat ?b)"
  proof (rule disjunctive_add_eq_or [symmetric])
    show "(word_of_nat ?a :: uint32) AND push_bit 16 (word_of_nat ?b) = 0"
    proof (rule bit_word_eqI)
      fix n
      have "\<not> bit (?a :: nat) n" if "16 \<le> n"
      proof -
        have "take_bit 16 ?a = ?a" by (simp add: take_bit_eq_mod)
        with that show ?thesis by (metis bit_take_bit_iff not_less)
      qed
      then show "bit ((word_of_nat ?a :: uint32) AND push_bit 16 (word_of_nat ?b)) n = bit (0 :: uint32) n"
        by (auto simp: bit_and_iff bit_push_bit_iff bit_of_nat_iff)
    qed
  qed
  also have "\<dots> = word_of_nat (?a + 65536 * ?b)" by (simp add: push_bit_eq_mult)
  finally have w: "weakHash d = word_of_nat (?a + 65536 * ?b)" .
  have "?a + 65536 * ?b < 2 ^ 32"
    using mod_less_divisor [of 65536 "sum_list (map unat d)"] mod_less_divisor [of 65536 "weighted_sum (length d) d"]
    by simp
  then show ?thesis unfolding w by (simp add: unat_of_nat del: of_nat_add of_nat_mult)
qed

text \<open>
  The block size is always between 1KB and 64KB, never shrinks as the file grows, and between the
  clamps it is the integer square root of 24 times the file size.
\<close>

theorem OptimalBlockSize_bounds:
  "1024 \<le> OptimalBlockSize n \<and> OptimalBlockSize n \<le> 65536 \<and>
   (0 < m \<and> m \<le> n \<longrightarrow> OptimalBlockSize m \<le> OptimalBlockSize n) \<and>
   (0 < n \<and> 1024 < OptimalBlockSize n \<and> OptimalBlockSize n < 65536 \<longrightarrow>
      OptimalBlockSize n * OptimalBlockSize n \<le> 24 * n \<and>
      24 * n < (OptimalBlockSize n + 1) * (OptimalBlockSize n + 1))"
proof -
  let ?r = "\<lambda>k. int (isqrt (nat (24 * k)))"
  have size: "OptimalBlockSize k = max 1024 (min 65536 (?r k))" if "0 < k" for k
    using that by (simp add: OptimalBlockSize_def minBlockSize_def maxBlockSize_def Let_def)
  have "?r m \<le> ?r n" if "0 < m" "m \<le> n" using that by (auto intro: isqrt_mono)
  moreover have "?r n * ?r n \<le> 24 * n \<and> 24 * n < (?r n + 1) * (?r n + 1)" if "0 < n"
  proof -
    have "int (isqrt k * isqrt k) \<le> int k \<and> int k < int ((isqrt k + 1) * (isqrt k + 1))" for k
      using isqrt_bounds [of k] by linarith
    from this [of "nat (24 * n)"] that show ?thesis by (simp add: algebra_simps)
  qed
  moreover have "OptimalBlockSize n = 8192" if "\<not> 0 < n"
    using that by (simp add: OptimalBlockSize_def defaultBlockSize_def)
  ultimately show ?thesis
    by (cases "0 < n") (auto simp: size max_def min_def split: if_splits)
qed

theorem OptimalBlockSize_bounds_witness:
  "OptimalBlockSize 1000000 = 4898 \<and> (4898::int) * 4898 \<le> 24 * 1000000 \<and> OptimalBlockSize 1000 \<le> OptimalBlockSize 1000000"
proof -
  have v: "OptimalBlockSize 1000000 = 4898"
    by (simp add: OptimalBlockSize_def minBlockSize_def maxBlockSize_def isqrt.simps Let_def)
  then show ?thesis using OptimalBlockSize_bounds [of 1000000 1000] by simp
qed

text \<open>
  A delta survives the wire: reading back the protobuf form of a delta gives the same operations and size.
\<close>

theorem delta_proto_roundtrip:
  assumes "0 \<le> target_size d" and "target_size d \<le> 2 ^ 63 - 1"
  shows "DeltaOpsFromProto (ToProto d digest) = d"
  using assms by (rule proto_inverse)

theorem delta_proto_roundtrip_witness:
  "DeltaOpsFromProto (ToProto \<lparr>delta_ops = [CopyBlock 3, DataBlock [1]], target_size = 9\<rparr> [7]) =
     \<lparr>delta_ops = [CopyBlock 3, DataBlock [1]], target_size = 9\<rparr>"
  by (rule delta_proto_roundtrip) simp_all

end
