(* ===== verification/Server.thy ===== *)
theory Server
  imports Client_Store Protocol Archive_Storage Delta
begin

text \<open>
  The hub's HTTP API (\<^verbatim>\<open>server.go\<close>): the event stream of a subscriber, blobs, deltas, snapshots and
  pushes. A handler is a function from the request to the response and the new hub state; routing is in \<open>Http_Api\<close>. The lemmas show that a subscriber that
  keeps up receives exactly the log after its starting version, and that a served delta
  rebuilds the target.
\<close>

section \<open>Requests and responses\<close>

datatype 'a http =
    HttpError (http_status: nat) (http_text: string)
  | HttpOK (http_body: 'a)
  | HttpRedirect (http_location: string)

text \<open>\<^verbatim>\<open>strconv.ParseInt(s, 10, 64)\<close>: a sign and digits, nothing else, within the range of int64.\<close>

definition ParseInt :: "string \<Rightarrow> int res" where
  "ParseInt s =
     (let neg = HasPrefix s ''-'';
          ds = (if neg \<or> HasPrefix s ''+'' then tl s else s);
          n = int (read_digits ds);
          v = (if neg then - n else n)
      in if ds = '''' \<or> (\<exists>c \<in> set ds. \<not> is_digit c) then Inl (Error_string (''strconv.ParseInt: parsing '' @ fmt_q s @ '': invalid syntax''))
         else if v < - (2 ^ 63) \<or> 2 ^ 63 - 1 < v then Inl (Error_string (''strconv.ParseInt: parsing '' @ fmt_q s @ '': value out of range''))
         else Inr v)"

section \<open>The event stream\<close>

text \<open>
  \<^verbatim>\<open>writeEvent\<close>: the message for a log entry. A file of at most 64KB is inlined with what the disk
  holds now; when it cannot be read the message has no data.
\<close>

definition inline_data :: "fpath \<Rightarrow> fs \<Rightarrow> ChangeEntry \<Rightarrow> bytes" where
  "inline_data dir f e =
     (if 0 < ce_size e \<and> ce_size e \<le> InlineThreshold
      then (case os_ReadFile f (filepath_Join dir (ce_path e)) of Inr d \<Rightarrow> d | Inl _ \<Rightarrow> [])
      else [])"

definition sync_event :: "fpath \<Rightarrow> fs \<Rightarrow> ChangeEntry \<Rightarrow> SyncEvent" where
  "sync_event dir f e =
     \<lparr>ev_version = word_of_int (ce_version e), ev_path = ce_path e,
      ev_event =
        (if ce_op e = OpDelete then SyncEvent_Delete
         else SyncEvent_Change
                \<lparr>fc_kind = ce_kind e, fc_digest = ce_digest e, fc_size = word_of_int (ce_size e),
                 fc_mode = ce_mode e, fc_mtime = ce_mtime e, fc_data = inline_data dir f e\<rparr>)\<rparr>"

definition writeEvent :: "(SyncEvent \<Rightarrow> bytes res) \<Rightarrow> (bytes \<Rightarrow> bytes \<Rightarrow> bytes res) \<Rightarrow> fpath \<Rightarrow> fs \<Rightarrow> ChangeEntry \<Rightarrow> bytes \<Rightarrow> bytes res" where
  "writeEvent marshal write_to dir f e w = WriteLengthPrefixed marshal write_to (sync_event dir f e) w"

text \<open>
  \<^verbatim>\<open>handleSubscribe\<close> as its stages: the subscription, the backfill, and one receive of the live loop.
  \<open>ss_out\<close> are the entries written so far. The flag \<open>ss_lost\<close> is a ghost: it records that an event
  found the buffer of this subscriber full.
\<close>

record Session =
  ss_chan :: nat
  ss_since :: int
  ss_live :: bool
  ss_last :: int
  ss_out :: "ChangeEntry list"
  ss_lost :: bool

definition subscribe_since :: "string \<Rightarrow> int res" where
  "subscribe_since sinceStr = (if sinceStr \<noteq> '''' then ParseInt sinceStr else Inr 0)"

definition sub_start :: "int \<Rightarrow> Hub \<Rightarrow> Hub \<times> Session" where
  "sub_start since h =
     (let (bc, ch) = Subscribe (hub_bc h) in
      (h\<lparr>hub_bc := bc\<rparr>,
       \<lparr>ss_chan = ch, ss_since = since, ss_live = False, ss_last = since, ss_out = [], ss_lost = False\<rparr>))"

definition sub_backfill :: "sql_faults \<Rightarrow> Hub \<Rightarrow> Session \<Rightarrow> Session option" where
  "sub_backfill sql h ss =
     (case ChangesSince sql (ss_since ss) (hub_db h) of
        Inl _ \<Rightarrow> None
      | Inr entries \<Rightarrow>
          Some (ss\<lparr>ss_live := True, ss_out := ss_out ss @ entries,
                   ss_last := (if entries = [] then ss_since ss else ce_version (last entries))\<rparr>))"

definition sub_live :: "Hub \<Rightarrow> Session \<Rightarrow> (Hub \<times> Session) option" where
  "sub_live h ss =
     (case recv (ss_chan ss) (hub_bc h) of
        None \<Rightarrow> None
      | Some (entry, bc) \<Rightarrow>
          Some (h\<lparr>hub_bc := bc\<rparr>,
                if ce_version entry \<le> ss_last ss then ss else ss\<lparr>ss_out := ss_out ss @ [entry]\<rparr>))"

section \<open>Handlers\<close>

definition handleBlob :: "sql_faults \<Rightarrow> fpath \<Rightarrow> (string \<Rightarrow> string res) option \<Rightarrow> string \<Rightarrow> string \<Rightarrow> Hub \<Rightarrow> bytes http" where
  "handleBlob sql dir presign pre digestHex h =
     (case ParseDigest digestHex of
        Inl _ \<Rightarrow> HttpError 400 ''invalid digest''
      | Inr digest \<Rightarrow>
     (case PathByDigest sql digest (hub_db h) of
        None \<Rightarrow> HttpError 404 ''blob not found''
      | Some p \<Rightarrow>
     (case os_Open (hub_fs h) (filepath_Join dir p) of
        Inr d \<Rightarrow> HttpOK d
      | Inl _ \<Rightarrow>
     (case EntryLookup sql p (hub_db h) of
        Inr (Some entry) \<Rightarrow>
          if he_archive_state entry \<noteq> ArchiveStateUnpinned
          then HttpError 404 ''blob not available (local missing; no archive fallback)''
          else (case presign of
                  None \<Rightarrow> HttpError 404 ''blob not available (archive not configured)''
                | Some sign \<Rightarrow>
                    (case sign (JoinKey pre p) of
                       Inl _ \<Rightarrow> HttpError 502 ''presign failed''
                     | Inr url \<Rightarrow> HttpRedirect url))
      | _ \<Rightarrow> HttpError 404 ''blob not available (local missing; no archive fallback)''))))"

definition handleLatestSnapshotTree :: "sql_faults \<Rightarrow> Hub \<Rightarrow> ClientStore http" where
  "handleLatestSnapshotTree sql h =
     (case LatestVersion sql (hub_db h) of
        Inl _ \<Rightarrow> HttpError 404 ''no snapshots available''
      | Inr version \<Rightarrow>
          if version = 0 then HttpError 404 ''no snapshots available''
          else HttpRedirect (''/snapshots-tree/'' @ fmt_d version))"

definition handleSnapshotTree :: "sql_faults \<Rightarrow> sql_faults \<Rightarrow> string \<Rightarrow> string \<Rightarrow> Hub \<Rightarrow> ClientStore http" where
  "handleSnapshotTree sql csql hasherName versionStr h =
     (case ParseInt versionStr of
        Inl _ \<Rightarrow> HttpError 400 ''invalid version''
      | Inr version \<Rightarrow>
          (case generateClientDB sql csql (hub_db h) version hasherName of
             Inl _ \<Rightarrow> HttpError 500 ''generate db''
           | Inr dbData \<Rightarrow> HttpOK dbData))"

text \<open>The panic of a push ends the connection without an answer; it is the error 0 here.\<close>

definition handlePush :: "(bytes \<Rightarrow> PushRequest res) \<Rightarrow> (PushResult list \<Rightarrow> bytes res) \<Rightarrow> ScannerCfg \<Rightarrow> (nat \<Rightarrow> env) \<Rightarrow>
    bytes res \<Rightarrow> Hub \<Rightarrow> Hub \<times> bytes http" where
  "handlePush unmarshal marshal sc envs request_body h =
     (case request_body of
        Inl _ \<Rightarrow> (h, HttpError 400 ''read body'')
      | Inr body \<Rightarrow>
     (case unmarshal body of
        Inl _ \<Rightarrow> (h, HttpError 400 ''invalid protobuf'')
      | Inr req \<Rightarrow>
     (case ProcessPush sc envs req h of
        (h', Inl _) \<Rightarrow> (h', HttpError 0 '''')
      | (h', Inr resp) \<Rightarrow>
          (case marshal resp of
             Inl _ \<Rightarrow> (h', HttpError 500 ''marshal response'')
           | Inr respData \<Rightarrow> (h', HttpOK respData)))))"

record BlockSignature =
  bs_index :: uint32
  bs_weak_hash :: uint32
  bs_strong_hash :: bytes

record DeltaRequest =
  dq_target_digest :: bytes
  dq_block_size :: uint32
  dq_signature :: "BlockSignature list"

text \<open>A strong hash that is not 32 bytes long stays the zero array.\<close>

definition sig_from_proto :: "BlockSignature \<Rightarrow> BlockSig" where
  "sig_from_proto ps =
     \<lparr>sig_index = bs_index ps, sig_weak = bs_weak_hash ps,
      sig_strong = (if length (bs_strong_hash ps) = 32 then bs_strong_hash ps else replicate 32 0)\<rparr>"

definition delta_response :: "(bytes \<Rightarrow> bytes) \<Rightarrow> sql_faults \<Rightarrow> fpath \<Rightarrow> DeltaRequest \<Rightarrow> Hub \<Rightarrow> DeltaResponse http" where
  "delta_response sha sql dir req h =
     (if Digest_IsZero (dq_target_digest req) then HttpError 400 ''invalid target digest''
      else (case PathByDigest sql (dq_target_digest req) (hub_db h) of
              None \<Rightarrow> HttpError 404 ''target not found''
            | Some targetPath \<Rightarrow>
                (case os_ReadFile (hub_fs h) (filepath_Join dir targetPath) of
                   Inl _ \<Rightarrow> HttpError 500 ''read target file''
                 | Inr targetData \<Rightarrow>
                     let sigs = map sig_from_proto (dq_signature req);
                         blockSize = (if uint (dq_block_size req) \<le> 0 then defaultBlockSize else uint (dq_block_size req));
                         delta = ComputeDelta sha targetData sigs blockSize
                     in HttpOK (ToProto delta (dq_target_digest req)))))"

definition handleDelta :: "(bytes \<Rightarrow> bytes) \<Rightarrow> (bytes \<Rightarrow> DeltaRequest res) \<Rightarrow> (DeltaResponse \<Rightarrow> bytes res) \<Rightarrow>
    sql_faults \<Rightarrow> fpath \<Rightarrow> bytes res \<Rightarrow> Hub \<Rightarrow> bytes http" where
  "handleDelta sha unmarshal marshal sql dir request_body h =
     (case request_body of
        Inl _ \<Rightarrow> HttpError 400 ''read body''
      | Inr body \<Rightarrow>
     (case unmarshal body of
        Inl _ \<Rightarrow> HttpError 400 ''invalid protobuf''
      | Inr req \<Rightarrow>
     (case delta_response sha sql dir req h of
        HttpOK resp \<Rightarrow>
          (case marshal resp of
             Inl _ \<Rightarrow> HttpError 500 ''marshal response''
           | Inr respData \<Rightarrow> HttpOK respData)
      | HttpError st t \<Rightarrow> HttpError st t
      | HttpRedirect u \<Rightarrow> HttpRedirect u)))"

section \<open>A subscriber among writers and other subscribers\<close>

text \<open>
  Everything that can happen while a session runs: a writer appends and broadcasts an entry
  (writers are serialised: no other append comes between the two), an archive transition,
  other subscribers come, go and receive, and the session itself moves.
\<close>

inductive sub_step :: "Hub \<times> Session \<Rightarrow> Hub \<times> Session \<Rightarrow> bool" where
  sub_publish: "Append en c (hub_db h) = (s, Inr v) \<Longrightarrow>
     Broadcast (c\<lparr>ce_version := v\<rparr>) (hub_bc h) = Some bc \<Longrightarrow>
     sub_step (h, ss) (h\<lparr>hub_db := s, hub_bc := bc\<rparr>,
       ss\<lparr>ss_lost := ss_lost ss \<or> channel_cap \<le> length (ch_buf (bc_chans (hub_bc h) ! ss_chan ss))\<rparr>)"
| sub_mark: "sub_step (h, ss) (h\<lparr>hub_db := fst (MarkUnpinned en p (hub_db h))\<rparr>, ss)"
| sub_archived: "sub_step (h, ss) (h\<lparr>hub_db := fst (MarkArchived en p fid sha t (hub_db h))\<rparr>, ss)"
| sub_join: "sub_step (h, ss) (h\<lparr>hub_bc := fst (Subscribe (hub_bc h))\<rparr>, ss)"
| sub_leave: "ch \<noteq> ss_chan ss \<Longrightarrow> Unsubscribe ch (hub_bc h) = Some bc \<Longrightarrow> sub_step (h, ss) (h\<lparr>hub_bc := bc\<rparr>, ss)"
| sub_other_recv: "ch \<noteq> ss_chan ss \<Longrightarrow> recv ch (hub_bc h) = Some (e, bc) \<Longrightarrow> sub_step (h, ss) (h\<lparr>hub_bc := bc\<rparr>, ss)"
| sub_do_backfill: "\<not> ss_live ss \<Longrightarrow> sub_backfill no_faults h ss = Some ss' \<Longrightarrow> sub_step (h, ss) (h, ss')"
| sub_do_live: "ss_live ss \<Longrightarrow> sub_live h ss = Some (h', ss') \<Longrightarrow> sub_step (h, ss) (h', ss')"

definition log_entries :: "Hub \<Rightarrow> ChangeEntry list" where
  "log_entries h = map toChangeEntry (change_log (hub_db h))"

definition session_buf :: "Hub \<Rightarrow> Session \<Rightarrow> ChangeEntry list" where
  "session_buf h ss = ch_buf (bc_chans (hub_bc h) ! ss_chan ss)"

text \<open>
  While no event was lost, the buffer is a suffix of the log; before the backfill nothing is
  written, and afterwards what is written followed by what is still to deliver is the log
  after the starting version.
\<close>

definition sub_progress :: "Hub \<Rightarrow> Session \<Rightarrow> bool" where
  "sub_progress h ss \<longleftrightarrow>
     (\<exists>n \<le> length (log_entries h). session_buf h ss = drop n (log_entries h)) \<and>
     (if ss_live ss
      then ss_out ss @ filter (\<lambda>e. ss_last ss < ce_version e) (session_buf h ss) =
             drop (nat (ss_since ss)) (log_entries h) \<and>
           (ss_last ss = ss_since ss \<or> ss_since ss \<le> ss_last ss \<and> ss_last ss \<le> log_seq (hub_db h))
      else ss_out ss = [])"

definition sub_inv :: "Hub \<Rightarrow> Session \<Rightarrow> bool" where
  "sub_inv h ss \<longleftrightarrow> hub_inv h \<and> ss_chan ss \<in> set (bc_subs (hub_bc h)) \<and> 0 \<le> ss_since ss \<and>
     (\<not> ss_lost ss \<longrightarrow> sub_progress h ss)"

lemma log_entries_version:
  "hub_inv h \<Longrightarrow> i < length (log_entries h) \<Longrightarrow> ce_version (log_entries h ! i) = int i + 1"
  by (simp add: log_entries_def hub_inv_def store_inv_versions)

lemma log_entries_length: "hub_inv h \<Longrightarrow> int (length (log_entries h)) = log_seq (hub_db h)"
  by (simp add: log_entries_def hub_inv_def store_inv_def)

lemma log_entry_versions:
  assumes "hub_inv h" "e \<in> set (log_entries h)"
  shows "ce_version e \<le> log_seq (hub_db h)"
proof -
  from assms(2) obtain i where "i < length (log_entries h)" "e = log_entries h ! i"
    by (auto simp: in_set_conv_nth)
  with log_entries_version [OF assms(1)] log_entries_length [OF assms(1)] show ?thesis by auto
qed

lemma ChangesSince_log:
  assumes "hub_inv h" "0 \<le> since"
  shows "ChangesSince no_faults since (hub_db h) = Inr (drop (nat since) (log_entries h))"
  using ChangesSince_inv [of "hub_db h" "nat since"] assms by (simp add: hub_inv_def log_entries_def drop_map)

text \<open>A change of the hub that touches neither the log nor the session's channel.\<close>

lemma sub_inv_frame:
  assumes "sub_inv h ss" "hub_inv h'" "change_log (hub_db h') = change_log (hub_db h)"
    and "ss_chan ss \<in> set (bc_subs (hub_bc h'))"
    and "bc_chans (hub_bc h') ! ss_chan ss = bc_chans (hub_bc h) ! ss_chan ss"
  shows "sub_inv h' ss"
proof -
  have "log_seq (hub_db h') = log_seq (hub_db h)" "log_entries h' = log_entries h" "session_buf h' ss = session_buf h ss"
    using assms by (simp_all add: sub_inv_def hub_inv_def store_inv_def log_entries_def session_buf_def)
  with assms show ?thesis by (simp add: sub_inv_def sub_progress_def)
qed

lemma sub_inv_db:
  assumes "sub_inv h ss" "store_inv s" "change_log s = change_log (hub_db h)"
  shows "sub_inv (h\<lparr>hub_db := s\<rparr>) ss"
  by (rule sub_inv_frame [OF assms(1)]) (use assms in \<open>simp_all add: sub_inv_def hub_inv_def\<close>)

lemma sub_inv_bc:
  assumes "sub_inv h ss" "bc_inv bc" "ss_chan ss \<in> set (bc_subs bc)"
    and "bc_chans bc ! ss_chan ss = bc_chans (hub_bc h) ! ss_chan ss"
  shows "sub_inv (h\<lparr>hub_bc := bc\<rparr>) ss"
  by (rule sub_inv_frame [OF assms(1)]) (use assms in \<open>simp_all add: sub_inv_def hub_inv_def\<close>)

lemma sub_inv_parts:
  "sub_inv h ss \<Longrightarrow> store_inv (hub_db h) \<and> bc_inv (hub_bc h) \<and> ss_chan ss \<in> set (bc_subs (hub_bc h))"
  by (simp add: sub_inv_def hub_inv_def)

lemma Mark_log: "change_log (fst (MarkUnpinned en p s)) = change_log s"
  "change_log (fst (MarkArchived en p fid sha t s)) = change_log s"
  by (simp_all add: MarkUnpinned_def MarkArchived_def update_entry_def split: option.split)

lemma session_chan: "sub_inv h ss \<Longrightarrow> ss_chan ss < length (bc_chans (hub_bc h))"
  by (simp add: sub_inv_def hub_inv_def bc_inv_def)

lemma sub_inv_publish:
  assumes inv: "sub_inv h ss" and app: "Append en c (hub_db h) = (s, Inr v)"
    and bc: "Broadcast (c\<lparr>ce_version := v\<rparr>) (hub_bc h) = Some bc"
  shows "sub_inv (h\<lparr>hub_db := s, hub_bc := bc\<rparr>)
     (ss\<lparr>ss_lost := ss_lost ss \<or> channel_cap \<le> length (ch_buf (bc_chans (hub_bc h) ! ss_chan ss))\<rparr>)"
    (is "sub_inv ?h ?ss")
proof -
  have hub: "hub_inv h" using inv by (simp add: sub_inv_def)
  have st: "store_inv (hub_db h)" "bc_inv (hub_bc h)" using hub by (simp_all add: hub_inv_def)
  have v: "v = log_seq (hub_db h) + 1" "change_log s = change_log (hub_db h) @ [new_log_row c v]"
    "log_seq s = v" using app by (cases rule: Append_cases [of en c "hub_db h"]; auto)+
  have s: "store_inv s" using Append_inv [OF st(1), of en c] app by simp
  from Broadcast_inv_result [OF st(2), of "c\<lparr>ce_version := v\<rparr>"] bc have
    bc_facts: "bc_inv bc" "bc_subs bc = bc_subs (hub_bc h)"
    and chans: "\<forall>i < length (bc_chans (hub_bc h)). bc_chans bc ! i =
        (if i \<in> set (bc_subs (hub_bc h)) then enqueue (c\<lparr>ce_version := v\<rparr>) (bc_chans (hub_bc h) ! i) else bc_chans (hub_bc h) ! i)"
    by auto
  let ?e = "c\<lparr>ce_version := v\<rparr>"
  have log: "log_entries ?h = log_entries h @ [?e]" by (simp add: log_entries_def v(2))
  have len: "v = int (length (log_entries h)) + 1" using log_entries_length [OF hub] v(1) by simp
  have buf: "session_buf ?h ?ss = session_buf h ss @ [?e]" if "\<not> ss_lost ?ss"
    using that chans session_chan [OF inv] inv by (auto simp: session_buf_def sub_inv_def enqueue_def)
  have "hub_inv ?h" using s bc_facts by (simp add: hub_inv_def)
  moreover have "sub_progress ?h ?ss" if nl: "\<not> ss_lost ?ss"
  proof -
    from nl have "\<not> ss_lost ss" by simp
    with inv have prog: "sub_progress h ss" by (simp add: sub_inv_def)
    then obtain n where n: "n \<le> length (log_entries h)" "session_buf h ss = drop n (log_entries h)"
      by (auto simp: sub_progress_def)
    then have "\<exists>n \<le> length (log_entries ?h). session_buf ?h ?ss = drop n (log_entries ?h)"
      using buf [OF nl] log by (intro exI [of _ n]) simp
    moreover have "ss_out ss @ filter (\<lambda>e. ss_last ss < ce_version e) (session_buf ?h ?ss) =
        drop (nat (ss_since ss)) (log_entries ?h) \<and>
        (ss_last ss = ss_since ss \<or> ss_since ss \<le> ss_last ss \<and> ss_last ss \<le> log_seq s)" if "ss_live ss"
      using prog that inv v(1,3) len unfolding buf [OF nl] log sub_progress_def sub_inv_def
      by (auto simp: append_assoc [symmetric] simp del: append_assoc)
    ultimately show ?thesis using prog by (simp add: sub_progress_def)
  qed
  ultimately show ?thesis
    unfolding sub_inv_def using inv bc_facts(2) by (intro conjI impI) (simp_all add: sub_inv_def)
qed

lemma sub_inv_backfill:
  assumes inv: "sub_inv h ss" and "\<not> ss_live ss" and bf: "sub_backfill no_faults h ss = Some ss'"
  shows "sub_inv h ss'"
proof -
  have hub: "hub_inv h" and since: "0 \<le> ss_since ss" using inv by (simp_all add: sub_inv_def)
  let ?es = "drop (nat (ss_since ss)) (log_entries h)"
  have ss': "ss' = ss\<lparr>ss_live := True, ss_out := ss_out ss @ ?es,
      ss_last := (if ?es = [] then ss_since ss else ce_version (last ?es))\<rparr>"
    using bf by (simp add: sub_backfill_def ChangesSince_log [OF hub since] del: drop_eq_Nil)
  have last: "ce_version (last ?es) = log_seq (hub_db h)" if "?es \<noteq> []"
  proof -
    from that have "log_entries h \<noteq> []" "last ?es = last (log_entries h)" by (auto simp: last_drop)
    then show ?thesis
      using log_entries_version [OF hub, of "length (log_entries h) - 1"] log_entries_length [OF hub]
      by (cases "log_entries h" rule: rev_cases) simp_all
  qed
  have buf_le: "ce_version e \<le> log_seq (hub_db h)" if "\<not> ss_lost ss" "e \<in> set (session_buf h ss)" for e
  proof -
    from that inv obtain n where "session_buf h ss = drop n (log_entries h)"
      by (auto simp: sub_inv_def sub_progress_def)
    with that(2) have "e \<in> set (log_entries h)" by (metis in_set_dropD)
    then show ?thesis by (rule log_entry_versions [OF hub])
  qed
  have filt: "filter (\<lambda>e. ss_last ss' < ce_version e) (session_buf h ss) = []" if nl: "\<not> ss_lost ss"
  proof (cases "?es = []")
    case True
    then have "log_seq (hub_db h) \<le> ss_since ss" using log_entries_length [OF hub] since by auto
    with buf_le [OF nl] True show ?thesis by (force simp: ss' filter_empty_conv)
  next
    case False
    with last buf_le [OF nl] show ?thesis by (force simp: ss' filter_empty_conv)
  qed
  have "ss_last ss' = ss_since ss' \<or> ss_since ss' \<le> ss_last ss' \<and> ss_last ss' \<le> log_seq (hub_db h)"
    using last log_entries_length [OF hub] since by (auto simp: ss')
  moreover have "session_buf h ss' = session_buf h ss" by (simp add: ss' session_buf_def)
  moreover have "sub_progress h ss'" if "\<not> ss_lost ss"
    using that inv assms(2) filt calculation by (auto simp: sub_inv_def sub_progress_def ss')
  ultimately show ?thesis using inv by (auto simp: sub_inv_def ss')
qed

lemma sub_inv_live:
  assumes inv: "sub_inv h ss" and "ss_live ss" and step: "sub_live h ss = Some (h', ss')"
  shows "sub_inv h' ss'"
proof -
  from step obtain e bc where r: "recv (ss_chan ss) (hub_bc h) = Some (e, bc)" and h': "h' = h\<lparr>hub_bc := bc\<rparr>"
    and ss': "ss' = (if ce_version e \<le> ss_last ss then ss else ss\<lparr>ss_out := ss_out ss @ [e]\<rparr>)"
    by (auto simp: sub_live_def split: option.splits)
  have hub: "hub_inv h" using inv by (simp add: sub_inv_def)
  have hub': "hub_inv h'" using recv_inv [OF _ r] hub by (simp add: h' hub_inv_def)
  from r obtain es where "session_buf h ss = e # es" and bc: "bc = (hub_bc h)\<lparr>bc_chans :=
      (bc_chans (hub_bc h))[ss_chan ss := (bc_chans (hub_bc h) ! ss_chan ss)\<lparr>ch_buf := es\<rparr>]\<rparr>"
    by (auto simp: recv_def session_buf_def split: if_splits list.splits)
  have buf: "session_buf h ss = e # es" "session_buf h' ss' = es"
    using \<open>session_buf h ss = e # es\<close> session_chan [OF inv] by (simp_all add: h' bc ss' session_buf_def)
  have log: "log_entries h' = log_entries h" "hub_db h' = hub_db h" by (simp_all add: h' log_entries_def)
  have suffix: "\<exists>n \<le> length (log_entries h). es = drop n (log_entries h)" if nl: "\<not> ss_lost ss"
  proof -
    from inv nl obtain n where n: "n \<le> length (log_entries h)" "e # es = drop n (log_entries h)"
      using buf by (auto simp: sub_inv_def sub_progress_def)
    then have "n < length (log_entries h)" by (metis drop_all leI list.distinct(1))
    moreover have "es = drop (Suc n) (log_entries h)" using n(2) by (metis drop_Suc list.sel(3) tl_drop)
    ultimately show ?thesis by (intro exI [of _ "Suc n"]) simp
  qed
  have "sub_progress h' ss'" if "\<not> ss_lost ss"
    using that inv assms(2) buf log suffix
    by (auto simp: sub_inv_def sub_progress_def ss' split: if_splits)
  with inv hub' show ?thesis by (auto simp: sub_inv_def ss' h' bc)
qed

lemma recv_other:
  assumes "recv ch b = Some (e, b')" "i \<noteq> ch"
  shows "bc_chans b' ! i = bc_chans b ! i" "bc_subs b' = bc_subs b"
  using assms by (auto simp: recv_def split: if_splits list.splits)

lemma Unsubscribe_other:
  assumes "Unsubscribe ch b = Some b'" "i \<noteq> ch"
  shows "bc_chans b' ! i = bc_chans b ! i" "i \<in> set (bc_subs b') \<longleftrightarrow> i \<in> set (bc_subs b)"
  using assms by (auto simp: Unsubscribe_def Let_def split: if_splits)

lemma sub_step_inv: "sub_step x y \<Longrightarrow> sub_inv (fst x) (snd x) \<Longrightarrow> sub_inv (fst y) (snd y)"
proof (induction rule: sub_step.induct)
  case (sub_publish en c h s v bc ss)
  then show ?case using sub_inv_publish by simp
next
  case (sub_mark h ss en p)
  then have inv: "sub_inv h ss" by simp
  from sub_inv_db [OF this Mark_inv(2) Mark_log(1)] sub_inv_parts [OF inv] show ?case by simp
next
  case (sub_archived h ss en p fid sha t)
  then have inv: "sub_inv h ss" by simp
  from sub_inv_db [OF this Mark_inv(3) Mark_log(2)] sub_inv_parts [OF inv] show ?case by simp
next
  case (sub_join h ss)
  then have inv: "sub_inv h ss" by simp
  have "ss_chan ss \<in> set (bc_subs (fst (Subscribe (hub_bc h))))"
    "bc_chans (fst (Subscribe (hub_bc h))) ! ss_chan ss = bc_chans (hub_bc h) ! ss_chan ss"
    using sub_inv_parts [OF inv] session_chan [OF inv] by (simp_all add: Subscribe_def Let_def nth_append)
  from sub_inv_bc [OF inv Subscribe_inv this] sub_inv_parts [OF inv] show ?case by simp
next
  case (sub_leave ch ss h bc)
  then have inv: "sub_inv h ss" by simp
  note parts = sub_inv_parts [OF inv]
  from sub_leave(1) have ne: "ss_chan ss \<noteq> ch" by simp
  from sub_inv_bc [OF inv Unsubscribe_inv [OF _ sub_leave(2)]] parts Unsubscribe_other [OF sub_leave(2) ne]
  show ?case by simp
next
  case (sub_other_recv ch ss h e bc)
  then have inv: "sub_inv h ss" by simp
  note parts = sub_inv_parts [OF inv]
  from sub_other_recv(1) have ne: "ss_chan ss \<noteq> ch" by simp
  from sub_inv_bc [OF inv recv_inv [OF _ sub_other_recv(2)]] parts recv_other [OF sub_other_recv(2) ne]
  show ?case by simp
next
  case (sub_do_backfill ss h ss')
  then show ?case using sub_inv_backfill by simp
next
  case (sub_do_live ss h h' ss')
  then show ?case using sub_inv_live by simp
qed

lemma sub_start_inv:
  assumes "hub_inv h" "0 \<le> since"
  shows "sub_inv (fst (sub_start since h)) (snd (sub_start since h))"
proof -
  let ?h = "fst (sub_start since h)" and ?ss = "snd (sub_start since h)"
  have "hub_inv ?h" using assms(1) by (simp add: sub_start_def hub_inv_def Subscribe_inv split_beta)
  moreover have "ss_chan ?ss \<in> set (bc_subs (hub_bc ?h))" "ss_since ?ss = since" "\<not> ss_live ?ss" "ss_out ?ss = []"
    "session_buf ?h ?ss = []"
    by (simp_all add: sub_start_def session_buf_def Subscribe_def Let_def)
  ultimately show ?thesis using assms(2) by (auto simp: sub_inv_def sub_progress_def)
qed

lemma sub_reachable_inv:
  assumes "hub_inv h" "0 \<le> since" "sub_step\<^sup>*\<^sup>* (sub_start since h) (h', ss)"
  shows "sub_inv h' ss"
proof -
  have "sub_inv (fst y) (snd y)" if "sub_step\<^sup>*\<^sup>* (sub_start since h) y" for y
    using that
  proof (induction rule: rtranclp_induct)
    case base
    show ?case by (rule sub_start_inv [OF assms(1,2)])
  next
    case (step y z)
    then show ?case by (blast intro: sub_step_inv)
  qed
  from this [OF assms(3)] show ?thesis by simp
qed

lemma ParseInt_fmt:
  assumes "0 \<le> v" "v \<le> 2 ^ 63 - 1"
  shows "ParseInt (fmt_d v) = Inr v"
proof -
  note d = dec_digits_ok [of "nat v"]
  then obtain c cs where c: "dec_digits (nat v) = c # cs" "is_digit c" by (metis list.exhaust list.set_intros(1))
  then have "c \<noteq> CHR ''-''" "c \<noteq> CHR ''+''" by (auto simp: is_digit_def)
  with c have "\<not> HasPrefix (dec_digits (nat v)) ''-''" "\<not> HasPrefix (dec_digits (nat v)) ''+''" by simp_all
  with d assms show ?thesis by (auto simp: ParseInt_def fmt_d_def Let_def)
qed

section \<open>Properties of the server\<close>



text \<open>
  Bootstrapping from the latest snapshot: the redirect of \<^verbatim>\<open>/snapshots-tree/latest\<close> names the latest
  version, and the database served there mirrors the hub's tree exactly, at that version and
  with the hub's hash algorithm.
\<close>

theorem latest_snapshot_mirrors_tree:
  assumes "hub_inv h" "change_log (hub_db h) \<noteq> []"
  shows "\<exists>vs c. handleLatestSnapshotTree no_faults h = HttpRedirect (''/snapshots-tree/'' @ vs) \<and>
     handleSnapshotTree no_faults no_faults algo vs h = HttpOK c \<and>
     client_view c = map_of (TreeSnapshot no_faults (hub_db h)) \<and>
     HubVersion no_faults c = LatestVersion no_faults (hub_db h) \<and> HashAlgo no_faults c = Inr algo"
proof -
  have inv: "store_inv (hub_db h)" using assms(1) by (simp add: hub_inv_def)
  let ?v = "log_seq (hub_db h)"
  have v: "0 < ?v" "?v \<le> 2 ^ 63 - 1"
    using inv assms(2) by (auto simp: store_inv_def max_int64_def)
  from generateClientDB_ok [OF inv _ v(2), of algo] v(1) obtain c where
    c: "generateClientDB no_faults no_faults (hub_db h) ?v algo = Inr c"
    "client_view c = tree_view (hub_entry (hub_db h))" "HubVersion no_faults c = Inr ?v" "HashAlgo no_faults c = Inr algo"
    by auto
  have "handleLatestSnapshotTree no_faults h = HttpRedirect (''/snapshots-tree/'' @ fmt_d ?v)"
    using LatestVersion_inv [OF inv] v by (simp add: handleLatestSnapshotTree_def)
  moreover have "handleSnapshotTree no_faults no_faults algo (fmt_d ?v) h = HttpOK c"
    using ParseInt_fmt [of ?v] v c(1) by (simp add: handleSnapshotTree_def)
  ultimately show ?thesis using c LatestVersion_inv [OF inv] TreeSnapshot_inv [OF inv] by auto
qed

theorem latest_snapshot_mirrors_tree_witness:
  "\<exists>vs c. handleLatestSnapshotTree no_faults \<lparr>hub_db = ex_store, hub_bc = NewBroadcaster, hub_fs = []\<rparr> =
       HttpRedirect (''/snapshots-tree/'' @ vs) \<and>
     handleSnapshotTree no_faults no_faults ''xxh128'' vs \<lparr>hub_db = ex_store, hub_bc = NewBroadcaster, hub_fs = []\<rparr> = HttpOK c \<and>
     HubVersion no_faults c = Inr 1"
proof -
  let ?h = "\<lparr>hub_db = ex_store, hub_bc = NewBroadcaster, hub_fs = []\<rparr>"
  have "hub_inv ?h"
    using store_reachable_inv [OF ex_store_reachable] by (simp add: hub_inv_def bc_inv_def NewBroadcaster_def)
  moreover have "change_log (hub_db ?h) \<noteq> []" by code_simp
  moreover have "LatestVersion no_faults (hub_db ?h) = Inr 1" by code_simp
  ultimately show ?thesis using latest_snapshot_mirrors_tree [of ?h "''xxh128''"] by auto
qed

text \<open>
  A query error while a snapshot is generated is not reported: the hub answers with an empty tree at the
  requested version, which a client cannot tell from a hub without files.
\<close>

theorem snapshot_hides_query_error:
  assumes "sql SQL_SELECT = Some msg" "ParseInt vs = Inr v"
  shows "\<exists>c. handleSnapshotTree sql no_faults algo vs h = HttpOK c \<and> hub_tree c = [] \<and> HubVersion no_faults c = Inr v"
proof -
  have "- (2 ^ 63) \<le> v" "v \<le> 2 ^ 63 - 1"
    using assms(2) by (auto simp: ParseInt_def Let_def split: if_splits)
  note scan = sscanf_fmt [OF this]
  let ?s = "set_state ''hub_version'' (fmt_d v) (initClientSchema None)"
  let ?c = "if algo = '''' then ?s else set_state ''hash_algo'' algo ?s"
  have "generateClientDB sql no_faults (hub_db h) v algo = Inr ?c"
    using assms(1) by (simp add: generateClientDB_def TreeSnapshot_def SetHubVersion_def SetHashAlgo_def)
  moreover have "hub_tree ?c = []" by (simp add: initClientSchema_def)
  moreover have "HubVersion no_faults ?c = Inr v"
    using scan by (simp add: HubVersion_def set_state_sync tbl)
  ultimately show ?thesis using assms(2) by (auto simp: handleSnapshotTree_def)
qed

theorem snapshot_hides_query_error_witness:
  "\<exists>c. handleSnapshotTree (\<lambda>_. Some ''disk I/O error'') no_faults ''xxh128'' ''1''
      \<lparr>hub_db = ex_store, hub_bc = NewBroadcaster, hub_fs = []\<rparr> = HttpOK c \<and> hub_tree c = [] \<and> HubVersion no_faults c = Inr 1"
proof -
  have "ParseInt ''1'' = Inr 1" by (simp add: ParseInt_def is_digit_def read_digits_def)
  then show ?thesis by (intro snapshot_hides_query_error [where msg = "''disk I/O error''"]) simp_all
qed

text \<open>
  A blob request never returns other content: when the rows describe the files on disk, a digest that
  is served has exactly that hash, and a redirect is only sent for an unpinned row.
\<close>

theorem blob_matches_digest:
  assumes "\<forall>r \<in> set (hub_entry (hub_db h)). \<forall>d. os_Open (hub_fs h) (filepath_Join dir (hr_path r)) = Inr d \<longrightarrow>
       hr_digest r = Some (hash d)" "hub_inv h"
  shows "case handleBlob no_faults dir presign pre (Digest_Hex digest) h of
      HttpOK d \<Rightarrow> hash d = digest
    | HttpRedirect url \<Rightarrow> \<exists>p e sign. EntryLookup no_faults p (hub_db h) = Inr (Some e) \<and> he_digest e = digest \<and>
        he_archive_state e = ArchiveStateUnpinned \<and> presign = Some sign \<and> sign (JoinKey pre p) = Inr url
    | HttpError status msg \<Rightarrow> status \<in> {404, 502}"
proof (cases "PathByDigest no_faults digest (hub_db h)")
  case None
  then show ?thesis by (simp add: handleBlob_def ParseDigest_def hex_decode_encode)
next
  case (Some p)
  then obtain r where r: "r \<in> set (hub_entry (hub_db h))" "hr_digest r = Some digest" "hr_path r = p"
    by (auto simp: PathByDigest_def dest!: find_SomeD split: if_splits)
  have "tbl_lookup hr_path p (hub_entry (hub_db h)) = Some r"
    using tbl_lookup_in [of hr_path _ r] r assms(2) by (auto simp: hub_inv_def store_inv_def)
  then have look: "EntryLookup no_faults p (hub_db h) = Inr (Some (toEntry r))" by (simp add: EntryLookup_def)
  show ?thesis
  proof (cases "os_Open (hub_fs h) (filepath_Join dir p)")
    case (Inr d)
    with assms(1) r Some show ?thesis by (auto simp: handleBlob_def ParseDigest_def hex_decode_encode)
  next
    case (Inl e)
    with Some look r(2) show ?thesis
      by (auto simp: handleBlob_def ParseDigest_def hex_decode_encode digest_of_blob_def split: option.splits sum.splits
          intro!: exI [of _ p])
  qed
qed

theorem blob_matches_digest_witness:
  "case handleBlob no_faults [''hub''] None '''' (Digest_Hex [9, 1, 2])
      (fst (FullScan walk_list ex_cfg no_faults (\<lambda>i. env_at (int i)) ex_hub)) of
     HttpOK d \<Rightarrow> 9 # d = [9, 1, 2] | _ \<Rightarrow> False"
proof -
  let ?h = "fst (FullScan walk_list ex_cfg no_faults (\<lambda>i. env_at (int i)) ex_hub)"
  have ok: "\<forall>r \<in> set (hub_entry (hub_db ?h)). \<forall>d. os_Open (hub_fs ?h) (filepath_Join [''hub''] (hr_path r)) = Inr d \<longrightarrow>
      hr_digest r = Some (9 # d)"
  proof -
    have "hub_fs ?h = hub_fs ex_hub" by code_simp
    moreover have "map (\<lambda>r. (hr_path r, hr_digest r)) (hub_entry (hub_db ?h)) = [(''a'', Some [9, 1, 2])]" by code_simp
    moreover have "os_Open (hub_fs ex_hub) (filepath_Join [''hub''] ''a'') = Inr [1, 2]" by code_simp
    ultimately show ?thesis by auto
  qed
  have envs: "\<And>i. env_sql (env_at (int i)) = no_faults" by simp
  obtain h' where "FullScan walk_list ex_cfg no_faults (\<lambda>i. env_at (int i)) ex_hub = (h', Inr ())" "hub_inv h'"
    by (rule FullScan_result [where envs = "\<lambda>i. env_at (int i)", OF ex_hub_ok(1) walk_list_ok envs ex_hub_ok(3)]) blast
  then have inv: "hub_inv ?h" by simp
  have served: "case handleBlob no_faults [''hub''] None '''' (Digest_Hex [9, 1, 2]) ?h of HttpOK d \<Rightarrow> True | _ \<Rightarrow> False"
    by code_simp
  from blob_matches_digest [where hash = "\<lambda>d. 9 # d" and presign = None and pre = "''''" and digest = "[9, 1, 2]", OF ok inv] served
  show ?thesis by (auto split: http.splits)
qed

end
