(* ===== verification/Client.thy ===== *)
theory Client
  imports Server
begin

text \<open>
  The replica (\<^verbatim>\<open>client.go\<close>): applying an event of the stream to the sync directory and the client
  database, fetching large files by copy, delta or in full, and the one-shot reconciliation
  of \<^verbatim>\<open>Bootstrap\<close> and \<^verbatim>\<open>Catchup\<close>. The hub is seen through its HTTP API, an argument of the
  operations. Cancellation, logging and the test hooks are not modelled.
\<close>

section \<open>State and environment\<close>

text \<open>
  What a request returns after redirects: no answer, an answer other than 200 with its status
  line and text, or the body.
\<close>

datatype 'a reply = No_reply err | Status string string | Body 'a

record hub_api =
  api_blob :: "string \<Rightarrow> bytes reply"
  api_delta :: "DeltaRequest \<Rightarrow> DeltaResponse reply"
  api_tree :: "ClientStore reply"

record ClientCfg =
  cc_dir :: fpath
  cc_sha256 :: "bytes \<Rightarrow> bytes"
  cc_xxh128 :: "bytes \<Rightarrow> bytes"

record Client =
  cl_store :: ClientStore
  cl_fs :: fs
  cl_hasher :: "Hasher option"
  cl_write_mode :: bool
  cl_local_edits :: "string list option"

definition skipPath :: "Client \<Rightarrow> string \<Rightarrow> bool" where
  "skipPath c p = (case cl_local_edits c of None \<Rightarrow> False | Some ps \<Rightarrow> p \<in> set ps)"

definition ensureHasher :: "ClientCfg \<Rightarrow> sql_faults \<Rightarrow> Client \<Rightarrow> Client \<times> unit res" where
  "ensureHasher cfg sql c =
     (if cl_hasher c \<noteq> None then (c, Inr ())
      else (case HashAlgo sql (cl_store c) of
              Inl e \<Rightarrow> (c, Inl e)
            | Inr algo \<Rightarrow>
                (case NewHasher (cc_xxh128 cfg) (cc_sha256 cfg) (if algo = '''' then DefaultHash else algo) of
                   Inl e \<Rightarrow> (c, Inl e)
                 | Inr h \<Rightarrow> (c\<lparr>cl_hasher := Some h\<rparr>, Inr ()))))"

text \<open>The digest function of the resolved hasher; every caller runs after \<^verbatim>\<open>ensureHasher\<close>.\<close>

definition client_sum :: "Client \<Rightarrow> bytes \<Rightarrow> Digest" where
  "client_sum c d = (case cl_hasher c of Some h \<Rightarrow> hash_sum h d | None \<Rightarrow> [])"

section \<open>Fetching\<close>

definition fetchFullBlob :: "hub_api \<Rightarrow> int \<Rightarrow> Digest \<Rightarrow> fpath \<Rightarrow> uint32 \<Rightarrow> fs \<Rightarrow> fs \<times> unit res" where
  "fetchFullBlob api now digest destPath mode f =
     (case api_blob api (Digest_Hex digest) of
        No_reply e \<Rightarrow> (f, Inl (Wrap ''fetch blob'' e))
      | Status st body \<Rightarrow> (f, Inl (Error_string (''blob response: '' @ st)))
      | Body d \<Rightarrow> os_WriteFile now destPath d mode f)"

definition sig_to_proto :: "BlockSig \<Rightarrow> BlockSignature" where
  "sig_to_proto sig = \<lparr>bs_index = sig_index sig, bs_weak_hash = sig_weak sig, bs_strong_hash = sig_strong sig\<rparr>"

definition delta_request :: "(bytes \<Rightarrow> bytes) \<Rightarrow> Digest \<Rightarrow> bytes \<Rightarrow> DeltaRequest" where
  "delta_request sha targetDigest localData =
     (let blockSize = OptimalBlockSize (int (length localData)) in
      \<lparr>dq_target_digest = targetDigest, dq_block_size = word_of_int blockSize,
       dq_signature = map sig_to_proto (ComputeSignature sha localData blockSize)\<rparr>)"

definition fetchDelta :: "hub_api \<Rightarrow> (bytes \<Rightarrow> bytes) \<Rightarrow> (bytes \<Rightarrow> Digest) \<Rightarrow> Digest \<Rightarrow> bytes \<Rightarrow> bytes res" where
  "fetchDelta api sha hash targetDigest localData =
     (case api_delta api (delta_request sha targetDigest localData) of
        No_reply e \<Rightarrow> Inl (Wrap ''delta request'' e)
      | Status st body \<Rightarrow> Inl (Error_string (''delta response '' @ st @ '': '' @ body))
      | Body resp \<Rightarrow>
          let result = ApplyDelta localData (DeltaOpsFromProto resp) (OptimalBlockSize (int (length localData)));
              got = hash result
          in if got \<noteq> targetDigest
             then Inl (Error_string (''delta result digest mismatch: got '' @ Digest_Hex got @ '', want '' @ Digest_Hex targetDigest))
             else Inr result)"

text \<open>
  \<^verbatim>\<open>fetchLargeFile\<close>: copy from another path with the same digest when its file can be read, else
  a delta against a local file that is not empty, else the whole blob.
\<close>

definition fetchLargeFile :: "hub_api \<Rightarrow> ClientCfg \<Rightarrow> int \<Rightarrow> sql_faults \<Rightarrow> Digest \<Rightarrow> string \<Rightarrow> fpath \<Rightarrow> uint32 \<Rightarrow>
    Client \<Rightarrow> Client \<times> unit res" where
  "fetchLargeFile api cfg now sql digest relPath destPath mode c =
     (let copied = (case LookupByDigest sql digest relPath (cl_store c) of
                      Inr (Some existingPath) \<Rightarrow>
                        (case os_ReadFile (cl_fs c) (filepath_Join (cc_dir cfg) existingPath) of
                           Inr d \<Rightarrow> Some d | Inl _ \<Rightarrow> None)
                    | _ \<Rightarrow> None);
          delta = (case os_ReadFile (cl_fs c) destPath of
                     Inr localData \<Rightarrow>
                       if localData \<noteq> []
                       then (case fetchDelta api (cc_sha256 cfg) (client_sum c) digest localData of
                               Inr d \<Rightarrow> Some d | Inl _ \<Rightarrow> None)
                       else None
                   | Inl _ \<Rightarrow> None);
          result = (case copied of
                      Some d \<Rightarrow> os_WriteFile now destPath d mode (cl_fs c)
                    | None \<Rightarrow>
                        (case delta of
                           Some d \<Rightarrow> os_WriteFile now destPath d mode (cl_fs c)
                         | None \<Rightarrow> fetchFullBlob api now digest destPath mode (cl_fs c)))
      in (c\<lparr>cl_fs := fst result\<rparr>, snd result))"

section \<open>Applying events\<close>

text \<open>The loop that removes parent directories until one is not empty or the sync directory is reached.\<close>

function remove_parents :: "fpath \<Rightarrow> fpath \<Rightarrow> fs \<Rightarrow> fs" where
  "remove_parents syncDir dir f =
     (if dir = syncDir then f
      else (case os_Remove dir f of
              (f', Inl _) \<Rightarrow> f'
            | (f', Inr _) \<Rightarrow> remove_parents syncDir (filepath_Dir dir) f'))"
  by pat_completeness auto
termination
proof (relation "measure (\<lambda>(s, d, f). length d)")
  fix syncDir dir :: fpath and f f' :: fs and u and out :: "unit res"
  assume "(f', out) = os_Remove dir f" "out = Inr u"
  then have "dir \<noteq> []" by (auto simp: os_Remove_def fs_node_def)
  then show "((syncDir, filepath_Dir dir, f'), syncDir, dir, f) \<in> measure (\<lambda>(s, d, f). length d)"
    by (simp add: filepath_Dir_def)
qed simp

declare remove_parents.simps [simp del]

definition event_change :: "uint64 \<Rightarrow> string \<Rightarrow> FileChange \<Rightarrow> ChangeEntry" where
  "event_change version p change =
     \<lparr>ce_version = sint version, ce_path = p, ce_op = OpCreate, ce_kind = fc_kind change,
      ce_digest = fc_digest change, ce_size = sint (fc_size change), ce_mode = fc_mode change,
      ce_mtime = fc_mtime change\<rparr>"

definition event_delete :: "uint64 \<Rightarrow> string \<Rightarrow> ChangeEntry" where
  "event_delete version p =
     \<lparr>ce_version = sint version, ce_path = p, ce_op = OpDelete, ce_kind = FileKindFile, ce_digest = [],
      ce_size = 0, ce_mode = 0, ce_mtime = 0\<rparr>"

definition store_change :: "sql_faults \<Rightarrow> ChangeEntry \<Rightarrow> Client \<Rightarrow> Client \<times> unit res" where
  "store_change sql e c =
     (case ApplyChange sql e (cl_store c) of (s, r) \<Rightarrow> (c\<lparr>cl_store := s\<rparr>, r))"

text \<open>The file-system half of a change event.\<close>

definition write_change :: "hub_api \<Rightarrow> ClientCfg \<Rightarrow> int \<Rightarrow> sql_faults \<Rightarrow> string \<Rightarrow> FileChange \<Rightarrow> Client \<Rightarrow> Client \<times> unit res" where
  "write_change api cfg now sql p change c =
     (let fullPath = filepath_Join (cc_dir cfg) p in
      case os_MkdirAll (filepath_Dir fullPath) (cl_fs c) of
        (f, Inl e) \<Rightarrow> (c\<lparr>cl_fs := f\<rparr>, Inl e)
      | (f, Inr _) \<Rightarrow>
          (case (if fc_data change \<noteq> []
                 then (case os_WriteFile now fullPath (fc_data change) (fc_mode change) f of
                         (f', r) \<Rightarrow> (c\<lparr>cl_fs := f'\<rparr>, r))
                 else fetchLargeFile api cfg now sql (fc_digest change) p fullPath (fc_mode change) (c\<lparr>cl_fs := f\<rparr>)) of
             (c', Inl e) \<Rightarrow> (c', Inl e)
           | (c', Inr _) \<Rightarrow> (c'\<lparr>cl_fs := os_Chtimes fullPath (fc_mtime change) (cl_fs c')\<rparr>, Inr ())))"

definition applyEvent :: "hub_api \<Rightarrow> ClientCfg \<Rightarrow> int \<Rightarrow> sql_faults \<Rightarrow> SyncEvent \<Rightarrow> Client \<Rightarrow> Client \<times> unit res" where
  "applyEvent api cfg now sql ev c =
     (let p = ev_path ev; fullPath = filepath_Join (cc_dir cfg) p; skipFS = skipPath c p in
      case ev_event ev of
        SyncEvent_Change change \<Rightarrow>
          (case (if skipFS then (c, Inr ()) else write_change api cfg now sql p change c) of
             (c', Inl e) \<Rightarrow> (c', Inl e)
           | (c', Inr _) \<Rightarrow> store_change sql (event_change (ev_version ev) p change) c')
      | SyncEvent_Delete \<Rightarrow>
          (let c' = (if skipFS then c
                     else c\<lparr>cl_fs := remove_parents (cc_dir cfg) (filepath_Dir fullPath)
                              (fst (os_Remove fullPath (cl_fs c)))\<rparr>)
           in store_change sql (event_delete (ev_version ev) p) c')
      | SyncEvent_unset \<Rightarrow> (c, Inr ()))"

text \<open>
  The receive loop of \<^verbatim>\<open>syncOnce\<close> over the messages of one connection: the first event that
  cannot be applied ends it. Event \<open>i\<close> is applied at time \<open>clock i\<close>.
\<close>

fun apply_events :: "hub_api \<Rightarrow> ClientCfg \<Rightarrow> (nat \<Rightarrow> int) \<Rightarrow> sql_faults \<Rightarrow> SyncEvent list \<Rightarrow> Client \<Rightarrow> Client \<times> unit res" where
  "apply_events api cfg clock sql [] c = (c, Inr ())"
| "apply_events api cfg clock sql (ev # evs) c =
     (case applyEvent api cfg (clock 0) sql ev c of
        (c', Inl e) \<Rightarrow>
          (c', Inl (Wrap (''apply event v'' @ dec_digits (unat (ev_version ev)) @ '' '' @ ev_path ev) e))
      | (c', Inr _) \<Rightarrow> apply_events api cfg (\<lambda>i. clock (Suc i)) sql evs c')"

definition syncOnce :: "hub_api \<Rightarrow> ClientCfg \<Rightarrow> (nat \<Rightarrow> int) \<Rightarrow> sql_faults \<Rightarrow> (int \<Rightarrow> SyncEvent list reply) \<Rightarrow> Client \<Rightarrow> Client \<times> err" where
  "syncOnce api cfg clock sql subscribe c =
     (case HubVersion sql (cl_store c) of
        Inl e \<Rightarrow> (c, Wrap ''get hub version'' e)
      | Inr version \<Rightarrow>
          (case subscribe version of
             No_reply e \<Rightarrow> (c, Wrap ''connect'' e)
           | Status st body \<Rightarrow> (c, Error_string (''subscribe response '' @ st @ '': '' @ body))
           | Body evs \<Rightarrow>
               (case apply_events api cfg clock sql evs c of
                  (c', Inl e) \<Rightarrow> (c', e)
                | (c', Inr _) \<Rightarrow> (c', Wrap ''read event'' io_EOF))))"

text \<open>
  The reconnect loop of \<^verbatim>\<open>syncReadOnly\<close>: the client after \<open>n\<close> connections. The loop ends only when its
  context is cancelled, so every \<open>n\<close> is a possible end. Connection \<open>i\<close> talks to the hub \<open>api i\<close>, \<open>subscribe i\<close>.
\<close>

primrec syncReadOnly :: "(nat \<Rightarrow> hub_api) \<Rightarrow> ClientCfg \<Rightarrow> (nat \<Rightarrow> nat \<Rightarrow> int) \<Rightarrow> sql_faults \<Rightarrow>
    (nat \<Rightarrow> int \<Rightarrow> SyncEvent list reply) \<Rightarrow> nat \<Rightarrow> Client \<Rightarrow> Client" where
  "syncReadOnly api cfg clock sql subscribe 0 c = c"
| "syncReadOnly api cfg clock sql subscribe (Suc n) c =
     fst (syncOnce (api n) cfg (clock n) sql (subscribe n) (syncReadOnly api cfg clock sql subscribe n c))"

section \<open>Bootstrap and catch-up\<close>

text \<open>
  \<^verbatim>\<open>bootstrapTreeDB\<close> replaces the client database by the served one and keeps its file below
  \<^verbatim>\<open>.hubsync\<close>; \<open>db_bytes\<close> is the file format of the database.
\<close>

definition bootstrapTreeDB :: "hub_api \<Rightarrow> (ClientStore \<Rightarrow> bytes) \<Rightarrow> ClientCfg \<Rightarrow> int \<Rightarrow> Client \<Rightarrow> Client \<times> unit res" where
  "bootstrapTreeDB api db_bytes cfg now c =
     (case api_tree api of
        No_reply e \<Rightarrow> (c, Inl (Wrap ''fetch tree db'' e))
      | Status st body \<Rightarrow> (c, Inl (Error_string (''tree db response: '' @ st)))
      | Body db \<Rightarrow>
     (case os_MkdirAll (filepath_Join (cc_dir cfg) ''.hubsync'') (cl_fs c) of
        (f, Inl e) \<Rightarrow> (c\<lparr>cl_fs := f\<rparr>, Inl e)
      | (f, Inr _) \<Rightarrow>
     (case os_WriteFile now (filepath_Join (cc_dir cfg) ''.hubsync/client.db'') (db_bytes db) 420 f of
        (f', Inl e) \<Rightarrow> (c\<lparr>cl_fs := f'\<rparr>, Inl (Wrap ''write tree db'' e))
      | (f', Inr _) \<Rightarrow> (c\<lparr>cl_fs := f', cl_store := initClientSchema (Some db)\<rparr>, Inr ()))))"

fun reconcileBlobs :: "hub_api \<Rightarrow> ClientCfg \<Rightarrow> int \<Rightarrow> (string \<times> HubTreeEntry) list \<Rightarrow> Client \<Rightarrow> Client \<times> unit res" where
  "reconcileBlobs api cfg now [] c = (c, Inr ())"
| "reconcileBlobs api cfg now (pe # pes) c =
     (let entry = hte_entry (snd pe); fullPath = filepath_Join (cc_dir cfg) (fst pe) in
      if te_kind entry \<noteq> FileKindFile then reconcileBlobs api cfg now pes c
      else if (case os_ReadFile (cl_fs c) fullPath of Inr d \<Rightarrow> client_sum c d = te_digest entry | Inl _ \<Rightarrow> False)
      then reconcileBlobs api cfg now pes c
      else (case os_MkdirAll (filepath_Dir fullPath) (cl_fs c) of
              (f, Inl e) \<Rightarrow> (c\<lparr>cl_fs := f\<rparr>, Inl e)
            | (f, Inr _) \<Rightarrow>
                (case fetchFullBlob api now (te_digest entry) fullPath (te_mode entry) f of
                   (f', Inl e) \<Rightarrow> (c\<lparr>cl_fs := f'\<rparr>, Inl (Wrap (''fetch '' @ fst pe) e))
                 | (f', Inr _) \<Rightarrow> reconcileBlobs api cfg now pes (c\<lparr>cl_fs := f'\<rparr>))))"

fun remove_entries :: "ClientCfg \<Rightarrow> (string \<times> HubTreeEntry) list \<Rightarrow> walk_entry list \<Rightarrow> fs \<Rightarrow> fs \<times> unit res" where
  "remove_entries cfg tree [] f = (f, Inr ())"
| "remove_entries cfg tree (e # es) f =
     (if we_is_dir e \<or> map_of tree (we_path e) \<noteq> None then remove_entries cfg tree es f
      else (case os_Remove (filepath_Join (cc_dir cfg) (we_path e)) f of
              (f', Inl er) \<Rightarrow> (f', Inl (Wrap (''remove '' @ we_path e) er))
            | (f', Inr _) \<Rightarrow> remove_entries cfg tree es f'))"

definition removeExtraneous :: "walker \<Rightarrow> ignorer option res \<Rightarrow> ClientCfg \<Rightarrow> (string \<times> HubTreeEntry) list \<Rightarrow> Client \<Rightarrow> Client \<times> unit res" where
  "removeExtraneous walk gitignore cfg tree c =
     (case gitignore of
        Inl e \<Rightarrow> (c, Inl e)
      | Inr base \<Rightarrow>
          (case walk (cl_fs c) (cc_dir cfg) (IsIgnored base) of
             Inl e \<Rightarrow> (c, Inl e)
           | Inr es \<Rightarrow> (case remove_entries cfg tree es (cl_fs c) of (f, r) \<Rightarrow> (c\<lparr>cl_fs := f\<rparr>, r))))"

text \<open>\<^verbatim>\<open>bootstrapBlobs\<close>: targets grouped by digest; one fetch per digest, then copies.\<close>

definition group_targets :: "(string \<times> HubTreeEntry) list \<Rightarrow> (Digest \<times> (string \<times> uint32) list) list" where
  "group_targets tree =
     fold (\<lambda>pe byDigest.
       let entry = hte_entry (snd pe); d = te_digest entry in
       if te_kind entry \<noteq> FileKindFile then byDigest
       else AList.update d ((case map_of byDigest d of None \<Rightarrow> [] | Some ts \<Rightarrow> ts) @ [(fst pe, te_mode entry)]) byDigest)
     tree []"

fun copy_targets :: "ClientCfg \<Rightarrow> int \<Rightarrow> bytes \<Rightarrow> (string \<times> uint32) list \<Rightarrow> fs \<Rightarrow> fs \<times> unit res" where
  "copy_targets cfg now d [] f = (f, Inr ())"
| "copy_targets cfg now d (t # ts) f =
     (let destPath = filepath_Join (cc_dir cfg) (fst t) in
      case os_MkdirAll (filepath_Dir destPath) f of
        (f', Inl e) \<Rightarrow> (f', Inl e)
      | (f', Inr _) \<Rightarrow>
          (case os_WriteFile now destPath d (snd t) f' of
             (f'', Inl e) \<Rightarrow> (f'', Inl e)
           | (f'', Inr _) \<Rightarrow> copy_targets cfg now d ts f''))"

fun fetch_groups :: "hub_api \<Rightarrow> ClientCfg \<Rightarrow> int \<Rightarrow> (Digest \<times> (string \<times> uint32) list) list \<Rightarrow> fs \<Rightarrow> fs \<times> unit res" where
  "fetch_groups api cfg now [] f = (f, Inr ())"
| "fetch_groups api cfg now (g # gs) f =
     (case snd g of
        [] \<Rightarrow> fetch_groups api cfg now gs f
      | t # ts \<Rightarrow>
          let fullPath = filepath_Join (cc_dir cfg) (fst t) in
          (case os_MkdirAll (filepath_Dir fullPath) f of
             (f1, Inl e) \<Rightarrow> (f1, Inl e)
           | (f1, Inr _) \<Rightarrow>
          (case fetchFullBlob api now (fst g) fullPath (snd t) f1 of
             (f2, Inl e) \<Rightarrow> (f2, Inl (Wrap (''fetch blob '' @ shortHex (fst g) @ '' for '' @ fst t) e))
           | (f2, Inr _) \<Rightarrow>
               if ts = [] then fetch_groups api cfg now gs f2
               else (case os_ReadFile f2 fullPath of
                       Inl e \<Rightarrow> (f2, Inl e)
                     | Inr d \<Rightarrow>
                         (case copy_targets cfg now d ts f2 of
                            (f3, Inl e) \<Rightarrow> (f3, Inl e)
                          | (f3, Inr _) \<Rightarrow> fetch_groups api cfg now gs f3)))))"

definition bootstrapBlobs :: "hub_api \<Rightarrow> ClientCfg \<Rightarrow> int \<Rightarrow> sql_faults \<Rightarrow> Client \<Rightarrow> Client \<times> unit res" where
  "bootstrapBlobs api cfg now sql c =
     (case ClientTreeSnapshot sql (cl_store c) of
        Inl e \<Rightarrow> (c, Inl (Wrap ''load tree'' e))
      | Inr tree \<Rightarrow>
          (case fetch_groups api cfg now (group_targets tree) (cl_fs c) of (f, r) \<Rightarrow> (c\<lparr>cl_fs := f\<rparr>, r)))"

definition Bootstrap :: "hub_api \<Rightarrow> (ClientStore \<Rightarrow> bytes) \<Rightarrow> ClientCfg \<Rightarrow> int \<Rightarrow> sql_faults \<Rightarrow> Client \<Rightarrow> Client \<times> unit res" where
  "Bootstrap api db_bytes cfg now sql c =
     (case bootstrapTreeDB api db_bytes cfg now c of
        (c1, Inl e) \<Rightarrow> (c1, Inl e)
      | (c1, Inr _) \<Rightarrow>
     (case ensureHasher cfg sql (c1\<lparr>cl_hasher := None\<rparr>) of
        (c2, Inl e) \<Rightarrow> (c2, Inl (Wrap ''resolve hasher'' e))
      | (c2, Inr _) \<Rightarrow> bootstrapBlobs api cfg now sql c2))"

definition Catchup :: "hub_api \<Rightarrow> (ClientStore \<Rightarrow> bytes) \<Rightarrow> walker \<Rightarrow> ignorer option res \<Rightarrow> ClientCfg \<Rightarrow> int \<Rightarrow> sql_faults \<Rightarrow>
    Client \<Rightarrow> Client \<times> unit res" where
  "Catchup api db_bytes walk gitignore cfg now sql c =
     (case bootstrapTreeDB api db_bytes cfg now c of
        (c1, Inl e) \<Rightarrow> (c1, Inl e)
      | (c1, Inr _) \<Rightarrow>
     (case ensureHasher cfg sql (c1\<lparr>cl_hasher := None\<rparr>) of
        (c2, Inl e) \<Rightarrow> (c2, Inl (Wrap ''resolve hasher'' e))
      | (c2, Inr _) \<Rightarrow>
     (case ClientTreeSnapshot sql (cl_store c2) of
        Inl e \<Rightarrow> (c2, Inl (Wrap ''load tree'' e))
      | Inr tree \<Rightarrow>
     (case reconcileBlobs api cfg now tree c2 of
        (c3, Inl e) \<Rightarrow> (c3, Inl e)
      | (c3, Inr _) \<Rightarrow> removeExtraneous walk gitignore cfg tree c3))))"

section \<open>The API of a hub\<close>

text \<open>The client's view of a hub without an archive, through its handlers.\<close>

definition reply_of :: "'a http \<Rightarrow> 'a reply" where
  "reply_of r =
     (case r of
        HttpOK b \<Rightarrow> Body b
      | HttpError st t \<Rightarrow> Status (dec_digits st) t
      | HttpRedirect u \<Rightarrow> No_reply (Error_string u))"

definition api_of :: "(bytes \<Rightarrow> bytes) \<Rightarrow> ScannerCfg \<Rightarrow> Hub \<Rightarrow> hub_api" where
  "api_of sha sc h =
     \<lparr>api_blob = (\<lambda>hex. reply_of (handleBlob no_faults (sc_dir sc) None '''' hex h)),
      api_delta = (\<lambda>req. reply_of (delta_response sha no_faults (sc_dir sc) req h)),
      api_tree = (case handleLatestSnapshotTree no_faults h of
                    HttpRedirect loc \<Rightarrow>
                      reply_of (handleSnapshotTree no_faults no_faults (hash_name (sc_hasher sc))
                        (TrimPrefix loc ''/snapshots-tree/'') h)
                  | r \<Rightarrow> reply_of r)\<rparr>"

definition hub_subscribe :: "ScannerCfg \<Rightarrow> Hub \<Rightarrow> int \<Rightarrow> SyncEvent list reply" where
  "hub_subscribe sc h since =
     (case ChangesSince no_faults since (hub_db h) of
        Inl e \<Rightarrow> No_reply e
      | Inr entries \<Rightarrow> Body (map (sync_event (sc_dir sc) (hub_fs h)) entries))"

section \<open>Writing one file\<close>

text \<open>Creating the parents of a file and writing it changes no other file.\<close>

lemma mkdir_file_frame:
  assumes "fs_node f q = Some (NFile d m t)"
  shows "fs_node (fst (os_MkdirAll p f)) q = Some (NFile d m t)"
  by (rule os_MkdirAll_file [OF assms])

lemma ReadFile_node: "os_ReadFile f q = Inr d \<longleftrightarrow> (\<exists>m t. fs_node f q = Some (NFile d m t))"
  by (auto simp: os_ReadFile_def split: option.split node.split)

lemma ReadFile_mkdir: "os_ReadFile f q = Inr d \<Longrightarrow> os_ReadFile (fst (os_MkdirAll p f)) q = Inr d"
  by (auto simp: ReadFile_node os_MkdirAll_file)

lemma ReadFile_write_other:
  assumes "os_ReadFile f q = Inr d" "q \<noteq> p"
  shows "os_ReadFile (fst (os_WriteFile now p d' mode f)) q = Inr d"
proof (cases "snd (os_WriteFile now p d' mode f)")
  case (Inl e)
  with assms show ?thesis by (simp add: os_WriteFile_error)
next
  case (Inr u)
  with assms os_WriteFile_node(2) [of now p d' mode f q] show ?thesis by (simp add: ReadFile_node)
qed

lemma ReadFile_write_same:
  "snd (os_WriteFile now p d mode f) = Inr () \<Longrightarrow> os_ReadFile (fst (os_WriteFile now p d mode f)) p = Inr d"
  using os_WriteFile_node(1) [of now p d mode f] by (auto simp: ReadFile_node)

lemma ReadFile_chtimes: "os_ReadFile (os_Chtimes p t f) q = Inr d \<longleftrightarrow> os_ReadFile f q = Inr d"
  by (cases "q = p"; cases "fs_node f p") (auto simp: ReadFile_node os_Chtimes_node split: node.splits)

lemma fetchFullBlob_frame:
  assumes "os_ReadFile f q = Inr d" "q \<noteq> p"
  shows "os_ReadFile (fst (fetchFullBlob api now digest p mode f)) q = Inr d"
  using assms ReadFile_write_other [OF assms] by (auto simp: fetchFullBlob_def split: reply.split)

lemma fetchFullBlob_ok:
  assumes "snd (fetchFullBlob api now digest p mode f) = Inr ()"
  obtains d where "api_blob api (Digest_Hex digest) = Body d" "os_ReadFile (fst (fetchFullBlob api now digest p mode f)) p = Inr d"
  using assms ReadFile_write_same by (auto simp: fetchFullBlob_def split: reply.splits)

section \<open>Catch-up mirrors the tree\<close>

definition honest_blobs :: "hub_api \<Rightarrow> (bytes \<Rightarrow> Digest) \<Rightarrow> bool" where
  "honest_blobs api hash \<longleftrightarrow> (\<forall>digest d. api_blob api (Digest_Hex digest) = Body d \<longrightarrow> hash d = digest)"

definition blob_present :: "ClientCfg \<Rightarrow> (bytes \<Rightarrow> Digest) \<Rightarrow> string \<times> HubTreeEntry \<Rightarrow> fs \<Rightarrow> bool" where
  "blob_present cfg hash pe f \<longleftrightarrow>
     (\<exists>d. os_ReadFile f (filepath_Join (cc_dir cfg) (fst pe)) = Inr d \<and> hash d = te_digest (hte_entry (snd pe)))"

lemma reconcile_frame:
  assumes "os_ReadFile (cl_fs c) q = Inr d" "\<forall>pe \<in> set pes. filepath_Join (cc_dir cfg) (fst pe) \<noteq> q"
  shows "os_ReadFile (cl_fs (fst (reconcileBlobs api cfg now pes c))) q = Inr d"
  using assms
proof (induction pes arbitrary: c)
  case Nil
  then show ?case by simp
next
  case (Cons pe pes)
  let ?p = "filepath_Join (cc_dir cfg) (fst pe)"
  have q: "q \<noteq> ?p" using Cons.prems(2) by auto
  obtain f1 r1 where mk: "os_MkdirAll (filepath_Dir ?p) (cl_fs c) = (f1, r1)" by fastforce
  have f1: "os_ReadFile f1 q = Inr d" using ReadFile_mkdir [OF Cons.prems(1), of "filepath_Dir ?p"] mk by simp
  obtain f2 r2 where fe: "fetchFullBlob api now (te_digest (hte_entry (snd pe))) ?p (te_mode (hte_entry (snd pe))) f1 = (f2, r2)"
    by fastforce
  have f2: "os_ReadFile f2 q = Inr d" using fetchFullBlob_frame [OF f1 q] fe by (metis fst_conv)
  have IH: "os_ReadFile (cl_fs (fst (reconcileBlobs api cfg now pes c'))) q = Inr d"
    if "os_ReadFile (cl_fs c') q = Inr d" for c'
    using Cons.IH [OF that] Cons.prems(2) by simp
  show ?case
    using IH [OF Cons.prems(1)] IH [of "c\<lparr>cl_fs := f2\<rparr>"] f1 f2
    by (simp add: Let_def mk fe split: sum.split)
qed

lemma reconcile_unchanged:
  "cl_store (fst (reconcileBlobs api cfg now pes c)) = cl_store c \<and>
   cl_hasher (fst (reconcileBlobs api cfg now pes c)) = cl_hasher c"
proof (induction pes arbitrary: c)
  case Nil
  then show ?case by simp
next
  case (Cons pe pes)
  then show ?case by (simp add: Let_def split: prod.split sum.split)
qed

lemma reconcile_ok:
  assumes "honest_blobs api (client_sum c)" "snd (reconcileBlobs api cfg now pes c) = Inr ()"
    and "distinct (map (\<lambda>pe. filepath_Join (cc_dir cfg) (fst pe)) pes)"
    and "pe \<in> set pes" "te_kind (hte_entry (snd pe)) = FileKindFile"
  shows "blob_present cfg (client_sum c) pe (cl_fs (fst (reconcileBlobs api cfg now pes c)))"
  using assms
proof (induction pes arbitrary: c)
  case Nil
  then show ?case by simp
next
  case (Cons q pes)
  let ?p = "filepath_Join (cc_dir cfg) (fst q)"
  let ?e = "hte_entry (snd q)"
  have fresh: "\<forall>x \<in> set pes. filepath_Join (cc_dir cfg) (fst x) \<noteq> ?p"
    using distinct_map_Cons_neq [OF Cons.prems(3)] by blast
  obtain f1 r1 where mk: "os_MkdirAll (filepath_Dir ?p) (cl_fs c) = (f1, r1)" by fastforce
  obtain f2 r2 where fe: "fetchFullBlob api now (te_digest ?e) ?p (te_mode ?e) f1 = (f2, r2)" by fastforce
  have sum: "client_sum (c\<lparr>cl_fs := f2\<rparr>) = client_sum c" by (simp add: client_sum_def fun_eq_iff)
  consider (skip) "te_kind ?e \<noteq> FileKindFile"
    | (same) d where "te_kind ?e = FileKindFile" "os_ReadFile (cl_fs c) ?p = Inr d" "client_sum c d = te_digest ?e"
    | (fetch) "te_kind ?e = FileKindFile" "r1 = Inr ()" "r2 = Inr ()"
        "reconcileBlobs api cfg now (q # pes) c = reconcileBlobs api cfg now pes (c\<lparr>cl_fs := f2\<rparr>)"
    using Cons.prems(2) by (auto simp: Let_def mk fe split: if_splits sum.splits)
  then show ?case
  proof cases
    case skip
    with Cons show ?thesis by (auto simp: Let_def)
  next
    case same
    then have step: "reconcileBlobs api cfg now (q # pes) c = reconcileBlobs api cfg now pes c" by (simp add: Let_def)
    have "blob_present cfg (client_sum c) q (cl_fs (fst (reconcileBlobs api cfg now pes c)))"
      using reconcile_frame [OF same(2) fresh, of api now] same(3) by (auto simp: blob_present_def)
    with Cons step show ?thesis by auto
  next
    case fetch
    obtain d where d: "api_blob api (Digest_Hex (te_digest ?e)) = Body d" "os_ReadFile f2 ?p = Inr d"
      using fetchFullBlob_ok [of api now "te_digest ?e" ?p "te_mode ?e" f1] fe fetch(3) by auto
    then have "client_sum c d = te_digest ?e" using Cons.prems(1) by (auto simp: honest_blobs_def)
    moreover have "os_ReadFile (cl_fs (fst (reconcileBlobs api cfg now pes (c\<lparr>cl_fs := f2\<rparr>)))) ?p = Inr d"
      using reconcile_frame [of "c\<lparr>cl_fs := f2\<rparr>", OF _ fresh] d(2) by simp
    ultimately have "blob_present cfg (client_sum c) q (cl_fs (fst (reconcileBlobs api cfg now pes (c\<lparr>cl_fs := f2\<rparr>))))"
      by (auto simp: blob_present_def)
    with Cons.IH [of "c\<lparr>cl_fs := f2\<rparr>"] Cons.prems fetch(4) show ?thesis by (auto simp: sum)
  qed
qed

definition extraneous :: "ClientCfg \<Rightarrow> (string \<times> HubTreeEntry) list \<Rightarrow> walk_entry list \<Rightarrow> fpath \<Rightarrow> bool" where
  "extraneous cfg tree es q \<longleftrightarrow>
     (\<exists>e \<in> set es. \<not> we_is_dir e \<and> map_of tree (we_path e) = None \<and> q = filepath_Join (cc_dir cfg) (we_path e))"

lemma remove_entries_ok:
  assumes "distinct (walk_files es)"
    and "\<And>e. e \<in> set es \<Longrightarrow> \<not> we_is_dir e \<Longrightarrow> plain_path (we_path e) \<and> is_file f (filepath_Join (cc_dir cfg) (we_path e))"
  shows "\<exists>f'. remove_entries cfg tree es f = (f', Inr ()) \<and>
     (\<forall>q. fs_node f' q = (if extraneous cfg tree es q then None else fs_node f q))"
  using assms
proof (induction es arbitrary: f)
  case Nil
  then show ?case by (simp add: extraneous_def)
next
  case (Cons e es)
  let ?p = "filepath_Join (cc_dir cfg) (we_path e)"
  show ?case
  proof (cases "we_is_dir e \<or> map_of tree (we_path e) \<noteq> None")
    case True
    have "distinct (walk_files es)" using Cons.prems(1) by (auto simp: walk_files_def split: if_splits)
    moreover have "extraneous cfg tree (e # es) = extraneous cfg tree es"
      using True by (auto simp: extraneous_def fun_eq_iff)
    ultimately show ?thesis using Cons.IH [of f] Cons.prems(2) True by simp
  next
    case False
    have dist: "distinct (walk_files es)" and fresh: "we_path e \<notin> set (walk_files es)"
      using Cons.prems(1) False by (auto simp: walk_files_def)
    have e: "plain_path (we_path e)" "is_file f ?p" using Cons.prems(2) [of e] False by auto
    have rm: "os_Remove ?p f = (fs_del ?p f, Inr ())" by (rule os_Remove_file [OF e(2)])
    have "?p \<noteq> []" using e(2) by (auto simp: is_file_def fs_node_def)
    then have node: "fs_node (fs_del ?p f) q = (if q = ?p then None else fs_node f q)" for q by (simp add: fs_node_del)
    have "plain_path (we_path x) \<and> is_file (fs_del ?p f) (filepath_Join (cc_dir cfg) (we_path x))"
      if x: "x \<in> set es" "\<not> we_is_dir x" for x
    proof -
      have "we_path x \<in> set (walk_files es)" using x by (simp add: walk_files_def)
      with fresh have "we_path x \<noteq> we_path e" by metis
      moreover have px: "plain_path (we_path x)" "is_file f (filepath_Join (cc_dir cfg) (we_path x))"
        using Cons.prems(2) [of x] x by auto
      ultimately have "filepath_Join (cc_dir cfg) (we_path x) \<noteq> ?p" using Join_plain_inj e(1) by blast
      with px show ?thesis by (simp add: is_file_def node)
    qed
    from Cons.IH [OF dist this] obtain f' where "remove_entries cfg tree es (fs_del ?p f) = (f', Inr ())"
      "\<forall>q. fs_node f' q = (if extraneous cfg tree es q then None else fs_node (fs_del ?p f) q)" by blast
    moreover have "extraneous cfg tree (e # es) q \<longleftrightarrow> q = ?p \<or> extraneous cfg tree es q" for q
      using False by (auto simp: extraneous_def)
    ultimately show ?thesis using False rm node by auto
  qed
qed

lemma removeExtraneous_ok:
  assumes "walk_ok walk (cl_fs c) (cc_dir cfg) (IsIgnored base)"
  obtains f' where "removeExtraneous walk (Inr base) cfg tree c = (c\<lparr>cl_fs := f'\<rparr>, Inr ())"
    "\<And>p. plain_path p \<Longrightarrow> fs_node f' (filepath_Join (cc_dir cfg) p) =
       (if walk_visible (IsIgnored base) p \<and> is_file (cl_fs c) (filepath_Join (cc_dir cfg) p) \<and> map_of tree p = None
        then None else fs_node (cl_fs c) (filepath_Join (cc_dir cfg) p))"
proof -
  from assms obtain es where es: "walk (cl_fs c) (cc_dir cfg) (IsIgnored base) = Inr es" "distinct (walk_files es)"
    and sound: "\<And>e. e \<in> set es \<Longrightarrow> \<not> we_is_dir e \<Longrightarrow> plain_path (we_path e) \<and> walk_visible (IsIgnored base) (we_path e) \<and>
       is_file (cl_fs c) (filepath_Join (cc_dir cfg) (we_path e))"
    and complete: "\<And>p. plain_path p \<Longrightarrow> walk_visible (IsIgnored base) p \<Longrightarrow> is_file (cl_fs c) (filepath_Join (cc_dir cfg) p) \<Longrightarrow>
       p \<in> set (walk_files es)"
    unfolding walk_ok_def is_file_def by fastforce
  from remove_entries_ok [OF es(2), of "cl_fs c" cfg tree] sound obtain f' where
    f': "remove_entries cfg tree es (cl_fs c) = (f', Inr ())"
    "\<forall>q. fs_node f' q = (if extraneous cfg tree es q then None else fs_node (cl_fs c) q)" by blast
  have "extraneous cfg tree es (filepath_Join (cc_dir cfg) p) \<longleftrightarrow>
      walk_visible (IsIgnored base) p \<and> is_file (cl_fs c) (filepath_Join (cc_dir cfg) p) \<and> map_of tree p = None"
    if p: "plain_path p" for p
  proof
    assume "extraneous cfg tree es (filepath_Join (cc_dir cfg) p)"
    then obtain e where e: "e \<in> set es" "\<not> we_is_dir e" "map_of tree (we_path e) = None"
      "filepath_Join (cc_dir cfg) p = filepath_Join (cc_dir cfg) (we_path e)" by (auto simp: extraneous_def)
    with sound [OF e(1,2)] Join_plain_inj [OF p _ e(4)] show "walk_visible (IsIgnored base) p \<and>
      is_file (cl_fs c) (filepath_Join (cc_dir cfg) p) \<and> map_of tree p = None" by auto
  next
    assume *: "walk_visible (IsIgnored base) p \<and> is_file (cl_fs c) (filepath_Join (cc_dir cfg) p) \<and> map_of tree p = None"
    with complete [OF p] have "p \<in> set (walk_files es)" by blast
    with * show "extraneous cfg tree es (filepath_Join (cc_dir cfg) p)" by (auto simp: extraneous_def walk_files_def)
  qed
  with f' es(1) that [of f'] show ?thesis by (simp add: removeExtraneous_def)
qed

text \<open>The stages of a successful catch-up.\<close>

lemma Catchup_stages:
  assumes "Catchup api db_bytes walk gitignore cfg now no_faults c = (c', Inr ())" "api_tree api = Body db"
    and "HashAlgo no_faults db = Inr algo" "NewHasher (cc_xxh128 cfg) (cc_sha256 cfg) (if algo = '''' then DefaultHash else algo) = Inr h"
  obtains c2 c3 where "cl_store c2 = db" "cl_hasher c2 = Some h"
    "reconcileBlobs api cfg now (gomap_of ht_path tree_row_entry (hub_tree db)) c2 = (c3, Inr ())"
    "removeExtraneous walk gitignore cfg (gomap_of ht_path tree_row_entry (hub_tree db)) c3 = (c', Inr ())"
proof -
  from assms(1,2) obtain c1 where c1: "bootstrapTreeDB api db_bytes cfg now c = (c1, Inr ())"
    by (auto simp: Catchup_def split: prod.splits sum.splits)
  with assms(2) have st: "cl_store c1 = db"
    by (auto simp: bootstrapTreeDB_def initClientSchema_def split: prod.splits sum.splits)
  let ?c2 = "c1\<lparr>cl_hasher := Some h\<rparr>"
  have hasher: "ensureHasher cfg no_faults (c1\<lparr>cl_hasher := None\<rparr>) = (?c2, Inr ())"
    using assms(3,4) st by (simp add: ensureHasher_def)
  let ?tree = "gomap_of ht_path tree_row_entry (hub_tree db)"
  have snap: "ClientTreeSnapshot no_faults (cl_store ?c2) = Inr ?tree" using st by (simp add: ClientTreeSnapshot_def)
  from assms(1) c1 hasher snap obtain c3 where "reconcileBlobs api cfg now ?tree ?c2 = (c3, Inr ())"
    "removeExtraneous walk gitignore cfg ?tree c3 = (c', Inr ())"
    by (auto simp: Catchup_def split: prod.splits sum.splits)
  with st that [of ?c2 c3] show ?thesis by simp
qed

section \<open>What an event does\<close>

definition event_entry :: "SyncEvent \<Rightarrow> ChangeEntry option" where
  "event_entry ev =
     (case ev_event ev of
        SyncEvent_Change change \<Rightarrow> Some (event_change (ev_version ev) (ev_path ev) change)
      | SyncEvent_Delete \<Rightarrow> Some (event_delete (ev_version ev) (ev_path ev))
      | SyncEvent_unset \<Rightarrow> None)"

lemma fetchLargeFile_unchanged:
  "cl_store (fst (fetchLargeFile api cfg now sql digest p dest mode c)) = cl_store c"
  "cl_local_edits (fst (fetchLargeFile api cfg now sql digest p dest mode c)) = cl_local_edits c"
  by (simp_all add: fetchLargeFile_def Let_def)

lemma write_change_unchanged:
  "cl_store (fst (write_change api cfg now sql p change c)) = cl_store c \<and>
   cl_local_edits (fst (write_change api cfg now sql p change c)) = cl_local_edits c"
proof -
  let ?full = "filepath_Join (cc_dir cfg) p"
  obtain f r where mk: "os_MkdirAll (filepath_Dir ?full) (cl_fs c) = (f, r)" by fastforce
  obtain f1 r1 where wr: "os_WriteFile now ?full (fc_data change) (fc_mode change) f = (f1, r1)" by fastforce
  obtain c2 r2 where fe: "fetchLargeFile api cfg now sql (fc_digest change) p ?full (fc_mode change) (c\<lparr>cl_fs := f\<rparr>) = (c2, r2)"
    by fastforce
  have "cl_store c2 = cl_store c" "cl_local_edits c2 = cl_local_edits c"
    using fetchLargeFile_unchanged [of api cfg now sql "fc_digest change" p ?full "fc_mode change" "c\<lparr>cl_fs := f\<rparr>"] fe
    by simp_all
  then show ?thesis by (simp add: write_change_def Let_def mk wr fe split: sum.split)
qed

lemma applyEvent_store:
  assumes "applyEvent api cfg now no_faults ev c = (c', r)"
  shows "cl_local_edits c' = cl_local_edits c"
    "r = Inr () \<Longrightarrow> cl_store c' = (case event_entry ev of None \<Rightarrow> cl_store c | Some e \<Rightarrow> applied e (cl_store c))"
    "r \<noteq> Inr () \<Longrightarrow> cl_store c' = cl_store c"
proof -
  have w: "cl_store c1 = cl_store c \<and> cl_local_edits c1 = cl_local_edits c"
    if "write_change api cfg now no_faults p change c = (c1, x)" for p change c1 x
    using write_change_unchanged [of api cfg now no_faults p change c] that by simp
  show "cl_local_edits c' = cl_local_edits c"
    "r = Inr () \<Longrightarrow> cl_store c' = (case event_entry ev of None \<Rightarrow> cl_store c | Some e \<Rightarrow> applied e (cl_store c))"
    "r \<noteq> Inr () \<Longrightarrow> cl_store c' = cl_store c"
    using assms w
    by (auto simp: applyEvent_def store_change_def ApplyChange_no_faults event_entry_def Let_def
        split: Event.splits if_splits prod.splits sum.splits)
qed

lemma fetchLargeFile_frame:
  assumes "os_ReadFile (cl_fs c) q = Inr d" "q \<noteq> dest"
  shows "os_ReadFile (cl_fs (fst (fetchLargeFile api cfg now sql digest p dest mode c))) q = Inr d"
  using ReadFile_write_other [OF assms] fetchFullBlob_frame [OF assms]
  by (auto simp: fetchLargeFile_def Let_def split: option.split)

lemma write_change_frame:
  assumes "os_ReadFile (cl_fs c) q = Inr d" "q \<noteq> filepath_Join (cc_dir cfg) p"
  shows "os_ReadFile (cl_fs (fst (write_change api cfg now sql p change c))) q = Inr d"
proof -
  let ?full = "filepath_Join (cc_dir cfg) p"
  obtain f r where mk: "os_MkdirAll (filepath_Dir ?full) (cl_fs c) = (f, r)" by fastforce
  have f: "os_ReadFile f q = Inr d" using ReadFile_mkdir [OF assms(1), of "filepath_Dir ?full"] mk by simp
  have "os_ReadFile (fst (os_WriteFile now ?full (fc_data change) (fc_mode change) f)) q = Inr d"
    by (rule ReadFile_write_other [OF f assms(2)])
  moreover have "os_ReadFile (cl_fs (fst (fetchLargeFile api cfg now sql (fc_digest change) p ?full (fc_mode change) (c\<lparr>cl_fs := f\<rparr>)))) q = Inr d"
    by (rule fetchLargeFile_frame) (use f assms(2) in simp_all)
  ultimately show ?thesis using f
    by (auto simp: write_change_def Let_def mk ReadFile_chtimes split: prod.split sum.split)
qed

lemma prefix_below_butlast: "\<not> prefix q d \<Longrightarrow> \<not> prefix q (butlast d)"
  using prefixeq_butlast prefix_order.trans by blast

lemma remove_parents_frame:
  "\<not> prefix q dir \<Longrightarrow> fs_node (remove_parents s dir f) q = fs_node f q"
proof (induction s dir f rule: remove_parents.induct)
  case (1 syncDir dir f)
  obtain f' r where rm: "os_Remove dir f = (f', r)" by fastforce
  have node: "fs_node f' q = fs_node f q"
    using os_Remove_node [of dir f q] 1(2) rm by auto
  have "\<not> prefix q (filepath_Dir dir)"
    using 1(2) by (simp add: filepath_Dir_def prefix_below_butlast)
  with 1(1) [OF _ rm [symmetric]] node rm show ?case
    by (cases r) (simp_all add: remove_parents.simps [of syncDir dir f])
qed

lemma applyEvent_frame:
  assumes "os_ReadFile (cl_fs c) q = Inr d" "\<not> prefix q (filepath_Join (cc_dir cfg) (ev_path ev))"
  shows "os_ReadFile (cl_fs (fst (applyEvent api cfg now sql ev c))) q = Inr d"
proof -
  let ?full = "filepath_Join (cc_dir cfg) (ev_path ev)"
  have ne: "q \<noteq> ?full" using assms(2) by auto
  have "\<not> prefix q (filepath_Dir ?full)"
    using assms(2) by (simp add: filepath_Dir_def prefix_below_butlast)
  then have "os_ReadFile (remove_parents (cc_dir cfg) (filepath_Dir ?full) (fst (os_Remove ?full (cl_fs c)))) q = Inr d"
    using assms(1) ne by (simp add: ReadFile_node remove_parents_frame os_Remove_node)
  moreover have "os_ReadFile (cl_fs (fst (write_change api cfg now sql (ev_path ev) change c))) q = Inr d" for change
    by (rule write_change_frame [OF assms(1) ne])
  moreover have "cl_fs (fst (store_change sql e c')) = cl_fs c'" for e c'
    by (simp add: store_change_def split: prod.split)
  ultimately show ?thesis using assms(1)
    by (auto simp: applyEvent_def Let_def split: Event.split prod.split sum.split) (metis fst_conv)+
qed

lemma applyEvent_inline:
  assumes "applyEvent api cfg now sql ev c = (c', Inr ())" "\<not> skipPath c (ev_path ev)"
    and "ev_event ev = SyncEvent_Change change" "fc_data change \<noteq> []"
  shows "os_ReadFile (cl_fs c') (filepath_Join (cc_dir cfg) (ev_path ev)) = Inr (fc_data change)"
proof -
  let ?full = "filepath_Join (cc_dir cfg) (ev_path ev)"
  obtain f r where mk: "os_MkdirAll (filepath_Dir ?full) (cl_fs c) = (f, r)" by fastforce
  obtain f' r' where wr: "os_WriteFile now ?full (fc_data change) (fc_mode change) f = (f', r')" by fastforce
  from assms mk wr have ok: "r = Inr ()" "r' = Inr ()" and c': "cl_fs c' = os_Chtimes ?full (fc_mtime change) f'"
    by (auto simp: applyEvent_def write_change_def store_change_def Let_def split: sum.splits prod.splits)
  have "os_ReadFile f' ?full = Inr (fc_data change)"
    using ReadFile_write_same [of now ?full "fc_data change" "fc_mode change" f] wr ok by simp
  then show ?thesis by (simp add: c' ReadFile_chtimes)
qed

lemma apply_events_append:
  "apply_events api cfg clock sql (xs @ ys) c =
     (case apply_events api cfg clock sql xs c of
        (c', Inl e) \<Rightarrow> (c', Inl e)
      | (c', Inr _) \<Rightarrow> apply_events api cfg (\<lambda>i. clock (i + length xs)) sql ys c')"
  by (induction xs arbitrary: clock c) (auto split: prod.split sum.split)

lemma apply_events_Cons_ok:
  assumes "apply_events api cfg clock sql (ev # evs) c = (c', Inr ())"
  obtains c1 where "applyEvent api cfg (clock 0) sql ev c = (c1, Inr ())"
    "apply_events api cfg (\<lambda>i. clock (Suc i)) sql evs c1 = (c', Inr ())"
  using assms by (auto split: prod.splits sum.splits)

lemma apply_events_store:
  assumes "apply_events api cfg clock no_faults evs c = (c', Inr ())"
  shows "cl_store c' = fold applied (List.map_filter event_entry evs) (cl_store c) \<and> cl_local_edits c' = cl_local_edits c"
  using assms
proof (induction evs arbitrary: clock c)
  case Nil
  then show ?case by simp
next
  case (Cons ev evs)
  from apply_events_Cons_ok [OF Cons.prems] obtain c1 where
    c1: "applyEvent api cfg (clock 0) no_faults ev c = (c1, Inr ())"
    "apply_events api cfg (\<lambda>i. clock (Suc i)) no_faults evs c1 = (c', Inr ())" .
  from Cons.IH [OF c1(2)] applyEvent_store(1,2) [OF c1(1)] show ?case by (simp split: option.split)
qed

lemma apply_events_frame:
  assumes "os_ReadFile (cl_fs c) q = Inr d" "\<forall>ev \<in> set evs. \<not> prefix q (filepath_Join (cc_dir cfg) (ev_path ev))"
  shows "os_ReadFile (cl_fs (fst (apply_events api cfg clock sql evs c))) q = Inr d"
  using assms
proof (induction evs arbitrary: clock c)
  case Nil
  then show ?case by simp
next
  case (Cons ev evs)
  obtain c1 r where c1: "applyEvent api cfg (clock 0) sql ev c = (c1, r)" by fastforce
  have "os_ReadFile (cl_fs c1) q = Inr d"
    using applyEvent_frame [OF Cons.prems(1), of cfg ev api "clock 0" sql] Cons.prems(2) c1 by simp
  with Cons.IH [of c1] Cons.prems(2) c1 show ?case by (cases r) simp_all
qed

lemma fetchLargeFile_fails:
  assumes "LookupByDigest no_faults digest p (cl_store c) = Inr None" "api_blob api (Digest_Hex digest) = Status st body"
    and "\<And>req. \<exists>st body. api_delta api req = Status st body"
  shows "\<exists>e. snd (fetchLargeFile api cfg now no_faults digest p dest mode c) = Inl e"
proof -
  have "\<exists>e. fetchDelta api sha hash digest d = Inl e" for sha hash d
    using assms(3) [of "delta_request sha digest d"] by (auto simp: fetchDelta_def)
  then have "(case fetchDelta api sha hash digest d of Inr x \<Rightarrow> Some x | Inl _ \<Rightarrow> None) = None" for sha hash d
    by (metis (no_types, lifting) sum.case(1))
  then show ?thesis using assms(1,2)
    by (simp add: fetchLargeFile_def Let_def fetchFullBlob_def split: sum.split)
qed

lemma write_change_fails:
  assumes "fc_data change = []" "LookupByDigest no_faults (fc_digest change) p (cl_store c) = Inr None"
    and "api_blob api (Digest_Hex (fc_digest change)) = Status st body" "\<And>req. \<exists>st body. api_delta api req = Status st body"
  shows "\<exists>e. snd (write_change api cfg now no_faults p change c) = Inl e"
proof -
  let ?full = "filepath_Join (cc_dir cfg) p"
  obtain f r where mk: "os_MkdirAll (filepath_Dir ?full) (cl_fs c) = (f, r)" by fastforce
  have "LookupByDigest no_faults (fc_digest change) p (cl_store (c\<lparr>cl_fs := f\<rparr>)) = Inr None" using assms(2) by simp
  from fetchLargeFile_fails [OF this assms(3,4)] obtain e where
    "snd (fetchLargeFile api cfg now no_faults (fc_digest change) p ?full (fc_mode change) (c\<lparr>cl_fs := f\<rparr>)) = Inl e" by blast
  then show ?thesis using assms(1) mk
    by (cases r) (auto simp: write_change_def Let_def split: prod.split sum.split)
qed

lemma syncOnce_blocked:
  assumes "HubVersion no_faults (cl_store c) = Inr v" "subscribe v = Body (ev # evs)" "\<not> skipPath c (ev_path ev)"
    and "ev_event ev = SyncEvent_Change change" "fc_data change = []"
    and "LookupByDigest no_faults (fc_digest change) (ev_path ev) (cl_store c) = Inr None"
    and "api_blob api (Digest_Hex (fc_digest change)) = Status st body" "\<And>req. \<exists>st body. api_delta api req = Status st body"
  shows "cl_store (fst (syncOnce api cfg clock no_faults subscribe c)) = cl_store c \<and>
    cl_local_edits (fst (syncOnce api cfg clock no_faults subscribe c)) = cl_local_edits c"
proof -
  obtain e where "snd (write_change api cfg (clock 0) no_faults (ev_path ev) change c) = Inl e"
    using write_change_fails [OF assms(5-8)] by blast
  then obtain c1 where "write_change api cfg (clock 0) no_faults (ev_path ev) change c = (c1, Inl e)" by (metis prod.collapse)
  then have "applyEvent api cfg (clock 0) no_faults ev c = (c1, Inl e)"
    using assms(3,4) by (simp add: applyEvent_def Let_def)
  then obtain c' where c': "applyEvent api cfg (clock 0) no_faults ev c = (c', Inl e)" by blast
  from applyEvent_store(1,3) [OF c'] c' show ?thesis using assms(1,2) by (simp add: syncOnce_def)
qed

text \<open>The entries of a snapshot name different files of the sync directory.\<close>

lemma snapshot_targets_distinct:
  assumes "client_inv db" "\<forall>r \<in> set (hub_tree db). plain_path (ht_path r)"
  shows "map_of (gomap_of ht_path tree_row_entry (hub_tree db)) p = tbl_map ht_path tree_row_entry (hub_tree db) p"
    "distinct (map (\<lambda>pe. filepath_Join dir (fst pe)) (gomap_of ht_path tree_row_entry (hub_tree db)))"
proof -
  let ?tree = "gomap_of ht_path tree_row_entry (hub_tree db)"
  show keys: "map_of ?tree p = tbl_map ht_path tree_row_entry (hub_tree db) p" for p
    using assms(1) by (simp add: client_inv_def map_of_gomap_of)
  have plain: "plain_path (fst pe)" if "pe \<in> set ?tree" for pe
  proof -
    have "map_of ?tree (fst pe) = Some (snd pe)" using that by simp
    then obtain r where "tbl_lookup ht_path (fst pe) (hub_tree db) = Some r" by (auto simp: keys tbl_map_def)
    then show ?thesis using tbl_lookup_SomeD [of ht_path "fst pe"] assms(2) by metis
  qed
  have "inj_on (filepath_Join dir) (fst ` set ?tree)"
    by (rule inj_onI) (use plain Join_plain_inj in blast)
  then have "distinct (map (filepath_Join dir) (map fst ?tree))"
    by (simp only: distinct_map [of "filepath_Join dir"] list.set_map distinct_gomap_of simp_thms)
  then show "distinct (map (\<lambda>pe. filepath_Join dir (fst pe)) ?tree)" by (simp add: comp_def)
qed

section \<open>Properties of the client\<close>

text \<open>
  C11: A catch-up that succeeds makes the sync directory mirror the served tree: the client database is
  the served one; every listed file whose path the walk can see is on disk with the listed
  hash; and every other visible file is gone. (Blobs are assumed to have the hash they are
  requested by, and the walk to list the files.)
\<close>

theorem catchup_mirrors_tree:
  assumes "Catchup api db_bytes walk (Inr base) cfg now no_faults c = (c', Inr ())" "api_tree api = Body db"
    and "HashAlgo no_faults db = Inr algo"
    and "NewHasher (cc_xxh128 cfg) (cc_sha256 cfg) (if algo = '''' then DefaultHash else algo) = Inr h"
    and "client_inv db" "\<forall>r \<in> set (hub_tree db). plain_path (ht_path r)"
    and "honest_blobs api (hash_sum h)" "\<forall>f. walk_ok walk f (cc_dir cfg) (IsIgnored base)"
  shows "cl_store c' = db \<and>
    (\<forall>p. plain_path p \<longrightarrow> walk_visible (IsIgnored base) p \<longrightarrow>
      (case client_view db p of
         None \<Rightarrow> \<not> is_file (cl_fs c') (filepath_Join (cc_dir cfg) p)
       | Some t \<Rightarrow> te_kind t = FileKindFile \<longrightarrow>
           (\<exists>d. os_ReadFile (cl_fs c') (filepath_Join (cc_dir cfg) p) = Inr d \<and> hash_sum h d = te_digest t)))"
proof -
  let ?tree = "gomap_of ht_path tree_row_entry (hub_tree db)"
  from Catchup_stages [OF assms(1-4)] obtain c2 c3 where
    c2: "cl_store c2 = db" "cl_hasher c2 = Some h"
    and rec: "reconcileBlobs api cfg now ?tree c2 = (c3, Inr ())"
    and rem: "removeExtraneous walk (Inr base) cfg ?tree c3 = (c', Inr ())" .
  have c3: "cl_store c3 = db" using reconcile_unchanged [of api cfg now ?tree c2] rec c2 by simp
  obtain f' where f': "removeExtraneous walk (Inr base) cfg ?tree c3 = (c3\<lparr>cl_fs := f'\<rparr>, Inr ())"
    and after: "\<And>p. plain_path p \<Longrightarrow> fs_node f' (filepath_Join (cc_dir cfg) p) =
       (if walk_visible (IsIgnored base) p \<and> is_file (cl_fs c3) (filepath_Join (cc_dir cfg) p) \<and> map_of ?tree p = None
        then None else fs_node (cl_fs c3) (filepath_Join (cc_dir cfg) p))"
    using removeExtraneous_ok [of walk c3 cfg base ?tree] assms(8) by blast
  with rem have c': "c' = c3\<lparr>cl_fs := f'\<rparr>" by simp
  have sum: "client_sum c2 = hash_sum h" using c2(2) by (simp add: client_sum_def fun_eq_iff)
  note keys = snapshot_targets_distinct(1) [OF assms(5,6)] and dist = snapshot_targets_distinct(2) [OF assms(5,6), of "cc_dir cfg"]
  have "case client_view db p of
      None \<Rightarrow> \<not> is_file (cl_fs c') (filepath_Join (cc_dir cfg) p)
    | Some t \<Rightarrow> te_kind t = FileKindFile \<longrightarrow>
        (\<exists>d. os_ReadFile (cl_fs c') (filepath_Join (cc_dir cfg) p) = Inr d \<and> hash_sum h d = te_digest t)"
    if p: "plain_path p" "walk_visible (IsIgnored base) p" for p
  proof (cases "map_of ?tree p")
    case None
    then have "client_view db p = None" by (simp add: keys client_view_def tbl_map_def)
    with None after [OF p(1)] p(2) show ?thesis by (auto simp: c' is_file_def)
  next
    case (Some e)
    then have view: "client_view db p = Some (hte_entry e)" by (auto simp: keys client_view_def tbl_map_def)
    from Some have "(p, e) \<in> set ?tree" by (rule map_of_SomeD)
    with reconcile_ok [of api c2 cfg now ?tree "(p, e)"] rec sum assms(7) dist
    have "te_kind (hte_entry e) = FileKindFile \<longrightarrow> blob_present cfg (hash_sum h) (p, e) (cl_fs c3)" by simp
    with view after [OF p(1)] Some show ?thesis by (auto simp: c' blob_present_def os_ReadFile_def split: option.splits)
  qed
  then show ?thesis using c' c3 by simp
qed

definition ex_db :: ClientStore where
  "ex_db = \<lparr>hub_tree = [tree_row ''a'' 0 [9, 1, 2] 2 420 5 1], sync_state = [(''hash_algo'', ''xxh128'')]\<rparr>"

definition ex_ccfg :: ClientCfg where
  "ex_ccfg = \<lparr>cc_dir = [''sync''], cc_sha256 = (\<lambda>d. d), cc_xxh128 = (\<lambda>d. 9 # d)\<rparr>"

definition ex_client :: Client where
  "ex_client = \<lparr>cl_store = initClientSchema None, cl_fs = [([''sync''], NDir), ([''sync'', ''old''], NFile [4] 420 1)],
     cl_hasher = None, cl_write_mode = False, cl_local_edits = None\<rparr>"

definition ex_api :: hub_api where
  "ex_api = \<lparr>api_blob = (\<lambda>hex. if hex = Digest_Hex [9, 1, 2] then Body [1, 2] else Status ''404'' ''blob not found''),
     api_delta = (\<lambda>_. Status ''404'' ''target not found''), api_tree = Body ex_db\<rparr>"

lemma Digest_Hex_inj: "Digest_Hex a = Digest_Hex b \<longleftrightarrow> a = b"
  using hex_decode_encode by (metis Inr_inject)

theorem catchup_mirrors_tree_witness:
  "\<exists>c' d. Catchup ex_api (\<lambda>_. []) walk_list (Inr None) ex_ccfg 7 no_faults ex_client = (c', Inr ()) \<and>
     os_ReadFile (cl_fs c') [''sync'', ''a''] = Inr d \<and> 9 # d = [9, 1, 2] \<and> \<not> is_file (cl_fs c') [''sync'', ''old'']"
proof -
  let ?r = "Catchup ex_api (\<lambda>_. []) walk_list (Inr None) ex_ccfg 7 no_faults ex_client"
  let ?h = "\<lparr>hash_name = HashXXH128, hash_sum = (\<lambda>d. 9 # d)\<rparr>"
  have "snd ?r = Inr ()" by code_simp
  then obtain c' where c': "?r = (c', Inr ())" by (cases ?r) simp
  have honest: "honest_blobs ex_api (hash_sum ?h)"
    by (auto simp: honest_blobs_def ex_api_def Digest_Hex_inj split: if_splits)
  have tree: "api_tree ex_api = Body ex_db" by (simp add: ex_api_def)
  have algo: "HashAlgo no_faults ex_db = Inr ''xxh128''" by (simp add: HashAlgo_def ex_db_def)
  have hasher: "NewHasher (cc_xxh128 ex_ccfg) (cc_sha256 ex_ccfg) (if ''xxh128'' = '''' then DefaultHash else ''xxh128'') = Inr ?h"
    by (simp add: NewHasher_def ex_ccfg_def HashXXH128_def)
  have inv: "client_inv ex_db" by (simp add: client_inv_def ex_db_def tbl_inv_def)
  have plain: "\<forall>r \<in> set (hub_tree ex_db). plain_path (ht_path r)"
    by (simp add: ex_db_def plain_path_def plain_name_def)
  have paths: "plain_path ''a''" "walk_visible (IsIgnored None) ''a''" "plain_path ''old''" "walk_visible (IsIgnored None) ''old''"
    "filepath_Join (cc_dir ex_ccfg) ''a'' = [''sync'', ''a'']" "filepath_Join (cc_dir ex_ccfg) ''old'' = [''sync'', ''old'']"
    by code_simp+
  have view: "client_view ex_db ''a'' = Some \<lparr>te_path = ''a'', te_kind = 0, te_digest = [9, 1, 2], te_size = 2, te_mode = 420, te_mtime = 5\<rparr>"
    "client_view ex_db ''old'' = None"
    by (simp_all add: client_view_def ex_db_def tbl_map_def)
  have "\<forall>f. walk_ok walk_list f (cc_dir ex_ccfg) (IsIgnored None)" by (simp add: walk_list_ok)
  from catchup_mirrors_tree [OF c' tree algo hasher inv plain honest this]
  have all: "\<forall>p. plain_path p \<longrightarrow> walk_visible (IsIgnored None) p \<longrightarrow>
      (case client_view ex_db p of
         None \<Rightarrow> \<not> is_file (cl_fs c') (filepath_Join (cc_dir ex_ccfg) p)
       | Some t \<Rightarrow> te_kind t = FileKindFile \<longrightarrow>
           (\<exists>d. os_ReadFile (cl_fs c') (filepath_Join (cc_dir ex_ccfg) p) = Inr d \<and> hash_sum ?h d = te_digest t))" ..
  from spec [OF all, of "''a''"] spec [OF all, of "''old''"] paths view c' show ?thesis by (simp add: FileKindFile_def)
qed

text \<open>
  C23: A delta fetched from the hub always rebuilds the requested file: when the hub has a file with the
  requested digest, the client's delta against any local data succeeds and returns exactly
  that file (with no SHA-256 collision between its windows and the local blocks).
\<close>

theorem fetch_delta_rebuilds:
  assumes "PathByDigest no_faults digest (hub_db h) = Some p"
    and "os_ReadFile (hub_fs h) (filepath_Join (sc_dir sc) p) = Inr target" "hash target = digest" "digest \<noteq> []"
    and "\<And>d. length (sha d) = 32" "int (length target) \<le> 2 ^ 63 - 1"
    and "length (ComputeSignature sha localData (OptimalBlockSize (int (length localData)))) \<le> 2 ^ 32"
    and "\<And>n i. let bs = block_size (OptimalBlockSize (int (length localData))) in
        n + bs \<le> length target \<longrightarrow> i * bs < length localData \<longrightarrow>
        sha (take bs (drop n target)) = sha (base_block localData bs i) \<longrightarrow> take bs (drop n target) = base_block localData bs i"
  shows "fetchDelta (api_of sha sc h) sha hash digest localData = Inr target"
proof -
  let ?bs = "OptimalBlockSize (int (length localData))"
  have bs: "1024 \<le> ?bs" "?bs \<le> 65536"
    by (simp_all add: OptimalBlockSize_def defaultBlockSize_def minBlockSize_def maxBlockSize_def Let_def)
  then have word: "uint (word_of_int ?bs :: uint32) = ?bs" by (simp add: uint_word_of_int)
  have sigs: "map (\<lambda>s. sig_from_proto (sig_to_proto s)) (ComputeSignature sha localData ?bs) = ComputeSignature sha localData ?bs"
  proof (rule map_idI)
    fix s assume "s \<in> set (ComputeSignature sha localData ?bs)"
    from ComputeSignature_sig [OF this assms(7)] assms(5) have "length (sig_strong s) = 32" by metis
    then show "sig_from_proto (sig_to_proto s) = s" by (simp add: sig_from_proto_def sig_to_proto_def)
  qed
  let ?delta = "ComputeDelta sha target (ComputeSignature sha localData ?bs) ?bs"
  have "ApplyDelta localData ?delta ?bs = target"
    by (rule delta_rebuilds [OF _ assms(7)]) (use assms(8) in \<open>auto simp: Let_def\<close>)
  moreover have "DeltaOpsFromProto (ToProto ?delta digest) = ?delta"
    by (rule proto_inverse) (use assms(6) in \<open>simp_all add: ComputeDelta_def Let_def\<close>)
  moreover have "api_delta (api_of sha sc h) (delta_request sha digest localData) = Body (ToProto ?delta digest)"
    using assms(1,2,4) bs word sigs
    by (simp add: api_of_def reply_of_def delta_response_def delta_request_def Let_def comp_def)
  ultimately show ?thesis using assms(3) by (simp add: fetchDelta_def Let_def)
qed

definition ex_sha :: "bytes \<Rightarrow> bytes" where
  "ex_sha d = take 32 (d @ replicate 32 0)"

definition ex_big_hub :: Hub where
  "ex_big_hub = ex_hub\<lparr>hub_db := fst (Append (env_at 3) (ex_change OpCreate [9, 7]) empty_store),
     hub_fs := [([''hub''], NDir), ([''hub'', ''a''], NFile (replicate 1024 7) 420 0)]\<rparr>"

theorem fetch_delta_rebuilds_witness:
  "fetchDelta (api_of ex_sha ex_cfg ex_big_hub) ex_sha (\<lambda>d. 9 # take 1 d) [9, 7] (replicate 1024 7) = Inr (replicate 1024 7)"
proof (rule fetch_delta_rebuilds [where p = "''a''"])
  show "PathByDigest no_faults [9, 7] (hub_db ex_big_hub) = Some ''a''" by code_simp
  have "filepath_Join (sc_dir ex_cfg) ''a'' = [''hub'', ''a'']" by code_simp
  then show "os_ReadFile (hub_fs ex_big_hub) (filepath_Join (sc_dir ex_cfg) ''a'') = Inr (replicate 1024 7)"
    by (simp add: ex_big_hub_def os_ReadFile_def fs_node_def)
  have bs: "block_size (OptimalBlockSize (int (length (replicate 1024 7 :: bytes)))) = 1024"
    by (simp add: OptimalBlockSize_def block_size_def minBlockSize_def maxBlockSize_def defaultBlockSize_def isqrt.simps Let_def)
  show "let bs = block_size (OptimalBlockSize (int (length (replicate 1024 7 :: bytes)))) in
      n + bs \<le> length (replicate 1024 7 :: bytes) \<longrightarrow> i * bs < length (replicate 1024 7 :: bytes) \<longrightarrow>
      ex_sha (take bs (drop n (replicate 1024 7))) = ex_sha (base_block (replicate 1024 7) bs i) \<longrightarrow>
      take bs (drop n (replicate 1024 7)) = base_block (replicate 1024 7) bs i" for n i
    unfolding bs by (auto simp: Let_def base_block_def)
  show "length (ComputeSignature ex_sha (replicate 1024 7) (OptimalBlockSize (int (length (replicate 1024 7 :: bytes))))) \<le> 2 ^ 32"
    unfolding ComputeSignature_def bs by (simp add: sig_loop_length)
qed (simp_all add: ex_sha_def)


definition ex_gone_hub :: Hub where
  "ex_gone_hub = ex_hub\<lparr>hub_db := fst (Append (env_at 4) (ex_change OpDelete [])
     (fst (Append (env_at 3) (ex_change OpCreate [9, 7]) empty_store))), hub_fs := [([''hub''], NDir)]\<rparr>"


end
