(* ===== verification/Config.thy ===== *)
theory Config
  imports Filesystem Hubsync_Types
begin

text \<open>
  The configuration file (\<^verbatim>\<open>config_file.go\<close>), \<^verbatim>\<open>ResolveHashAlgo\<close> (\<^verbatim>\<open>config.go\<close>) and the \<^verbatim>\<open>init\<close> verb
  (\<^verbatim>\<open>cli/hubsync/init.go\<close>). The TOML decoder is a parameter that gives the fields of the file with
  their zero values filled in; environment expansion is that of Go's \<^verbatim>\<open>os.Expand\<close>.
\<close>

section \<open>Environment expansion\<close>

definition is_shell_special :: "char \<Rightarrow> bool" where
  "is_shell_special c \<longleftrightarrow> c \<in> set ''*#$@!?-0123456789''"

definition is_alpha_num :: "char \<Rightarrow> bool" where
  "is_alpha_num c \<longleftrightarrow>
     c = CHR ''_'' \<or> list_ex (\<lambda>(lo, hi). lo \<le> c \<and> c \<le> hi) (zip ''0aA'' ''9zZ'')"

text \<open>The name after a dollar sign and the number of characters it takes, braces included.\<close>

definition getShellName :: "string \<Rightarrow> string \<times> nat" where
  "getShellName s =
     (case s of
        [] \<Rightarrow> ('''', 0)
      | c # cs \<Rightarrow>
          if c = CHR ''{'' then
            (if 2 \<le> length cs \<and> is_shell_special (cs ! 0) \<and> cs ! 1 = CHR ''}'' then ([cs ! 0], 3)
             else let name = takeWhile (\<lambda>x. x \<noteq> CHR ''}'') cs in
               if name = cs then ('''', 1) else if name = [] then ('''', 2) else (name, length name + 2))
          else if is_shell_special c then ([c], 1)
          else let name = takeWhile is_alpha_num s in (name, length name))"

function os_Expand :: "(string \<Rightarrow> string) \<Rightarrow> string \<Rightarrow> string" where
  "os_Expand mapping [] = []"
| "os_Expand mapping (c # cs) =
     (if c = CHR ''$'' \<and> cs \<noteq> [] then
        (case getShellName cs of (name, w) \<Rightarrow>
           (if name = [] \<and> 0 < w then [] else if name = [] then [c] else mapping name) @ os_Expand mapping (drop w cs))
      else c # os_Expand mapping cs)"
  by pat_completeness auto
termination by (relation "measure (length \<circ> snd)") auto

lemma os_Expand_plain: "CHR ''$'' \<notin> set s \<Longrightarrow> os_Expand mapping s = s"
  by (induction s) auto

section \<open>The configuration file\<close>

text \<open>Durations are nanoseconds.\<close>

record ArchiveConfig =
  ac_provider :: string
  ac_bucket :: string
  ac_bucket_prefix :: string
  ac_b2_key_id :: string
  ac_b2_app_key :: string
  ac_large_file_bytes :: int
  ac_archive_workers :: int
  ac_hash_workers :: int
  ac_debounce_base :: int
  ac_debounce_per_100mb :: int
  ac_debounce_max :: int

record ConfigFile =
  cf_hash :: string
  cf_archive :: "ArchiveConfig option"

definition validate :: "ConfigFile \<Rightarrow> unit res" where
  "validate c =
     (if cf_hash c \<noteq> HashXXH128 \<and> cf_hash c \<noteq> HashSHA256
      then Inl (Error_string (''unknown [hub] hash '' @ fmt_q (cf_hash c) @ '' (want '' @ fmt_q HashXXH128 @ '' or '' @ fmt_q HashSHA256 @ '')''))
      else case cf_archive c of
        None \<Rightarrow> Inr ()
      | Some a \<Rightarrow>
          if ac_provider a \<noteq> '''' \<and> ac_provider a \<noteq> ''b2''
          then Inl (Error_string (''unknown [archive] provider '' @ fmt_q (ac_provider a)))
          else Inr ())"

definition expand_archive :: "(string \<Rightarrow> string) \<Rightarrow> fpath \<Rightarrow> ArchiveConfig \<Rightarrow> ArchiveConfig" where
  "expand_archive getenv hubDir a =
     (let pre = os_Expand getenv (ac_bucket_prefix a) in
      a\<lparr>ac_bucket := os_Expand getenv (ac_bucket a),
        ac_bucket_prefix := (if pre = '''' then filepath_Base hubDir @ ''/'' else pre),
        ac_b2_key_id := os_Expand getenv (ac_b2_key_id a), ac_b2_app_key := os_Expand getenv (ac_b2_app_key a)\<rparr>)"

definition config_path :: "fpath \<Rightarrow> fpath" where
  "config_path hubDir = hubDir @ [''.hubsync'', ''config.toml'']"

definition LoadConfigFile :: "(bytes \<Rightarrow> ConfigFile res) \<Rightarrow> (string \<Rightarrow> string) \<Rightarrow> fs \<Rightarrow> fpath \<Rightarrow> ConfigFile res" where
  "LoadConfigFile unmarshal getenv f hubDir =
     (case os_ReadFile f (config_path hubDir) of
        Inl e \<Rightarrow>
          if is_not_exist e then Inr \<lparr>cf_hash = DefaultHash, cf_archive = None\<rparr>
          else Inl (Wrap (''read '' @ abs_path_str (config_path hubDir)) e)
      | Inr data \<Rightarrow>
          (case unmarshal data of
             Inl e \<Rightarrow> Inl (Wrap (''parse '' @ abs_path_str (config_path hubDir)) e)
           | Inr cf \<Rightarrow>
               let cf' = cf\<lparr>cf_hash := (if cf_hash cf = '''' then DefaultHash else cf_hash cf),
                            cf_archive := map_option (expand_archive getenv hubDir) (cf_archive cf)\<rparr>
               in case validate cf' of Inl e \<Rightarrow> Inl e | Inr _ \<Rightarrow> Inr cf'))"

text \<open>\<^verbatim>\<open>HubConfig\<close>: what the command line knows; its hash wins over the file's.\<close>

record HubConfig =
  hc_db_path :: fpath
  hc_watch_dir :: fpath
  hc_token :: string
  hc_listen :: string
  hc_hash_algo :: string

definition ResolveHashAlgo :: "(bytes \<Rightarrow> ConfigFile res) \<Rightarrow> (string \<Rightarrow> string) \<Rightarrow> fs \<Rightarrow> HubConfig \<Rightarrow> string res" where
  "ResolveHashAlgo unmarshal getenv f c =
     (if hc_hash_algo c \<noteq> '''' then Inr (hc_hash_algo c)
      else case LoadConfigFile unmarshal getenv f (hc_watch_dir c) of Inl e \<Rightarrow> Inl e | Inr cf \<Rightarrow> Inr (cf_hash cf))"

definition ProvideHubHasher :: "(bytes \<Rightarrow> Digest) \<Rightarrow> (bytes \<Rightarrow> Digest) \<Rightarrow> (bytes \<Rightarrow> ConfigFile res) \<Rightarrow> (string \<Rightarrow> string) \<Rightarrow> fs \<Rightarrow> HubConfig \<Rightarrow> Hasher res" where
  "ProvideHubHasher xxh128 sha256 unmarshal getenv f c =
     (case ResolveHashAlgo unmarshal getenv f c of Inl e \<Rightarrow> Inl e | Inr algo \<Rightarrow> NewHasher xxh128 sha256 algo)"

section \<open>The init verb\<close>

text \<open>\<open>template\<close> is the file embedded in the binary; \<^verbatim>\<open>filepath.Abs\<close> of the argument cannot fail here.\<close>

definition runInit :: "bytes \<Rightarrow> int \<Rightarrow> fpath \<Rightarrow> string \<Rightarrow> fs \<Rightarrow> fs \<times> fpath res" where
  "runInit template now cwd dir f =
     (let absDir = (if HasPrefix dir ''/'' then filepath_Join [] dir else filepath_Join cwd dir);
          hubsyncDir = absDir @ [''.hubsync'']; configPath = config_path absDir
      in case os_MkdirAll hubsyncDir f of
           (f1, Inl e) \<Rightarrow> (f1, Inl (Wrap (''create '' @ abs_path_str hubsyncDir) e))
         | (f1, Inr _) \<Rightarrow>
             (case os_Stat f1 configPath of
                Inr _ \<Rightarrow> (f1, Inl (Error_string (abs_path_str configPath @ '' already exists; edit it by hand or remove it first'')))
              | Inl e \<Rightarrow>
                  if \<not> is_not_exist e then (f1, Inl (Wrap (''stat '' @ abs_path_str configPath) e))
                  else case os_WriteFile now configPath template 420 f1 of
                    (f2, Inl e) \<Rightarrow> (f2, Inl (Wrap (''write '' @ abs_path_str configPath) e))
                  | (f2, Inr _) \<Rightarrow> (f2, Inr configPath)))"

section \<open>Properties\<close>

text \<open>
  C30: A configuration that loads can be used as it stands. Whatever the file holds and whatever the environment expands
  to: the hash it names has a hasher of that name, and if there is an archive section its provider is empty or b2 and its
  bucket prefix is not empty; a prefix the file leaves empty becomes the name of the hub directory with a slash behind it.
  A hub with no file at all gets the default hash and no archive.
\<close>

theorem loaded_config_is_usable:
  assumes "LoadConfigFile unmarshal getenv f hubDir = Inr cf"
  shows "(\<exists>h. NewHasher xxh128 sha256 (cf_hash cf) = Inr h \<and> hash_name h = cf_hash cf) \<and>
    (case cf_archive cf of
       None \<Rightarrow> True
     | Some a \<Rightarrow> ac_provider a \<in> {'''', ''b2''} \<and> ac_bucket_prefix a \<noteq> '''' \<and>
         (\<exists>cf0 a0. unmarshal (projr (os_ReadFile f (config_path hubDir))) = Inr cf0 \<and> cf_archive cf0 = Some a0 \<and>
            (os_Expand getenv (ac_bucket_prefix a0) = '''' \<longrightarrow> ac_bucket_prefix a = filepath_Base hubDir @ ''/''))) \<and>
    (fs_node f (config_path hubDir) = None \<and> path_errno f (config_path hubDir) = ENOENT \<longrightarrow> cf = \<lparr>cf_hash = DefaultHash, cf_archive = None\<rparr>)"
proof (cases "os_ReadFile f (config_path hubDir)")
  case (Inl e)
  with assms have "cf = \<lparr>cf_hash = DefaultHash, cf_archive = None\<rparr>" by (simp add: LoadConfigFile_def split: if_splits)
  then show ?thesis by (simp add: NewHasher_def DefaultHash_def)
next
  case (Inr data)
  then have there: "fs_node f (config_path hubDir) \<noteq> None" by (auto simp: os_ReadFile_def split: option.splits)
  from assms Inr obtain cf0 where cf0: "unmarshal data = Inr cf0"
    "cf = cf0\<lparr>cf_hash := (if cf_hash cf0 = '''' then DefaultHash else cf_hash cf0), cf_archive := map_option (expand_archive getenv hubDir) (cf_archive cf0)\<rparr>"
    "validate cf = Inr ()" by (auto simp: LoadConfigFile_def Let_def split: sum.splits)
  from cf0(3) have "cf_hash cf = HashXXH128 \<or> cf_hash cf = HashSHA256" by (auto simp: validate_def split: if_splits)
  then have "\<exists>h. NewHasher xxh128 sha256 (cf_hash cf) = Inr h \<and> hash_name h = cf_hash cf" by (auto simp: NewHasher_def)
  moreover have "ac_provider a \<in> {'''', ''b2''}" if "cf_archive cf = Some a" for a
    using cf0(3) that by (auto simp: validate_def split: if_splits)
  ultimately show ?thesis using there cf0(1,2) Inr
    by (auto simp: expand_archive_def Let_def split: option.split)
qed

definition ex_archive_config :: ArchiveConfig where
  "ex_archive_config = \<lparr>ac_provider = ''b2'', ac_bucket = ''${B}'', ac_bucket_prefix = ''$P'', ac_b2_key_id = ''k'', ac_b2_app_key = ''s'',
     ac_large_file_bytes = 0, ac_archive_workers = 0, ac_hash_workers = 0, ac_debounce_base = 0, ac_debounce_per_100mb = 0, ac_debounce_max = 0\<rparr>"

definition ex_unmarshal :: "bytes \<Rightarrow> ConfigFile res" where
  "ex_unmarshal data = Inr \<lparr>cf_hash = '''', cf_archive = Some ex_archive_config\<rparr>"

definition ex_getenv :: "string \<Rightarrow> string" where
  "ex_getenv name = (if name = ''B'' then ''bucket'' else '''')"

definition ex_hub_dir :: fs where
  "ex_hub_dir = [([''hub''], NDir), ([''hub'', ''.hubsync''], NDir), ([''hub'', ''.hubsync'', ''config.toml''], NFile [1] 420 1)]"

theorem loaded_config_is_usable_witness:
  "case LoadConfigFile ex_unmarshal ex_getenv ex_hub_dir [''hub''] of
     Inl _ \<Rightarrow> False
   | Inr cf \<Rightarrow> (\<exists>h. NewHasher (\<lambda>d. d) (\<lambda>d. d) (cf_hash cf) = Inr h) \<and>
       (case cf_archive cf of None \<Rightarrow> False | Some a \<Rightarrow> ac_bucket a = ''bucket'' \<and> ac_bucket_prefix a = ''hub/'')"
proof -
  have "\<not> isl (LoadConfigFile ex_unmarshal ex_getenv ex_hub_dir [''hub''])" by code_simp
  then obtain cf where cf: "LoadConfigFile ex_unmarshal ex_getenv ex_hub_dir [''hub''] = Inr cf" by (auto simp: isl_def split: sum.splits) (metis sum.exhaust)
  have "map_option ac_bucket (cf_archive (projr (LoadConfigFile ex_unmarshal ex_getenv ex_hub_dir [''hub'']))) = Some ''bucket''" by code_simp
  then obtain a where a: "cf_archive cf = Some a" "ac_bucket a = ''bucket''" unfolding cf by auto
  have "os_Expand ex_getenv ''$P'' = ''''" "filepath_Base [''hub''] = ''hub''" by code_simp+
  with loaded_config_is_usable [OF cf, of "\<lambda>d. d" "\<lambda>d. d"] a show ?thesis unfolding cf by (auto simp: ex_unmarshal_def ex_archive_config_def)
qed

text \<open>
  Initialising a hub writes the template once. When it succeeds the configuration file holds the template and no
  other file has changed, and initialising again, wherever it is called from, is refused and leaves every file as it is.
\<close>

theorem init_never_overwrites:
  assumes "runInit template now cwd dir f = (f', Inr p)"
  shows "os_ReadFile f' p = Inr template \<and> fs_node f p = None \<and>
    (\<forall>q. q \<noteq> p \<and> is_file f q \<longrightarrow> fs_node f' q = fs_node f q) \<and>
    (\<forall>now2 t2. \<exists>e f2. runInit t2 now2 cwd dir f' = (f2, Inl e) \<and> (\<forall>q. is_file f' q \<longrightarrow> fs_node f2 q = fs_node f' q))"
proof -
  define d where "d = (if HasPrefix dir ''/'' then filepath_Join [] dir else filepath_Join cwd dir)"
  let ?p = "config_path d" and ?h = "d @ [''.hubsync'']"
  obtain f1 r1 where mk: "os_MkdirAll ?h f = (f1, r1)" by fastforce
  obtain f2 r2 where wr: "os_WriteFile now ?p template 420 f1 = (f2, r2)" by fastforce
  from assms have ok: "r1 = Inr ()" "fs_node f1 ?p = None" "r2 = Inr ()" "f' = f2" "p = ?p"
    by (auto simp: runInit_def d_def [symmetric] mk wr os_Stat_def Let_def split: sum.splits option.splits if_splits)
  note made = os_MkdirAll_node [of ?h f, unfolded mk, simplified] and keep = os_MkdirAll_file [of f _ _ ?h, unfolded mk, simplified]
  note wrote = os_WriteFile_node [of now ?p template 420 f1, unfolded wr, simplified, OF ok(3)]
  have none: "fs_node f p = None" using ok(2,5) made [of ?p] by (auto split: if_splits)
  have files: "\<forall>q. q \<noteq> p \<and> is_file f q \<longrightarrow> fs_node f' q = fs_node f q"
    using wrote(2) keep ok(4,5) by (auto simp: is_file_def split: option.splits)
  have again: "\<exists>e g. runInit t2 now2 cwd dir f' = (g, Inl e) \<and> (\<forall>q. is_file f' q \<longrightarrow> fs_node g q = fs_node f' q)" for now2 t2
  proof -
    obtain g r where g: "os_MkdirAll ?h f' = (g, r)" by fastforce
    note kept = os_MkdirAll_file [of f' _ _ ?h, unfolded g, simplified]
    from wrote(1) ok(4) obtain m where m: "fs_node g ?p = Some (NFile template m now)" using kept by blast
    have "\<exists>e. runInit t2 now2 cwd dir f' = (g, Inl e)"
      using m by (cases r) (simp_all add: runInit_def d_def [symmetric] g os_Stat_def Let_def)
    with kept show ?thesis by (auto simp: is_file_def split: option.splits)
  qed
  from wrote(1) ok(4,5) have "os_ReadFile f' p = Inr template" by (auto simp: os_ReadFile_def)
  with none files again show ?thesis by blast
qed

theorem init_never_overwrites_witness:
  "case runInit [7] 3 [''home''] ''x'' [([''home''], NDir)] of
     (f, Inl _) \<Rightarrow> False
   | (f, Inr p) \<Rightarrow> p = [''home'', ''x'', ''.hubsync'', ''config.toml''] \<and> os_ReadFile f p = Inr [7] \<and> isl (snd (runInit [8] 4 [''home''] ''x'' f))"
proof -
  let ?r = "runInit [7] 3 [''home''] ''x'' [([''home''], NDir)]"
  have p: "snd ?r = Inr [''home'', ''x'', ''.hubsync'', ''config.toml'']" by code_simp
  then obtain f where f: "?r = (f, Inr [''home'', ''x'', ''.hubsync'', ''config.toml''])" by (metis prod.collapse)
  from init_never_overwrites [OF f] have "os_ReadFile f [''home'', ''x'', ''.hubsync'', ''config.toml''] = Inr [7]"
    "\<exists>e f2. runInit [8] 4 [''home''] ''x'' f = (f2, Inl e)" by blast+
  then show ?thesis unfolding f by auto
qed

end
