(* ===== verification/Hub_Context.thy ===== *)
theory Hub_Context
  imports Filesystem
begin

text \<open>
  Where a command runs (\<^verbatim>\<open>cli/hubsync/main.go\<close>): the walk from the working directory up to the hub root, and the
  hub-relative prefix a path argument stands for.
\<close>

section \<open>Relative paths\<close>

text \<open>\<^verbatim>\<open>filepath.Rel\<close> of two absolute, cleaned paths, as components; no component at all prints as a dot.\<close>

fun rel_components :: "fpath \<Rightarrow> fpath \<Rightarrow> string list" where
  "rel_components (b # bs) (t # ts) = (if b = t then rel_components bs ts else replicate (length (b # bs)) ''..'' @ t # ts)"
| "rel_components bs ts = replicate (length bs) ''..'' @ ts"

definition filepath_Rel :: "fpath \<Rightarrow> fpath \<Rightarrow> string" where
  "filepath_Rel base target = (let cs = rel_components base target in if cs = [] then ''.'' else join_slash cs)"

lemma rel_components_below: "rel_components b (b @ t) = t"
  by (induction b) (cases t, auto)

lemma rel_components_outside: "\<not> prefix b t \<Longrightarrow> \<exists>cs. rel_components b t = ''..'' # cs"
proof (induction b arbitrary: t)
  case (Cons c b)
  then show ?case by (cases t) auto
qed simp

section \<open>The hub context\<close>

record hubCtx =
  hx_root :: fpath
  hx_rel_cwd :: string

definition rel_cwd :: "fpath \<Rightarrow> fpath \<Rightarrow> string" where
  "rel_cwd dir cwd = (let rel = filepath_Rel dir cwd in if rel = ''.'' then '''' else rel @ ''/'')"

function find_root :: "fs \<Rightarrow> fpath \<Rightarrow> fpath \<Rightarrow> hubCtx res" where
  "find_root f cwd dir =
     (if is_dir f (dir @ [''.hubsync'']) then Inr \<lparr>hx_root = dir, hx_rel_cwd = rel_cwd dir cwd\<rparr>
      else if filepath_Dir dir = dir then Inl (Error_string ''no .hubsync/ found in cwd or any ancestor.'')
      else find_root f cwd (filepath_Dir dir))"
  by pat_completeness auto
termination
proof (relation "measure (\<lambda>(f, cwd, dir). length dir)")
  show "((f, cwd, filepath_Dir dir), f, cwd, dir) \<in> measure (\<lambda>(f, cwd, dir). length dir)"
    if "filepath_Dir dir \<noteq> dir" for f :: fs and cwd dir :: fpath
    using that by (cases dir rule: rev_cases) (auto simp: filepath_Dir_def)
qed simp

declare find_root.simps [simp del]

definition hubContext :: "fs \<Rightarrow> fpath \<Rightarrow> hubCtx res" where
  "hubContext f cwd = find_root f cwd cwd"

definition resolvePrefix :: "hubCtx \<Rightarrow> string \<Rightarrow> string res" where
  "resolvePrefix c arg =
     (if arg = '''' \<or> arg = ''.'' then Inr (hx_rel_cwd c)
      else
        let target = filepath_Join (filepath_Join (hx_root c) (hx_rel_cwd c)) arg;
            rel = filepath_Rel (hx_root c) target
        in if rel = ''..'' \<or> HasPrefix rel ''../'' then Inl (Error_string (arg @ '' is outside the hub root ('' @ abs_path_str (hx_root c) @ '')''))
           else if rel = ''.'' then Inr ''''
           else Inr (rel @ ''/''))"

section \<open>The walk\<close>

lemma filepath_Dir_fixed: "filepath_Dir d = d \<longleftrightarrow> d = []"
  by (cases d rule: rev_cases) (auto simp: filepath_Dir_def)

lemma find_root_finds:
  "case find_root f cwd d of
     Inr c \<Rightarrow> prefix (hx_root c) d \<and> is_dir f (hx_root c @ [''.hubsync'']) \<and> hx_rel_cwd c = rel_cwd (hx_root c) cwd \<and>
       (\<forall>q. prefix (hx_root c) q \<and> prefix q d \<and> q \<noteq> hx_root c \<longrightarrow> \<not> is_dir f (q @ [''.hubsync'']))
   | Inl _ \<Rightarrow> (\<forall>q. prefix q d \<longrightarrow> \<not> is_dir f (q @ [''.hubsync'']))"
proof (induction f cwd d rule: find_root.induct)
  case (1 f cwd d)
  show ?case
  proof (cases "is_dir f (d @ [''.hubsync''])")
    case True
    then show ?thesis by (subst find_root.simps) (auto dest: prefix_order.antisym)
  next
    case here: False
    show ?thesis
    proof (cases d rule: rev_cases)
      case Nil
      with here show ?thesis by (subst find_root.simps) (simp add: filepath_Dir_def)
    next
      case (snoc ds x)
      with here have step: "find_root f cwd d = find_root f cwd ds" by (subst find_root.simps) (simp add: filepath_Dir_def)
      have "filepath_Dir d = ds" "filepath_Dir d \<noteq> d" using snoc by (auto simp: filepath_Dir_def)
      note IH = "1.IH" [OF here this(2), unfolded this(1)]

      have up: "prefix q d \<longleftrightarrow> q = d \<or> prefix q ds" for q using snoc by simp
      from IH here show ?thesis unfolding step by (auto simp: up split: sum.splits)
    qed
  qed
qed

lemma join_slash_dots: "join_slash (''..'' # cs) = ''..'' \<or> HasPrefix (join_slash (''..'' # cs)) ''../''"
  by (cases cs) simp_all

lemma join_slash_plain:
  assumes "cs \<noteq> []" "\<forall>c \<in> set cs. plain_name c"
  shows "join_slash cs \<noteq> ''.''" "join_slash cs \<noteq> ''..''" "\<not> HasPrefix (join_slash cs) ''../''" "\<not> HasPrefix (join_slash cs @ ''/'') ''/''"
proof -
  have split: "split_slash (join_slash cs) = cs" using assms by (simp add: split_join plain_name_def)
  have hd: "plain_name (hd (split_slash (join_slash cs)))" using assms by (simp add: split)
  show "join_slash cs \<noteq> ''.''" "join_slash cs \<noteq> ''..''" "\<not> HasPrefix (join_slash cs) ''../''" "\<not> HasPrefix (join_slash cs @ ''/'') ''/''"
    using hd by (cases "join_slash cs"; auto simp: plain_name_def HasPrefix_iff)+
qed

lemma split_slash_names: "c \<in> set (split_slash s) \<Longrightarrow> CHR ''/'' \<notin> set c"
  by (induction s arbitrary: c) (auto split: list.splits if_splits)

lemma split_slash_snoc: "split_slash (s @ ''/'') = split_slash s @ [[]]"
  by (induction s) (auto split: list.split)

lemma clean_onto_names: "\<forall>c \<in> set d. plain_name c \<Longrightarrow> \<forall>c \<in> set cs. CHR ''/'' \<notin> set c \<Longrightarrow> \<forall>c \<in> set (clean_onto d cs). plain_name c"
proof (induction d cs rule: clean_onto.induct)
  case (2 d c cs)
  consider (skip) "c = '''' \<or> c = ''.''" | (up) "\<not> (c = '''' \<or> c = ''.'')" "c = ''..''" | (down) "\<not> (c = '''' \<or> c = ''.'')" "c \<noteq> ''..''" by blast
  then show ?case
  proof cases
    case skip
    with 2 show ?thesis by simp
  next
    case up
    have "\<forall>x \<in> set (butlast d). plain_name x" using "2.prems"(1) by (auto dest: in_set_butlastD)
    with "2.IH"(2) [OF up] "2.prems"(2) up show ?thesis by simp
  next
    case down
    with "2.prems" have "\<forall>x \<in> set (d @ [c]). plain_name x" by (simp add: plain_name_def)
    with "2.IH"(3) [OF down] "2.prems"(2) down show ?thesis by simp
  qed
qed simp

text \<open>The prefix that stands for a directory below the root leads back to it.\<close>

lemma Join_prefix:
  assumes "\<forall>c \<in> set cs. plain_name c" "cs \<noteq> []"
  shows "filepath_Join d (join_slash cs @ ''/'') = d @ cs"
  using assms by (simp only: filepath_Join_def split_slash_snoc) (simp add: split_join plain_name_def clean_onto_append clean_onto_plain)

lemma Join_empty: "filepath_Join d '''' = d"
  by (simp add: filepath_Join_def)

definition dir_prefix :: "string list \<Rightarrow> string" where
  "dir_prefix u = (if u = [] then [] else join_slash u @ ''/'')"

lemma dir_prefix_names:
  assumes "\<forall>c \<in> set u. plain_name c"
  shows "filepath_Join d (dir_prefix u) = d @ u" "\<not> HasPrefix (dir_prefix u) ''/''" "dir_prefix u = [] \<or> HasSuffix (dir_prefix u) ''/''"
  using Join_prefix [OF assms, of d] join_slash_plain(4) [OF _ assms] by (auto simp: dir_prefix_def Join_empty HasSuffix_iff)

lemma rel_cwd_Join:
  assumes "\<forall>c \<in> set cwd. plain_name c" "prefix root cwd"
  shows "filepath_Join root (rel_cwd root cwd) = cwd"
proof -
  obtain t where t: "cwd = root @ t" using assms(2) by (auto simp: prefix_def)
  show ?thesis
  proof (cases t)
    case Nil
    then show ?thesis by (simp add: t rel_cwd_def filepath_Rel_def rel_components_below [of root "[]", simplified] Join_empty)
  next
    case (Cons x xs)
    with assms(1) t have "\<forall>c \<in> set t. plain_name c" "t \<noteq> []" by auto
    with join_slash_plain [OF this(2,1)] Join_prefix [OF this] t show ?thesis
      by (simp add: rel_cwd_def filepath_Rel_def rel_components_below Let_def)
  qed
qed

lemma plain_path_relative: "plain_path p \<Longrightarrow> \<not> HasPrefix p ''/''"
  by (cases p) (simp_all add: plain_path_def plain_name_def split: if_splits)

text \<open>What an argument resolves to, in terms of the directory it names.\<close>

lemma hubContext_root:
  assumes "hubContext f cwd = Inr ctx"
  shows "prefix (hx_root ctx) cwd" "is_dir f (hx_root ctx @ [''.hubsync''])" "hx_rel_cwd ctx = rel_cwd (hx_root ctx) cwd"
    "prefix (hx_root ctx) q \<Longrightarrow> prefix q cwd \<Longrightarrow> q \<noteq> hx_root ctx \<Longrightarrow> \<not> is_dir f (q @ [''.hubsync''])"
  using find_root_finds [where f = f and cwd = cwd and d = cwd] assms by (simp_all add: hubContext_def)

lemma Join_names: "\<forall>c \<in> set cwd. plain_name c \<Longrightarrow> \<forall>c \<in> set (filepath_Join cwd arg). plain_name c"
  unfolding filepath_Join_def by (rule clean_onto_names) (use split_slash_names in blast)+

lemma resolvePrefix_cases:
  assumes "\<forall>c \<in> set cwd. plain_name c" "hubContext f cwd = Inr ctx"
  shows "filepath_Join cwd arg = hx_root ctx @ u \<Longrightarrow> resolvePrefix ctx arg = Inr (dir_prefix u)"
    "\<not> prefix (hx_root ctx) (filepath_Join cwd arg) \<Longrightarrow> \<exists>e. resolvePrefix ctx arg = Inl e"
proof -
  let ?root = "hx_root ctx" and ?t = "filepath_Join cwd arg"
  note root = hubContext_root [OF assms(2)] and plain = Join_names [OF assms(1), of arg]
  have target: "filepath_Join (filepath_Join ?root (hx_rel_cwd ctx)) arg = ?t"
    unfolding root(3) rel_cwd_Join [OF assms(1) root(1)] ..
  show "resolvePrefix ctx arg = Inr (dir_prefix u)" if u: "?t = ?root @ u"
  proof -
    have pu: "\<forall>c \<in> set u. plain_name c" using plain u by simp
    show ?thesis
    proof (cases "arg = [] \<or> arg = ''.''")
      case True
      then have "?t = cwd" by (auto simp: filepath_Join_def)
      with True u show ?thesis using join_slash_plain(1) [OF _ pu]
        by (simp add: resolvePrefix_def root(3) rel_cwd_def filepath_Rel_def rel_components_below dir_prefix_def Let_def)
    next
      case False
      with u show ?thesis using join_slash_plain [OF _ pu]
        by (simp add: resolvePrefix_def target filepath_Rel_def rel_components_below dir_prefix_def Let_def)
    qed
  qed
  assume out: "\<not> prefix ?root ?t"
  with root(1) have "\<not> (arg = [] \<or> arg = ''.'')" by (auto simp: filepath_Join_def)
  moreover from rel_components_outside [OF out] obtain cs where "rel_components ?root ?t = ''..'' # cs" by blast
  ultimately show "\<exists>e. resolvePrefix ctx arg = Inl e"
    using join_slash_dots [of cs] by (simp add: resolvePrefix_def target filepath_Rel_def)
qed

lemma resolvePrefix_shape:
  assumes "\<forall>c \<in> set cwd. plain_name c" "hubContext f cwd = Inr ctx" "resolvePrefix ctx arg = Inr p"
  obtains u where "filepath_Join cwd arg = hx_root ctx @ u" "p = dir_prefix u" "\<forall>c \<in> set u. plain_name c"
proof -
  have "prefix (hx_root ctx) (filepath_Join cwd arg)" using resolvePrefix_cases(2) [OF assms(1,2), of arg] assms(3) by auto
  then obtain u where u: "filepath_Join cwd arg = hx_root ctx @ u" by (auto simp: prefix_def)
  with resolvePrefix_cases(1) [OF assms(1,2) u] assms(3) Join_names [OF assms(1), of arg] show ?thesis by (intro that [OF u]) auto
qed

section \<open>Properties\<close>

text \<open>
  A path argument means the directory it means to the shell, and never one outside the hub. Run in a directory below
  a hub, a command finds the nearest ancestor that holds \<^verbatim>\<open>.hubsync\<close>; an argument is accepted exactly when the directory
  it names, resolved against the working directory with all its dots, lies in the hub, and the prefix it yields is empty or
  ends in a slash, does not begin with one, and joined to the root gives that directory back.
\<close>

theorem resolved_prefix_names_the_directory:
  assumes "\<forall>c \<in> set cwd. plain_name c" "hubContext f cwd = Inr ctx"
  shows "prefix (hx_root ctx) cwd \<and> is_dir f (hx_root ctx @ [''.hubsync'']) \<and>
    (\<forall>q. prefix (hx_root ctx) q \<and> prefix q cwd \<and> q \<noteq> hx_root ctx \<longrightarrow> \<not> is_dir f (q @ [''.hubsync''])) \<and>
    (case resolvePrefix ctx arg of
       Inl _ \<Rightarrow> \<not> prefix (hx_root ctx) (filepath_Join cwd arg)
     | Inr p \<Rightarrow> prefix (hx_root ctx) (filepath_Join cwd arg) \<and> filepath_Join (hx_root ctx) p = filepath_Join cwd arg \<and>
         (p = '''' \<or> HasSuffix p ''/'') \<and> \<not> HasPrefix p ''/'')"
proof -
  let ?root = "hx_root ctx" and ?t = "filepath_Join cwd arg"
  note root = hubContext_root [OF assms(2)]
  have "case resolvePrefix ctx arg of
       Inl _ \<Rightarrow> \<not> prefix ?root ?t
     | Inr p \<Rightarrow> prefix ?root ?t \<and> filepath_Join ?root p = ?t \<and> (p = [] \<or> HasSuffix p ''/'') \<and> \<not> HasPrefix p ''/''"
  proof (cases "resolvePrefix ctx arg")
    case (Inl e)
    then show ?thesis using resolvePrefix_cases(1) [OF assms] by (auto simp: prefix_def)
  next
    case (Inr p)
    from resolvePrefix_shape [OF assms Inr] obtain u where "?t = ?root @ u" "p = dir_prefix u" "\<forall>c \<in> set u. plain_name c" .
    with Inr dir_prefix_names(1) [of u ?root] dir_prefix_names(2,3) [of u] show ?thesis by simp
  qed
  with root show ?thesis by blast
qed

definition ex_tree :: fs where
  "ex_tree = [([''home''], NDir), ([''home'', ''.hubsync''], NDir), ([''home'', ''d''], NDir)]"

theorem resolved_prefix_names_the_directory_witness:
  "hubContext ex_tree [''home'', ''d''] = Inr \<lparr>hx_root = [''home''], hx_rel_cwd = ''d/''\<rparr> \<and>
   (\<exists>p. resolvePrefix \<lparr>hx_root = [''home''], hx_rel_cwd = ''d/''\<rparr> ''../e/./f'' = Inr p \<and> filepath_Join [''home''] p = [''home'', ''e'', ''f'']) \<and>
   isl (resolvePrefix \<lparr>hx_root = [''home''], hx_rel_cwd = ''d/''\<rparr> ''../..'')"
proof -
  let ?c = "\<lparr>hx_root = [''home''], hx_rel_cwd = ''d/''\<rparr>"
  have names: "\<forall>c \<in> set [''home'', ''d'']. plain_name c" by (simp add: plain_name_def)
  have ctx: "hubContext ex_tree [''home'', ''d''] = Inr ?c" by code_simp
  note resolved = resolved_prefix_names_the_directory [OF names ctx]
  have "filepath_Join [''home'', ''d''] ''../e/./f'' = [''home'', ''e'', ''f'']" by code_simp
  with resolved [of "''../e/./f''"] have "\<exists>p. resolvePrefix ?c ''../e/./f'' = Inr p \<and> filepath_Join [''home''] p = [''home'', ''e'', ''f'']"
    by (auto split: sum.splits)
  moreover have "filepath_Join [''home'', ''d''] ''../..'' = []" by code_simp
  with resolved [of "''../..''"] have "isl (resolvePrefix ?c ''../..'')" by (auto split: sum.splits)
  ultimately show ?thesis using ctx by blast
qed

end
