(* ===== verification/Archive_One.thy ===== *)
theory Archive_One
  imports Hub Archive_Storage
begin

text \<open>
  Uploading one path (\<^verbatim>\<open>archive_one.go\<close>) and its two callers: the one-shot tasks of
  \<^verbatim>\<open>archive_task.go\<close> and the watch-mode worker of \<^verbatim>\<open>archive_worker.go\<close>. The world of the archive
  code is the hub's database, the hub directory and the object store.
\<close>

section \<open>The world\<close>

record 'w ArchWorld =
  aw_db :: HubStore
  aw_fs :: fs
  aw_remote :: 'w

record ArchiveTaskDeps =
  dp_hasher :: Hasher
  dp_hub_dir :: fpath
  dp_prefix :: string

text \<open>The diagnostics that \<^verbatim>\<open>archiveOne\<close> returns: why it skipped, or what it uploaded.\<close>

datatype archive_outcome =
    Skipped string
  | Skipped_head string int int
  | Uploaded string int int

fun state_str :: "ArchiveState \<Rightarrow> string" where
  "state_str ArchiveStateNull = ''''"
| "state_str ArchiveStateDirty = ''dirty''"
| "state_str ArchiveStateArchived = ''archived''"
| "state_str ArchiveStateUnpinned = ''unpinned''"

section \<open>archiveOne\<close>

definition headMatches :: "RemoteInfo \<Rightarrow> bytes \<Rightarrow> string \<Rightarrow> bool" where
  "headMatches head localDigest localAlgo =
     (if ri_digest head = [] \<or> localDigest = [] then False
      else if ri_digest_algo head \<noteq> '''' \<and> ri_digest_algo head \<noteq> localAlgo then False
      else ri_digest head = localDigest)"

text \<open>The SHA-1 column: absent when the store reports none or no valid hex.\<close>

definition sha1_column :: "RemoteInfo \<Rightarrow> bytes option" where
  "sha1_column info =
     (if ri_content_sha1 info = '''' then None
      else (case hex_DecodeString (ri_content_sha1 info) of Inl _ \<Rightarrow> None | Inr b \<Rightarrow> Some b))"

text \<open>Uploading an opened file; reading from the handle of a directory fails.\<close>

definition upload_source :: "'w ArchiveStorage \<Rightarrow> int \<Rightarrow> fs \<Rightarrow> fpath \<Rightarrow> UploadRequest \<Rightarrow> 'w \<Rightarrow> 'w \<times> RemoteInfo res" where
  "upload_source ops now f p req w =
     (if is_dir f p then (w, Inl (Fs_error ''read'' p EISDIR)) else as_Upload ops now req w)"

definition archive_upload :: "'w ArchiveStorage \<Rightarrow> ArchiveTaskDeps \<Rightarrow> env \<Rightarrow> string \<Rightarrow> HubEntry \<Rightarrow> 'w ArchWorld \<Rightarrow>
    'w ArchWorld \<times> archive_outcome res" where
  "archive_upload ops deps en p entry w =
     (let key = JoinKey (dp_prefix deps) p; fullPath = filepath_Join (dp_hub_dir deps) p in
      case os_Open (aw_fs w) fullPath of
        Inl e \<Rightarrow> (w, Inl (Wrap (''open '' @ abs_path_str fullPath) e))
      | Inr src \<Rightarrow>
     (case upload_source ops (env_now en) (aw_fs w) fullPath
             \<lparr>up_key = key, up_size = he_size entry, up_mtime = Some (he_mtime entry), up_source = src,
              up_digest = he_digest entry, up_digest_algo = hash_name (dp_hasher deps), up_content_sha1 = ''''\<rparr> (aw_remote w) of
        (rem, Inl e) \<Rightarrow> (w\<lparr>aw_remote := rem\<rparr>, Inl (Wrap (''upload '' @ key) e))
      | (rem, Inr info) \<Rightarrow>
     (case MarkArchived en p (ri_file_id info) (sha1_column info) (ri_uploaded_at info) (aw_db w) of
        (db, Inl e) \<Rightarrow> (w\<lparr>aw_db := db, aw_remote := rem\<rparr>, Inl (Wrap ''mark archived'' e))
      | (db, Inr _) \<Rightarrow>
          (w\<lparr>aw_db := db, aw_remote := rem\<rparr>,
           Inr (Uploaded (ri_file_id info) (ri_size info) (ri_uploaded_at info))))))"

definition archiveOne :: "'w ArchiveStorage \<Rightarrow> ArchiveTaskDeps \<Rightarrow> env \<Rightarrow> string \<Rightarrow> 'w ArchWorld \<Rightarrow>
    'w ArchWorld \<times> archive_outcome res" where
  "archiveOne ops deps en p w =
     (case EntryLookup (env_sql en) p (aw_db w) of
        Inl e \<Rightarrow> (w, Inl (Wrap (''entry lookup '' @ p) e))
      | Inr None \<Rightarrow> (w, Inr (Skipped ''missing-or-not-file''))
      | Inr (Some entry) \<Rightarrow>
          if he_kind entry \<noteq> FileKindFile then (w, Inr (Skipped ''missing-or-not-file''))
          else if he_archive_state entry = ArchiveStateArchived \<or> he_archive_state entry = ArchiveStateUnpinned
          then (w, Inr (Skipped (state_str (he_archive_state entry))))
          else
            let key = JoinKey (dp_prefix deps) p in
            case as_HeadByKey ops key (aw_remote w) of
              Inr head \<Rightarrow>
                if headMatches head (he_digest entry) (hash_name (dp_hasher deps))
                then (case MarkArchived en p (ri_file_id head) (sha1_column head) (ri_uploaded_at head) (aw_db w) of
                        (db, Inl e) \<Rightarrow> (w\<lparr>aw_db := db\<rparr>, Inl (Wrap ''mark archived (head-match)'' e))
                      | (db, Inr _) \<Rightarrow>
                          (w\<lparr>aw_db := db\<rparr>,
                           Inr (Skipped_head (ri_file_id head) (ri_size head) (ri_uploaded_at head))))
                else archive_upload ops deps en p entry w
            | Inl e \<Rightarrow>
                if errors_Is e ErrNotExist then archive_upload ops deps en p entry w
                else (w, Inl (Wrap (''head check '' @ key) e)))"

section \<open>Tasks and the worker\<close>

record ArchiveTask =
  at_id :: string
  at_path :: string
  at_size :: int
  at_digest_hex :: string
  at_mtime :: int

definition task_List :: "sql_faults \<Rightarrow> HubStore \<Rightarrow> ArchiveTask list res" where
  "task_List sql s =
     (case PendingArchiveRows sql s of
        Inl e \<Rightarrow> Inl (Wrap ''plan archive tasks'' e)
      | Inr rows \<Rightarrow> Inr (map (\<lambda>r. \<lparr>at_id = he_path r, at_path = he_path r, at_size = he_size r,
                            at_digest_hex = Digest_Hex (he_digest r), at_mtime = he_mtime r\<rparr>) rows))"

text \<open>\<^verbatim>\<open>Run\<close> of a task that \<^verbatim>\<open>Hydrate\<close> has wired, with the storage if there is one.\<close>

definition task_Run :: "'w ArchiveStorage option \<Rightarrow> ArchiveTaskDeps \<Rightarrow> env \<Rightarrow> ArchiveTask \<Rightarrow> 'w ArchWorld \<Rightarrow>
    'w ArchWorld \<times> archive_outcome res" where
  "task_Run storage deps en t w =
     (case storage of
        None \<Rightarrow> (w, Inl (Error_string ''ArchiveTask: missing deps (Hydrate not wired)''))
      | Some ops \<Rightarrow> archiveOne ops deps en (at_path t) w)"

definition uploadOne :: "'w ArchiveStorage \<Rightarrow> ArchiveTaskDeps \<Rightarrow> env \<Rightarrow> string \<Rightarrow> 'w ArchWorld \<Rightarrow> 'w ArchWorld \<times> unit res" where
  "uploadOne ops deps en p w =
     (case archiveOne ops deps en p w of (w', Inl e) \<Rightarrow> (w', Inl e) | (w', Inr _) \<Rightarrow> (w', Inr ()))"

definition enqueuePending :: "sql_faults \<Rightarrow> HubStore \<Rightarrow> string list res" where
  "enqueuePending sql s =
     (case PendingArchiveRows sql s of Inl e \<Rightarrow> Inl e | Inr rows \<Rightarrow> Inr (map he_path rows))"

text \<open>What the watch loop does with a broadcast entry.\<close>

definition watch_event :: "ChangeEntry \<Rightarrow> string list" where
  "watch_event ev = (if ce_op ev = OpDelete \<or> ce_kind ev \<noteq> FileKindFile then [] else [ce_path ev])"

text \<open>The pool works off a queue of paths; the outcome of each upload is only logged.\<close>

fun drain_queue :: "'w ArchiveStorage \<Rightarrow> ArchiveTaskDeps \<Rightarrow> (nat \<Rightarrow> env) \<Rightarrow> string list \<Rightarrow> 'w ArchWorld \<Rightarrow> 'w ArchWorld" where
  "drain_queue ops deps envs [] w = w"
| "drain_queue ops deps envs (p # ps) w =
     drain_queue ops deps (\<lambda>i. envs (Suc i)) ps (fst (uploadOne ops deps (envs 0) p w))"

section \<open>Rows that an object backs\<close>

text \<open>
  A row in state archived or unpinned names an object: the head at its key has the recorded
  file id and the recorded digest. Paths do not start with a slash, so that keys are
  injective.
\<close>

definition claims_object :: "hubEntryRow \<Rightarrow> bool" where
  "claims_object r \<longleftrightarrow> hr_archive_state r = Some ArchiveStateArchived \<or> hr_archive_state r = Some ArchiveStateUnpinned"

definition backed_row :: "string \<Rightarrow> (string \<Rightarrow> (RemoteInfo \<times> bytes) option) \<Rightarrow> hubEntryRow \<Rightarrow> bool" where
  "backed_row pre rem r =
     (case rem (JoinKey pre (hr_path r)) of
        None \<Rightarrow> False
      | Some (info, d) \<Rightarrow> hr_archive_file_id r = Some (ri_file_id info) \<and> ri_digest info = digest_of_blob (hr_digest r))"

definition archive_backed :: "string \<Rightarrow> (string \<Rightarrow> (RemoteInfo \<times> bytes) option) \<Rightarrow> HubStore \<Rightarrow> bool" where
  "archive_backed pre rem s \<longleftrightarrow>
     store_inv s \<and> (\<forall>r \<in> set (hub_entry s). \<not> HasPrefix (hr_path r) ''/'' \<and> hr_kind r = FileKindFile \<and>
       (claims_object r \<longrightarrow> backed_row pre rem r))"

lemma JoinKey_inj:
  "\<not> HasPrefix p ''/'' \<Longrightarrow> \<not> HasPrefix q ''/'' \<Longrightarrow> JoinKey pre p = JoinKey pre q \<longleftrightarrow> p = q"
  by (auto simp: JoinKey_def TrimPrefix_id Let_def)

lemma EntryLookup_row:
  assumes "EntryLookup sql p s = Inr (Some e)"
  obtains r where "r \<in> set (hub_entry s)" "hr_path r = p" "e = toEntry r" "tbl_lookup hr_path p (hub_entry s) = Some r"
proof -
  from assms obtain r where "tbl_lookup hr_path p (hub_entry s) = Some r" "e = toEntry r"
    by (auto simp: EntryLookup_def split: option.splits)
  with tbl_lookup_SomeD [OF this(1)] that show ?thesis by blast
qed

lemma row_state_null: "he_archive_state (toEntry r) \<noteq> ArchiveStateArchived \<and> he_archive_state (toEntry r) \<noteq> ArchiveStateUnpinned
    \<longleftrightarrow> \<not> claims_object r"
  by (auto simp: toEntry_def claims_object_def split: option.split)

lemma unique_row: "store_inv s \<Longrightarrow> r \<in> set (hub_entry s) \<Longrightarrow> r' \<in> set (hub_entry s) \<Longrightarrow> hr_path r = hr_path r' \<Longrightarrow> r = r'"
  by (auto simp: store_inv_def tbl_inv_def distinct_map inj_on_def)

text \<open>Writing the object of a row that claims none keeps every other row backed.\<close>

lemma backed_upload:
  assumes "archive_backed pre rem s" "r \<in> set (hub_entry s)" "\<not> claims_object r"
    and "\<And>k. k \<noteq> JoinKey pre (hr_path r) \<Longrightarrow> rem' k = rem k"
  shows "archive_backed pre rem' s"
proof -
  have "backed_row pre rem' q" if "q \<in> set (hub_entry s)" "claims_object q" for q
  proof -
    have "hr_path q \<noteq> hr_path r" using unique_row [of s q r] that assms by (auto simp: archive_backed_def)
    then have "JoinKey pre (hr_path q) \<noteq> JoinKey pre (hr_path r)"
      using assms(1,2) that(1) by (simp add: archive_backed_def JoinKey_inj)
    with assms(1,4) that show ?thesis by (simp add: archive_backed_def backed_row_def)
  qed
  with assms(1) show ?thesis by (simp add: archive_backed_def)
qed

lemma backed_update:
  assumes "archive_backed pre rem s" "store_inv (fst (update_entry sql p f s))"
    and "\<And>r. r \<in> set (hub_entry s) \<Longrightarrow> hr_path r = p \<Longrightarrow>
      hr_path (f r) = p \<and> hr_kind (f r) = hr_kind r \<and> (claims_object (f r) \<longrightarrow> backed_row pre rem (f r))"
  shows "archive_backed pre rem (fst (update_entry sql p f s))"
  using assms by (auto simp: archive_backed_def update_entry_def tbl_update_def split: option.splits)

lemma MarkArchived_backed:
  assumes "archive_backed pre rem s" "rem (JoinKey pre p) = Some (info, d)"
    and "\<And>r. r \<in> set (hub_entry s) \<Longrightarrow> hr_path r = p \<Longrightarrow> ri_digest info = digest_of_blob (hr_digest r)"
  shows "archive_backed pre rem (fst (MarkArchived en p (ri_file_id info) sha t s))"
proof -
  have "store_inv (fst (MarkArchived en p (ri_file_id info) sha t s))"
    using assms(1) by (simp add: archive_backed_def Mark_inv)
  then show ?thesis unfolding MarkArchived_def
    by (rule backed_update [OF assms(1)]) (use assms(2,3) in \<open>simp add: backed_row_def\<close>)
qed

lemma backed_row_cong:
  "hr_path r = hr_path q \<Longrightarrow> hr_archive_file_id r = hr_archive_file_id q \<Longrightarrow> hr_digest r = hr_digest q \<Longrightarrow>
     backed_row pre rem r = backed_row pre rem q"
  by (simp add: backed_row_def split: option.split)

lemma conflict_row_sel [simp]:
  "hr_path (conflict_row e v t r) = hr_path r" "hr_archive_file_id (conflict_row e v t r) = hr_archive_file_id r"
  by (simp_all add: conflict_row_def)

lemma conflict_row_claims:
  "claims_object (conflict_row e v t r) \<Longrightarrow> claims_object r \<and> hr_digest (conflict_row e v t r) = hr_digest r"
  by (auto simp: conflict_row_def claims_object_def split: if_splits)

lemma Append_backed:
  assumes "archive_backed pre rem s" "\<not> HasPrefix (ce_path e) ''/''" "ce_kind e = FileKindFile"
  shows "archive_backed pre rem (fst (Append en e s))"
  using Append_result [of en e s]
proof
  assume "\<exists>er. Append en e s = (s, Inl er)"
  with assms(1) show ?thesis by auto
next
  let ?s = "fst (Append en e s)"
  have inv: "store_inv ?s" using assms(1) Append_inv [of s en e] by (simp add: archive_backed_def)
  assume "log_seq s \<noteq> max_int64 \<and> Append en e s =
     (s\<lparr>change_log := change_log s @ [new_log_row e (log_seq s + 1)], log_seq := log_seq s + 1,
        hub_entry := apply_entry_row e (log_seq s + 1) (env_now en) (hub_entry s)\<rparr>, Inr (log_seq s + 1))"
  then have rows: "hub_entry ?s = apply_entry_row e (log_seq s + 1) (env_now en) (hub_entry s)" by simp
  have "\<not> HasPrefix (hr_path r) ''/'' \<and> hr_kind r = FileKindFile \<and> (claims_object r \<longrightarrow> backed_row pre rem r)"
    if "r \<in> set (hub_entry ?s)" for r
  proof -
    from that consider "r \<in> set (hub_entry s)" | "r = new_entry_row e (log_seq s + 1) (env_now en)"
      | r0 where "r0 \<in> set (hub_entry s)" "r = conflict_row e (log_seq s + 1) (env_now en) r0"
      unfolding rows by (auto simp: apply_entry_row_def set_tbl_delete split: if_splits dest!: set_tbl_upsert_cases)
    then show ?thesis
    proof cases
      case 1
      with assms(1) show ?thesis by (simp add: archive_backed_def)
    next
      case 2
      then show ?thesis using assms(2,3) by (simp add: new_entry_row_def claims_object_def)
    next
      case 3
      with assms(1) have "\<not> HasPrefix (hr_path r0) ''/'' \<and> (claims_object r0 \<longrightarrow> backed_row pre rem r0)"
        by (simp add: archive_backed_def)
      moreover have "hr_kind r = FileKindFile" using 3 assms(3) by (simp add: conflict_row_def)
      ultimately show ?thesis
        using 3 conflict_row_claims [of e "log_seq s + 1" "env_now en" r0] backed_row_cong [of r r0 pre rem] by auto
    qed
  qed
  with inv show ?thesis by (simp add: archive_backed_def)
qed

context archive_objects
begin

lemma upload_source_cases:
  assumes "inv w" "upload_source ops now f p req w = (w', r)"
  shows "inv w'" "r = Inl e \<Longrightarrow> remote w' = remote w \<or> (\<exists>info. remote w' = (remote w)(up_key req \<mapsto> (info, up_source req)) \<and> uploaded req info)"
    "r = Inr info \<Longrightarrow> remote w' = (remote w)(up_key req \<mapsto> (info, up_source req)) \<and> ri_digest info = up_digest req \<and>
       ri_digest_algo info = up_digest_algo req \<and> ri_size info = int (length (up_source req))"
  using assms upload_inv [of w now req] upload_error [of w now req w' e] upload_ok [of w now req w' info]
  by (auto simp: upload_source_def uploaded_def split: if_splits)

text \<open>A failed upload replaces at most an object that no row claims.\<close>

lemma upload_failed_backed:
  assumes "inv w" "archive_backed pre (remote w) s" "r \<in> set (hub_entry s)" "hr_path r = p" "\<not> claims_object r"
    and "upload_source ops now f full req w = (rem, Inl e)" "up_key req = JoinKey pre p"
  shows "archive_backed pre (remote rem) s"
proof -
  have "remote rem k = remote w k" if "k \<noteq> JoinKey pre p" for k
    using upload_source_cases(2) [OF assms(1,6) refl] that assms(7) by auto
  then show ?thesis by (intro backed_upload [OF assms(2,3,5)]) (simp add: assms(4))
qed

lemma upload_then_mark:
  assumes "inv w" "archive_backed pre (remote w) s" "r \<in> set (hub_entry s)" "hr_path r = p" "\<not> claims_object r"
    and "upload_source ops now f full req w = (rem, Inr info)" "up_key req = JoinKey pre p" "up_digest req = he_digest (toEntry r)"
  shows "archive_backed pre (remote rem) (fst (MarkArchived en p (ri_file_id info) sha t s))"
proof -
  from upload_source_cases(3) [OF assms(1,6) refl] assms(7,8)
  have rem: "remote rem = (remote w)(JoinKey pre p \<mapsto> (info, up_source req))" "ri_digest info = he_digest (toEntry r)" by simp_all
  have "archive_backed pre (remote rem) s"
    by (rule backed_upload [OF assms(2,3,5)]) (simp add: rem assms(4))
  then show ?thesis
    by (rule MarkArchived_backed [where d = "up_source req"])
      (use assms(2,3,4) unique_row [of s r] in \<open>auto simp: rem archive_backed_def\<close>)
qed

lemma archive_upload_backed:
  assumes "inv (aw_remote w)" "archive_backed (dp_prefix deps) (remote (aw_remote w)) (aw_db w)"
    and "archive_upload ops deps en p (toEntry r) w = (w', res)"
    and "r \<in> set (hub_entry (aw_db w))" "hr_path r = p" "\<not> claims_object r"
  shows "inv (aw_remote w') \<and> archive_backed (dp_prefix deps) (remote (aw_remote w')) (aw_db w') \<and> aw_fs w' = aw_fs w"
proof (cases "os_Open (aw_fs w) (filepath_Join (dp_hub_dir deps) p)")
  case (Inl e)
  with assms show ?thesis by (auto simp: archive_upload_def Let_def)
next
  case (Inr src)
  let ?req = "\<lparr>up_key = JoinKey (dp_prefix deps) p, up_size = he_size (toEntry r), up_mtime = Some (he_mtime (toEntry r)), up_source = src,
      up_digest = he_digest (toEntry r), up_digest_algo = hash_name (dp_hasher deps), up_content_sha1 = ''''\<rparr>"
  obtain rem ui where up: "upload_source ops (env_now en) (aw_fs w) (filepath_Join (dp_hub_dir deps) p) ?req (aw_remote w) = (rem, ui)"
    by fastforce
  note law = upload_source_cases [OF assms(1) up]
  show ?thesis
  proof (cases ui)
    case (Inl e)
    have "archive_backed (dp_prefix deps) (remote rem) (aw_db w)"
      by (rule upload_failed_backed [OF assms(1,2,4,5,6) up [unfolded Inl]]) simp
    with law(1) up Inl Inr assms(3) show ?thesis by (auto simp: archive_upload_def Let_def)
  next
    case ok: (Inr info)
    have "archive_backed (dp_prefix deps) (remote rem) (fst (MarkArchived en p (ri_file_id info) sha t (aw_db w)))" for sha t
      by (rule upload_then_mark [OF assms(1,2,4,5,6) up [unfolded ok]]) simp_all
    with ok up law(1) assms(3) Inr show ?thesis
      by (auto simp: archive_upload_def Let_def split: prod.splits sum.splits) (metis fst_conv)+
  qed
qed

lemma archiveOne_backed:
  assumes "inv (aw_remote w)" "archive_backed (dp_prefix deps) (remote (aw_remote w)) (aw_db w)"
    and "archiveOne ops deps en p w = (w', res)"
  shows "inv (aw_remote w') \<and> archive_backed (dp_prefix deps) (remote (aw_remote w')) (aw_db w') \<and> aw_fs w' = aw_fs w"
proof (cases "\<exists>e. EntryLookup (env_sql en) p (aw_db w) = Inr (Some e) \<and> he_kind e = FileKindFile \<and>
    he_archive_state e \<noteq> ArchiveStateArchived \<and> he_archive_state e \<noteq> ArchiveStateUnpinned")
  case False
  with assms show ?thesis by (auto simp: archiveOne_def split: if_splits sum.splits option.splits)
next
  case True
  then obtain e where e: "EntryLookup (env_sql en) p (aw_db w) = Inr (Some e)" "he_kind e = FileKindFile"
    "he_archive_state e \<noteq> ArchiveStateArchived" "he_archive_state e \<noteq> ArchiveStateUnpinned" by blast
  from EntryLookup_row [OF e(1)] obtain r where r: "r \<in> set (hub_entry (aw_db w))" "hr_path r = p" "e = toEntry r" by metis
  have free: "\<not> claims_object r" using e(3,4) r(3) row_state_null by metis
  let ?key = "JoinKey (dp_prefix deps) p"
  have upload: ?thesis if "archive_upload ops deps en p e w = (w', res)"
    by (rule archive_upload_backed [OF assms(1,2) that [unfolded r(3)] r(1,2) free])
  show ?thesis
  proof (cases "\<exists>head. as_HeadByKey ops ?key (aw_remote w) = Inr head \<and> headMatches head (he_digest e) (hash_name (dp_hasher deps))")
    case True
    then obtain head where head: "as_HeadByKey ops ?key (aw_remote w) = Inr head" "headMatches head (he_digest e) (hash_name (dp_hasher deps))" by blast
    from head_ok [OF assms(1) head(1)] obtain d where rem: "remote (aw_remote w) ?key = Some (head, d)" by blast
    have "archive_backed (dp_prefix deps) (remote (aw_remote w)) (fst (MarkArchived en p (ri_file_id head) sha t (aw_db w)))" for sha t
      by (rule MarkArchived_backed [OF assms(2) rem])
        (use head(2) assms(2) r unique_row [of "aw_db w" r] in \<open>auto simp: headMatches_def archive_backed_def split: if_splits\<close>)
    with assms(1,3) e head show ?thesis
      by (auto simp: archiveOne_def Let_def split: prod.splits sum.splits) (metis fst_conv)+
  next
    case False
    with assms e upload show ?thesis
      by (auto simp: archiveOne_def Let_def split: sum.splits if_splits)
  qed
qed

text \<open>A failed call that changed the store had uploaded, and the database did not learn of it.\<close>

lemma archive_upload_crash:
  assumes "inv (aw_remote w)" "archive_upload ops deps en p e w = (w', Inl er)" "remote (aw_remote w') \<noteq> remote (aw_remote w)"
  shows "aw_db w' = aw_db w \<and> inv (aw_remote w') \<and> (\<exists>info src. remote (aw_remote w') (JoinKey (dp_prefix deps) p) = Some (info, src) \<and>
    ri_digest info = he_digest e \<and> ri_digest_algo info = hash_name (dp_hasher deps))"
proof -
  let ?full = "filepath_Join (dp_hub_dir deps) p"
  from assms(2,3) obtain src where src: "os_Open (aw_fs w) ?full = Inr src"
    by (cases "os_Open (aw_fs w) ?full") (auto simp: archive_upload_def Let_def)
  let ?req = "\<lparr>up_key = JoinKey (dp_prefix deps) p, up_size = he_size e, up_mtime = Some (he_mtime e), up_source = src,
      up_digest = he_digest e, up_digest_algo = hash_name (dp_hasher deps), up_content_sha1 = ''''\<rparr>"
  obtain rem ui where up: "upload_source ops (env_now en) (aw_fs w) ?full ?req (aw_remote w) = (rem, ui)" by fastforce
  note law = upload_source_cases [OF assms(1) up]
  from assms(2) src up have w': "aw_db w' = aw_db w" "aw_remote w' = rem"
    by (cases ui; auto simp: archive_upload_def Let_def MarkArchived_def update_entry_def split: option.splits)+
  show ?thesis
  proof (cases ui)
    case (Inl e')
    with law(1,2) w' assms(3) show ?thesis by (auto simp: uploaded_def)
  next
    case (Inr info)
    with law(1,3) w' show ?thesis by simp
  qed
qed

lemma archiveOne_crash:
  assumes "inv (aw_remote w)" "archiveOne ops deps en p w = (w', Inl er)" "remote (aw_remote w') \<noteq> remote (aw_remote w)"
    and "EntryLookup no_faults p (aw_db w) = Inr (Some e)"
  shows "aw_db w' = aw_db w \<and> inv (aw_remote w') \<and> he_kind e = FileKindFile \<and>
    he_archive_state e \<noteq> ArchiveStateArchived \<and> he_archive_state e \<noteq> ArchiveStateUnpinned \<and>
    (\<exists>info src. remote (aw_remote w') (JoinKey (dp_prefix deps) p) = Some (info, src) \<and>
      ri_digest info = he_digest e \<and> ri_digest_algo info = hash_name (dp_hasher deps))"
proof -
  have look: "EntryLookup (env_sql en) p (aw_db w) = Inr (Some e)"
    using assms(2-4) by (auto simp: EntryLookup_def archiveOne_def split: option.splits)
  have "archive_upload ops deps en p e w = (w', Inl er)"
    "he_kind e = FileKindFile" "he_archive_state e \<noteq> ArchiveStateArchived" "he_archive_state e \<noteq> ArchiveStateUnpinned"
    using assms(2,3) look by (auto simp: archiveOne_def Let_def split: if_splits sum.splits prod.splits)
  with archive_upload_crash [OF assms(1) this(1) assms(3)] show ?thesis by simp
qed

text \<open>When the remote head already carries the row's digest, no call uploads again.\<close>

lemma archiveOne_no_second_upload:
  assumes "inv (aw_remote w)" "EntryLookup no_faults p (aw_db w) = Inr (Some e)" "he_digest e \<noteq> []"
    and "remote (aw_remote w) (JoinKey (dp_prefix deps) p) = Some (info, d)" "ri_digest info = he_digest e"
    and "ri_digest_algo info = hash_name (dp_hasher deps)" "env_sql en SQL_SELECT = None"
    and "archiveOne ops deps en p w = (w', res)"
  shows "aw_remote w' = aw_remote w"
proof -
  have look: "EntryLookup (env_sql en) p (aw_db w) = Inr (Some e)"
    using assms(2,7) by (simp add: EntryLookup_def)
  consider (hit) head where "as_HeadByKey ops (JoinKey (dp_prefix deps) p) (aw_remote w) = Inr head" "head = info"
    | (err) er where "as_HeadByKey ops (JoinKey (dp_prefix deps) p) (aw_remote w) = Inl er" "\<not> errors_Is er ErrNotExist"
    using head_ok [OF assms(1)] head_missing [OF assms(1)] assms(4)
    by (cases "as_HeadByKey ops (JoinKey (dp_prefix deps) p) (aw_remote w)") fastforce+
  then show ?thesis
  proof cases
    case hit
    have "headMatches head (he_digest e) (hash_name (dp_hasher deps))" using assms(3,5,6) hit by (simp add: headMatches_def)
    with assms(8) look hit show ?thesis
      by (auto simp: archiveOne_def Let_def split: if_splits prod.splits sum.splits)
  next
    case err
    with assms(8) look show ?thesis by (auto simp: archiveOne_def Let_def split: if_splits)
  qed
qed

end

section \<open>Properties\<close>

lemma fake_head: "fake_remote w k = Some (info, d) \<Longrightarrow> as_HeadByKey fake_ops k w = Inr info"
  by (auto simp: fake_ops_def fake_HeadByKey_def fake_remote_def Let_def split: if_splits)

text \<open>
  An upload whose database update failed is not repeated: when a call ended with an error after it had
  uploaded the object, the next call of \<^verbatim>\<open>archiveOne\<close> leaves the object store as it is and marks the
  row archived with the file id of the object already there.
\<close>

theorem archive_retry_uploads_once:
  assumes "fake_inv (aw_remote w)" "archiveOne fake_ops deps en p w = (w1, Inl er)"
    and "fake_remote (aw_remote w1) \<noteq> fake_remote (aw_remote w)"
    and "EntryLookup no_faults p (aw_db w) = Inr (Some e)" "he_digest e \<noteq> []"
  shows "\<exists>w2 info src. archiveOne fake_ops deps (env_at now) p w1 = (w2, Inr (Skipped_head (ri_file_id info) (ri_size info) (ri_uploaded_at info))) \<and>
    aw_remote w2 = aw_remote w1 \<and> fake_remote (aw_remote w1) (JoinKey (dp_prefix deps) p) = Some (info, src) \<and>
    EntryLookup no_faults p (aw_db w2) = Inr (Some (e\<lparr>he_archive_state := ArchiveStateArchived, he_archive_file_id := ri_file_id info,
      he_archive_sha1 := digest_of_blob (sha1_column info), he_archive_uploaded_at := ri_uploaded_at info, he_updated_at := now\<rparr>))"
proof -
  from fake.archiveOne_crash [OF assms(1-4)] obtain info src where
    db: "aw_db w1 = aw_db w" and st: "he_kind e = FileKindFile" "he_archive_state e \<noteq> ArchiveStateArchived" "he_archive_state e \<noteq> ArchiveStateUnpinned"
    and rem: "fake_remote (aw_remote w1) (JoinKey (dp_prefix deps) p) = Some (info, src)"
      "ri_digest info = he_digest e" "ri_digest_algo info = hash_name (dp_hasher deps)" by blast
  have match: "headMatches info (he_digest e) (hash_name (dp_hasher deps))" using rem(2,3) assms(5) by (simp add: headMatches_def)
  from EntryLookup_row [OF assms(4)] obtain r where r: "e = toEntry r" "tbl_lookup hr_path p (hub_entry (aw_db w)) = Some r" "hr_path r = p" by metis
  have look: "EntryLookup (env_sql (env_at now)) p (aw_db w1) = Inr (Some e)" using assms(4) by (simp add: db)
  obtain db2 where mark: "MarkArchived (env_at now) p (ri_file_id info) (sha1_column info) (ri_uploaded_at info) (aw_db w1) = (db2, Inr ())"
    by (simp add: MarkArchived_def update_entry_def)
  then have "EntryLookup no_faults p db2 = Inr (Some (e\<lparr>he_archive_state := ArchiveStateArchived, he_archive_file_id := ri_file_id info,
      he_archive_sha1 := digest_of_blob (sha1_column info), he_archive_uploaded_at := ri_uploaded_at info, he_updated_at := now\<rparr>))"
    using r by (auto simp: EntryLookup_def MarkArchived_def update_entry_def db tbl_lookup_update toEntry_def)
  moreover have "archiveOne fake_ops deps (env_at now) p w1 =
      (w1\<lparr>aw_db := db2\<rparr>, Inr (Skipped_head (ri_file_id info) (ri_size info) (ri_uploaded_at info)))"
    unfolding archiveOne_def look using st fake_head [OF rem(1)] match mark by (simp add: Let_def)
  ultimately show ?thesis using rem(1) by (intro exI [of _ "w1\<lparr>aw_db := db2\<rparr>"] exI [of _ info] exI [of _ src]) simp
qed

definition ex_deps :: ArchiveTaskDeps where
  "ex_deps = \<lparr>dp_hasher = \<lparr>hash_name = ''xxh128'', hash_sum = (\<lambda>d. 9 # d)\<rparr>, dp_hub_dir = [''hub''], dp_prefix = ''hub/''\<rparr>"

definition ex_world :: "FakeStorage ArchWorld" where
  "ex_world = \<lparr>aw_db = fst (Append (env_at 2) \<lparr>ce_version = 0, ce_path = ''a'', ce_op = OpCreate, ce_kind = 0, ce_digest = [9, 1, 2],
       ce_size = 2, ce_mode = 420, ce_mtime = 7\<rparr> empty_store),
     aw_fs = [([''hub''], NDir), ([''hub'', ''a''], NFile [1, 2] 420 7)], aw_remote = NewFakeStorage\<rparr>"

theorem archive_retry_uploads_once_witness:
  "let w1 = fst (archiveOne fake_ops ex_deps \<lparr>env_now = 3, env_sql = no_faults(SQL_UPDATE := Some ''disk I/O error'')\<rparr> ''a'' ex_world)
   in \<exists>w2 out. archiveOne fake_ops ex_deps (env_at 4) ''a'' w1 = (w2, Inr out) \<and> aw_remote w2 = aw_remote w1"
proof -
  let ?en = "\<lparr>env_now = 3, env_sql = no_faults(SQL_UPDATE := Some ''disk I/O error'')\<rparr>"
  let ?r = "archiveOne fake_ops ex_deps ?en ''a'' ex_world"
  have "fake_inv (aw_remote ex_world)" by (simp add: ex_world_def fake_inv_def NewFakeStorage_def versions_at_def)
  note inv = this
  have "snd ?r = Inl (Wrap ''mark archived'' (Sql_error ''disk I/O error''))" by code_simp
  then have crash: "?r = (fst ?r, Inl (Wrap ''mark archived'' (Sql_error ''disk I/O error'')))" by (metis prod.collapse)
  have "fake_remote (aw_remote (fst ?r)) ''hub/a'' \<noteq> fake_remote (aw_remote ex_world) ''hub/a''" by code_simp
  then have up: "fake_remote (aw_remote (fst ?r)) \<noteq> fake_remote (aw_remote ex_world)" by metis
  obtain e where e: "EntryLookup no_faults ''a'' (aw_db ex_world) = Inr (Some e)" "he_digest e \<noteq> []"
  proof -
    have "map_option he_digest (projr (EntryLookup no_faults ''a'' (aw_db ex_world))) = Some [9, 1, 2]"
      "\<not> isl (EntryLookup no_faults ''a'' (aw_db ex_world))" by code_simp+
    then show ?thesis using that by (cases "EntryLookup no_faults ''a'' (aw_db ex_world)") auto
  qed
  from archive_retry_uploads_once [OF inv crash up e, of 4] show ?thesis unfolding Let_def by blast
qed

end
