(* ===== verification/Reconciler.thy ===== *)
theory Reconciler
  imports Archive_One
begin

text \<open>
  Pin and unpin (\<^verbatim>\<open>reconciler.go\<close>): plans over a row's archive state, and the primitives archive,
  evict and restore that a plan composes. The name \<^verbatim>\<open>os.CreateTemp\<close> chooses is a parameter; that it
  is fresh is a hypothesis where it matters.
\<close>

section \<open>Plans\<close>

datatype TargetState = TargetArchived | TargetUnpinned

datatype PlanStep = StepArchive | StepEvict | StepRestore | StepSeed | StepNoOp

record Plan =
  pl_path :: string
  pl_steps :: "PlanStep list"
  pl_starting_state :: string

text \<open>The starting state of a path without a row is the UTF-8 encoding of the empty-set sign.\<close>

definition no_row_state :: string where
  "no_row_state = [CHR 0xE2, CHR 0x88, CHR 0x85]"

definition PlanPin :: "ArchiveTaskDeps \<Rightarrow> sql_faults \<Rightarrow> string \<Rightarrow> 'w ArchWorld \<Rightarrow> Plan \<times> err option" where
  "PlanPin deps sql p w =
     (case EntryLookup sql p (aw_db w) of
        Inl e \<Rightarrow> (\<lparr>pl_path = '''', pl_steps = [], pl_starting_state = ''''\<rparr>, Some e)
      | Inr None \<Rightarrow>
          (case os_Stat (aw_fs w) (filepath_Join (dp_hub_dir deps) p) of
             Inl _ \<Rightarrow> (\<lparr>pl_path = p, pl_steps = [], pl_starting_state = no_row_state\<rparr>,
                       Some (Error_string (''pin: no such path '' @ fmt_q p)))
           | Inr _ \<Rightarrow> (\<lparr>pl_path = p, pl_steps = [StepSeed, StepArchive], pl_starting_state = no_row_state\<rparr>, None))
      | Inr (Some entry) \<Rightarrow>
          (\<lparr>pl_path = p,
            pl_steps = (case he_archive_state entry of
                          ArchiveStateArchived \<Rightarrow> [StepNoOp]
                        | ArchiveStateUnpinned \<Rightarrow> [StepRestore]
                        | _ \<Rightarrow> [StepArchive]),
            pl_starting_state = state_str (he_archive_state entry)\<rparr>, None))"

definition PlanUnpin :: "ArchiveTaskDeps \<Rightarrow> sql_faults \<Rightarrow> string \<Rightarrow> 'w ArchWorld \<Rightarrow> Plan \<times> err option" where
  "PlanUnpin deps sql p w =
     (case EntryLookup sql p (aw_db w) of
        Inl e \<Rightarrow> (\<lparr>pl_path = '''', pl_steps = [], pl_starting_state = ''''\<rparr>, Some e)
      | Inr None \<Rightarrow>
          (case os_Stat (aw_fs w) (filepath_Join (dp_hub_dir deps) p) of
             Inl _ \<Rightarrow> (\<lparr>pl_path = p, pl_steps = [], pl_starting_state = no_row_state\<rparr>,
                       Some (Error_string (''unpin: no such path '' @ fmt_q p)))
           | Inr _ \<Rightarrow> (\<lparr>pl_path = p, pl_steps = [StepSeed, StepArchive, StepEvict], pl_starting_state = no_row_state\<rparr>, None))
      | Inr (Some entry) \<Rightarrow>
          (\<lparr>pl_path = p,
            pl_steps = (case he_archive_state entry of
                          ArchiveStateUnpinned \<Rightarrow> [StepNoOp]
                        | ArchiveStateArchived \<Rightarrow> [StepEvict]
                        | _ \<Rightarrow> [StepArchive, StepEvict]),
            pl_starting_state = state_str (he_archive_state entry)\<rparr>, None))"

section \<open>Primitives\<close>

text \<open>What \<^verbatim>\<open>hex.DecodeString\<close> returns next to an ignored error: the bytes decoded so far.\<close>

fun hex_prefix :: "string \<Rightarrow> bytes" where
  "hex_prefix (c # d # cs) =
     (case (from_hex_char c, from_hex_char d) of
        (Some h, Some l) \<Rightarrow> word_of_nat (16 * h + l) # hex_prefix cs
      | _ \<Rightarrow> [])"
| "hex_prefix _ = []"

definition Archive :: "'w ArchiveStorage \<Rightarrow> ArchiveTaskDeps \<Rightarrow> env \<Rightarrow> string \<Rightarrow> 'w ArchWorld \<Rightarrow> 'w ArchWorld \<times> unit res" where
  "Archive ops deps en p w =
     (case EntryLookup (env_sql en) p (aw_db w) of
        Inl e \<Rightarrow> (w, Inl e)
      | Inr None \<Rightarrow> (w, Inl (Error_string (''archive: no file row for '' @ fmt_q p)))
      | Inr (Some entry) \<Rightarrow>
          if he_kind entry \<noteq> FileKindFile then (w, Inl (Error_string (''archive: no file row for '' @ fmt_q p)))
          else if he_archive_state entry = ArchiveStateArchived then (w, Inr ())
          else
            let fullPath = filepath_Join (dp_hub_dir deps) p in
            case os_Open (aw_fs w) fullPath of
              Inl e \<Rightarrow> (w, Inl (Wrap (''open '' @ abs_path_str fullPath) e))
            | Inr src \<Rightarrow>
           (case upload_source ops (env_now en) (aw_fs w) fullPath
                   \<lparr>up_key = JoinKey (dp_prefix deps) p, up_size = he_size entry, up_mtime = None, up_source = src,
                    up_digest = he_digest entry, up_digest_algo = hash_name (dp_hasher deps), up_content_sha1 = ''''\<rparr>
                   (aw_remote w) of
              (rem, Inl e) \<Rightarrow> (w\<lparr>aw_remote := rem\<rparr>, Inl e)
            | (rem, Inr info) \<Rightarrow>
                (case MarkArchived en p (ri_file_id info) (Some (hex_prefix (ri_content_sha1 info))) (ri_uploaded_at info) (aw_db w) of
                   (db, r) \<Rightarrow> (w\<lparr>aw_db := db, aw_remote := rem\<rparr>, r))))"

text \<open>
  \<^verbatim>\<open>evictWith\<close>: the head comes from the prefetched listing when there is one, else from a head
  request. The row is unpinned before the local file is removed.
\<close>

definition evict_head :: "'w ArchiveStorage \<Rightarrow> (string \<times> RemoteInfo) list option \<Rightarrow> string \<Rightarrow> 'w \<Rightarrow> RemoteInfo res" where
  "evict_head ops remoteByKey key rem =
     (case remoteByKey of
        Some m \<Rightarrow>
          (case map_of m key of
             None \<Rightarrow> Inl (Error_string (''evict: archived per DB but not found in remote listing at '' @ fmt_q key))
           | Some hit \<Rightarrow> Inr hit)
      | None \<Rightarrow>
          (case as_HeadByKey ops key rem of
             Inl e \<Rightarrow> Inl (Wrap (''evict head-check '' @ key) e)
           | Inr head \<Rightarrow> Inr head))"

definition evictWith :: "'w ArchiveStorage \<Rightarrow> ArchiveTaskDeps \<Rightarrow> env \<Rightarrow> (string \<times> RemoteInfo) list option \<Rightarrow> string \<Rightarrow>
    'w ArchWorld \<Rightarrow> 'w ArchWorld \<times> unit res" where
  "evictWith ops deps en remoteByKey p w =
     (case EntryLookup (env_sql en) p (aw_db w) of
        Inl e \<Rightarrow> (w, Inl e)
      | Inr None \<Rightarrow> (w, Inl (Error_string (''evict: no row for '' @ fmt_q p)))
      | Inr (Some entry) \<Rightarrow>
          if he_archive_state entry \<noteq> ArchiveStateArchived
          then (w, Inl (Error_string (''evict: '' @ fmt_q p @ '' is in state '' @ fmt_q (state_str (he_archive_state entry)) @
                          ''; need '' @ [CHR 0x27] @ ''archived'' @ [CHR 0x27])))
          else
           (case evict_head ops remoteByKey (JoinKey (dp_prefix deps) p) (aw_remote w) of
              Inl e \<Rightarrow> (w, Inl e)
            | Inr head \<Rightarrow>
                if ri_file_id head \<noteq> he_archive_file_id entry
                then (w, Inl (Error_string (''evict: remote head fileId='' @ fmt_q (ri_file_id head) @ '' differs from recorded '' @
                               fmt_q (he_archive_file_id entry))))
                else if ri_size head \<noteq> he_size entry
                then (w, Inl (Error_string (''evict: remote size='' @ fmt_d (ri_size head) @ '' differs from recorded '' @
                               fmt_d (he_size entry))))
                else if ri_digest head \<noteq> he_digest entry
                then (w, Inl (Error_string ''evict: remote digest differs from recorded''))
                else
                 (case MarkUnpinned en p (aw_db w) of
                    (db, Inl e) \<Rightarrow> (w\<lparr>aw_db := db\<rparr>, Inl e)
                  | (db, Inr _) \<Rightarrow>
                      let fullPath = filepath_Join (dp_hub_dir deps) p in
                      (case os_Remove fullPath (aw_fs w) of
                         (f, Inr _) \<Rightarrow> (w\<lparr>aw_db := db, aw_fs := f\<rparr>, Inr ())
                       | (f, Inl e) \<Rightarrow>
                           (w\<lparr>aw_db := db, aw_fs := f\<rparr>,
                            if is_not_exist e then Inr () else Inl (Wrap (''remove local '' @ abs_path_str fullPath) e))))))"

definition Evict :: "'w ArchiveStorage \<Rightarrow> ArchiveTaskDeps \<Rightarrow> env \<Rightarrow> string \<Rightarrow> 'w ArchWorld \<Rightarrow> 'w ArchWorld \<times> unit res" where
  "Evict ops deps en p w = evictWith ops deps en None p w"

text \<open>
  \<^verbatim>\<open>Restore\<close> stages the download in \<^verbatim>\<open>.hubsync/tmp\<close>, under the name \<open>tmp\<close>. \<open>restore_commit\<close> is what
  happens once the bytes are verified; every error before the rename removes the staged file.
\<close>

definition restore_commit :: "env \<Rightarrow> HubEntry \<Rightarrow> fpath \<Rightarrow> fpath \<Rightarrow> string \<Rightarrow> fs \<Rightarrow> 'w ArchWorld \<Rightarrow> 'w ArchWorld \<times> unit res" where
  "restore_commit en entry tmpPath fullPath p f w =
     (case MarkArchived en p (he_archive_file_id entry) (Some (he_archive_sha1 entry)) (he_archive_uploaded_at entry) (aw_db w) of
        (db, Inl e) \<Rightarrow> (w\<lparr>aw_db := db, aw_fs := fst (os_Remove tmpPath f)\<rparr>, Inl e)
      | (db, Inr _) \<Rightarrow>
     (case os_Rename tmpPath fullPath f of
        (f', Inl e) \<Rightarrow> (w\<lparr>aw_db := db, aw_fs := fst (os_Remove tmpPath f')\<rparr>, Inl (Wrap (''rename '' @ abs_path_str fullPath) e))
      | (f', Inr _) \<Rightarrow> (w\<lparr>aw_db := db, aw_fs := f'\<rparr>, Inr ())))"

definition Restore :: "'w ArchiveStorage \<Rightarrow> ArchiveTaskDeps \<Rightarrow> env \<Rightarrow> string \<Rightarrow> string \<Rightarrow> 'w ArchWorld \<Rightarrow> 'w ArchWorld \<times> unit res" where
  "Restore ops deps en tmp p w =
     (case EntryLookup (env_sql en) p (aw_db w) of
        Inl e \<Rightarrow> (w, Inl e)
      | Inr None \<Rightarrow> (w, Inl (Error_string (''restore: no row for '' @ fmt_q p)))
      | Inr (Some entry) \<Rightarrow>
          if he_archive_state entry \<noteq> ArchiveStateUnpinned
          then (w, Inl (Error_string (''restore: '' @ fmt_q p @ '' is in state '' @ fmt_q (state_str (he_archive_state entry)) @
                          ''; need '' @ [CHR 0x27] @ ''unpinned'' @ [CHR 0x27])))
          else
            let fullPath = filepath_Join (dp_hub_dir deps) p;
                stageDir = dp_hub_dir deps @ [''.hubsync'', ''tmp''];
                tmpPath = stageDir @ [tmp]
            in case os_MkdirAll (filepath_Dir fullPath) (aw_fs w) of
              (f, Inl e) \<Rightarrow> (w\<lparr>aw_fs := f\<rparr>, Inl (Wrap ''mkdir parent'' e))
            | (f, Inr _) \<Rightarrow>
           (case os_MkdirAll stageDir f of
              (f1, Inl e) \<Rightarrow> (w\<lparr>aw_fs := f1\<rparr>, Inl (Wrap ''mkdir stage'' e))
            | (f1, Inr _) \<Rightarrow>
           (case os_WriteFile (env_now en) tmpPath [] 384 f1 of
              (f2, Inl e) \<Rightarrow> (w\<lparr>aw_fs := f2\<rparr>, Inl (Wrap ''tmpfile'' e))
            | (f2, Inr _) \<Rightarrow>
           (case as_Download ops (JoinKey (dp_prefix deps) p) (aw_remote w) of
              Inl e \<Rightarrow> (w\<lparr>aw_fs := fst (os_Remove tmpPath f2)\<rparr>, Inl e)
            | Inr d \<Rightarrow>
                let f3 = fst (os_WriteFile (env_now en) tmpPath d 384 f2); got = hash_sum (dp_hasher deps) d in
                if got \<noteq> he_digest entry
                then (w\<lparr>aw_fs := fst (os_Remove tmpPath f3)\<rparr>,
                      Inl (Error_string (''restore '' @ p @ '': digest mismatch (got '' @ Digest_Hex got @ '' want '' @
                             Digest_Hex (he_digest entry) @ '')'')))
                else
                  let f4 = (if he_mode entry \<noteq> 0 then os_Chmod tmpPath (he_mode entry) f3 else f3)
                  in restore_commit en entry tmpPath fullPath p f4 w))))"

definition seedRow :: "ArchiveTaskDeps \<Rightarrow> env \<Rightarrow> string \<Rightarrow> 'w ArchWorld \<Rightarrow> 'w ArchWorld \<times> unit res" where
  "seedRow deps en p w =
     (let fullPath = filepath_Join (dp_hub_dir deps) p in
      case os_Stat (aw_fs w) fullPath of
        Inl e \<Rightarrow> (w, Inl e)
      | Inr n \<Rightarrow>
     (case os_ReadFile (aw_fs w) fullPath of
        Inl e \<Rightarrow> (w, Inl e)
      | Inr d \<Rightarrow>
     (case Append en \<lparr>ce_version = 0, ce_path = p, ce_op = OpCreate, ce_kind = FileKindFile,
                      ce_digest = hash_sum (dp_hasher deps) d, ce_size = int (length (file_data n)),
                      ce_mode = file_mode n, ce_mtime = file_mtime n\<rparr> (aw_db w) of
        (db, Inl e) \<Rightarrow> (w\<lparr>aw_db := db\<rparr>, Inl e)
      | (db, Inr _) \<Rightarrow> (w\<lparr>aw_db := db\<rparr>, Inr ()))))"

section \<open>Applying a plan\<close>

definition apply_step :: "'w ArchiveStorage \<Rightarrow> ArchiveTaskDeps \<Rightarrow> env \<Rightarrow> (string \<times> RemoteInfo) list option \<Rightarrow> string \<Rightarrow> string \<Rightarrow>
    PlanStep \<Rightarrow> 'w ArchWorld \<Rightarrow> 'w ArchWorld \<times> unit res" where
  "apply_step ops deps en remoteByKey tmp p step w =
     (let wrap = (\<lambda>ctx (w', r). (w', case r of Inl e \<Rightarrow> Inl (Wrap (ctx @ '' '' @ p) e) | Inr u \<Rightarrow> Inr u)) in
      case step of
        StepNoOp \<Rightarrow> (w, Inr ())
      | StepSeed \<Rightarrow> wrap ''seed'' (seedRow deps en p w)
      | StepArchive \<Rightarrow> wrap ''archive'' (Archive ops deps en p w)
      | StepEvict \<Rightarrow> wrap ''evict'' (evictWith ops deps en remoteByKey p w)
      | StepRestore \<Rightarrow> wrap ''restore'' (Restore ops deps en tmp p w))"

fun apply_steps :: "'w ArchiveStorage \<Rightarrow> ArchiveTaskDeps \<Rightarrow> (nat \<Rightarrow> env) \<Rightarrow> (string \<times> RemoteInfo) list option \<Rightarrow> string \<Rightarrow> string \<Rightarrow>
    PlanStep list \<Rightarrow> 'w ArchWorld \<Rightarrow> 'w ArchWorld \<times> unit res" where
  "apply_steps ops deps envs remoteByKey tmp p [] w = (w, Inr ())"
| "apply_steps ops deps envs remoteByKey tmp p (step # steps) w =
     (case apply_step ops deps (envs 0) remoteByKey tmp p step w of
        (w', Inl e) \<Rightarrow> (w', Inl e)
      | (w', Inr _) \<Rightarrow> apply_steps ops deps (\<lambda>i. envs (Suc i)) remoteByKey tmp p steps w')"

definition Apply :: "'w ArchiveStorage \<Rightarrow> ArchiveTaskDeps \<Rightarrow> (nat \<Rightarrow> env) \<Rightarrow> (string \<times> RemoteInfo) list option \<Rightarrow> string \<Rightarrow>
    Plan \<Rightarrow> 'w ArchWorld \<Rightarrow> 'w ArchWorld \<times> unit res" where
  "Apply ops deps envs remoteByKey tmp plan w = apply_steps ops deps envs remoteByKey tmp (pl_path plan) (pl_steps plan) w"

section \<open>The primitives keep every claimed object\<close>

lemma MarkUnpinned_backed:
  assumes "archive_backed pre rem s" "\<And>r. r \<in> set (hub_entry s) \<Longrightarrow> hr_path r = p \<Longrightarrow> claims_object r"
  shows "archive_backed pre rem (fst (MarkUnpinned en p s))"
proof -
  have "store_inv (fst (MarkUnpinned en p s))" using assms(1) by (simp add: archive_backed_def Mark_inv)
  then show ?thesis unfolding MarkUnpinned_def
  proof (rule backed_update [OF assms(1)])
    fix r assume r: "r \<in> set (hub_entry s)" "hr_path r = p"
    let ?r = "r\<lparr>hr_archive_state := Some ArchiveStateUnpinned, hr_updated_at := env_now en\<rparr>"
    have "backed_row pre rem r" using assms r by (auto simp: archive_backed_def)
    then have "backed_row pre rem ?r" using backed_row_cong [of ?r r pre rem] by simp
    with r show "hr_path ?r = p \<and> hr_kind ?r = hr_kind r \<and> (claims_object ?r \<longrightarrow> backed_row pre rem ?r)" by simp
  qed
qed

lemma remark_backed:
  assumes "archive_backed pre rem s" "r \<in> set (hub_entry s)" "hr_path r = p" "claims_object r"
  shows "archive_backed pre rem (fst (MarkArchived en p (he_archive_file_id (toEntry r)) sha t s))"
proof -
  have "backed_row pre rem r" using assms by (simp add: archive_backed_def)
  then obtain info d where obj: "rem (JoinKey pre p) = Some (info, d)" "hr_archive_file_id r = Some (ri_file_id info)"
    "ri_digest info = digest_of_blob (hr_digest r)" using assms(3) by (auto simp: backed_row_def split: option.splits)
  then have "he_archive_file_id (toEntry r) = ri_file_id info" by (simp add: toEntry_def)
  moreover have "r' = r" if "r' \<in> set (hub_entry s)" "hr_path r' = p" for r'
    using unique_row [of s r' r] that assms by (simp add: archive_backed_def)
  ultimately show ?thesis using MarkArchived_backed [OF assms(1) obj(1)] obj(3) by metis
qed

lemma row_state: "he_archive_state (toEntry r) = ArchiveStateArchived \<longleftrightarrow> hr_archive_state r = Some ArchiveStateArchived"
  "he_archive_state (toEntry r) = ArchiveStateUnpinned \<longleftrightarrow> hr_archive_state r = Some ArchiveStateUnpinned"
  by (auto simp: toEntry_def split: option.split)

definition row_in :: "string \<Rightarrow> ArchiveState \<Rightarrow> HubStore \<Rightarrow> bool" where
  "row_in p st s \<longleftrightarrow> (\<exists>r. tbl_lookup hr_path p (hub_entry s) = Some r \<and> hr_archive_state r = Some st)"

lemma EntryLookup_row_in:
  assumes "EntryLookup sql p s = Inr (Some e)"
  shows "row_in p ArchiveStateArchived s \<longleftrightarrow> he_archive_state e = ArchiveStateArchived"
    "row_in p ArchiveStateUnpinned s \<longleftrightarrow> he_archive_state e = ArchiveStateUnpinned"
  using EntryLookup_row [OF assms] row_state by (metis option.inject row_in_def)+

lemma mark_row_in:
  assumes "tbl_lookup hr_path p (hub_entry s) = Some r"
  shows "MarkArchived en p fid sha t s = (s', Inr ()) \<Longrightarrow> row_in p ArchiveStateArchived s'"
    "MarkUnpinned en p s = (s', Inr ()) \<Longrightarrow> row_in p ArchiveStateUnpinned s'"
  using assms by (auto simp: MarkArchived_def MarkUnpinned_def update_entry_def row_in_def tbl_lookup_update split: option.splits)

lemma EntryLookup_lookup: "EntryLookup sql p s = Inr (Some e) \<Longrightarrow> \<exists>r. tbl_lookup hr_path p (hub_entry s) = Some r \<and> e = toEntry r"
  by (auto simp: EntryLookup_def split: option.splits)

text \<open>A step that succeeds leaves the row in the state it is named after.\<close>

lemma Archive_target: "Archive ops deps en p w = (w', Inr ()) \<Longrightarrow> row_in p ArchiveStateArchived (aw_db w')"
  by (auto simp: Archive_def Let_def EntryLookup_row_in dest!: EntryLookup_lookup
      split: sum.splits option.splits if_splits prod.splits intro: mark_row_in)

lemma evictWith_target: "evictWith ops deps en m p w = (w', Inr ()) \<Longrightarrow> row_in p ArchiveStateUnpinned (aw_db w')"
  by (auto simp: evictWith_def Let_def dest!: EntryLookup_lookup
      split: sum.splits option.splits if_splits prod.splits intro: mark_row_in)

lemma Restore_target: "Restore ops deps en tmp p w = (w', Inr ()) \<Longrightarrow> row_in p ArchiveStateArchived (aw_db w')"
  by (auto simp: Restore_def restore_commit_def Let_def dest!: EntryLookup_lookup
      split: sum.splits option.splits if_splits prod.splits intro: mark_row_in)

lemma restore_commit_db:
  "aw_db (fst (restore_commit en entry tmp full p f w)) =
     fst (MarkArchived en p (he_archive_file_id entry) (Some (he_archive_sha1 entry)) (he_archive_uploaded_at entry) (aw_db w))"
  "aw_remote (fst (restore_commit en entry tmp full p f w)) = aw_remote w"
  by (auto simp: restore_commit_def split: prod.split sum.split)

lemma Restore_db:
  assumes "Restore ops deps en tmp p w = (w', res)"
  shows "aw_remote w' = aw_remote w \<and> (aw_db w' = aw_db w \<or>
    (\<exists>r. r \<in> set (hub_entry (aw_db w)) \<and> hr_path r = p \<and> hr_archive_state r = Some ArchiveStateUnpinned \<and>
      aw_db w' = fst (MarkArchived en p (he_archive_file_id (toEntry r)) (Some (he_archive_sha1 (toEntry r)))
        (he_archive_uploaded_at (toEntry r)) (aw_db w))))"
proof (cases "\<exists>e. EntryLookup (env_sql en) p (aw_db w) = Inr (Some e) \<and> he_archive_state e = ArchiveStateUnpinned")
  case False
  with assms show ?thesis by (auto simp: Restore_def split: sum.splits option.splits if_splits)
next
  case True
  then obtain e where e: "EntryLookup (env_sql en) p (aw_db w) = Inr (Some e)" "he_archive_state e = ArchiveStateUnpinned" by blast
  from EntryLookup_row [OF e(1)] obtain r where r: "r \<in> set (hub_entry (aw_db w))" "hr_path r = p" "e = toEntry r" by metis
  have st: "hr_archive_state r = Some ArchiveStateUnpinned" using e(2) r(3) row_state by metis
  let ?R = "fst (Restore ops deps en tmp p w)"
  have "aw_remote ?R = aw_remote w \<and> (aw_db ?R = aw_db w \<or>
      aw_db ?R = fst (MarkArchived en p (he_archive_file_id e) (Some (he_archive_sha1 e)) (he_archive_uploaded_at e) (aw_db w)))"
    by (simp add: Restore_def e Let_def restore_commit_db split: prod.split sum.split)
  with assms r st show ?thesis by auto
qed

lemma evictWith_db:
  assumes "evictWith ops deps en m p w = (w', res)"
  shows "aw_remote w' = aw_remote w \<and> (aw_db w' = aw_db w \<or>
    (\<exists>r. r \<in> set (hub_entry (aw_db w)) \<and> hr_path r = p \<and> hr_archive_state r = Some ArchiveStateArchived \<and>
      aw_db w' = fst (MarkUnpinned en p (aw_db w))))"
proof (cases "\<exists>e. EntryLookup (env_sql en) p (aw_db w) = Inr (Some e) \<and> he_archive_state e = ArchiveStateArchived")
  case False
  with assms show ?thesis by (auto simp: evictWith_def split: sum.splits option.splits if_splits)
next
  case True
  then obtain e where e: "EntryLookup (env_sql en) p (aw_db w) = Inr (Some e)" "he_archive_state e = ArchiveStateArchived" by blast
  from EntryLookup_row [OF e(1)] obtain r where r: "r \<in> set (hub_entry (aw_db w))" "hr_path r = p" "e = toEntry r" by metis
  have st: "hr_archive_state r = Some ArchiveStateArchived" using e(2) r(3) row_state by metis
  let ?R = "fst (evictWith ops deps en m p w)"
  have "aw_remote ?R = aw_remote w \<and> (aw_db ?R = aw_db w \<or> aw_db ?R = fst (MarkUnpinned en p (aw_db w)))"
    by (simp add: evictWith_def e Let_def split: prod.split sum.split)
  with assms r st show ?thesis by auto
qed

text \<open>A step list that archives only before it evicts or restores, as every plan does.\<close>

fun archive_first :: "PlanStep list \<Rightarrow> bool" where
  "archive_first [] = True"
| "archive_first (StepSeed # steps) = archive_first steps"
| "archive_first (StepArchive # steps) = archive_first steps"
| "archive_first (step # steps) = (StepArchive \<notin> set steps \<and> archive_first steps)"

lemma plan_shape:
  assumes "PlanPin deps sql p w = (plan, None) \<or> PlanUnpin deps sql p w = (plan, None)"
  shows "pl_path plan = p" "archive_first (pl_steps plan)"
    "StepArchive \<in> set (pl_steps plan) \<Longrightarrow> \<not> row_in p ArchiveStateUnpinned (aw_db w)"
proof -
  have "pl_path plan = p \<and> archive_first (pl_steps plan) \<and>
    (StepArchive \<in> set (pl_steps plan) \<longrightarrow> \<not> row_in p ArchiveStateUnpinned (aw_db w))"
  proof (cases "EntryLookup sql p (aw_db w)")
    case (Inl e)
    with assms show ?thesis by (simp add: PlanPin_def PlanUnpin_def)
  next
    case (Inr found)
    show ?thesis
    proof (cases found)
      case None
      with Inr have "\<not> row_in p ArchiveStateUnpinned (aw_db w)" by (simp add: EntryLookup_def row_in_def split: option.splits)
      with assms None Inr show ?thesis by (auto simp: PlanPin_def PlanUnpin_def split: sum.splits)
    next
      case (Some e)
      with assms Inr EntryLookup_row_in [of sql p "aw_db w" e] show ?thesis
        by (cases "he_archive_state e") (auto simp: PlanPin_def PlanUnpin_def)
    qed
  qed
  then show "pl_path plan = p" "archive_first (pl_steps plan)"
    "StepArchive \<in> set (pl_steps plan) \<Longrightarrow> \<not> row_in p ArchiveStateUnpinned (aw_db w)" by auto
qed

lemma seedRow_not_unpinned:
  assumes "\<not> row_in p ArchiveStateUnpinned (aw_db w)" "seedRow deps en p w = (w', r)"
  shows "\<not> row_in p ArchiveStateUnpinned (aw_db w')"
proof -
  have "\<not> row_in p ArchiveStateUnpinned (fst (Append en e (aw_db w)))" if "ce_path e = p" "ce_op e = OpCreate" for e
    using Append_result [of en e "aw_db w"] assms(1) that
    by (auto simp: row_in_def lookup_apply_entry_row new_entry_row_def conflict_row_def split: option.splits if_splits)
  from this [of "\<lparr>ce_version = 0, ce_path = p, ce_op = OpCreate, ce_kind = FileKindFile,
      ce_digest = dg, ce_size = sz, ce_mode = md, ce_mtime = mt\<rparr>" for dg sz md mt]
  show ?thesis using assms by (auto simp: seedRow_def Let_def split: sum.splits prod.splits) (metis fst_conv)+
qed

lemma Archive_not_unpinned:
  "\<not> row_in p ArchiveStateUnpinned (aw_db w) \<Longrightarrow> Archive ops deps en p w = (w', r) \<Longrightarrow> \<not> row_in p ArchiveStateUnpinned (aw_db w')"
  by (auto simp: Archive_def Let_def MarkArchived_def update_entry_def row_in_def tbl_lookup_update
      split: sum.splits option.splits if_splits prod.splits)

lemma apply_step_not_unpinned:
  assumes "\<not> row_in p ArchiveStateUnpinned (aw_db w)" "step \<in> {StepSeed, StepArchive}"
    and "apply_step ops deps en m tmp p step w = (w', r)"
  shows "\<not> row_in p ArchiveStateUnpinned (aw_db w')"
proof (cases "step = StepSeed")
  case True
  obtain ws rs where seed: "seedRow deps en p w = (ws, rs)" by fastforce
  with True assms(3) have "w' = ws" by (simp add: apply_step_def)
  with seedRow_not_unpinned [OF assms(1) seed] show ?thesis by simp
next
  case False
  obtain ws rs where arch: "Archive ops deps en p w = (ws, rs)" by fastforce
  with False assms(2,3) have "w' = ws" by (simp add: apply_step_def)
  with Archive_not_unpinned [OF assms(1) arch] show ?thesis by simp
qed

text \<open>The invariant of the archive: the store is consistent and every claimed object is there.\<close>

definition backed_world :: "('w \<Rightarrow> bool) \<Rightarrow> ('w \<Rightarrow> string \<Rightarrow> (RemoteInfo \<times> bytes) option) \<Rightarrow> ArchiveTaskDeps \<Rightarrow> 'w ArchWorld \<Rightarrow> bool" where
  "backed_world store_ok remote deps w \<longleftrightarrow> store_ok (aw_remote w) \<and> archive_backed (dp_prefix deps) (remote (aw_remote w)) (aw_db w)"

context archive_objects
begin

lemma Restore_ok: "backed_world inv remote deps w \<Longrightarrow> backed_world inv remote deps (fst (Restore ops deps en tmp p w))"
  using Restore_db [of ops deps en tmp p w "fst (Restore ops deps en tmp p w)" "snd (Restore ops deps en tmp p w)"] remark_backed
  by (auto simp: backed_world_def claims_object_def)

lemma evictWith_ok:
  assumes "backed_world inv remote deps w"
  shows "backed_world inv remote deps (fst (evictWith ops deps en m p w))"
proof -
  let ?R = "fst (evictWith ops deps en m p w)"
  have R: "aw_remote ?R = aw_remote w \<and> (aw_db ?R = aw_db w \<or>
    (\<exists>r. r \<in> set (hub_entry (aw_db w)) \<and> hr_path r = p \<and> hr_archive_state r = Some ArchiveStateArchived \<and>
      aw_db ?R = fst (MarkUnpinned en p (aw_db w))))" by (rule evictWith_db [OF prod.collapse [symmetric]])
  show ?thesis
  proof (cases "aw_db ?R = aw_db w")
    case True
    with R assms show ?thesis by (simp add: backed_world_def)
  next
    case False
    with R obtain r where r: "r \<in> set (hub_entry (aw_db w))" "hr_path r = p" "claims_object r"
      and db: "aw_db ?R = fst (MarkUnpinned en p (aw_db w))" by (auto simp: claims_object_def)
    have "r' = r" if "r' \<in> set (hub_entry (aw_db w))" "hr_path r' = p" for r'
      using unique_row [of "aw_db w" r' r] that r assms by (simp add: backed_world_def archive_backed_def)
    with MarkUnpinned_backed [of _ _ "aw_db w" p en] r(3) assms R db show ?thesis
      unfolding backed_world_def by metis
  qed
qed

lemma seedRow_ok:
  "backed_world inv remote deps w \<Longrightarrow> \<not> HasPrefix p ''/'' \<Longrightarrow> backed_world inv remote deps (fst (seedRow deps en p w))"
  using Append_backed [of "dp_prefix deps" "remote (aw_remote w)" "aw_db w"]
  by (simp add: seedRow_def backed_world_def Let_def split: prod.split sum.split) (metis ChangeEntry.select_convs(2,4) fst_conv)

lemma Archive_ok:
  assumes "backed_world inv remote deps w" "\<not> row_in p ArchiveStateUnpinned (aw_db w)"
  shows "backed_world inv remote deps (fst (Archive ops deps en p w))"
proof (cases "\<exists>e. EntryLookup (env_sql en) p (aw_db w) = Inr (Some e) \<and> he_kind e = FileKindFile \<and> he_archive_state e \<noteq> ArchiveStateArchived")
  case False
  with assms show ?thesis by (auto simp: Archive_def split: sum.split option.split)
next
  case True
  then obtain e where e: "EntryLookup (env_sql en) p (aw_db w) = Inr (Some e)" "he_kind e = FileKindFile" "he_archive_state e \<noteq> ArchiveStateArchived" by blast
  from EntryLookup_row [OF e(1)] obtain r where r: "r \<in> set (hub_entry (aw_db w))" "hr_path r = p" "e = toEntry r"
    "tbl_lookup hr_path p (hub_entry (aw_db w)) = Some r" by metis
  have free: "\<not> claims_object r"
    using e(3) r(3,4) assms(2) row_state(1) [of r] by (auto simp: claims_object_def row_in_def)
  show ?thesis
  proof (cases "os_Open (aw_fs w) (filepath_Join (dp_hub_dir deps) p)")
    case (Inl er)
    with e assms(1) show ?thesis by (simp add: Archive_def Let_def)
  next
    case (Inr src)
    let ?req = "\<lparr>up_key = JoinKey (dp_prefix deps) p, up_size = he_size e, up_mtime = None, up_source = src,
        up_digest = he_digest e, up_digest_algo = hash_name (dp_hasher deps), up_content_sha1 = ''''\<rparr>"
    obtain rem ui where up: "upload_source ops (env_now en) (aw_fs w) (filepath_Join (dp_hub_dir deps) p) ?req (aw_remote w) = (rem, ui)"
      by fastforce
    have inv: "inv (aw_remote w)" and backed: "archive_backed (dp_prefix deps) (remote (aw_remote w)) (aw_db w)"
      using assms(1) by (simp_all add: backed_world_def)
    note law = upload_source_cases [OF inv up]
    show ?thesis
    proof (cases ui)
      case (Inl er)
      have "archive_backed (dp_prefix deps) (remote rem) (aw_db w)"
        by (rule upload_failed_backed [OF inv backed r(1,2) free up [unfolded Inl]]) simp
      with e Inr Inl up law(1) show ?thesis by (simp add: Archive_def Let_def backed_world_def)
    next
      case ok: (Inr info)
      have "archive_backed (dp_prefix deps) (remote rem) (fst (MarkArchived en p (ri_file_id info) sha t (aw_db w)))" for sha t
        by (rule upload_then_mark [OF inv backed r(1,2) free up [unfolded ok]]) (simp_all add: r(3))
      with e Inr ok up law(1) show ?thesis by (simp add: Archive_def Let_def backed_world_def split: prod.split) (metis fst_conv)
    qed
  qed
qed

lemma apply_step_ok:
  assumes "backed_world inv remote deps w" "\<not> HasPrefix p ''/''" "step = StepArchive \<Longrightarrow> \<not> row_in p ArchiveStateUnpinned (aw_db w)"
  shows "backed_world inv remote deps (fst (apply_step ops deps en m tmp p step w))"
  using assms seedRow_ok [OF assms(1,2), of en] Archive_ok [OF assms(1), of p en] evictWith_ok [OF assms(1), of en m p]
    Restore_ok [OF assms(1), of en tmp p]
  by (cases step) (simp_all add: apply_step_def split_beta)

lemma apply_steps_ok:
  assumes "backed_world inv remote deps w" "\<not> HasPrefix p ''/''" "archive_first steps"
    and "StepArchive \<in> set steps \<Longrightarrow> \<not> row_in p ArchiveStateUnpinned (aw_db w)"
  shows "backed_world inv remote deps (fst (apply_steps ops deps envs m tmp p steps w))"
  using assms
proof (induction steps arbitrary: w envs)
  case Nil
  then show ?case by simp
next
  case (Cons step steps)
  obtain w' r where step: "apply_step ops deps (envs 0) m tmp p step w = (w', r)" by fastforce
  have "backed_world inv remote deps w'"
    using apply_step_ok [OF Cons.prems(1,2), of step "envs 0" m tmp] step Cons.prems(4) by auto
  moreover have "\<not> row_in p ArchiveStateUnpinned (aw_db w')" if "StepArchive \<in> set steps"
    using apply_step_not_unpinned [OF _ _ step] Cons.prems(3,4) that by (cases step) auto
  ultimately show ?case using Cons.IH [of w'] step Cons.prems(2,3) by (cases step; cases r) auto
qed

lemma Apply_ok:
  assumes "backed_world inv remote deps w" "\<not> HasPrefix p ''/''"
    and "PlanPin deps sql p w = (plan, None) \<or> PlanUnpin deps sql p w = (plan, None)"
  shows "backed_world inv remote deps (fst (Apply ops deps envs m tmp plan w))"
  using apply_steps_ok [OF assms(1,2)] plan_shape [OF assms(3)] by (simp add: Apply_def)

end

section \<open>A plan that succeeds reaches its target\<close>

lemma apply_step_target:
  assumes "apply_step ops deps en m tmp p step w = (w', Inr u)"
  shows "step \<in> {StepArchive, StepRestore} \<Longrightarrow> row_in p ArchiveStateArchived (aw_db w')"
    "step = StepEvict \<Longrightarrow> row_in p ArchiveStateUnpinned (aw_db w')" "step = StepNoOp \<Longrightarrow> w' = w"
  using assms
  by (auto simp: apply_step_def split: prod.splits sum.splits
      dest: Archive_target Restore_target evictWith_target)

lemma apply_steps_last:
  assumes "apply_steps ops deps envs m tmp p (steps @ [step]) w = (w', Inr u)"
  shows "\<exists>w0 en. apply_step ops deps en m tmp p step w0 = (w', Inr u) \<and> (steps = [] \<longrightarrow> w0 = w)"
  using assms
proof (induction steps arbitrary: w envs)
  case Nil
  then show ?case by (auto split: prod.splits sum.splits)
next
  case (Cons s steps)
  then show ?case by (auto split: prod.splits sum.splits) blast
qed

lemma Apply_target:
  assumes "Apply ops deps envs m tmp plan w = (w', Inr u)"
  shows "PlanPin deps sql p w = (plan, None) \<Longrightarrow> row_in p ArchiveStateArchived (aw_db w')"
    "PlanUnpin deps sql p w = (plan, None) \<Longrightarrow> row_in p ArchiveStateUnpinned (aw_db w')"
proof -
  have last: "\<exists>w0 en. apply_step ops deps en m tmp (pl_path plan) step w0 = (w', Inr u) \<and> (steps = [] \<longrightarrow> w0 = w)"
    if "pl_steps plan = steps @ [step]" for steps step
    using assms apply_steps_last [of ops deps envs m tmp "pl_path plan" steps step w w' u] that by (simp add: Apply_def)
  show "row_in p ArchiveStateArchived (aw_db w')" if plan: "PlanPin deps sql p w = (plan, None)"
  proof -
    have path: "pl_path plan = p" using plan_shape(1) plan by blast
    from plan have "(\<exists>steps step. pl_steps plan = steps @ [step] \<and> step \<in> {StepArchive, StepRestore}) \<or>
        pl_steps plan = [] @ [StepNoOp] \<and> row_in p ArchiveStateArchived (aw_db w)"
      by (auto simp: PlanPin_def EntryLookup_row_in split: sum.splits option.splits ArchiveState.splits)
    then show ?thesis using last path apply_step_target by metis
  qed
  show "row_in p ArchiveStateUnpinned (aw_db w')" if plan: "PlanUnpin deps sql p w = (plan, None)"
  proof -
    have path: "pl_path plan = p" using plan_shape(1) plan by blast
    from plan have "(\<exists>steps. pl_steps plan = steps @ [StepEvict]) \<or>
        pl_steps plan = [] @ [StepNoOp] \<and> row_in p ArchiveStateUnpinned (aw_db w)"
      by (auto simp: PlanUnpin_def EntryLookup_row_in split: sum.splits option.splits ArchiveState.splits)
    then show ?thesis using last path apply_step_target by metis
  qed
qed

section \<open>Evict and restore on the in-memory store\<close>

text \<open>The remote head agrees with the row, which is what \<^verbatim>\<open>evictWith\<close> verifies.\<close>

definition head_agrees :: "ArchiveTaskDeps \<Rightarrow> string \<Rightarrow> HubEntry \<Rightarrow> RemoteInfo \<Rightarrow> bytes \<Rightarrow> FakeStorage \<Rightarrow> bool" where
  "head_agrees deps p e info d rem \<longleftrightarrow> fake_remote rem (JoinKey (dp_prefix deps) p) = Some (info, d) \<and>
     ri_file_id info = he_archive_file_id e \<and> ri_size info = he_size e \<and> ri_digest info = he_digest e"

lemma Evict_runs:
  assumes "EntryLookup no_faults p (aw_db w) = Inr (Some e)" "he_archive_state e = ArchiveStateArchived"
    and "head_agrees deps p e info d (aw_remote w)" "is_file (aw_fs w) (filepath_Join (dp_hub_dir deps) p)"
  shows "\<exists>db. Evict fake_ops deps (env_at t) p w =
      (w\<lparr>aw_db := db, aw_fs := fs_del (filepath_Join (dp_hub_dir deps) p) (aw_fs w)\<rparr>, Inr ()) \<and>
    EntryLookup no_faults p db = Inr (Some (e\<lparr>he_archive_state := ArchiveStateUnpinned, he_updated_at := t\<rparr>))"
proof -
  obtain db where mark: "MarkUnpinned (env_at t) p (aw_db w) = (db, Inr ())"
    by (simp add: MarkUnpinned_def update_entry_def)
  from EntryLookup_row [OF assms(1)] obtain r where r: "hr_path r = p" "e = toEntry r" "tbl_lookup hr_path p (hub_entry (aw_db w)) = Some r" by metis
  have "EntryLookup no_faults p db = Inr (Some (e\<lparr>he_archive_state := ArchiveStateUnpinned, he_updated_at := t\<rparr>))"
    using mark r by (auto simp: MarkUnpinned_def update_entry_def EntryLookup_def tbl_lookup_update toEntry_def)
  moreover have "as_HeadByKey fake_ops (JoinKey (dp_prefix deps) p) (aw_remote w) = Inr info"
    using assms(3) fake_head by (simp add: head_agrees_def)
  ultimately show ?thesis using assms mark
    by (intro exI [of _ db]) (simp add: Evict_def evictWith_def evict_head_def Let_def os_Remove_file head_agrees_def)
qed

text \<open>The directories above a file exist, the staging directory can be made and the staged name is free.\<close>

definition restore_room :: "ArchiveTaskDeps \<Rightarrow> string \<Rightarrow> string \<Rightarrow> fs \<Rightarrow> bool" where
  "restore_room deps tmp p f \<longleftrightarrow>
     (\<forall>q. prefix q (filepath_Dir (filepath_Join (dp_hub_dir deps) p)) \<longrightarrow> is_dir f q) \<and>
     (\<forall>q. prefix q (dp_hub_dir deps @ [''.hubsync'', ''tmp'']) \<longrightarrow> \<not> is_file f q) \<and>
     fs_node f (dp_hub_dir deps @ [''.hubsync'', ''tmp'', tmp]) = None"

lemma mkdir_existing: "\<forall>q. prefix q p \<longrightarrow> is_dir f q \<Longrightarrow> os_MkdirAll p f = (f, Inr ())"
proof -
  assume dirs: "\<forall>q. prefix q p \<longrightarrow> is_dir f q"
  have "fold (\<lambda>q f. if fs_node f q = None then fs_put q NDir f else f) ps f = f" if "\<forall>q \<in> set ps. is_dir f q" for ps
    using that by (induction ps) (auto simp: is_dir_def)
  moreover have "\<not> is_file f q" if "prefix q p" for q using dirs that by (auto simp: is_dir_def is_file_def)
  ultimately show ?thesis using dirs by (auto simp: os_MkdirAll_def prefixes_of_iff)
qed

lemma restore_staging:
  assumes "restore_room deps tmp p f" "is_file f full" "full = filepath_Join (dp_hub_dir deps) p"
    and "stage = dp_hub_dir deps @ [''.hubsync'', ''tmp'']"
  obtains f1 where "os_MkdirAll (filepath_Dir full) (fs_del full f) = (fs_del full f, Inr ())"
    "os_MkdirAll stage (fs_del full f) = (f1, Inr ())" "is_dir f1 stage" "fs_node f1 (stage @ [tmp]) = None"
    "fs_node f1 full = None" "is_dir f1 (butlast full)" "full \<noteq> stage @ [tmp]"
proof -
  let ?f = "fs_del full f"
  have ne: "full \<noteq> []" using assms(2) by (auto simp: is_file_def fs_node_def)
  have "is_dir ?f q" if "prefix q (filepath_Dir full)" for q
  proof -
    have "length q < length full" using prefix_length_le [OF that] ne by (cases full rule: rev_cases) (simp_all add: filepath_Dir_def)
    then have "q \<noteq> full" by blast
    with assms(1,3) that show ?thesis by (simp add: is_dir_def fs_node_del restore_room_def)
  qed
  then have up: "os_MkdirAll (filepath_Dir full) ?f = (?f, Inr ())" by (simp add: mkdir_existing)
  have parent: "is_dir ?f (butlast full)" using \<open>\<And>q. prefix q (filepath_Dir full) \<Longrightarrow> is_dir ?f q\<close> by (simp add: filepath_Dir_def)
  have nofile: "\<not> is_file ?f q" if "prefix q stage" for q
    using assms(1,4) that by (simp add: is_file_def fs_node_del restore_room_def)
  then obtain f1 where mk: "os_MkdirAll stage ?f = (f1, Inr ())" by (auto simp: os_MkdirAll_def prefixes_of_iff)
  have node: "fs_node f1 q = (if fs_node ?f q = None \<and> prefix q stage then Some NDir else fs_node ?f q)" for q
    using os_MkdirAll_node [of stage ?f q] mk by simp
  have "\<not> prefix full stage" using assms(1,2,4) by (auto simp: restore_room_def)
  moreover have free: "fs_node f (stage @ [tmp]) = None" using assms(1,4) by (simp add: restore_room_def)
  moreover have "full \<noteq> stage @ [tmp]" using free assms(2) by (auto simp: is_file_def)
  moreover have "\<not> prefix (stage @ [tmp]) stage" by (simp add: prefix_def)
  moreover have "is_dir f1 stage" using os_MkdirAll_dir [of stage ?f stage] mk by simp
  moreover have "is_dir f1 (butlast full)" using parent by (simp add: is_dir_def node)
  ultimately show ?thesis using that [OF up mk] ne by (simp add: node fs_node_del)
qed

lemma Restore_runs:
  assumes "EntryLookup no_faults p (aw_db w) = Inr (Some e)" "he_archive_state e = ArchiveStateUnpinned"
    and "fake_remote (aw_remote w) (JoinKey (dp_prefix deps) p) = Some (info, d)" "hash_sum (dp_hasher deps) d = he_digest e"
    and "aw_fs w = fs_del full f" "restore_room deps tmp p f" "is_file f full" "full = filepath_Join (dp_hub_dir deps) p"
  shows "\<exists>w'. Restore fake_ops deps (env_at t) tmp p w = (w', Inr ()) \<and> os_ReadFile (aw_fs w') full = Inr d \<and>
    aw_remote w' = aw_remote w \<and> fs_node (aw_fs w') (dp_hub_dir deps @ [''.hubsync'', ''tmp'', tmp]) = None \<and>
    EntryLookup no_faults p (aw_db w') = Inr (Some (e\<lparr>he_archive_state := ArchiveStateArchived, he_updated_at := t\<rparr>))"
proof -
  define stage where "stage = dp_hub_dir deps @ [''.hubsync'', ''tmp'']"
  from restore_staging [OF assms(6,7,8) stage_def] obtain f1 where f1:
    "os_MkdirAll (filepath_Dir full) (fs_del full f) = (fs_del full f, Inr ())"
    "os_MkdirAll stage (fs_del full f) = (f1, Inr ())" "is_dir f1 stage" "fs_node f1 (stage @ [tmp]) = None"
    "fs_node f1 full = None" "is_dir f1 (butlast full)" "full \<noteq> stage @ [tmp]" by blast
  let ?tmp = "stage @ [tmp]"
  have ne: "full \<noteq> []" using assms(7) by (auto simp: is_file_def fs_node_def)
  let ?f2 = "fs_put ?tmp (NFile [] 384 t) f1" and ?f3 = "fs_put ?tmp (NFile d 384 t) (fs_put ?tmp (NFile [] 384 t) f1)"
  have w1: "os_WriteFile t ?tmp [] 384 f1 = (?f2, Inr ())" using f1(3,4) by (simp add: os_WriteFile_def)
  have w2: "os_WriteFile t ?tmp d 384 ?f2 = (?f3, Inr ())" by (simp add: os_WriteFile_def fs_node_put)
  define f4 where "f4 = (if he_mode e \<noteq> 0 then os_Chmod ?tmp (he_mode e) ?f3 else ?f3)"
  define m where "m = (if he_mode e \<noteq> 0 then he_mode e else 384)"
  have node4: "fs_node f4 q = (if q = ?tmp then Some (NFile d m t) else fs_node f1 q)" for q
    by (auto simp: f4_def m_def os_Chmod_def fs_node_put)
  obtain db where mark: "MarkArchived (env_at t) p (he_archive_file_id e) (Some (he_archive_sha1 e)) (he_archive_uploaded_at e) (aw_db w) = (db, Inr ())"
    by (simp add: MarkArchived_def update_entry_def)
  have ren: "os_Rename ?tmp full f4 = (fs_put full (NFile d m t) (fs_del ?tmp f4), Inr ())"
    using f1(4,5,6,7) by (auto simp: os_Rename_def node4 is_dir_def)
  have down: "as_Download fake_ops (JoinKey (dp_prefix deps) p) (aw_remote w) = Inr d"
    using assms(3) by (auto simp: fake_ops_def fake_Download_def fake_remote_def Let_def split: if_splits)
  let ?w = "w\<lparr>aw_db := db, aw_fs := fs_put full (NFile d m t) (fs_del ?tmp f4)\<rparr>"
  have commit: "restore_commit (env_at t) e ?tmp full p f4 w = (?w, Inr ())" by (simp add: restore_commit_def mark ren)
  have "Restore fake_ops deps (env_at t) tmp p w = (?w, Inr ())"
    using assms(1,2,4) f1(1,2) w1 w2 down commit
    by (cases "he_mode e = 0") (simp_all add: Restore_def Let_def assms(5,8) [symmetric] stage_def [symmetric] f4_def)
  moreover have "os_ReadFile (aw_fs ?w) full = Inr d" using ne by (simp add: os_ReadFile_def fs_node_put)
  moreover have "fs_node (aw_fs ?w) ?tmp = None" using f1(7) by (simp add: fs_node_put fs_node_del)
  moreover from EntryLookup_row [OF assms(1)] obtain r where r: "hr_path r = p" "e = toEntry r" "tbl_lookup hr_path p (hub_entry (aw_db w)) = Some r" by metis
  then have "EntryLookup no_faults p db = Inr (Some (e\<lparr>he_archive_state := ArchiveStateArchived, he_updated_at := t\<rparr>))"
    using mark by (auto simp: MarkArchived_def update_entry_def EntryLookup_def tbl_lookup_update toEntry_def digest_of_blob_def)
  ultimately show ?thesis by (intro exI [of _ ?w]) (simp add: stage_def)
qed

section \<open>Properties\<close>


text \<open>
  \<^verbatim>\<open>Evict\<close> never looks at the local bytes: whatever an unscanned edit has put into the local file, as long as
  the remote head agrees with the row, \<^verbatim>\<open>Evict\<close> succeeds, removes the edited file and a later \<^verbatim>\<open>Restore\<close> brings back
  the old archived content. The edit is lost.
\<close>

theorem evict_discards_unscanned_edit:
  assumes "EntryLookup no_faults p (aw_db w) = Inr (Some e)" "he_archive_state e = ArchiveStateArchived"
    and "head_agrees deps p e info d (aw_remote w)" "hash_sum (dp_hasher deps) d = he_digest e"
    and "restore_room deps tmp p (aw_fs w)" "fs_node (aw_fs w) (filepath_Join (dp_hub_dir deps) p) = Some (NFile edit m mt)" "edit \<noteq> d"
  shows "\<exists>w1 w2. Evict fake_ops deps (env_at t1) p w = (w1, Inr ()) \<and> Restore fake_ops deps (env_at t2) tmp p w1 = (w2, Inr ()) \<and>
    os_ReadFile (aw_fs w) (filepath_Join (dp_hub_dir deps) p) = Inr edit \<and> os_ReadFile (aw_fs w2) (filepath_Join (dp_hub_dir deps) p) = Inr d"
proof -
  let ?full = "filepath_Join (dp_hub_dir deps) p"
  have local: "is_file (aw_fs w) ?full" "os_ReadFile (aw_fs w) ?full = Inr edit" using assms(6) by (simp_all add: is_file_def os_ReadFile_def)
  from Evict_runs [OF assms(1-3) local(1), of t1] obtain db where
    ev: "Evict fake_ops deps (env_at t1) p w = (w\<lparr>aw_db := db, aw_fs := fs_del ?full (aw_fs w)\<rparr>, Inr ())"
    and look: "EntryLookup no_faults p db = Inr (Some (e\<lparr>he_archive_state := ArchiveStateUnpinned, he_updated_at := t1\<rparr>))" by blast
  let ?w1 = "w\<lparr>aw_db := db, aw_fs := fs_del ?full (aw_fs w)\<rparr>"
  obtain w2 where "Restore fake_ops deps (env_at t2) tmp p ?w1 = (w2, Inr ())" "os_ReadFile (aw_fs w2) ?full = Inr d"
    using local look Restore_runs [of p ?w1 "e\<lparr>he_archive_state := ArchiveStateUnpinned, he_updated_at := t1\<rparr>" deps info d ?full "aw_fs w" tmp t2] assms(3-5)
    by (auto simp: head_agrees_def)
  with ev local(2) show ?thesis by blast
qed

text \<open>A world whose one file is archived, and the same world after an edit of that file.\<close>

definition ex_pinned :: "FakeStorage ArchWorld" where
  "ex_pinned = fst (archiveOne fake_ops ex_deps (env_at 3) ''a'' ex_world)"

definition ex_pinned_entry :: HubEntry where
  "ex_pinned_entry = \<lparr>he_path = ''a'', he_kind = 0, he_digest = [9, 1, 2], he_size = 2, he_mode = 420, he_mtime = 7, he_version = 1,
     he_archive_state = ArchiveStateArchived, he_archive_file_id = ''fake-1'', he_archive_sha1 = [], he_archive_uploaded_at = 3, he_updated_at = 3\<rparr>"

lemma ex_pinned_row:
  "EntryLookup no_faults ''a'' (aw_db ex_pinned) = Inr (Some ex_pinned_entry)"
  "fake_remote (aw_remote ex_pinned) (JoinKey (dp_prefix ex_deps) ''a'') =
     Some (\<lparr>ri_file_id = ''fake-1'', ri_key = ''hub/a'', ri_size = 2, ri_digest = [9, 1, 2], ri_digest_algo = ''xxh128'',
       ri_content_sha1 = '''', ri_uploaded_at = 3\<rparr>, [1, 2])"
  "hash_sum (dp_hasher ex_deps) [1, 2] = he_digest ex_pinned_entry" "he_archive_state ex_pinned_entry = ArchiveStateArchived"
  by code_simp+

lemma ex_room: "restore_room ex_deps ''t'' ''a'' [([''hub''], NDir), ([''hub'', ''a''], n)]"
proof -
  have "filepath_Join (dp_hub_dir ex_deps) ''a'' = [''hub'', ''a'']" "dp_hub_dir ex_deps = [''hub'']" by code_simp+
  then show ?thesis by (auto simp: restore_room_def filepath_Dir_def prefix_Cons is_dir_def is_file_def fs_node_def)
qed


theorem evict_discards_unscanned_edit_witness:
  "\<exists>w1 w2. Evict fake_ops ex_deps (env_at 4) ''a'' (ex_pinned\<lparr>aw_fs := [([''hub''], NDir), ([''hub'', ''a''], NFile [7] 420 8)]\<rparr>) = (w1, Inr ()) \<and>
     Restore fake_ops ex_deps (env_at 5) ''t'' ''a'' w1 = (w2, Inr ()) \<and> os_ReadFile (aw_fs w2) (filepath_Join (dp_hub_dir ex_deps) ''a'') = Inr [1, 2]"
proof -
  let ?w = "ex_pinned\<lparr>aw_fs := [([''hub''], NDir), ([''hub'', ''a''], NFile [7] 420 8)]\<rparr>"
  have "fs_node (aw_fs ?w) (filepath_Join (dp_hub_dir ex_deps) ''a'') = Some (NFile [7] 420 8)" by code_simp
  moreover have "head_agrees ex_deps ''a'' ex_pinned_entry \<lparr>ri_file_id = ''fake-1'', ri_key = ''hub/a'', ri_size = 2, ri_digest = [9, 1, 2],
      ri_digest_algo = ''xxh128'', ri_content_sha1 = '''', ri_uploaded_at = 3\<rparr> [1, 2] (aw_remote ?w)"
    unfolding head_agrees_def using ex_pinned_row(2) by (simp add: ex_pinned_entry_def)
  moreover have "EntryLookup no_faults ''a'' (aw_db ?w) = Inr (Some ex_pinned_entry)" using ex_pinned_row(1) by simp
  moreover have "restore_room ex_deps ''t'' ''a'' (aw_fs ?w)" using ex_room by simp
  ultimately show ?thesis
    using evict_discards_unscanned_edit [of "''a''" ?w, OF _ ex_pinned_row(4) _ ex_pinned_row(3), of _ "''t''" "[7]" 420 8 4 5] by (metis list.inject list.distinct(1))
qed

end
