(* ===== verification/Archive_GC.thy ===== *)
theory Archive_GC
  imports Reconciler
begin

text \<open>
  Garbage collection of the bucket (\<^verbatim>\<open>archive_gc.go\<close>): one delimited listing, each entry classified
  against the file rows of \<^verbatim>\<open>hub_entry\<close>, orphans deleted. A listing is the list of entries its
  iterator yields, taken before the first deletion.
\<close>

section \<open>Types\<close>

datatype ArchiveGCAction = ArchiveGCKeep | ArchiveGCDelete | ArchiveGCDeleteSubtree

record ArchiveGCEntry =
  gc_kind :: string
  gc_key :: string
  gc_path :: string
  gc_claimed :: bool
  gc_action :: ArchiveGCAction
  gc_file_id :: string
  gc_size :: int
  gc_uploaded_at :: int
  gc_deleted :: bool
  gc_deleted_n :: int
  gc_error :: string

record ArchiveGCSummary =
  gs_orphan_files :: int
  gs_orphan_dirs :: int
  gs_kept_files :: int
  gs_kept_dirs :: int
  gs_deleted_files :: int
  gs_deleted_bytes :: int
  gs_errors :: int

definition zero_summary :: ArchiveGCSummary where
  "zero_summary = \<lparr>gs_orphan_files = 0, gs_orphan_dirs = 0, gs_kept_files = 0, gs_kept_dirs = 0,
     gs_deleted_files = 0, gs_deleted_bytes = 0, gs_errors = 0\<rparr>"

record claimSet =
  cs_file_keys :: "string list"
  cs_paths :: "string list"

record 'w ArchiveGC =
  ag_store :: "HubStore option"
  ag_storage :: "'w ArchiveStorage option"
  ag_prefix :: string

section \<open>Claims and classification\<close>

definition collectClaims :: "sql_faults \<Rightarrow> string \<Rightarrow> HubStore \<Rightarrow> claimSet res" where
  "collectClaims sql pre s =
     (case EntrySnapshot sql s of
        Inl e \<Rightarrow> Inl e
      | Inr rows \<Rightarrow>
          let files = filter (\<lambda>r. he_kind r = FileKindFile) rows in
          Inr \<lparr>cs_file_keys = map (\<lambda>r. JoinKey pre (he_path r)) files, cs_paths = map he_path files\<rparr>)"

definition hasDirClaim :: "claimSet \<Rightarrow> string \<Rightarrow> bool" where
  "hasDirClaim c hubRel = list_ex (\<lambda>p. HasPrefix p hubRel) (cs_paths c)"

definition classify :: "string \<Rightarrow> claimSet \<Rightarrow> RemoteInfo \<Rightarrow> ArchiveGCEntry" where
  "classify pre claims ri =
     (let key = ri_key ri;
          isDir = HasSuffix key ''/'' \<and> ri_file_id ri = '''';
          hubRel = (if HasPrefix key pre then drop (length pre) key else '''')
      in if isDir then
           let claimed = hubRel \<noteq> '''' \<and> hasDirClaim claims hubRel in
           \<lparr>gc_kind = ''dir'', gc_key = key, gc_path = hubRel, gc_claimed = claimed,
            gc_action = (if claimed then ArchiveGCKeep else ArchiveGCDeleteSubtree),
            gc_file_id = '''', gc_size = 0, gc_uploaded_at = 0, gc_deleted = False, gc_deleted_n = 0, gc_error = ''''\<rparr>
         else
           let claimed = key \<in> set (cs_file_keys claims) in
           \<lparr>gc_kind = ''file'', gc_key = key, gc_path = hubRel, gc_claimed = claimed,
            gc_action = (if claimed then ArchiveGCKeep else ArchiveGCDelete),
            gc_file_id = ri_file_id ri, gc_size = ri_size ri, gc_uploaded_at = ri_uploaded_at ri,
            gc_deleted = False, gc_deleted_n = 0, gc_error = ''''\<rparr>)"

section \<open>Deletion\<close>

text \<open>The loop of \<^verbatim>\<open>deleteSubtree\<close>: it goes on past errors and remembers the first one.\<close>

fun delete_loop :: "'w ArchiveStorage \<Rightarrow> RemoteInfo list \<Rightarrow> int \<Rightarrow> int \<Rightarrow> err option \<Rightarrow> 'w \<Rightarrow> 'w \<times> int \<times> int \<times> err option" where
  "delete_loop ops [] count bytes firstErr rem = (rem, count, bytes, firstErr)"
| "delete_loop ops (ri # ris) count bytes firstErr rem =
     (if ri_file_id ri = '''' then delete_loop ops ris count bytes firstErr rem
      else (case as_DeleteByKey ops (ri_key ri) (ri_file_id ri) rem of
              (rem', Inl e) \<Rightarrow>
                delete_loop ops ris count bytes (if firstErr = None then Some e else firstErr) rem'
            | (rem', Inr _) \<Rightarrow> delete_loop ops ris (count + 1) (bytes + ri_size ri) firstErr rem'))"

definition deleteSubtree :: "'w ArchiveStorage \<Rightarrow> string \<Rightarrow> 'w \<Rightarrow> 'w \<times> int \<times> int \<times> err option" where
  "deleteSubtree ops pre rem =
     (case as_ListKeys ops pre '''' rem of
        (entries, itErr) \<Rightarrow>
          (case delete_loop ops entries 0 0 None rem of
             (rem', count, bytes, firstErr) \<Rightarrow>
               (rem', count, bytes, case itErr of Some e \<Rightarrow> Some e | None \<Rightarrow> firstErr)))"

definition act :: "'w ArchiveStorage \<Rightarrow> ArchiveGCEntry \<Rightarrow> ArchiveGCSummary \<Rightarrow> 'w \<Rightarrow> 'w \<times> ArchiveGCEntry \<times> ArchiveGCSummary" where
  "act ops entry summary rem =
     (case gc_action entry of
        ArchiveGCKeep \<Rightarrow> (rem, entry, summary)
      | ArchiveGCDelete \<Rightarrow>
          (case as_DeleteByKey ops (gc_key entry) (gc_file_id entry) rem of
             (rem', Inl e) \<Rightarrow> (rem', entry\<lparr>gc_error := err_str e\<rparr>, summary\<lparr>gs_errors := gs_errors summary + 1\<rparr>)
           | (rem', Inr _) \<Rightarrow>
               (rem', entry\<lparr>gc_deleted := True\<rparr>,
                summary\<lparr>gs_deleted_files := gs_deleted_files summary + 1,
                        gs_deleted_bytes := gs_deleted_bytes summary + gc_size entry\<rparr>))
      | ArchiveGCDeleteSubtree \<Rightarrow>
          (case deleteSubtree ops (gc_key entry) rem of
             (rem', n, bytes, err) \<Rightarrow>
               let entry' = entry\<lparr>gc_deleted_n := n\<rparr>;
                   summary' = summary\<lparr>gs_deleted_files := gs_deleted_files summary + n,
                                      gs_deleted_bytes := gs_deleted_bytes summary + bytes\<rparr>
               in (case err of
                     Some e \<Rightarrow> (rem', entry'\<lparr>gc_error := err_str e\<rparr>, summary'\<lparr>gs_errors := gs_errors summary' + 1\<rparr>)
                   | None \<Rightarrow> (rem', entry'\<lparr>gc_deleted := True\<rparr>, summary'))))"

section \<open>The run\<close>

definition count_entry :: "ArchiveGCEntry \<Rightarrow> ArchiveGCSummary \<Rightarrow> ArchiveGCSummary" where
  "count_entry entry s =
     (case gc_action entry of
        ArchiveGCDelete \<Rightarrow> s\<lparr>gs_orphan_files := gs_orphan_files s + 1\<rparr>
      | ArchiveGCDeleteSubtree \<Rightarrow> s\<lparr>gs_orphan_dirs := gs_orphan_dirs s + 1\<rparr>
      | ArchiveGCKeep \<Rightarrow>
          if gc_kind entry = ''file'' then s\<lparr>gs_kept_files := gs_kept_files s + 1\<rparr>
          else s\<lparr>gs_kept_dirs := gs_kept_dirs s + 1\<rparr>)"

text \<open>The loop over the listing; the entries it emits come out in order.\<close>

fun gc_loop :: "'w ArchiveStorage \<Rightarrow> string \<Rightarrow> claimSet \<Rightarrow> bool \<Rightarrow> RemoteInfo list \<Rightarrow> ArchiveGCSummary \<Rightarrow> 'w \<Rightarrow>
    'w \<times> ArchiveGCEntry list \<times> ArchiveGCSummary" where
  "gc_loop ops pre claims dry [] summary rem = (rem, [], summary)"
| "gc_loop ops pre claims dry (ri # ris) summary rem =
     (case (if dry then (rem, classify pre claims ri, summary) else act ops (classify pre claims ri) summary rem) of
        (rem1, entry, summary1) \<Rightarrow>
          (case gc_loop ops pre claims dry ris (count_entry entry summary1) rem1 of
             (rem2, emitted, summary2) \<Rightarrow> (rem2, entry # emitted, summary2)))"

definition gc_Run :: "sql_faults \<Rightarrow> 'w ArchiveGC \<Rightarrow> string \<Rightarrow> bool \<Rightarrow> 'w \<Rightarrow> 'w \<times> ArchiveGCEntry list \<times> ArchiveGCSummary \<times> err option" where
  "gc_Run sql g pre dry rem =
     (case (ag_store g, ag_storage g) of
        (Some store, Some ops) \<Rightarrow>
          (case collectClaims sql (ag_prefix g) store of
             Inl e \<Rightarrow> (rem, [], zero_summary, Some (Wrap ''archive-gc: load hub_entry'' e))
           | Inr claims \<Rightarrow>
               (case as_ListKeys ops pre ''/'' rem of
                  (entries, itErr) \<Rightarrow>
                    (case gc_loop ops (ag_prefix g) claims dry entries zero_summary rem of
                       (rem', emitted, summary) \<Rightarrow>
                         (rem', emitted, summary,
                          case itErr of Some e \<Rightarrow> Some (Wrap (''archive-gc: list '' @ fmt_q pre) e) | None \<Rightarrow> None))))
      | _ \<Rightarrow> (rem, [], zero_summary, Some (Error_string ''archive-gc: store and storage required'')))"

section \<open>A claimed object survives\<close>

text \<open>A prefix in the form the classification expects: empty, or closed by a slash.\<close>

definition slash_prefix :: "string \<Rightarrow> bool" where
  "slash_prefix pre \<longleftrightarrow> pre = '''' \<or> HasSuffix pre ''/''"

lemma JoinKey_slash: "slash_prefix pre \<Longrightarrow> \<not> HasPrefix p ''/'' \<Longrightarrow> JoinKey pre p = pre @ p"
  by (auto simp: JoinKey_def Let_def TrimPrefix_id slash_prefix_def HasSuffix_iff)

lemma collectClaims_row:
  assumes "collectClaims sql pre s = Inr claims" "r \<in> set (hub_entry s)" "hr_kind r = FileKindFile"
  shows "JoinKey pre (hr_path r) \<in> set (cs_file_keys claims)" "hr_path r \<in> set (cs_paths claims)"
  using assms by (auto simp: collectClaims_def EntrySnapshot_def Let_def split: sum.splits option.splits intro!: image_eqI [of _ _ "toEntry r"])

lemma collectClaims_paths:
  assumes "collectClaims sql pre s = Inr claims"
  shows "q \<in> set (cs_paths claims) \<Longrightarrow> \<exists>r \<in> set (hub_entry s). hr_kind r = FileKindFile \<and> hr_path r = q"
    "k \<in> set (cs_file_keys claims) \<Longrightarrow> \<exists>q \<in> set (cs_paths claims). k = JoinKey pre q"
  using assms by (auto simp: collectClaims_def EntrySnapshot_def Let_def split: option.splits) blast+

context archive_storage
begin

lemma delete_loop_frame:
  assumes "inv rem" "k \<notin> ri_key ` set ris"
  shows "remote (fst (delete_loop ops ris c b fe rem)) k = remote rem k \<and> inv (fst (delete_loop ops ris c b fe rem))"
  using assms
proof (induction ris arbitrary: c b fe rem)
  case Nil
  then show ?case by simp
next
  case (Cons ri ris)
  obtain rem' r where del: "as_DeleteByKey ops (ri_key ri) (ri_file_id ri) rem = (rem', r)" by fastforce
  have "inv rem'" "remote rem' k = remote rem k"
    using delete_inv [OF Cons.prems(1), of "ri_key ri" "ri_file_id ri"]
      delete_frame [OF Cons.prems(1), of k "ri_key ri" "ri_file_id ri"] del Cons.prems(2) by auto
  with Cons show ?case by (auto simp: del split: sum.split)
qed

lemma deleteSubtree_frame:
  assumes "inv rem" "\<not> HasPrefix k pre"
  shows "remote (fst (deleteSubtree ops pre rem)) k = remote rem k \<and> inv (fst (deleteSubtree ops pre rem))"
proof -
  obtain entries er where list: "as_ListKeys ops pre '''' rem = (entries, er)" by fastforce
  have "k \<notin> ri_key ` set entries" using list_flat_entry [OF assms(1) list] assms(2) by auto
  from delete_loop_frame [OF assms(1) this, of 0 0 None] show ?thesis
    by (simp add: deleteSubtree_def list split: prod.split) (metis fst_conv)
qed

lemma act_frame:
  assumes "inv rem" "gc_action e = ArchiveGCDelete \<Longrightarrow> k \<noteq> gc_key e"
    and "gc_action e = ArchiveGCDeleteSubtree \<Longrightarrow> \<not> HasPrefix k (gc_key e)" "act ops e s rem = (rem', e', s')"
  shows "remote rem' k = remote rem k \<and> inv rem'"
proof (cases "gc_action e")
  case ArchiveGCKeep
  with assms show ?thesis by (simp add: act_def)
next
  case ArchiveGCDelete
  with assms delete_inv [OF assms(1), of "gc_key e" "gc_file_id e"] delete_frame [OF assms(1), of k "gc_key e" "gc_file_id e"]
  show ?thesis by (auto simp: act_def split: prod.splits sum.splits)
next
  case ArchiveGCDeleteSubtree
  with assms(1,3) have "remote (fst (deleteSubtree ops (gc_key e) rem)) k = remote rem k \<and> inv (fst (deleteSubtree ops (gc_key e) rem))"
    by (simp add: deleteSubtree_frame)
  moreover have "rem' = fst (deleteSubtree ops (gc_key e) rem)"
    using assms(4) ArchiveGCDeleteSubtree by (auto simp: act_def Let_def split: prod.splits option.splits)
  ultimately show ?thesis by simp
qed

lemma gc_loop_frame:
  assumes "inv rem"
    and "\<And>ri. ri \<in> set ris \<Longrightarrow> gc_action (classify pre claims ri) = ArchiveGCDelete \<Longrightarrow> k \<noteq> ri_key ri"
    and "\<And>ri. ri \<in> set ris \<Longrightarrow> gc_action (classify pre claims ri) = ArchiveGCDeleteSubtree \<Longrightarrow> \<not> HasPrefix k (ri_key ri)"
  shows "remote (fst (gc_loop ops pre claims dry ris s rem)) k = remote rem k \<and> inv (fst (gc_loop ops pre claims dry ris s rem))"
  using assms
proof (induction ris arbitrary: s rem)
  case Nil
  then show ?case by simp
next
  case (Cons ri ris)
  let ?e = "classify pre claims ri"
  obtain rem1 e1 s1 where step: "(if dry then (rem, ?e, s) else act ops ?e s rem) = (rem1, e1, s1)" by (metis prod_cases3)
  have "gc_key ?e = ri_key ri" by (simp add: classify_def Let_def)
  then have "remote rem1 k = remote rem k \<and> inv rem1"
    using act_frame [OF Cons.prems(1), of ?e k s rem1 e1 s1] step Cons.prems by (auto split: if_splits)
  with Cons.IH [of rem1 "count_entry e1 s1"] Cons.prems show ?case
    by (simp add: step split: prod.split) (metis fst_conv)
qed

lemma gc_Run_frame:
  assumes "inv rem" "slash_prefix (ag_prefix g)" "HasPrefix L (ag_prefix g)" "ag_store g = Some s" "ag_storage g = Some ops"
    and "r \<in> set (hub_entry s)" "hr_kind r = FileKindFile" "\<not> HasPrefix (hr_path r) ''/''"
  shows "remote (fst (gc_Run sql g L dry rem)) (JoinKey (ag_prefix g) (hr_path r)) = remote rem (JoinKey (ag_prefix g) (hr_path r))"
proof (cases "collectClaims sql (ag_prefix g) s")
  case (Inl e)
  with assms show ?thesis by (simp add: gc_Run_def)
next
  case (Inr claims)
  let ?pre = "ag_prefix g" and ?k = "JoinKey (ag_prefix g) (hr_path r)"
  obtain entries er where list: "as_ListKeys ops L ''/'' rem = (entries, er)" by fastforce
  have cl: "?k \<in> set (cs_file_keys claims)" "hr_path r \<in> set (cs_paths claims)"
    using collectClaims_row [OF Inr assms(6,7)] by auto
  have key: "?k = ?pre @ hr_path r" using assms(2,8) by (rule JoinKey_slash)
  have "\<not> HasPrefix ?k (ri_key ri)" if "ri \<in> set entries" "gc_action (classify ?pre claims ri) = ArchiveGCDeleteSubtree" for ri
  proof
    assume pk: "HasPrefix ?k (ri_key ri)"
    have "ri_file_id ri = ''''" using that(2) by (simp add: classify_def Let_def split: if_splits)
    with list_marker [OF assms(1) list that(1)] remote_key [OF assms(1)] obtain x where "ri_key ri = L @ x @ ''/''" by blast
    with assms(3) obtain y where y: "ri_key ri = ?pre @ y @ ''/''" by (auto simp: HasPrefix_iff)
    with pk key have "HasPrefix (hr_path r) (y @ ''/'')" by (auto simp: HasPrefix_iff)
    with cl(2) have "hasDirClaim claims (y @ ''/'')" by (auto simp: hasDirClaim_def list_ex_iff)
    with y that(2) show False by (simp add: classify_def Let_def split: if_splits)
  qed
  moreover have "?k \<noteq> ri_key ri" if "gc_action (classify ?pre claims ri) = ArchiveGCDelete" for ri
    using that cl(1) by (auto simp: classify_def Let_def split: if_splits)
  ultimately have "remote (fst (gc_loop ops ?pre claims dry entries zero_summary rem)) ?k = remote rem ?k"
    using gc_loop_frame [OF assms(1), of entries ?pre claims ?k dry zero_summary] by blast
  with Inr list assms(4,5) show ?thesis by (simp add: gc_Run_def split: prod.split) (metis fst_conv)
qed

lemma delete_loop_inv: "inv rem \<Longrightarrow> inv (fst (delete_loop ops ris c b fe rem))"
proof (induction ris arbitrary: c b fe rem)
  case Nil
  then show ?case by simp
next
  case (Cons ri ris)
  with delete_inv [OF Cons.prems, of "ri_key ri" "ri_file_id ri"] show ?case by (auto split: prod.split sum.split)
qed

lemma act_inv:
  assumes "inv rem"
  shows "inv (fst (act ops e s rem))"
proof -
  obtain entries er where list: "as_ListKeys ops (gc_key e) '''' rem = (entries, er)" by fastforce
  have "fst (deleteSubtree ops (gc_key e) rem) = fst (delete_loop ops entries 0 0 None rem)"
    by (simp add: deleteSubtree_def list split: prod.split)
  moreover have "fst (act ops e s rem) \<in> {rem, fst (as_DeleteByKey ops (gc_key e) (gc_file_id e) rem), fst (deleteSubtree ops (gc_key e) rem)}"
    by (simp add: act_def Let_def split: ArchiveGCAction.split prod.split sum.split option.split)
  ultimately show ?thesis
    using assms delete_inv [OF assms, of "gc_key e" "gc_file_id e"] delete_loop_inv [OF assms, of entries 0 0 None] by auto
qed

lemma gc_loop_inv: "inv rem \<Longrightarrow> inv (fst (gc_loop ops pre claims dry ris s rem))"
proof (induction ris arbitrary: s rem)
  case Nil
  then show ?case by simp
next
  case (Cons ri ris)
  obtain rem1 e1 s1 where step: "(if dry then (rem, classify pre claims ri, s) else act ops (classify pre claims ri) s rem) = (rem1, e1, s1)"
    by (metis prod_cases3)
  have "inv rem1" using act_inv [OF Cons.prems, of "classify pre claims ri" s] step Cons.prems by (auto split: if_splits)
  with Cons.IH [of rem1 "count_entry e1 s1"] show ?case by (auto simp: step split: prod.split)
qed

lemma gc_Run_inv: "inv rem \<Longrightarrow> ag_storage g = Some ops \<Longrightarrow> inv (fst (gc_Run sql g L dry rem))"
  using gc_loop_inv [of rem] by (auto simp: gc_Run_def split: option.split sum.split prod.split) (metis fst_conv)+

text \<open>Collection keeps the archive invariant of the world whose rows it read.\<close>

lemma gc_Run_backed:
  assumes "backed_world inv remote deps w" "slash_prefix (dp_prefix deps)" "HasPrefix L (dp_prefix deps)"
    and "g = \<lparr>ag_store = Some (aw_db w), ag_storage = Some ops, ag_prefix = dp_prefix deps\<rparr>"
  shows "backed_world inv remote deps (w\<lparr>aw_remote := fst (gc_Run sql g L dry (aw_remote w))\<rparr>)"
proof -
  have "remote (fst (gc_Run sql g L dry (aw_remote w))) (JoinKey (dp_prefix deps) (hr_path r)) = remote (aw_remote w) (JoinKey (dp_prefix deps) (hr_path r))"
    if "r \<in> set (hub_entry (aw_db w))" for r
    using gc_Run_frame [of "aw_remote w" g L "aw_db w" r sql dry] assms that by (auto simp: backed_world_def archive_backed_def)
  with assms(1,4) gc_Run_inv [of "aw_remote w" g] show ?thesis by (auto simp: backed_world_def archive_backed_def backed_row_def)
qed

end

section \<open>Orphans go\<close>

text \<open>On the in-memory store a deletion with the id of the listed head empties the key, and nothing comes back.\<close>

definition shrinks :: "FakeStorage \<Rightarrow> FakeStorage \<Rightarrow> bool" where
  "shrinks w w' \<longleftrightarrow> (\<forall>k v. fake_remote w' k = Some v \<longrightarrow> fake_remote w k = Some v)"

lemma shrinks_refl [simp]: "shrinks w w" by (simp add: shrinks_def)

lemma shrinks_trans: "shrinks a b \<Longrightarrow> shrinks b c \<Longrightarrow> shrinks a c" by (simp add: shrinks_def)

lemma shrinks_gone: "shrinks w w' \<Longrightarrow> fake_remote w k = None \<Longrightarrow> fake_remote w' k = None"
  by (metis not_Some_eq shrinks_def)

lemma fake_delete_shrinks: "shrinks w (fst (fake_DeleteByKey k want w))"
  by (auto simp: shrinks_def fake_remote_delete split: if_splits)

lemma fake_delete_head:
  assumes "\<forall>v. fake_remote w (ri_key ri) = Some v \<longrightarrow> fst v = ri"
  shows "fake_remote (fst (fake_DeleteByKey (ri_key ri) (ri_file_id ri) w)) (ri_key ri) = None"
  using assms by (auto simp: fake_DeleteByKey_def fake_remote_def Let_def versions_at_def delete_conv' split: if_splits)

lemma delete_loop_gone:
  assumes "\<forall>ri \<in> set ris. ri_file_id ri \<noteq> '''' \<and> (\<forall>v. fake_remote w (ri_key ri) = Some v \<longrightarrow> fst v = ri)"
  shows "shrinks w (fst (delete_loop fake_ops ris c b fe w)) \<and>
    (\<forall>ri \<in> set ris. fake_remote (fst (delete_loop fake_ops ris c b fe w)) (ri_key ri) = None)"
  using assms
proof (induction ris arbitrary: c b fe w)
  case Nil
  then show ?case by simp
next
  case (Cons ri ris)
  let ?d = "fake_DeleteByKey (ri_key ri) (ri_file_id ri) w"
  have sh: "shrinks w (fst ?d)" by (rule fake_delete_shrinks)
  have gone: "fake_remote (fst ?d) (ri_key ri) = None" using Cons.prems by (intro fake_delete_head) simp
  have "\<forall>x \<in> set ris. ri_file_id x \<noteq> '''' \<and> (\<forall>v. fake_remote (fst ?d) (ri_key x) = Some v \<longrightarrow> fst v = x)"
    using Cons.prems sh by (simp add: shrinks_def)
  note IH = Cons.IH [OF this]
  show ?case using Cons.prems IH sh gone
    by (auto simp: fake_ops_def split: prod.split sum.split) (metis fst_conv shrinks_gone shrinks_trans)+
qed

lemma deleteSubtree_gone:
  assumes "fake_inv w"
  shows "shrinks w (fst (deleteSubtree fake_ops pre w)) \<and> (HasPrefix k pre \<longrightarrow> fake_remote (fst (deleteSubtree fake_ops pre w)) k = None)"
proof -
  obtain entries where list: "as_ListKeys fake_ops pre '''' w = (entries, None)" by (simp add: fake_ops_def fake_ListKeys_def Let_def)
  have set: "set entries = {info. \<exists>k d. fake_remote w k = Some (info, d) \<and> HasPrefix k pre}" by (rule fake.list_flat [OF assms list])
  have "\<forall>ri \<in> set entries. ri_file_id ri \<noteq> '''' \<and> (\<forall>v. fake_remote w (ri_key ri) = Some v \<longrightarrow> fst v = ri)"
    using fake.remote_key [OF assms] by (auto simp: set)
  note loop = delete_loop_gone [OF this, of 0 0 None]
  have eq: "fst (deleteSubtree fake_ops pre w) = fst (delete_loop fake_ops entries 0 0 None w)"
    by (simp add: deleteSubtree_def list split: prod.split)
  have "fake_remote (fst (delete_loop fake_ops entries 0 0 None w)) k = None" if "HasPrefix k pre"
  proof (cases "fake_remote w k")
    case None
    with loop shrinks_gone show ?thesis by blast
  next
    case (Some v)
    then obtain info d where "fake_remote w k = Some (info, d)" by (cases v) auto
    with that loop fake.remote_key [OF assms this] set show ?thesis by fastforce
  qed
  with loop show ?thesis by (simp add: eq)
qed

lemma act_gone:
  assumes "fake_inv w" "act fake_ops e s w = (w', e', s')"
  shows "shrinks w w'"
    "gc_action e = ArchiveGCDelete \<Longrightarrow> \<forall>v. fake_remote w (gc_key e) = Some v \<longrightarrow> ri_file_id (fst v) = gc_file_id e \<Longrightarrow> fake_remote w' (gc_key e) = None"
    "gc_action e = ArchiveGCDeleteSubtree \<Longrightarrow> HasPrefix k (gc_key e) \<Longrightarrow> fake_remote w' k = None"
proof -
  have "w' \<in> {w, fst (fake_DeleteByKey (gc_key e) (gc_file_id e) w), fst (deleteSubtree fake_ops (gc_key e) w)}"
    using assms(2) by (auto simp: act_def Let_def fake_ops_def split: ArchiveGCAction.splits prod.splits sum.splits option.splits)
  then show "shrinks w w'" using fake_delete_shrinks deleteSubtree_gone [OF assms(1)] by auto
  show "fake_remote w' (gc_key e) = None" if "gc_action e = ArchiveGCDelete"
    "\<forall>v. fake_remote w (gc_key e) = Some v \<longrightarrow> ri_file_id (fst v) = gc_file_id e"
  proof -
    have "w' = fst (fake_DeleteByKey (gc_key e) (gc_file_id e) w)"
      using assms(2) that(1) by (auto simp: act_def fake_ops_def split: prod.splits sum.splits)
    then show ?thesis using that(2)
      by (auto simp: fake_DeleteByKey_def fake_remote_def Let_def versions_at_def delete_conv' split: if_splits)
  qed
  show "fake_remote w' k = None" if "gc_action e = ArchiveGCDeleteSubtree" "HasPrefix k (gc_key e)"
  proof -
    have "w' = fst (deleteSubtree fake_ops (gc_key e) w)"
      using assms(2) that(1) by (auto simp: act_def Let_def split: prod.splits option.splits)
    with deleteSubtree_gone [OF assms(1)] that(2) show ?thesis by simp
  qed
qed

lemma classify_sel [simp]: "gc_key (classify pre claims ri) = ri_key ri"
  by (simp add: classify_def Let_def)

lemma gc_loop_gone:
  assumes "fake_inv w"
    and "\<forall>ri \<in> set ris. gc_action (classify pre claims ri) = ArchiveGCDelete \<longrightarrow> (\<forall>v. fake_remote w (ri_key ri) = Some v \<longrightarrow> fst v = ri)"
  shows "shrinks w (fst (gc_loop fake_ops pre claims False ris s w)) \<and>
    (\<forall>ri \<in> set ris. (gc_action (classify pre claims ri) = ArchiveGCDelete \<longrightarrow> fake_remote (fst (gc_loop fake_ops pre claims False ris s w)) (ri_key ri) = None) \<and>
      (gc_action (classify pre claims ri) = ArchiveGCDeleteSubtree \<longrightarrow>
        (\<forall>k. HasPrefix k (ri_key ri) \<longrightarrow> fake_remote (fst (gc_loop fake_ops pre claims False ris s w)) k = None)))"
  using assms
proof (induction ris arbitrary: s w)
  case Nil
  then show ?case by simp
next
  case (Cons ri ris)
  let ?e = "classify pre claims ri"
  obtain w1 e1 s1 where step: "act fake_ops ?e s w = (w1, e1, s1)" by (metis prod_cases3)
  have inv1: "fake_inv w1" using fake.act_inv [OF Cons.prems(1), of ?e s] step by simp
  note gone = act_gone [OF Cons.prems(1) step]
  have "gc_file_id ?e = ri_file_id ri" if "gc_action ?e = ArchiveGCDelete" using that by (simp add: classify_def Let_def split: if_splits)
  then have del: "gc_action ?e = ArchiveGCDelete \<Longrightarrow> fake_remote w1 (ri_key ri) = None" using gone(2) Cons.prems(2) by auto
  have "\<forall>x \<in> set ris. gc_action (classify pre claims x) = ArchiveGCDelete \<longrightarrow> (\<forall>v. fake_remote w1 (ri_key x) = Some v \<longrightarrow> fst v = x)"
    using Cons.prems(2) gone(1) by (auto simp: shrinks_def)
  note IH = Cons.IH [OF inv1 this, of "count_entry e1 s1"]
  have eq: "fst (gc_loop fake_ops pre claims False (ri # ris) s w) = fst (gc_loop fake_ops pre claims False ris (count_entry e1 s1) w1)"
    by (simp add: step split: prod.split)
  let ?R = "fst (gc_loop fake_ops pre claims False ris (count_entry e1 s1) w1)"
  have sh: "shrinks w1 ?R" using IH by blast
  have head: "gc_action ?e = ArchiveGCDelete \<Longrightarrow> fake_remote ?R (ri_key ri) = None"
    "gc_action ?e = ArchiveGCDeleteSubtree \<Longrightarrow> HasPrefix k (ri_key ri) \<Longrightarrow> fake_remote ?R k = None" for k
    using del gone(3) [of k] shrinks_gone [OF sh] by simp_all
  show ?case unfolding eq
  proof (intro conjI ballI impI allI)
    show "shrinks w ?R" using shrinks_trans [OF gone(1) sh] .
    fix x assume "x \<in> set (ri # ris)"
    then consider "x = ri" | "x \<in> set ris" by auto
    then show "fake_remote ?R (ri_key x) = None" if "gc_action (classify pre claims x) = ArchiveGCDelete"
      using that head(1) IH by cases blast+
    fix k assume "gc_action (classify pre claims x) = ArchiveGCDeleteSubtree" "HasPrefix k (ri_key x)"
    with \<open>x \<in> set (ri # ris)\<close> head(2) IH show "fake_remote ?R k = None" by (metis set_ConsD)
  qed
qed

text \<open>A delimited listing of the in-memory store covers every key below its prefix.\<close>

lemma strings_Index_take: "strings_Index s sep = Some i \<Longrightarrow> prefix (take i s @ sep) s"
  using strings_Index_SomeD take_is_prefix by metis

lemma list_loop_covers:
  assumes "k \<in> set ks" "HasPrefix k pre"
  shows "fv_info (last (versions_at k w)) \<in> set (list_loop pre ''/'' w seen ks) \<or>
    (\<exists>x. HasPrefix k (pre @ x @ ''/'') \<and> (pre @ x @ ''/'' \<in> set seen \<or>
      (\<exists>ri \<in> set (list_loop pre ''/'' w seen ks). ri_file_id ri = '''' \<and> ri_key ri = pre @ x @ ''/'')))"
  using assms(1)
proof (induction ks arbitrary: seen)
  case Nil
  then show ?case by simp
next
  case (Cons j ks)
  let ?rest = "drop (length pre) k"
  have k: "k = pre @ ?rest" using assms(2) by (auto simp: HasPrefix_iff)
  show ?case
  proof (cases "j = k")
    case True
    show ?thesis
    proof (cases "strings_Index ?rest ''/''")
      case None
      with True assms(2) show ?thesis by (simp add: Let_def)
    next
      case (Some i)
      let ?x = "take i ?rest"
      have "take (i + length ''/'') ?rest = ?x @ ''/''" by (rule strings_Index_SomeD [OF Some])
      moreover have "HasPrefix k (pre @ ?x @ ''/'')" using strings_Index_take [OF Some] k by (metis HasPrefix_def append_assoc same_prefix_prefix)
      ultimately show ?thesis using True assms(2) Some by (intro disjI2 exI [of _ ?x]) (auto simp: Let_def simp del: HasPrefix_code)
    qed
  next
    case False
    with Cons.prems have "k \<in> set ks" by simp
    note IH = Cons.IH [OF this]
    let ?L = "list_loop pre ''/'' w seen (j # ks)"
    have "set (list_loop pre ''/'' w seen ks) \<subseteq> set ?L \<or>
        (\<exists>ri. ri_file_id ri = '''' \<and> ?L = ri # list_loop pre ''/'' w (ri_key ri # seen) ks)"
      by (auto simp: Let_def simp del: HasPrefix_code split: option.split)
    then show ?thesis
    proof
      assume "set (list_loop pre ''/'' w seen ks) \<subseteq> set ?L"
      with IH [of seen] show ?thesis by blast
    next
      assume "\<exists>ri. ri_file_id ri = '''' \<and> ?L = ri # list_loop pre ''/'' w (ri_key ri # seen) ks"
      then obtain ri where ri: "ri_file_id ri = ''''" "?L = ri # list_loop pre ''/'' w (ri_key ri # seen) ks" by blast
      show ?thesis unfolding ri(2) using IH [of "ri_key ri # seen"] ri(1) by (metis list.set_intros set_ConsD)
    qed
  qed
qed

lemma fake_list_covers:
  assumes "fake_inv w" "fake_remote w k = Some (info, d)" "HasPrefix k L" "as_ListKeys fake_ops L ''/'' w = (entries, er)"
  shows "info \<in> set entries \<or> (\<exists>x. \<exists>ri \<in> set entries. ri_file_id ri = '''' \<and> ri_key ri = L @ x @ ''/'' \<and> HasPrefix k (L @ x @ ''/''))"
proof -
  let ?ks = "sort (map fst (filter (\<lambda>kv. snd kv \<noteq> []) (fk_versions w)))"
  have "k \<in> set ?ks" using fake_keys [of w k] assms(1,2) unfolding set_sort by (auto simp: fake_inv_def fake_remote_def split: if_splits)
  moreover have "entries = list_loop L ''/'' w [] ?ks" using assms(4) by (simp add: fake_ops_def fake_ListKeys_def Let_def)
  moreover have "info = fv_info (last (versions_at k w))" using assms(2) by (auto simp: fake_remote_def split: if_splits)
  ultimately show ?thesis using list_loop_covers [OF _ assms(3), of ?ks w "[]"] by auto
qed

section \<open>Properties\<close>

text \<open>
  Garbage collection never deletes a claimed object. With a bucket prefix that is empty or ends in a slash and a
  listing at or below it, the object of every file row of \<^verbatim>\<open>hub_entry\<close> is the same after a run, dry or not, whatever
  else the bucket holds.
\<close>

theorem gc_keeps_claimed:
  assumes "fake_inv rem" "slash_prefix pre" "HasPrefix L pre" "EntryLookup no_faults p s = Inr (Some e)" "he_kind e = FileKindFile"
    and "\<not> HasPrefix p ''/''"
  shows "fake_remote (fst (gc_Run sql \<lparr>ag_store = Some s, ag_storage = Some fake_ops, ag_prefix = pre\<rparr> L dry rem)) (JoinKey pre p) =
    fake_remote rem (JoinKey pre p)"
proof -
  from EntryLookup_row [OF assms(4)] obtain r where "r \<in> set (hub_entry s)" "hr_path r = p" "e = toEntry r" by metis
  with fake.gc_Run_frame [of rem "\<lparr>ag_store = Some s, ag_storage = Some fake_ops, ag_prefix = pre\<rparr>" L s r sql dry] assms
  show ?thesis by simp
qed


text \<open>A hub with one archived file \<^verbatim>\<open>d/x\<close>, and a stray object beside it.\<close>

definition gc_deps :: "string \<Rightarrow> ArchiveTaskDeps" where
  "gc_deps pre = ex_deps\<lparr>dp_prefix := pre\<rparr>"

definition gc_world :: "string \<Rightarrow> FakeStorage ArchWorld" where
  "gc_world pre = fst (archiveOne fake_ops (gc_deps pre) (env_at 3) ''d/x''
     \<lparr>aw_db = fst (Append (env_at 2) \<lparr>ce_version = 0, ce_path = ''d/x'', ce_op = OpCreate, ce_kind = 0, ce_digest = [9, 1],
        ce_size = 1, ce_mode = 420, ce_mtime = 7\<rparr> empty_store),
      aw_fs = [([''hub''], NDir), ([''hub'', ''d''], NDir), ([''hub'', ''d'', ''x''], NFile [1] 420 7)],
      aw_remote = fst (fake_Upload 1 \<lparr>up_key = ''hub/old'', up_size = 1, up_mtime = None, up_source = [5], up_digest = [9, 5],
        up_digest_algo = ''xxh128'', up_content_sha1 = ''''\<rparr> NewFakeStorage)\<rparr>)"

definition gc_of :: "string \<Rightarrow> FakeStorage ArchiveGC" where
  "gc_of pre = \<lparr>ag_store = Some (aw_db (gc_world pre)), ag_storage = Some fake_ops, ag_prefix = pre\<rparr>"

lemma empty_fake_inv: "fake_inv NewFakeStorage"
  by (simp add: fake_inv_def NewFakeStorage_def versions_at_def)

lemma fake_archive_inv:
  assumes "fake_inv (aw_remote w)" "aw_db w = fst (Append en e empty_store)" "\<not> HasPrefix (ce_path e) ''/''" "ce_kind e = FileKindFile"
  shows "fake_inv (aw_remote (fst (archiveOne fake_ops deps en' p w)))"
proof -
  have "archive_backed (dp_prefix deps) (fake_remote (aw_remote w)) empty_store"
    using store_inv_empty by (simp add: archive_backed_def) (simp add: empty_store_def)
  from Append_backed [OF this assms(3,4)] assms(1,2) show ?thesis
    using fake.archiveOne_backed [of w deps en' p, OF _ _ prod.collapse [symmetric]] by metis
qed

lemma gc_world_inv: "fake_inv (aw_remote (gc_world pre))"
  unfolding gc_world_def
  by (rule fake_archive_inv, simp add: fake_inv_upload empty_fake_inv, simp) (simp_all add: FileKindFile_def)

theorem gc_keeps_claimed_witness:
  "fake_remote (fst (gc_Run no_faults (gc_of ''hub/'') ''hub/'' False (aw_remote (gc_world ''hub/'')))) ''hub/d/x'' =
     fake_remote (aw_remote (gc_world ''hub/'')) ''hub/d/x'' \<and> fake_remote (aw_remote (gc_world ''hub/'')) ''hub/d/x'' \<noteq> None"
proof -
  obtain e where e: "EntryLookup no_faults ''d/x'' (aw_db (gc_world ''hub/'')) = Inr (Some e)" "he_kind e = FileKindFile"
  proof -
    have "map_option he_kind (projr (EntryLookup no_faults ''d/x'' (aw_db (gc_world ''hub/'')))) = Some FileKindFile"
      "\<not> isl (EntryLookup no_faults ''d/x'' (aw_db (gc_world ''hub/'')))" by code_simp+
    then show ?thesis using that by (cases "EntryLookup no_faults ''d/x'' (aw_db (gc_world ''hub/''))") auto
  qed
  have "slash_prefix ''hub/''" "HasPrefix ''hub/'' ''hub/''" "\<not> HasPrefix ''d/x'' ''/''" "JoinKey ''hub/'' ''d/x'' = ''hub/d/x''" by code_simp+
  with gc_keeps_claimed [OF gc_world_inv _ _ e, of "''hub/''" "''hub/''" no_faults False] have
    "fake_remote (fst (gc_Run no_faults (gc_of ''hub/'') ''hub/'' False (aw_remote (gc_world ''hub/'')))) ''hub/d/x'' =
     fake_remote (aw_remote (gc_world ''hub/'')) ''hub/d/x''" by (simp add: gc_of_def)
  moreover have "fake_remote (aw_remote (gc_world ''hub/'')) ''hub/d/x'' \<noteq> None" by code_simp
  ultimately show ?thesis by blast
qed


text \<open>
  A bucket prefix without its trailing slash turns garbage collection against the hub. With the prefix \<^verbatim>\<open>hub\<close> the
  archiver stores \<^verbatim>\<open>d/x\<close> at \<^verbatim>\<open>hub/d/x\<close>, since \<^verbatim>\<open>JoinKey\<close> adds the missing slash; listing \<^verbatim>\<open>hub/\<close>, the key the command
  line derives for the root of the hub, \<^verbatim>\<open>classify\<close> cuts only \<^verbatim>\<open>hub\<close> off the directory and looks for claims below
  \<^verbatim>\<open>/d/\<close>: it finds none, and the object of a row that says it is archived is deleted, while a run with the prefix
  \<^verbatim>\<open>hub/\<close> keeps it.
\<close>

theorem gc_deletes_claimed_without_slash:
  "JoinKey ''hub'' '''' = ''hub/'' \<and> row_in ''d/x'' ArchiveStateArchived (aw_db (gc_world ''hub'')) \<and>
   fake_remote (aw_remote (gc_world ''hub'')) (JoinKey ''hub'' ''d/x'') \<noteq> None \<and>
   fake_remote (fst (gc_Run no_faults (gc_of ''hub'') (JoinKey ''hub'' '''') False (aw_remote (gc_world ''hub'')))) (JoinKey ''hub'' ''d/x'') = None \<and>
   fake_remote (fst (gc_Run no_faults (gc_of ''hub/'') (JoinKey ''hub/'' '''') False (aw_remote (gc_world ''hub/'')))) (JoinKey ''hub/'' ''d/x'') \<noteq> None"
proof -
  have "map_option hr_archive_state (tbl_lookup hr_path ''d/x'' (hub_entry (aw_db (gc_world ''hub'')))) = Some (Some ArchiveStateArchived)" by code_simp
  then have "row_in ''d/x'' ArchiveStateArchived (aw_db (gc_world ''hub''))" by (auto simp: row_in_def)
  moreover have "JoinKey ''hub'' '''' = ''hub/''" "fake_remote (aw_remote (gc_world ''hub'')) (JoinKey ''hub'' ''d/x'') \<noteq> None"
    "fake_remote (fst (gc_Run no_faults (gc_of ''hub'') (JoinKey ''hub'' '''') False (aw_remote (gc_world ''hub'')))) (JoinKey ''hub'' ''d/x'') = None"
    "fake_remote (fst (gc_Run no_faults (gc_of ''hub/'') (JoinKey ''hub/'' '''') False (aw_remote (gc_world ''hub/'')))) (JoinKey ''hub/'' ''d/x'') \<noteq> None"
    by code_simp+
  ultimately show ?thesis by blast
qed

end
