(* ===== verification/B2_Storage.thy ===== *)
theory B2_Storage
  imports Archive_GC
begin

text \<open>
  The production store (\<^verbatim>\<open>archive/b2store.go\<close>). The blazer client it wraps is a record of
  operations, a parameter of every definition; what hubsync relies on of it is the predicate
  \<open>blazer_ok\<close>. The wrapper meets the contract of \<open>archive_objects\<close> for every such client, and the
  stronger contract of the collector as long as no object is named like a directory.
\<close>

section \<open>The blazer client\<close>

text \<open>\<^verbatim>\<open>b2.Attrs\<close>; a nil \<^verbatim>\<open>Info\<close> map reads like an empty one.\<close>

record b2Attrs =
  ba_content_type :: string
  ba_info :: "(string \<times> string) list"
  ba_sha1 :: string
  ba_last_modified :: "int option"
  ba_size :: int
  ba_upload_timestamp :: int

text \<open>
  The calls of blazer. \<open>bz_copy\<close> is \<^verbatim>\<open>io.Copy\<close> into a new writer, \<open>bz_close\<close> its \<^verbatim>\<open>Close\<close>, which
  commits the version; \<open>bz_attrs\<close> gives \<^verbatim>\<open>obj.ID()\<close> with \<^verbatim>\<open>obj.Attrs\<close>. A listing gives the name of
  each object, what \<^verbatim>\<open>Attrs\<close> of it would return, and the error of the iterator.
\<close>

record 'b blazer =
  bz_copy :: "string \<Rightarrow> b2Attrs \<Rightarrow> bytes \<Rightarrow> 'b \<Rightarrow> 'b \<times> unit res"
  bz_close :: "string \<Rightarrow> b2Attrs \<Rightarrow> bytes \<Rightarrow> int \<Rightarrow> 'b \<Rightarrow> 'b \<times> unit res"
  bz_cancel :: "string \<Rightarrow> 'b \<Rightarrow> 'b"
  bz_attrs :: "string \<Rightarrow> 'b \<Rightarrow> (string \<times> b2Attrs) res"
  bz_read :: "string \<Rightarrow> 'b \<Rightarrow> bytes res"
  bz_auth_url :: "string \<Rightarrow> 'b \<Rightarrow> string res"
  bz_list :: "string \<Rightarrow> string \<Rightarrow> 'b \<Rightarrow> (string \<times> (string \<times> b2Attrs) res) list \<times> err option"
  bz_delete :: "string \<Rightarrow> string \<Rightarrow> 'b \<Rightarrow> 'b \<times> unit res"
  bz_not_exist :: "err \<Rightarrow> bool"

section \<open>The wrapper\<close>

definition MetaHubsyncDigest :: string where "MetaHubsyncDigest = ''hubsync_digest''"

definition MetaHubsyncDigestAlgo :: string where "MetaHubsyncDigestAlgo = ''hubsync_digest_algo''"

definition MetaSrcLastModifiedMS :: string where "MetaSrcLastModifiedMS = ''src_last_modified_millis''"

text \<open>
  \<^verbatim>\<open>B2Storage\<close> is the bucket handle with the prefix. \<open>newClient\<close> is \<^verbatim>\<open>b2.NewClient\<close> and \<open>bucketOf\<close> the client's
  \<^verbatim>\<open>Bucket\<close>.
\<close>

record B2Config =
  bc_key_id :: string
  bc_app_key :: string
  bc_bucket :: string
  bc_prefix :: string

record 'b B2Storage =
  b2_bucket :: "'b blazer"
  b2_prefix :: string

definition NewB2Storage :: "(string \<Rightarrow> string \<Rightarrow> 'cl res) \<Rightarrow> ('cl \<Rightarrow> string \<Rightarrow> 'b blazer res) \<Rightarrow> B2Config \<Rightarrow> 'b B2Storage res" where
  "NewB2Storage newClient bucketOf cfg =
     (if bc_key_id cfg = [] \<or> bc_app_key cfg = [] then Inl (Error_string ''archive/b2: missing KeyID/AppKey'')
      else if bc_bucket cfg = [] then Inl (Error_string ''archive/b2: missing bucket'')
      else case newClient (bc_key_id cfg) (bc_app_key cfg) of
        Inl e \<Rightarrow> Inl (Wrap ''archive/b2: auth'' e)
      | Inr client \<Rightarrow>
          (case bucketOf client (bc_bucket cfg) of
             Inl e \<Rightarrow> Inl (Wrap (''archive/b2: resolve bucket '' @ fmt_q (bc_bucket cfg)) e)
           | Inr bucket \<Rightarrow> Inr \<lparr>b2_bucket = bucket, b2_prefix = bc_prefix cfg\<rparr>))"

definition KeyFor :: "'b B2Storage \<Rightarrow> string \<Rightarrow> string" where
  "KeyFor s relPath = JoinKey (b2_prefix s) relPath"

text \<open>The attributes \<^verbatim>\<open>Upload\<close> sends; modification times are whole seconds.\<close>

definition upload_attrs :: "UploadRequest \<Rightarrow> b2Attrs" where
  "upload_attrs req =
     \<lparr>ba_content_type = ''application/octet-stream'',
      ba_info = [(MetaHubsyncDigest, Digest_Hex (up_digest req)), (MetaHubsyncDigestAlgo, up_digest_algo req)] @
        (case up_mtime req of None \<Rightarrow> [] | Some t \<Rightarrow> [(MetaSrcLastModifiedMS, fmt_d (1000 * t))]),
      ba_sha1 = up_content_sha1 req, ba_last_modified = up_mtime req, ba_size = 0, ba_upload_timestamp = 0\<rparr>"

definition toRemoteInfo :: "string \<Rightarrow> string \<Rightarrow> b2Attrs \<Rightarrow> RemoteInfo" where
  "toRemoteInfo key fileID a =
     \<lparr>ri_file_id = fileID, ri_key = key, ri_size = ba_size a,
      ri_digest = (case map_of (ba_info a) MetaHubsyncDigest of
          None \<Rightarrow> []
        | Some h \<Rightarrow> (case hex_DecodeString h of Inr b \<Rightarrow> b | Inl _ \<Rightarrow> [])),
      ri_digest_algo = (case map_of (ba_info a) MetaHubsyncDigestAlgo of None \<Rightarrow> '''' | Some algo \<Rightarrow> algo),
      ri_content_sha1 = ba_sha1 a, ri_uploaded_at = ba_upload_timestamp a\<rparr>"

definition b2_Upload :: "'b blazer \<Rightarrow> int \<Rightarrow> UploadRequest \<Rightarrow> 'b \<Rightarrow> 'b \<times> RemoteInfo res" where
  "b2_Upload bz now req b =
     (let key = up_key req; attrs = upload_attrs req in
      case bz_copy bz key attrs (up_source req) b of
        (b1, Inl e) \<Rightarrow>
          (bz_cancel bz key (fst (bz_close bz key attrs (up_source req) now b1)), Inl (Wrap ''archive/b2: upload stream'' e))
      | (b1, Inr _) \<Rightarrow>
          (case bz_close bz key attrs (up_source req) now b1 of
             (b2, Inl e) \<Rightarrow> (b2, Inl (Wrap ''archive/b2: upload close'' e))
           | (b2, Inr _) \<Rightarrow>
               (case bz_attrs bz key b2 of
                  Inl e \<Rightarrow> (b2, Inl (Wrap ''archive/b2: post-upload attrs'' e))
                | Inr (fid, got) \<Rightarrow> (b2, Inr (toRemoteInfo key fid got)))))"

definition b2_HeadByKey :: "'b blazer \<Rightarrow> string \<Rightarrow> 'b \<Rightarrow> RemoteInfo res" where
  "b2_HeadByKey bz key b =
     (case bz_attrs bz key b of
        Inl e \<Rightarrow> if bz_not_exist bz e then Inl (Sentinel ErrNotExist) else Inl (Wrap (''archive/b2: head '' @ fmt_q key) e)
      | Inr (fid, got) \<Rightarrow> Inr (toRemoteInfo key fid got))"

definition b2_Download :: "'b blazer \<Rightarrow> string \<Rightarrow> 'b \<Rightarrow> bytes res" where
  "b2_Download bz key b =
     (case bz_read bz key b of
        Inl e \<Rightarrow> Inl (Wrap (''archive/b2: download '' @ fmt_q key) e)
      | Inr d \<Rightarrow> Inr d)"

definition b2_PresignDownloadURL :: "'b blazer \<Rightarrow> string \<Rightarrow> 'b \<Rightarrow> string res" where
  "b2_PresignDownloadURL bz key b =
     (case bz_auth_url bz key b of
        Inl e \<Rightarrow> Inl (Wrap (''archive/b2: presign '' @ fmt_q key) e)
      | Inr u \<Rightarrow> Inr u)"

text \<open>
  The iterator run to its end: an object whose name ends in the delimiter is passed on as a marker
  without attributes; failing attributes end the listing, with an error of its own.
\<close>

fun b2_Next :: "string \<Rightarrow> (string \<times> (string \<times> b2Attrs) res) list \<Rightarrow> err option \<Rightarrow> RemoteInfo list \<times> err option" where
  "b2_Next delim [] er = ([], er)"
| "b2_Next delim ((name, attrs) # es) er =
     (if delim \<noteq> '''' \<and> HasSuffix name delim then
        (case b2_Next delim es er of (ris, er') \<Rightarrow>
           (\<lparr>ri_file_id = '''', ri_key = name, ri_size = 0, ri_digest = [], ri_digest_algo = '''', ri_content_sha1 = '''',
             ri_uploaded_at = 0\<rparr> # ris, er'))
      else
        case attrs of
          Inl _ \<Rightarrow> ([], Some (Error_string ''archive/b2: list iteration failed''))
        | Inr (fid, a) \<Rightarrow> (case b2_Next delim es er of (ris, er') \<Rightarrow> (toRemoteInfo name fid a # ris, er')))"

definition b2_ListKeys :: "'b blazer \<Rightarrow> string \<Rightarrow> string \<Rightarrow> 'b \<Rightarrow> RemoteInfo list \<times> err option" where
  "b2_ListKeys bz pre delim b = (case bz_list bz pre delim b of (es, er) \<Rightarrow> b2_Next delim es er)"

definition b2_DeleteByKey :: "'b blazer \<Rightarrow> string \<Rightarrow> string \<Rightarrow> 'b \<Rightarrow> 'b \<times> unit res" where
  "b2_DeleteByKey bz key wantFileID b =
     (case bz_attrs bz key b of
        Inl e \<Rightarrow> if bz_not_exist bz e then (b, Inr ()) else (b, Inl (Wrap (''archive/b2: delete-head '' @ fmt_q key) e))
      | Inr (fid, _) \<Rightarrow>
          if wantFileID \<noteq> '''' \<and> fid \<noteq> wantFileID
          then (b, Inl (Detail (Sentinel ErrFileIDMismatch) (''key='' @ key @ '' want='' @ wantFileID @ '' got='' @ fid)))
          else
            case bz_delete bz key fid b of
              (b', Inl e) \<Rightarrow> if bz_not_exist bz e then (b', Inr ()) else (b', Inl (Wrap (''archive/b2: delete '' @ fmt_q key) e))
            | (b', Inr _) \<Rightarrow> (b', Inr ()))"

definition b2_ops :: "'b blazer \<Rightarrow> 'b ArchiveStorage" where
  "b2_ops bz = \<lparr>as_Upload = b2_Upload bz, as_HeadByKey = b2_HeadByKey bz, as_Download = b2_Download bz,
     as_PresignDownloadURL = b2_PresignDownloadURL bz, as_ListKeys = b2_ListKeys bz, as_DeleteByKey = b2_DeleteByKey bz\<rparr>"

section \<open>What is relied on of blazer\<close>

text \<open>
  \<open>view b k\<close> is the head version at \<open>k\<close>: its id, its attributes as blazer reports them, its content.
  The documented behaviour: \<^verbatim>\<open>Close\<close> commits the bytes with the attributes given (blazer may add
  entries to \<^verbatim>\<open>Info\<close>) under a new id, and may fail after it has; a failed stream that is closed
  and cancelled creates no version; \<^verbatim>\<open>Attrs\<close> and the reader see the head version; a flat listing
  names every object under the prefix; a delete removes nothing but its own object.
\<close>

type_synonym b2_version = "string \<times> b2Attrs \<times> bytes"

definition stored_attrs :: "b2Attrs \<Rightarrow> bytes \<Rightarrow> b2Attrs \<Rightarrow> bool" where
  "stored_attrs sent data got \<longleftrightarrow> ba_size got = int (length data) \<and> (ba_sha1 sent \<noteq> '''' \<longrightarrow> ba_sha1 got = ba_sha1 sent) \<and>
     (\<forall>k v. map_of (ba_info sent) k = Some v \<longrightarrow> map_of (ba_info got) k = Some v)"

definition commits :: "('b \<Rightarrow> string \<Rightarrow> b2_version option) \<Rightarrow> string \<Rightarrow> b2Attrs \<Rightarrow> bytes \<Rightarrow> 'b \<Rightarrow> 'b \<Rightarrow> bool" where
  "commits view key attrs data b b' \<longleftrightarrow>
     (\<exists>fid got. view b' = (view b)(key \<mapsto> (fid, got, data)) \<and> stored_attrs attrs data got \<and> fid \<noteq> '''' \<and>
        (\<forall>k i a d. view b k = Some (i, a, d) \<longrightarrow> i \<noteq> fid))"

definition writer_ok :: "'b blazer \<Rightarrow> ('b \<Rightarrow> string \<Rightarrow> b2_version option) \<Rightarrow> ('b \<Rightarrow> bool) \<Rightarrow> bool" where
  "writer_ok bz view binv \<longleftrightarrow>
     (\<forall>key attrs data now b. binv b \<longrightarrow>
        (case bz_copy bz key attrs data b of
           (b1, Inl _) \<Rightarrow>
             let b3 = bz_cancel bz key (fst (bz_close bz key attrs data now b1)) in binv b3 \<and> view b3 = view b
         | (b1, Inr _) \<Rightarrow>
             (case bz_close bz key attrs data now b1 of
                (b2, Inl _) \<Rightarrow> binv b2 \<and> (view b2 = view b \<or> commits view key attrs data b b2)
              | (b2, Inr _) \<Rightarrow> binv b2 \<and> commits view key attrs data b b2)))"

definition object_ok :: "'b blazer \<Rightarrow> ('b \<Rightarrow> string \<Rightarrow> b2_version option) \<Rightarrow> ('b \<Rightarrow> bool) \<Rightarrow> bool" where
  "object_ok bz view binv \<longleftrightarrow>
     (\<forall>b key. binv b \<longrightarrow>
        (\<forall>e. bz_attrs bz key b = Inl e \<longrightarrow> \<not> errors_Is e ErrNotExist \<and> (bz_not_exist bz e \<longrightarrow> view b key = None)) \<and>
        (\<forall>fid a. bz_attrs bz key b = Inr (fid, a) \<longrightarrow> (\<exists>d. view b key = Some (fid, a, d))) \<and>
        (\<forall>d. bz_read bz key b = Inr d \<longrightarrow> (\<exists>fid a. view b key = Some (fid, a, d))) \<and>
        (\<forall>fid a d. view b key = Some (fid, a, d) \<longrightarrow> fid \<noteq> '''') \<and>
        (\<forall>fid k. binv (fst (bz_delete bz key fid b)) \<and> (k \<noteq> key \<longrightarrow> view (fst (bz_delete bz key fid b)) k = view b k)))"

definition list_ok :: "'b blazer \<Rightarrow> ('b \<Rightarrow> string \<Rightarrow> b2_version option) \<Rightarrow> ('b \<Rightarrow> bool) \<Rightarrow> bool" where
  "list_ok bz view binv \<longleftrightarrow>
     (\<forall>b pre. binv b \<longrightarrow>
        (\<forall>delim name r. (name, r) \<in> set (fst (bz_list bz pre delim b)) \<longrightarrow>
           (view b name \<noteq> None \<and> HasPrefix name pre \<and>
             (\<forall>fid a. r = Inr (fid, a) \<longrightarrow> (\<exists>d. view b name = Some (fid, a, d)))) \<or>
           (delim \<noteq> '''' \<and> (\<exists>x. name = pre @ x @ delim))) \<and>
        (snd (bz_list bz pre '''' b) = None \<longrightarrow>
           (\<forall>k. view b k \<noteq> None \<and> HasPrefix k pre \<longrightarrow> k \<in> fst ` set (fst (bz_list bz pre '''' b)))))"

definition blazer_ok :: "'b blazer \<Rightarrow> ('b \<Rightarrow> string \<Rightarrow> b2_version option) \<Rightarrow> ('b \<Rightarrow> bool) \<Rightarrow> bool" where
  "blazer_ok bz view binv \<longleftrightarrow> writer_ok bz view binv \<and> object_ok bz view binv \<and> list_ok bz view binv"

definition b2_remote :: "('b \<Rightarrow> string \<Rightarrow> b2_version option) \<Rightarrow> 'b \<Rightarrow> string \<Rightarrow> (RemoteInfo \<times> bytes) option" where
  "b2_remote view b k = map_option (\<lambda>(fid, a, d). (toRemoteInfo k fid a, d)) (view b k)"

section \<open>The wrapper meets the contract\<close>

lemma object_okD:
  assumes "object_ok bz view binv" "binv b"
  shows "bz_attrs bz key b = Inl e \<Longrightarrow> \<not> errors_Is e ErrNotExist"
    "bz_attrs bz key b = Inl e \<Longrightarrow> bz_not_exist bz e \<Longrightarrow> view b key = None"
    "bz_attrs bz key b = Inr (fid, a) \<Longrightarrow> \<exists>d. view b key = Some (fid, a, d)"
    "bz_read bz key b = Inr d \<Longrightarrow> \<exists>fid a. view b key = Some (fid, a, d)"
    "view b key = Some (fid, a, d) \<Longrightarrow> fid \<noteq> ''''"
    "binv (fst (bz_delete bz key fid b))"
    "k \<noteq> key \<Longrightarrow> view (fst (bz_delete bz key fid b)) k = view b k"
  using assms unfolding object_ok_def by blast+

lemma toRemoteInfo_sel [simp]:
  "ri_file_id (toRemoteInfo k i a) = i" "ri_key (toRemoteInfo k i a) = k" "ri_size (toRemoteInfo k i a) = ba_size a"
  "ri_content_sha1 (toRemoteInfo k i a) = ba_sha1 a"
  by (simp_all add: toRemoteInfo_def)

lemma hubsync_metadata_roundtrip:
  assumes "stored_attrs (upload_attrs req) (up_source req) got"
  shows "ri_digest (toRemoteInfo k i got) = up_digest req" "ri_digest_algo (toRemoteInfo k i got) = up_digest_algo req"
proof -
  have "map_of (ba_info (upload_attrs req)) MetaHubsyncDigest = Some (Digest_Hex (up_digest req))"
    "map_of (ba_info (upload_attrs req)) MetaHubsyncDigestAlgo = Some (up_digest_algo req)"
    by (simp_all add: upload_attrs_def MetaHubsyncDigest_def MetaHubsyncDigestAlgo_def)
  with assms have "map_of (ba_info got) MetaHubsyncDigest = Some (Digest_Hex (up_digest req))"
    "map_of (ba_info got) MetaHubsyncDigestAlgo = Some (up_digest_algo req)" by (auto simp: stored_attrs_def)
  then show "ri_digest (toRemoteInfo k i got) = up_digest req" "ri_digest_algo (toRemoteInfo k i got) = up_digest_algo req"
    by (simp_all add: toRemoteInfo_def hex_decode_encode)
qed

lemma stored_uploaded:
  assumes "stored_attrs (upload_attrs req) (up_source req) got" "fid \<noteq> ''''"
  shows "uploaded req (toRemoteInfo (up_key req) fid got)"
  using assms hubsync_metadata_roundtrip [OF assms(1)]
  by (simp add: uploaded_def stored_attrs_def) (simp add: upload_attrs_def)

lemma b2_remote_upd:
  "view b' = (view b)(k \<mapsto> (fid, got, d)) \<Longrightarrow> b2_remote view b' = (b2_remote view b)(k \<mapsto> (toRemoteInfo k fid got, d))"
  by (auto simp: b2_remote_def fun_eq_iff)

lemma b2_remote_cong: "view b' = view b \<Longrightarrow> b2_remote view b' = b2_remote view b"
  by (simp add: b2_remote_def fun_eq_iff)

lemma b2_remote_SomeD:
  "b2_remote view b k = Some (info, d) \<Longrightarrow> \<exists>fid a. view b k = Some (fid, a, d) \<and> info = toRemoteInfo k fid a"
  by (auto simp: b2_remote_def)

lemma commits_remote:
  assumes "commits view (up_key req) (upload_attrs req) (up_source req) b b'"
  shows "\<exists>fid got. view b' (up_key req) = Some (fid, got, up_source req) \<and>
    b2_remote view b' = (b2_remote view b)(up_key req \<mapsto> (toRemoteInfo (up_key req) fid got, up_source req)) \<and>
    uploaded req (toRemoteInfo (up_key req) fid got) \<and> (\<forall>k i d. b2_remote view b k = Some (i, d) \<longrightarrow> ri_file_id i \<noteq> fid)"
proof -
  obtain fid got where f: "view b' = (view b)(up_key req \<mapsto> (fid, got, up_source req))"
    "stored_attrs (upload_attrs req) (up_source req) got" "fid \<noteq> ''''" "\<forall>k i a d. view b k = Some (i, a, d) \<longrightarrow> i \<noteq> fid"
    using assms unfolding commits_def by blast
  have "\<forall>k i d. b2_remote view b k = Some (i, d) \<longrightarrow> ri_file_id i \<noteq> fid" using f(4) by (fastforce dest: b2_remote_SomeD)
  with b2_remote_upd [of view b' b, OF f(1)] stored_uploaded [OF f(2,3)] f(1) show ?thesis by auto
qed

text \<open>What an upload leaves behind, by its result.\<close>

lemma b2_upload_cases:
  assumes "writer_ok bz view binv" "binv b" "b2_Upload bz now req b = (b', r)"
  shows "binv b' \<and>
    ((\<exists>e. r = Inl e \<and> (view b' = view b \<or> commits view (up_key req) (upload_attrs req) (up_source req) b b')) \<or>
     (\<exists>fid got. r = Inr (toRemoteInfo (up_key req) fid got) \<and> bz_attrs bz (up_key req) b' = Inr (fid, got) \<and>
        commits view (up_key req) (upload_attrs req) (up_source req) b b'))"
proof -
  let ?k = "up_key req" and ?a = "upload_attrs req" and ?d = "up_source req"
  note w = assms(1) [unfolded writer_ok_def, rule_format, OF assms(2), of ?k ?a ?d now]
  obtain b1 rc where copy: "bz_copy bz ?k ?a ?d b = (b1, rc)" by fastforce
  obtain b2 rl where close: "bz_close bz ?k ?a ?d now b1 = (b2, rl)" by fastforce
  show ?thesis
  proof (cases rc)
    case (Inl e)
    with w assms(3) show ?thesis by (auto simp: b2_Upload_def copy close Let_def)
  next
    case rc: (Inr u)
    show ?thesis
    proof (cases rl)
      case (Inl e)
      with w assms(3) rc show ?thesis by (auto simp: b2_Upload_def copy close Let_def)
    next
      case (Inr u')
      with w assms(3) rc show ?thesis
        by (cases "bz_attrs bz ?k b2") (auto simp: b2_Upload_def copy close Let_def)
    qed
  qed
qed


lemma b2_Next_flat:
  "b2_Next '''' es er = (ris, er') \<Longrightarrow> ri \<in> set ris \<Longrightarrow> \<exists>name fid a. (name, Inr (fid, a)) \<in> set es \<and> ri = toRemoteInfo name fid a"
proof (induction es arbitrary: ris er')
  case (Cons e es)
  obtain name r where e: "e = (name, r)" by fastforce
  obtain ris' er'' where rest: "b2_Next '''' es er = (ris', er'')" by fastforce
  show ?case
  proof (cases r)
    case (Inl x)
    with Cons.prems e show ?thesis by simp
  next
    case (Inr ia)
    obtain i a where ia: "ia = (i, a)" by fastforce
    with Cons.prems e rest Inr have "ri = toRemoteInfo name i a \<or> ri \<in> set ris'" by auto
    with Cons.IH [OF rest] e Inr ia show ?thesis by auto
  qed
qed simp

lemma b2_Next_complete:
  "b2_Next '''' es er = (ris, None) \<Longrightarrow> er = None \<and> (\<forall>name r. (name, r) \<in> set es \<longrightarrow> name \<in> ri_key ` set ris)"
  by (induction es arbitrary: ris) (fastforce split: prod.splits sum.splits)+

lemma b2_Next_entry:
  "b2_Next delim es er = (ris, er') \<Longrightarrow> ri \<in> set ris \<Longrightarrow>
    (\<exists>name fid a. (name, Inr (fid, a)) \<in> set es \<and> (delim \<noteq> '''' \<longrightarrow> \<not> HasSuffix name delim) \<and> ri = toRemoteInfo name fid a) \<or>
    (\<exists>r. (ri_key ri, r) \<in> set es) \<and> ri_file_id ri = '''' \<and> HasSuffix (ri_key ri) delim"
  by (induction es arbitrary: ris er') (fastforce split: prod.splits sum.splits if_splits)+

lemma b2_flat_entry:
  assumes "list_ok bz view binv" "binv b" "b2_ListKeys bz pre '''' b = (ris, er)" "ri \<in> set ris"
  shows "(\<exists>d. b2_remote view b (ri_key ri) = Some (ri, d)) \<and> HasPrefix (ri_key ri) pre"
proof -
  obtain es er0 where es: "bz_list bz pre '''' b = (es, er0)" by fastforce
  with assms(3) have "b2_Next '''' es er0 = (ris, er)" by (simp add: b2_ListKeys_def)
  from b2_Next_flat [OF this assms(4)] obtain name fid a where n: "(name, Inr (fid, a)) \<in> set es" "ri = toRemoteInfo name fid a" by blast
  then have "HasPrefix name pre" "\<exists>d. view b name = Some (fid, a, d)"
    using assms(1,2) es unfolding list_ok_def by (metis fst_conv)+
  with n(2) show ?thesis by (auto simp: b2_remote_def)
qed

lemma b2_flat_listing:
  assumes "list_ok bz view binv" "binv b" "b2_ListKeys bz pre '''' b = (ris, None)"
  shows "set ris = {info. \<exists>k d. b2_remote view b k = Some (info, d) \<and> HasPrefix k pre}" (is "_ = ?all")
proof
  show "set ris \<subseteq> ?all" using b2_flat_entry [OF assms] by blast
  obtain es er0 where es: "bz_list bz pre '''' b = (es, er0)" by fastforce
  with assms(3) have "b2_Next '''' es er0 = (ris, None)" by (simp add: b2_ListKeys_def)
  note all = b2_Next_complete [OF this]
  show "?all \<subseteq> set ris"
  proof
    fix info
    assume "info \<in> ?all"
    then obtain k d where k: "b2_remote view b k = Some (info, d)" "HasPrefix k pre" by blast
    then have "view b k \<noteq> None" by (auto simp: b2_remote_def)
    then have "k \<in> fst ` set es" using assms(1,2) es all k(2) unfolding list_ok_def by (metis fst_conv snd_conv)
    then obtain ri where ri: "ri \<in> set ris" "ri_key ri = k" using all by force
    with b2_flat_entry [OF assms ri(1)] k(1) show "info \<in> set ris" by auto
  qed
qed

lemma b2_delete_state: "fst (b2_DeleteByKey bz k want b) = b \<or> (\<exists>i. fst (b2_DeleteByKey bz k want b) = fst (bz_delete bz k i b))"
proof (cases "bz_attrs bz k b")
  case (Inl e)
  then show ?thesis by (simp add: b2_DeleteByKey_def)
next
  case (Inr ia)
  obtain i a where ia: "ia = (i, a)" by fastforce
  obtain b' r where "bz_delete bz k i b = (b', r)" by fastforce
  then have "fst (b2_DeleteByKey bz k want b) \<in> {b, fst (bz_delete bz k i b)}"
    by (cases r) (simp_all add: b2_DeleteByKey_def Inr ia)
  then show ?thesis by blast
qed

lemma b2_delete_facts:
  assumes "object_ok bz view binv" "binv b"
  shows "binv (fst (b2_DeleteByKey bz k want b))"
    "j \<noteq> k \<Longrightarrow> view (fst (b2_DeleteByKey bz k want b)) j = view b j"
    "want \<noteq> '''' \<Longrightarrow> view b k = Some (fid, a, d) \<Longrightarrow> fid \<noteq> want \<Longrightarrow> \<exists>e. b2_DeleteByKey bz k want b = (b, Inl e)"
proof -
  show "binv (fst (b2_DeleteByKey bz k want b))" "j \<noteq> k \<Longrightarrow> view (fst (b2_DeleteByKey bz k want b)) j = view b j"
    using b2_delete_state [of bz k want b] object_okD(6,7) [OF assms] assms(2) by metis+

  show "\<exists>e. b2_DeleteByKey bz k want b = (b, Inl e)" if "want \<noteq> ''''" "view b k = Some (fid, a, d)" "fid \<noteq> want"
  proof (cases "bz_attrs bz k b")
    case (Inl e)
    with object_okD(2) [OF assms] that(2) have "\<not> bz_not_exist bz e" by fastforce
    with Inl show ?thesis by (simp add: b2_DeleteByKey_def)
  next
    case (Inr ia)
    obtain i a' where "ia = (i, a')" by fastforce
    with object_okD(3) [OF assms] Inr that(2) have "i = fid" by fastforce
    with Inr \<open>ia = (i, a')\<close> that show ?thesis by (simp add: b2_DeleteByKey_def)
  qed
qed

lemma b2_upload_result:
  assumes "writer_ok bz view binv" "object_ok bz view binv" "binv b" "b2_Upload bz now req b = (b', Inr info)"
  shows "b2_remote view b' = (b2_remote view b)(up_key req \<mapsto> (info, up_source req)) \<and> uploaded req info \<and>
    (\<forall>k i d. b2_remote view b k = Some (i, d) \<longrightarrow> ri_file_id i \<noteq> ri_file_id info)"
proof -
  from b2_upload_cases [OF assms(1,3,4)] obtain fid got where
    up: "binv b'" "info = toRemoteInfo (up_key req) fid got" "bz_attrs bz (up_key req) b' = Inr (fid, got)"
      "commits view (up_key req) (upload_attrs req) (up_source req) b b'" by auto
  then obtain d where "view b' (up_key req) = Some (fid, got, d)" using assms(2) unfolding object_ok_def by blast
  with commits_remote [OF up(4)] up(2) show ?thesis by auto
qed

text \<open>
  As long as no object is named like a directory, a listing with the delimiter is what the collector needs.
\<close>

lemma b2_list_marker:
  assumes "list_ok bz view binv" "binv b" "\<forall>k. view b k \<noteq> None \<longrightarrow> \<not> HasSuffix k ''/''"
    and "b2_ListKeys bz pre ''/'' b = (ris, er)" "ri \<in> set ris"
  shows "(\<exists>d. b2_remote view b (ri_key ri) = Some (ri, d)) \<and> HasPrefix (ri_key ri) pre \<or>
    ri_file_id ri = '''' \<and> (\<exists>x. ri_key ri = pre @ x @ ''/'')"
proof -
  obtain es er0 where es: "bz_list bz pre ''/'' b = (es, er0)" by fastforce
  have listed: "(view b name \<noteq> None \<and> HasPrefix name pre \<and> (\<forall>fid a. r = Inr (fid, a) \<longrightarrow> (\<exists>d. view b name = Some (fid, a, d)))) \<or>
      (\<exists>x. name = pre @ x @ ''/'')" if "(name, r) \<in> set es" for name r
    using assms(1,2) that es unfolding list_ok_def by (metis fst_conv)
  from es assms(4) have "b2_Next ''/'' es er0 = (ris, er)" by (simp add: b2_ListKeys_def)
  from b2_Next_entry [OF this assms(5)] show ?thesis
  proof (elim disjE exE conjE)
    fix name fid a
    assume "(name, Inr (fid, a)) \<in> set es" "''/'' \<noteq> '''' \<longrightarrow> \<not> HasSuffix name ''/''" "ri = toRemoteInfo name fid a"
    with listed [of name "Inr (fid, a)"] show ?thesis by (auto simp: b2_remote_def HasSuffix_iff)
  next
    fix r
    assume "(ri_key ri, r) \<in> set es" "ri_file_id ri = ''''" "HasSuffix (ri_key ri) ''/''"
    with listed [of "ri_key ri" r] assms(3) show ?thesis by blast
  qed
qed

section \<open>A bucket in memory\<close>

record mem_bucket =
  mb_counter :: nat
  mb_objects :: "(string \<times> b2_version) list"

definition mem_close :: "string \<Rightarrow> b2Attrs \<Rightarrow> bytes \<Rightarrow> int \<Rightarrow> mem_bucket \<Rightarrow> mem_bucket \<times> unit res" where
  "mem_close k a d now m =
     (let n = mb_counter m + 1 in
      (\<lparr>mb_counter = n, mb_objects = AList.update k (''4_z'' @ dec_digits n, a\<lparr>ba_size := int (length d), ba_upload_timestamp := now\<rparr>, d) (mb_objects m)\<rparr>,
       Inr ()))"

definition mem_missing :: err where "mem_missing = Error_string ''b2: not found''"

definition mem_attrs :: "string \<Rightarrow> mem_bucket \<Rightarrow> (string \<times> b2Attrs) res" where
  "mem_attrs k m = (case map_of (mb_objects m) k of None \<Rightarrow> Inl mem_missing | Some (fid, a, d) \<Rightarrow> Inr (fid, a))"

definition mem_entry :: "mem_bucket \<Rightarrow> string \<Rightarrow> string \<Rightarrow> string \<Rightarrow> string \<times> (string \<times> b2Attrs) res" where
  "mem_entry m pre delim k =
     (if delim = '''' then (k, mem_attrs k m)
      else case strings_Index (drop (length pre) k) delim of
        None \<Rightarrow> (k, mem_attrs k m)
      | Some i \<Rightarrow> (pre @ take (i + length delim) (drop (length pre) k), Inl mem_missing))"

definition mem_blazer :: "mem_bucket blazer" where
  "mem_blazer =
     \<lparr>bz_copy = \<lambda>k a d m. (m, Inr ()), bz_close = mem_close, bz_cancel = \<lambda>k m. m, bz_attrs = mem_attrs,
      bz_read = \<lambda>k m. case map_of (mb_objects m) k of None \<Rightarrow> Inl mem_missing | Some (fid, a, d) \<Rightarrow> Inr d,
      bz_auth_url = \<lambda>k m. Inr k,
      bz_list = \<lambda>pre delim m. (remdups (map (mem_entry m pre delim) (filter (\<lambda>k. HasPrefix k pre) (map fst (mb_objects m)))), None),
      bz_delete = \<lambda>k fid m. (m\<lparr>mb_objects := AList.delete k (mb_objects m)\<rparr>, Inr ()), bz_not_exist = \<lambda>e. e = mem_missing\<rparr>"

definition mem_view :: "mem_bucket \<Rightarrow> string \<Rightarrow> b2_version option" where
  "mem_view m = map_of (mb_objects m)"

definition mem_inv :: "mem_bucket \<Rightarrow> bool" where
  "mem_inv m \<longleftrightarrow> (\<forall>k fid a d. map_of (mb_objects m) k = Some (fid, a, d) \<longrightarrow> (\<exists>n \<le> mb_counter m. fid = ''4_z'' @ dec_digits n))"

lemma mem_writer_ok: "writer_ok mem_blazer mem_view mem_inv"
proof -
  have "mem_inv (fst (mem_close k a d now m)) \<and> commits mem_view k a d m (fst (mem_close k a d now m))" if inv: "mem_inv m" for k a d now m
  proof
    show "mem_inv (fst (mem_close k a d now m))"
      using inv unfolding mem_inv_def mem_close_def by (auto simp: Let_def update_conv') (metis le_SucI)
    have "i \<noteq> ''4_z'' @ dec_digits (mb_counter m + 1)" if obj: "map_of (mb_objects m) j = Some (i, a', d')" for j i a' d'
    proof -
      obtain n where "n \<le> mb_counter m" "i = ''4_z'' @ dec_digits n" using inv obj unfolding mem_inv_def by blast
      then show ?thesis using dec_digits_inj [of n "mb_counter m + 1"] by simp
    qed
    then show "commits mem_view k a d m (fst (mem_close k a d now m))" unfolding commits_def
      by (intro exI [of _ "''4_z'' @ dec_digits (mb_counter m + 1)"] exI [of _ "a\<lparr>ba_size := int (length d), ba_upload_timestamp := now\<rparr>"])
        (auto simp: mem_view_def mem_close_def Let_def update_conv' stored_attrs_def)
  qed
  then show ?thesis by (auto simp: writer_ok_def mem_blazer_def mem_close_def Let_def)
qed

lemma mem_object_ok: "object_ok mem_blazer mem_view mem_inv"
proof -
  have "mem_inv (m\<lparr>mb_objects := AList.delete k (mb_objects m)\<rparr>)" if "mem_inv m" for k m
    using that by (auto simp: mem_inv_def delete_conv')
  moreover have "fid \<noteq> ''''" if "mem_inv m" "mem_view m k = Some (fid, a, d)" for m k fid a d
    using that by (auto simp: mem_inv_def mem_view_def)
  ultimately show ?thesis
    by (auto simp: object_ok_def mem_blazer_def mem_view_def mem_attrs_def mem_missing_def delete_conv' split: option.splits)
qed

lemma mem_entry_cases:
  assumes "HasPrefix k pre" "map_of (mb_objects m) k = Some (fid, a, d)"
  shows "mem_entry m pre delim k = (k, Inr (fid, a)) \<or>
    (delim \<noteq> '''' \<and> (\<exists>x. mem_entry m pre delim k = (pre @ x @ delim, Inl mem_missing)))"
  using assms by (auto simp: mem_entry_def mem_attrs_def strings_Index_SomeD split: option.split)

lemma mem_listed:
  assumes "(name, r) \<in> set (fst (bz_list mem_blazer pre delim m))"
  shows "(mem_view m name \<noteq> None \<and> HasPrefix name pre \<and> (\<forall>fid a. r = Inr (fid, a) \<longrightarrow> (\<exists>d. mem_view m name = Some (fid, a, d)))) \<or>
    (delim \<noteq> '''' \<and> (\<exists>x. name = pre @ x @ delim))"
proof -
  from assms obtain k where k: "(name, r) = mem_entry m pre delim k" "HasPrefix k pre" "k \<in> fst ` set (mb_objects m)"
    by (auto simp: mem_blazer_def)
  then have "map_of (mb_objects m) k \<noteq> None" by (simp add: map_of_eq_None_iff)
  then obtain fid a d where s: "map_of (mb_objects m) k = Some (fid, a, d)" by auto
  from mem_entry_cases [OF k(2) s, of delim] s k show ?thesis by (auto simp: mem_view_def)
qed

lemma mem_list_ok: "list_ok mem_blazer mem_view mem_inv"
proof -
  have "k \<in> fst ` set (fst (bz_list mem_blazer pre '''' m))" if "mem_view m k \<noteq> None" "HasPrefix k pre" for m k pre
  proof -
    have "(k, mem_attrs k m) = mem_entry m pre '''' k" by (simp add: mem_entry_def)
    moreover have "k \<in> fst ` set (mb_objects m)" using that(1) by (simp add: mem_view_def map_of_eq_None_iff)
    ultimately have "(k, mem_attrs k m) \<in> set (fst (bz_list mem_blazer pre '''' m))" using that(2) by (auto simp: mem_blazer_def)
    then show ?thesis by force
  qed
  with mem_listed show ?thesis unfolding list_ok_def by blast
qed

section \<open>Properties\<close>

text \<open>
  C34: The Backblaze store keeps the contract the rest of the archive relies on. For every blazer client that behaves as
  documented, with its head versions seen through \<^verbatim>\<open>toRemoteInfo\<close>: an upload that succeeds makes its object the head version of its
  key and of no other, with the digest, algorithm and size it was given (the digest survives its way through the
  hexadecimal metadata) and a file id no object had before; an upload that fails leaves the bucket as it was or holding
  exactly that object; head, download and flat listings report head versions and nothing else, and report an object as
  missing only if it is; a delete touches no other key and refuses when the file id differs from the expected one.
\<close>

theorem b2_meets_contract:
  assumes "blazer_ok bz view binv"
  shows "archive_objects (b2_ops bz) (b2_remote view) binv"
proof unfold_locales
  have ok: "writer_ok bz view binv" "object_ok bz view binv" "list_ok bz view binv" using assms by (simp_all add: blazer_ok_def)
  fix w w' now req info e k j want d pre entries er
  assume inv: "binv w"
  note up = b2_upload_cases [OF ok(1) inv]
  note obj = object_okD [OF ok(2) inv]
  show "binv (fst (as_Upload (b2_ops bz) now req w))" using up [OF prod.collapse [symmetric]] by (simp add: b2_ops_def)
  show "b2_remote view w' = b2_remote view w \<or>
      (\<exists>info. b2_remote view w' = (b2_remote view w)(up_key req \<mapsto> (info, up_source req)) \<and> uploaded req info)"
    if "as_Upload (b2_ops bz) now req w = (w', Inl e)"
    using up [of now req w' "Inl e"] that commits_remote [of view req w w'] b2_remote_cong [of view w' w] by (auto simp: b2_ops_def)
  show "b2_remote view w' = (b2_remote view w)(up_key req \<mapsto> (info, up_source req)) \<and> uploaded req info \<and>
      (\<forall>k i d. b2_remote view w k = Some (i, d) \<longrightarrow> ri_file_id i \<noteq> ri_file_id info)"
    if "as_Upload (b2_ops bz) now req w = (w', Inr info)"
    using b2_upload_result [OF ok(1,2) inv] that by (simp add: b2_ops_def)
  show "\<exists>d. b2_remote view w k = Some (info, d)" if "as_HeadByKey (b2_ops bz) k w = Inr info"
    using that obj(3) [of k] by (fastforce simp: b2_ops_def b2_HeadByKey_def b2_remote_def split: sum.splits if_splits)
  show "b2_remote view w k = None" if "as_HeadByKey (b2_ops bz) k w = Inl e" "errors_Is e ErrNotExist"
    using that obj(1,2) [of k] by (auto simp: b2_ops_def b2_HeadByKey_def b2_remote_def split: sum.splits if_splits prod.splits)
  show "\<exists>info. b2_remote view w k = Some (info, d)" if "as_Download (b2_ops bz) k w = Inr d"
    using that obj(4) [of k] by (fastforce simp: b2_ops_def b2_Download_def b2_remote_def split: sum.splits)
  show "ri_key info = k \<and> ri_file_id info \<noteq> ''''" if "b2_remote view w k = Some (info, d)"
    using b2_remote_SomeD [OF that] obj(5) [of k] by auto
  show "set entries = {info. \<exists>k d. b2_remote view w k = Some (info, d) \<and> HasPrefix k pre}"
    if "as_ListKeys (b2_ops bz) pre '''' w = (entries, None)"
    using b2_flat_listing [OF ok(3) inv] that by (simp add: b2_ops_def)
  show "(\<exists>d. b2_remote view w (ri_key info) = Some (info, d)) \<and> HasPrefix (ri_key info) pre"
    if "as_ListKeys (b2_ops bz) pre '''' w = (entries, er)" "info \<in> set entries"
    using b2_flat_entry [OF ok(3) inv] that by (simp add: b2_ops_def)
  show "b2_remote view (fst (as_DeleteByKey (b2_ops bz) k want w)) j = b2_remote view w j" if "j \<noteq> k"
    using b2_delete_facts(2) [OF ok(2) inv that] by (simp add: b2_ops_def b2_remote_def)
  show "\<exists>w' e. as_DeleteByKey (b2_ops bz) k want w = (w', Inl e) \<and> b2_remote view w' = b2_remote view w"
    if "want \<noteq> ''''" "b2_remote view w k = Some (info, d)" "ri_file_id info \<noteq> want"
    using b2_remote_SomeD [OF that(2)] b2_delete_facts(3) [OF ok(2) inv that(1)] that(3) by (fastforce simp: b2_ops_def)
  show "binv (fst (as_DeleteByKey (b2_ops bz) k want w))" using b2_delete_facts(1) [OF ok(2) inv] by (simp add: b2_ops_def)
qed

definition ex_b2_request :: UploadRequest where
  "ex_b2_request = \<lparr>up_key = ''hub/a'', up_size = 2, up_mtime = Some 0, up_source = [1, 2], up_digest = [171, 5],
     up_digest_algo = ''xxh128'', up_content_sha1 = ''''\<rparr>"

definition ex_bucket :: mem_bucket where
  "ex_bucket = \<lparr>mb_counter = 0, mb_objects = []\<rparr>"

theorem b2_meets_contract_witness:
  "case as_Upload (b2_ops mem_blazer) 5 ex_b2_request ex_bucket of
     (m, Inl _) \<Rightarrow> False
   | (m, Inr info) \<Rightarrow> b2_remote mem_view m = (b2_remote mem_view ex_bucket)(''hub/a'' \<mapsto> (info, [1, 2])) \<and> ri_digest info = [171, 5]"
proof -
  have "blazer_ok mem_blazer mem_view mem_inv" by (simp add: blazer_ok_def mem_writer_ok mem_object_ok mem_list_ok)
  note contract = b2_meets_contract [OF this]
  have inv: "mem_inv ex_bucket" by (simp add: mem_inv_def ex_bucket_def)
  have "\<not> isl (snd (as_Upload (b2_ops mem_blazer) 5 ex_b2_request ex_bucket))" by code_simp
  then obtain m info where up: "as_Upload (b2_ops mem_blazer) 5 ex_b2_request ex_bucket = (m, Inr info)"
    by (cases "as_Upload (b2_ops mem_blazer) 5 ex_b2_request ex_bucket"; cases "snd (as_Upload (b2_ops mem_blazer) 5 ex_b2_request ex_bucket)") auto
  from archive_objects.upload_ok [OF contract inv up] up show ?thesis by (simp add: ex_b2_request_def uploaded_def)
qed

definition ex_placeholder :: UploadRequest where
  "ex_placeholder = ex_b2_request\<lparr>up_key := ''hub/'', up_size := 0, up_source := [], up_digest := []\<rparr>"

definition ex_b2_gc :: "mem_bucket ArchiveGC" where
  "ex_b2_gc = \<lparr>ag_store = Some (fst (Append (env_at 2) \<lparr>ce_version = 0, ce_path = ''a'', ce_op = OpCreate, ce_kind = 0, ce_digest = [171, 5],
     ce_size = 2, ce_mode = 420, ce_mtime = 7\<rparr> empty_store)), ag_storage = Some (b2_ops mem_blazer), ag_prefix = ''hub/''\<rparr>"

definition ex_archived_bucket :: "bool \<Rightarrow> mem_bucket" where
  "ex_archived_bucket placeholder =
     (let m = fst (b2_Upload mem_blazer 5 ex_b2_request ex_bucket) in
      if placeholder then fst (b2_Upload mem_blazer 6 ex_placeholder m) else m)"

text \<open>
  A placeholder object takes the archive with it. Tools that browse a bucket create empty objects whose key ends in a
  slash to show a folder. When such an object is named like the listed prefix, the wrapper reports it as a directory
  marker; the collector finds the hub-relative path of that marker empty, holds it for unclaimed, and deletes everything
  below it, the object of an archived row included. Without the placeholder the same run keeps the object.
\<close>

theorem placeholder_object_empties_archive:
  "mem_view (ex_archived_bucket True) (JoinKey ''hub/'' ''a'') \<noteq> None \<and>
   mem_view (fst (gc_Run no_faults ex_b2_gc ''hub/'' False (ex_archived_bucket True))) (JoinKey ''hub/'' ''a'') = None \<and>
   mem_view (fst (gc_Run no_faults ex_b2_gc ''hub/'' False (ex_archived_bucket False))) (JoinKey ''hub/'' ''a'') \<noteq> None"
proof (intro conjI)
  show "mem_view (ex_archived_bucket True) (JoinKey ''hub/'' ''a'') \<noteq> None" by code_simp
  show "mem_view (fst (gc_Run no_faults ex_b2_gc ''hub/'' False (ex_archived_bucket True))) (JoinKey ''hub/'' ''a'') = None" by code_simp
  show "mem_view (fst (gc_Run no_faults ex_b2_gc ''hub/'' False (ex_archived_bucket False))) (JoinKey ''hub/'' ''a'') \<noteq> None" by code_simp
qed

end
