(* ===== verification/Rpc.thy ===== *)
theory Rpc
  imports Reconciler Server
begin

text \<open>
  The local control interface (\<^verbatim>\<open>rpc.go\<close>): pin and unpin over a set of globs, the listing of the
  tree one level at a time, and the status counts. The socket and JSON are not modelled: a
  handler takes the decoded request, or the error of the decoder.
\<close>

section \<open>Paths and authorisation\<close>

definition RPCSocketName :: string where "RPCSocketName = ''serve.sock''"
definition HubDBName :: string where "HubDBName = ''hub.db''"
definition HubLockName :: string where "HubLockName = ''hub.lock''"

definition RPCSocketPath :: "fpath \<Rightarrow> fpath" where
  "RPCSocketPath hubDir = hubDir @ [''.hubsync'', RPCSocketName]"

definition HubDBPath :: "fpath \<Rightarrow> fpath" where
  "HubDBPath hubDir = hubDir @ [''.hubsync'', HubDBName]"

definition HubLockPath :: "fpath \<Rightarrow> fpath" where
  "HubLockPath hubDir = hubDir @ [''.hubsync'', HubLockName]"

definition rpc_auth :: "string \<Rightarrow> 'a http \<Rightarrow> string \<Rightarrow> 'a http" where
  "rpc_auth token next_response authorization =
     (if token \<noteq> '''' \<and> authorization \<noteq> ''Bearer '' @ token then HttpError 401 ''unauthorized''
      else next_response)"

section \<open>Pin and unpin\<close>

record PinRequest =
  pq_globs :: "string list"
  pq_dry :: bool

record PinResult =
  pr_path :: string
  pr_starting_state :: string
  pr_steps :: "string list"
  pr_error :: string
  pr_dry :: bool

definition ErrNoMatches :: string where "ErrNoMatches = ''no matches''"

fun step_str :: "PlanStep \<Rightarrow> string" where
  "step_str StepArchive = ''archive''"
| "step_str StepEvict = ''evict''"
| "step_str StepRestore = ''restore''"
| "step_str StepSeed = ''seed''"
| "step_str StepNoOp = ''noop''"

definition literalPrefix :: "string \<Rightarrow> string" where
  "literalPrefix g = takeWhile (\<lambda>c. c \<notin> {CHR ''*'', CHR ''?'', CHR ''['', CHR ''{'', CHR 0x5C}) g"

text \<open>The map the listings build: a later entry of the same key replaces an earlier one.\<close>

definition drain_list :: "RemoteInfo list \<Rightarrow> (string \<times> RemoteInfo) list \<Rightarrow> (string \<times> RemoteInfo) list" where
  "drain_list entries m = fold (\<lambda>e m. if ri_file_id e = '''' then m else AList.update (ri_key e) e m) entries m"

fun lookup_globs :: "'w ArchiveStorage \<Rightarrow> string \<Rightarrow> 'w \<Rightarrow> string list \<Rightarrow> (string \<times> RemoteInfo) list \<Rightarrow> string list \<Rightarrow>
    (string \<times> RemoteInfo) list res" where
  "lookup_globs ops pre rem seen m [] = Inr m"
| "lookup_globs ops pre rem seen m (g # gs) =
     (let p = JoinKey pre (literalPrefix g) in
      if p \<in> set seen then lookup_globs ops pre rem seen m gs
      else (case as_ListKeys ops p '''' rem of
              (entries, Some e) \<Rightarrow> Inl (Wrap (''list '' @ fmt_q p) e)
            | (entries, None) \<Rightarrow> lookup_globs ops pre rem (p # seen) (drain_list entries m) gs))"

definition remoteLookupForGlobs :: "'w ArchiveStorage \<Rightarrow> ArchiveTaskDeps \<Rightarrow> string list \<Rightarrow> 'w \<Rightarrow> (string \<times> RemoteInfo) list res" where
  "remoteLookupForGlobs ops deps globs rem = lookup_globs ops (dp_prefix deps) rem [] [] globs"

text \<open>What one path of a run meets: the database as the planner sees it, the environment of each step and the staged name.\<close>

record path_env =
  pe_sql :: sql_faults
  pe_envs :: "nat \<Rightarrow> env"
  pe_tmp :: string

definition plan_for :: "TargetState \<Rightarrow> ArchiveTaskDeps \<Rightarrow> sql_faults \<Rightarrow> string \<Rightarrow> 'w ArchWorld \<Rightarrow> Plan \<times> err option" where
  "plan_for target deps sql p w =
     (case target of TargetArchived \<Rightarrow> PlanPin deps sql p w | TargetUnpinned \<Rightarrow> PlanUnpin deps sql p w)"

definition reconcile_path :: "'w ArchiveStorage \<Rightarrow> ArchiveTaskDeps \<Rightarrow> path_env \<Rightarrow> TargetState \<Rightarrow> bool \<Rightarrow> (string \<times> RemoteInfo) list option \<Rightarrow>
    string \<Rightarrow> 'w ArchWorld \<Rightarrow> 'w ArchWorld \<times> PinResult" where
  "reconcile_path ops deps pe target dry m p w =
     (case plan_for target deps (pe_sql pe) p w of
        (plan, planErr) \<Rightarrow>
          let res = \<lparr>pr_path = p, pr_starting_state = pl_starting_state plan, pr_steps = map step_str (pl_steps plan),
                     pr_error = '''', pr_dry = dry\<rparr>
          in (case planErr of
                Some e \<Rightarrow> (w, res\<lparr>pr_error := err_str e\<rparr>)
              | None \<Rightarrow>
                  if dry then (w, res)
                  else (case Apply ops deps (pe_envs pe) m (pe_tmp pe) plan w of
                          (w', Inl e) \<Rightarrow> (w', res\<lparr>pr_error := err_str e\<rparr>)
                        | (w', Inr _) \<Rightarrow> (w', res))))"

fun reconcile_paths :: "'w ArchiveStorage \<Rightarrow> ArchiveTaskDeps \<Rightarrow> (nat \<Rightarrow> path_env) \<Rightarrow> TargetState \<Rightarrow> bool \<Rightarrow> (string \<times> RemoteInfo) list option \<Rightarrow>
    string list \<Rightarrow> 'w ArchWorld \<Rightarrow> 'w ArchWorld \<times> PinResult list" where
  "reconcile_paths ops deps pes target dry m [] w = (w, [])"
| "reconcile_paths ops deps pes target dry m (p # ps) w =
     (case reconcile_path ops deps (pes 0) target dry m p w of
        (w1, r) \<Rightarrow>
          (case reconcile_paths ops deps (\<lambda>i. pes (Suc i)) target dry m ps w1 of
             (w2, rs) \<Rightarrow> (w2, r # rs)))"

definition RunReconcile :: "'w ArchiveStorage \<Rightarrow> ArchiveTaskDeps \<Rightarrow> sql_faults \<Rightarrow> glob_match \<Rightarrow> (nat \<Rightarrow> path_env) \<Rightarrow> PinRequest \<Rightarrow> TargetState \<Rightarrow>
    'w ArchWorld \<Rightarrow> 'w ArchWorld \<times> PinResult list res" where
  "RunReconcile ops deps sql glob pes req target w =
     (case MatchGlobs sql glob (pq_globs req) (aw_db w) of
        Inl e \<Rightarrow> (w, Inl e)
      | Inr [] \<Rightarrow> (w, Inl (Sentinel ErrNoMatches))
      | Inr matches \<Rightarrow>
          let run = (\<lambda>m. case reconcile_paths ops deps pes target (pq_dry req) m matches w of (w', rs) \<Rightarrow> (w', Inr rs)) in
          if target = TargetUnpinned \<and> \<not> pq_dry req
          then (case remoteLookupForGlobs ops deps (pq_globs req) (aw_remote w) of
                  Inl e \<Rightarrow> (w, Inl e)
                | Inr m \<Rightarrow> run (Some m))
          else run None)"

text \<open>A hub without an archive section has no reconciler.\<close>

definition handleReconcile :: "('w ArchiveStorage \<times> ArchiveTaskDeps) option \<Rightarrow> sql_faults \<Rightarrow> glob_match \<Rightarrow> (nat \<Rightarrow> path_env) \<Rightarrow> PinRequest res \<Rightarrow>
    TargetState \<Rightarrow> 'w ArchWorld \<Rightarrow> 'w ArchWorld \<times> PinResult list http" where
  "handleReconcile reconciler sql glob pes request target w =
     (case reconciler of
        None \<Rightarrow> (w, HttpError 503 ''archive not configured ([archive] section missing from .hubsync/config.toml)'')
      | Some (ops, deps) \<Rightarrow>
     (case request of
        Inl _ \<Rightarrow> (w, HttpError 400 ''bad request'')
      | Inr req \<Rightarrow>
          if pq_globs req = [] then (w, HttpError 400 ''globs required'')
          else (case RunReconcile ops deps sql glob pes req target w of
                  (w', Inl e) \<Rightarrow> (w', HttpError (if errors_Is e ErrNoMatches then 404 else 400) (err_str e))
                | (w', Inr resp) \<Rightarrow> (w', HttpOK resp))))"

definition handlePin :: "('w ArchiveStorage \<times> ArchiveTaskDeps) option \<Rightarrow> sql_faults \<Rightarrow> glob_match \<Rightarrow> (nat \<Rightarrow> path_env) \<Rightarrow> PinRequest res \<Rightarrow>
    'w ArchWorld \<Rightarrow> 'w ArchWorld \<times> PinResult list http" where
  "handlePin reconciler sql glob pes request w = handleReconcile reconciler sql glob pes request TargetArchived w"

definition handleUnpin :: "('w ArchiveStorage \<times> ArchiveTaskDeps) option \<Rightarrow> sql_faults \<Rightarrow> glob_match \<Rightarrow> (nat \<Rightarrow> path_env) \<Rightarrow> PinRequest res \<Rightarrow>
    'w ArchWorld \<Rightarrow> 'w ArchWorld \<times> PinResult list http" where
  "handleUnpin reconciler sql glob pes request w = handleReconcile reconciler sql glob pes request TargetUnpinned w"

section \<open>Listing\<close>

record LsRequest =
  lq_prefix :: string
  lq_all :: bool

text \<open>The two collections of the loop of \<^verbatim>\<open>DelimitedEntries\<close>: rows at the level, and the directories below it.\<close>

definition level_of :: "string \<Rightarrow> HubEntry \<Rightarrow> string option" where
  "level_of pre r =
     (if \<not> HasPrefix (he_path r) pre then None
      else let rest = drop (length pre) (he_path r) in if rest = '''' then None else Some rest)"

definition level_dir :: "string \<Rightarrow> HubEntry \<Rightarrow> string option" where
  "level_dir pre r =
     (case level_of pre r of
        Some rest \<Rightarrow> map_option (\<lambda>idx. pre @ take (idx + 1) rest) (strings_Index rest ''/'')
      | None \<Rightarrow> None)"

definition dir_entry :: "string \<Rightarrow> HubEntry" where
  "dir_entry p = \<lparr>he_path = p, he_kind = FileKindDirectory, he_digest = [], he_size = 0, he_mode = 0, he_mtime = 0, he_version = 0,
     he_archive_state = ArchiveStateNull, he_archive_file_id = '''', he_archive_sha1 = [], he_archive_uploaded_at = 0, he_updated_at = 0\<rparr>"

definition DelimitedEntries :: "HubEntry list \<Rightarrow> string \<Rightarrow> HubEntry list" where
  "DelimitedEntries rows pre =
     (let files = filter (\<lambda>r. case level_of pre r of Some rest \<Rightarrow> strings_Index rest ''/'' = None | None \<Rightarrow> False) rows;
          dirs = remdups (List.map_filter (level_dir pre) rows)
      in sort_key he_path (files @ map dir_entry dirs))"

definition LocalLs :: "sql_faults \<Rightarrow> LsRequest \<Rightarrow> HubStore \<Rightarrow> HubEntry list res" where
  "LocalLs sql req s =
     (if lq_all req then
        (case EntrySnapshot sql s of
           Inl e \<Rightarrow> Inl e
         | Inr entries \<Rightarrow> Inr (sort_key he_path entries))
      else
        (case EntriesByPrefix sql (lq_prefix req) s of
           Inl e \<Rightarrow> Inl e
         | Inr entries \<Rightarrow> Inr (DelimitedEntries entries (lq_prefix req))))"

section \<open>Status\<close>

record ArchiveCounts =
  ac_count :: int
  ac_bytes :: int

record StatusResponse =
  st_files :: int
  st_dirs :: int
  st_archive :: ArchiveCounts
  st_dirty :: ArchiveCounts
  st_unpinned :: ArchiveCounts
  st_null :: ArchiveCounts

definition zero_counts :: ArchiveCounts where "zero_counts = \<lparr>ac_count = 0, ac_bytes = 0\<rparr>"

definition add_count :: "HubEntry \<Rightarrow> ArchiveCounts \<Rightarrow> ArchiveCounts" where
  "add_count e c = \<lparr>ac_count = ac_count c + 1, ac_bytes = ac_bytes c + he_size e\<rparr>"

definition status_entry :: "HubEntry \<Rightarrow> StatusResponse \<Rightarrow> StatusResponse" where
  "status_entry e out =
     (let out1 = (if he_kind e = FileKindFile then out\<lparr>st_files := st_files out + 1\<rparr>
                  else if he_kind e = FileKindDirectory then out\<lparr>st_dirs := st_dirs out + 1\<rparr> else out)
      in if he_kind e \<noteq> FileKindFile then out1
         else (case he_archive_state e of
                 ArchiveStateArchived \<Rightarrow> out1\<lparr>st_archive := add_count e (st_archive out1)\<rparr>
               | ArchiveStateDirty \<Rightarrow> out1\<lparr>st_dirty := add_count e (st_dirty out1)\<rparr>
               | ArchiveStateUnpinned \<Rightarrow> out1\<lparr>st_unpinned := add_count e (st_unpinned out1)\<rparr>
               | ArchiveStateNull \<Rightarrow> out1\<lparr>st_null := add_count e (st_null out1)\<rparr>))"

definition LocalStatus :: "sql_faults \<Rightarrow> HubStore \<Rightarrow> StatusResponse res" where
  "LocalStatus sql s =
     (case EntrySnapshot sql s of
        Inl e \<Rightarrow> Inl e
      | Inr entries \<Rightarrow>
          Inr (fold status_entry entries
            \<lparr>st_files = 0, st_dirs = 0, st_archive = zero_counts, st_dirty = zero_counts, st_unpinned = zero_counts, st_null = zero_counts\<rparr>))"

definition handleStatus :: "sql_faults \<Rightarrow> HubStore \<Rightarrow> StatusResponse http" where
  "handleStatus sql s =
     (case LocalStatus sql s of
        Inl e \<Rightarrow> HttpError 500 (err_str e)
      | Inr out \<Rightarrow> HttpOK out)"

section \<open>A path's steps touch only its own row and object\<close>

lemma mark_row_other:
  "q \<noteq> p \<Longrightarrow> tbl_lookup hr_path q (hub_entry (fst (MarkArchived en p fid sha t s))) = tbl_lookup hr_path q (hub_entry s)"
  "q \<noteq> p \<Longrightarrow> tbl_lookup hr_path q (hub_entry (fst (MarkUnpinned en p s))) = tbl_lookup hr_path q (hub_entry s)"
  by (auto simp: MarkArchived_def MarkUnpinned_def update_entry_def tbl_lookup_update split: option.split)

lemma Append_row_other:
  "q \<noteq> ce_path e \<Longrightarrow> tbl_lookup hr_path q (hub_entry (fst (Append en e s))) = tbl_lookup hr_path q (hub_entry s)"
  using Append_result [of en e s] by (auto simp: lookup_apply_entry_row)

lemma Archive_db:
  "aw_db (fst (Archive ops deps en p w)) = aw_db w \<or>
   (\<exists>fid sha t. aw_db (fst (Archive ops deps en p w)) = fst (MarkArchived en p fid sha t (aw_db w)))"
  by (auto simp: Archive_def Let_def split: sum.split option.split prod.split) (metis fst_conv)+

lemma seedRow_db:
  "aw_db (fst (seedRow deps en p w)) = aw_db w \<or> (\<exists>e. ce_path e = p \<and> aw_db (fst (seedRow deps en p w)) = fst (Append en e (aw_db w)))"
  by (auto simp: seedRow_def Let_def split: sum.split prod.split) (metis ChangeEntry.select_convs(2) fst_conv)+

lemma apply_step_row_other:
  assumes "q \<noteq> p"
  shows "tbl_lookup hr_path q (hub_entry (aw_db (fst (apply_step ops deps en m tmp p step w)))) = tbl_lookup hr_path q (hub_entry (aw_db w))"
proof (cases step)
  case StepArchive
  then show ?thesis using Archive_db [of ops deps en p w] mark_row_other [OF assms] by (auto simp: apply_step_def split_beta)
next
  case StepEvict
  then show ?thesis using evictWith_db [OF prod.collapse [symmetric], of ops deps en m p w] mark_row_other [OF assms]
    by (auto simp: apply_step_def split_beta)
next
  case StepRestore
  then show ?thesis using Restore_db [OF prod.collapse [symmetric], of ops deps en tmp p w] mark_row_other [OF assms]
    by (auto simp: apply_step_def split_beta)
next
  case StepSeed
  then show ?thesis using seedRow_db [of deps en p w] Append_row_other assms by (auto simp: apply_step_def split_beta)
next
  case StepNoOp
  then show ?thesis by (simp add: apply_step_def)
qed

lemma apply_steps_row_other:
  "q \<noteq> p \<Longrightarrow> tbl_lookup hr_path q (hub_entry (aw_db (fst (apply_steps ops deps envs m tmp p steps w)))) = tbl_lookup hr_path q (hub_entry (aw_db w))"
proof (induction steps arbitrary: w envs)
  case Nil
  then show ?case by simp
next
  case (Cons step steps)
  then show ?case using apply_step_row_other [OF Cons.prems, of ops deps "envs 0" m tmp step w]
    by (auto split: prod.split sum.split)
qed

lemma reconcile_path_db:
  "fst (reconcile_path ops deps pe target dry m p w) = w \<or>
   (\<exists>plan. plan_for target deps (pe_sql pe) p w = (plan, None) \<and> \<not> dry \<and>
     fst (reconcile_path ops deps pe target dry m p w) = fst (Apply ops deps (pe_envs pe) m (pe_tmp pe) plan w))"
  by (auto simp: reconcile_path_def Let_def split: prod.split option.split sum.split)

lemma plan_for_path: "plan_for target deps sql p w = (plan, None) \<Longrightarrow> pl_path plan = p"
  using plan_shape(1) by (cases target) (simp add: plan_for_def, blast)+

lemma reconcile_path_row_other:
  "q \<noteq> p \<Longrightarrow> tbl_lookup hr_path q (hub_entry (aw_db (fst (reconcile_path ops deps pe target dry m p w)))) = tbl_lookup hr_path q (hub_entry (aw_db w))"
  using reconcile_path_db [of ops deps pe target dry m p w] apply_steps_row_other [of q p]
  by (auto simp: Apply_def dest!: plan_for_path)

lemma row_in_cong: "tbl_lookup hr_path p (hub_entry s) = tbl_lookup hr_path p (hub_entry s') \<Longrightarrow> row_in p st s = row_in p st s'"
  by (simp add: row_in_def)

lemma reconcile_paths_row_other:
  "q \<notin> set ps \<Longrightarrow> tbl_lookup hr_path q (hub_entry (aw_db (fst (reconcile_paths ops deps pes target dry m ps w)))) = tbl_lookup hr_path q (hub_entry (aw_db w))"
proof (induction ps arbitrary: w pes)
  case Nil
  then show ?case by simp
next
  case (Cons p ps)
  then show ?case using reconcile_path_row_other [of q p ops deps "pes 0" target dry m w]
    by (auto split: prod.split) (metis fst_conv)
qed

section \<open>Every path reported done is at its target\<close>

definition target_state :: "TargetState \<Rightarrow> ArchiveState" where
  "target_state target = (case target of TargetArchived \<Rightarrow> ArchiveStateArchived | TargetUnpinned \<Rightarrow> ArchiveStateUnpinned)"

lemma apply_steps_error: "apply_steps ops deps envs m tmp p steps w = (w', Inl e) \<Longrightarrow> err_str e \<noteq> ''''"
proof (induction steps arbitrary: w envs)
  case Nil
  then show ?case by simp
next
  case (Cons step steps)
  then show ?case by (cases step) (auto simp: apply_step_def split: prod.splits sum.splits)
qed

lemma plan_error_no_steps: "plan_for target deps sql p w = (plan, Some e) \<Longrightarrow> pl_steps plan = []"
  by (auto simp: plan_for_def PlanPin_def PlanUnpin_def split: TargetState.splits sum.splits option.splits)

lemma reconcile_path_target:
  assumes "reconcile_path ops deps pe target False m p w = (w', r)" "pr_error r = ''''" "pr_steps r \<noteq> []"
  shows "row_in p (target_state target) (aw_db w')"
proof -
  obtain plan pe' where plan: "plan_for target deps (pe_sql pe) p w = (plan, pe')" by fastforce
  have none: "pe' = None" using plan plan_error_no_steps [of target deps "pe_sql pe" p w plan] assms(1,3)
    by (cases pe') (auto simp: reconcile_path_def Let_def)
  obtain r' where ap: "Apply ops deps (pe_envs pe) m (pe_tmp pe) plan w = (w', r')"
    using assms(1) plan none by (auto simp: reconcile_path_def Let_def split: prod.splits sum.splits)
  have "\<exists>u. r' = Inr u"
  proof (cases r')
    case (Inl e)
    then have "pr_error r = err_str e" using ap assms(1) plan none by (auto simp: reconcile_path_def Let_def)
    with Inl ap apply_steps_error assms(2) show ?thesis unfolding Apply_def by metis
  qed simp
  with ap Apply_target [of ops deps "pe_envs pe" m "pe_tmp pe" plan w w'] plan none show ?thesis
    by (auto simp: plan_for_def target_state_def split: TargetState.splits)
qed

lemma reconcile_paths_target:
  assumes "reconcile_paths ops deps pes target False m ps w = (w', rs)" "distinct ps" "r \<in> set rs" "pr_error r = ''''" "pr_steps r \<noteq> []"
  shows "row_in (pr_path r) (target_state target) (aw_db w')"
  using assms
proof (induction ps arbitrary: w pes w' rs)
  case Nil
  then show ?case by simp
next
  case (Cons p ps)
  obtain w1 r1 where one: "reconcile_path ops deps (pes 0) target False m p w = (w1, r1)" by fastforce
  obtain rs2 where rest: "reconcile_paths ops deps (\<lambda>i. pes (Suc i)) target False m ps w1 = (w', rs2)" "rs = r1 # rs2"
    using Cons.prems(1) one by (auto split: prod.splits)
  show ?case
  proof (cases "r = r1")
    case True
    have path: "pr_path r1 = p" using one by (auto simp: reconcile_path_def Let_def split: prod.splits option.splits sum.splits)
    have "row_in p (target_state target) (aw_db w1)" using reconcile_path_target [OF one] Cons.prems(4,5) True by simp
    moreover have "tbl_lookup hr_path p (hub_entry (aw_db w')) = tbl_lookup hr_path p (hub_entry (aw_db w1))"
      using reconcile_paths_row_other [of p ps ops deps "\<lambda>i. pes (Suc i)" target False m w1] rest(1) Cons.prems(2) by simp
    ultimately show ?thesis using row_in_cong True path by metis
  next
    case False
    with Cons.IH [OF rest(1)] Cons.prems rest(2) show ?thesis by simp
  qed
qed

lemma match_entries_distinct: "match_entries glob g es out = Inr out' \<Longrightarrow> distinct out \<Longrightarrow> distinct out'"
  by (induction es arbitrary: out) (auto split: sum.splits if_splits)

lemma match_globs_distinct: "match_globs glob gs es out = Inr out' \<Longrightarrow> distinct out \<Longrightarrow> distinct out'"
  by (induction gs arbitrary: out) (auto split: sum.splits dest: match_entries_distinct)

lemma MatchGlobs_distinct: "MatchGlobs sql glob globs s = Inr ps \<Longrightarrow> distinct ps"
  by (auto simp: MatchGlobs_def split: sum.splits dest: match_globs_distinct)

lemma match_entries_rows: "match_entries glob g es out = Inr out' \<Longrightarrow> set out' \<subseteq> set out \<union> he_path ` set es"
  by (induction es arbitrary: out) (fastforce split: sum.splits if_splits)+

lemma match_globs_rows: "match_globs glob gs es out = Inr out' \<Longrightarrow> set out' \<subseteq> set out \<union> he_path ` set es"
  by (induction gs arbitrary: out) (fastforce split: sum.splits dest: match_entries_rows)+

lemma MatchGlobs_rows: "MatchGlobs sql glob globs s = Inr ps \<Longrightarrow> p \<in> set ps \<Longrightarrow> p \<in> hr_path ` set (hub_entry s)"
  by (auto simp: MatchGlobs_def EntrySnapshot_def split: sum.splits option.splits dest!: match_globs_rows) auto

lemma reconcile_paths_paths: "reconcile_paths ops deps pes target dry m ps w = (w', rs) \<Longrightarrow> map pr_path rs = ps"
proof (induction ps arbitrary: w pes rs)
  case Nil
  then show ?case by simp
next
  case (Cons p ps)
  have "pr_path (snd (reconcile_path ops deps (pes 0) target dry m p w)) = p"
    by (simp add: reconcile_path_def Let_def split: prod.split option.split sum.split)
  with Cons show ?case by (auto split: prod.splits)
qed

section \<open>The listing of an unpin run is taken before its uploads\<close>

text \<open>A prefetched map agrees with the store on a key: it has no entry or the current head.\<close>

definition listing_at :: "(string \<Rightarrow> (RemoteInfo \<times> bytes) option) \<Rightarrow> (string \<times> RemoteInfo) list \<Rightarrow> string \<Rightarrow> bool" where
  "listing_at rem m k \<longleftrightarrow> (\<forall>hit. map_of m k = Some hit \<longrightarrow> (\<exists>d. rem k = Some (hit, d)))"

lemma drain_list_sound:
  assumes "\<forall>info \<in> set es. \<exists>d. rem (ri_key info) = Some (info, d)" "\<And>k. listing_at rem m k"
  shows "listing_at rem (drain_list es m) k"
  using assms
proof (induction es arbitrary: m)
  case Nil
  then show ?case by (simp add: drain_list_def)
next
  case (Cons a es)
  have "listing_at rem (AList.update (ri_key a) a m) k" for k
    using Cons.prems by (auto simp: listing_at_def update_conv')
  with Cons.prems have "listing_at rem (if ri_file_id a = '''' then m else AList.update (ri_key a) a m) k" for k by simp
  with Cons.IH [of "if ri_file_id a = '''' then m else AList.update (ri_key a) a m"] Cons.prems(1)
  show ?case by (simp add: drain_list_def)
qed

lemma MarkArchived_id:
  "tbl_lookup hr_path p (hub_entry s) = Some r \<Longrightarrow> MarkArchived en p fid sha t s = (s', Inr ()) \<Longrightarrow>
     \<exists>r'. tbl_lookup hr_path p (hub_entry s') = Some r' \<and> hr_archive_file_id r' = Some fid"
  by (auto simp: MarkArchived_def update_entry_def tbl_lookup_update split: option.splits)

lemma evict_stale:
  assumes "tbl_lookup hr_path p (hub_entry (aw_db w)) = Some r" "hr_archive_file_id r = Some fid"
    and "\<And>hit. map_of m (JoinKey (dp_prefix deps) p) = Some hit \<Longrightarrow> ri_file_id hit \<noteq> fid"
  shows "\<exists>e. evictWith ops deps en (Some m) p w = (w, Inl e)"
  using assms
  by (auto simp: evictWith_def evict_head_def EntryLookup_def toEntry_def split: option.splits sum.splits)

context archive_objects
begin

lemma drain_list_at:
  assumes "inv rem" "as_ListKeys ops pre '''' rem = (entries, er)" "\<And>k. listing_at (remote rem) m k"
  shows "listing_at (remote rem) (drain_list entries m) k"
  by (rule drain_list_sound [OF _ assms(3)]) (use list_flat_entry [OF assms(1,2)] in blast)

lemma lookup_globs_at:
  assumes "inv rem" "lookup_globs ops pre rem seen m gs = Inr m'" "\<And>k. listing_at (remote rem) m k"
  shows "listing_at (remote rem) m' k"
  using assms(2,3)
proof (induction gs arbitrary: seen m)
  case Nil
  then show ?case by simp
next
  case (Cons g gs)
  show ?case
  proof (cases "JoinKey pre (literalPrefix g) \<in> set seen")
    case True
    with Cons show ?thesis by simp
  next
    case False
    obtain entries er where list: "as_ListKeys ops (JoinKey pre (literalPrefix g)) '''' rem = (entries, er)" by fastforce
    with Cons.prems(1) False have "er = None" by (cases er) (simp_all add: Let_def)
    with Cons.prems(1) False list have "lookup_globs ops pre rem (JoinKey pre (literalPrefix g) # seen) (drain_list entries m) gs = Inr m'"
      by (simp add: Let_def)
    then show ?thesis by (rule Cons.IH) (rule drain_list_at [OF assms(1) list Cons.prems(2)])
  qed
qed

lemma Archive_remote:
  assumes "inv (aw_remote w)" "Archive ops deps en p w = (w', r)"
  shows "inv (aw_remote w') \<and> (k \<noteq> JoinKey (dp_prefix deps) p \<longrightarrow> remote (aw_remote w') k = remote (aw_remote w) k)"
proof (cases "aw_remote w' = aw_remote w")
  case False
  then obtain src req where "aw_remote w' = fst (upload_source ops (env_now en) (aw_fs w) src req (aw_remote w))" "up_key req = JoinKey (dp_prefix deps) p"
    using assms(2) by (auto simp: Archive_def Let_def split: sum.splits option.splits if_splits prod.splits)
      (metis UploadRequest.select_convs(1) fst_conv)+
  then show ?thesis using upload_source_cases [OF assms(1) prod.collapse [symmetric]]
    by (cases "snd (upload_source ops (env_now en) (aw_fs w) src req (aw_remote w))") (metis fun_upd_other)+
qed (simp add: assms(1))

lemma apply_step_remote:
  assumes "inv (aw_remote w)"
  shows "inv (aw_remote (fst (apply_step ops deps en m tmp p step w))) \<and>
    (k \<noteq> JoinKey (dp_prefix deps) p \<longrightarrow> remote (aw_remote (fst (apply_step ops deps en m tmp p step w))) k = remote (aw_remote w) k)"
proof (cases step)
  case StepArchive
  then show ?thesis using Archive_remote [OF assms prod.collapse [symmetric], of deps en p k] by (simp add: apply_step_def split_beta)
next
  case StepEvict
  then show ?thesis using evictWith_db [OF prod.collapse [symmetric], of ops deps en m p w] assms by (simp add: apply_step_def split_beta)
next
  case StepRestore
  then show ?thesis using Restore_db [OF prod.collapse [symmetric], of ops deps en tmp p w] assms by (simp add: apply_step_def split_beta)
next
  case StepSeed
  have "aw_remote (fst (seedRow deps en p w)) = aw_remote w" by (simp add: seedRow_def Let_def split: sum.split prod.split)
  with StepSeed assms show ?thesis by (simp add: apply_step_def split_beta)
next
  case StepNoOp
  with assms show ?thesis by (simp add: apply_step_def)
qed

lemma apply_steps_remote:
  assumes "inv (aw_remote w)"
  shows "inv (aw_remote (fst (apply_steps ops deps envs m tmp p steps w))) \<and>
    (k \<noteq> JoinKey (dp_prefix deps) p \<longrightarrow> remote (aw_remote (fst (apply_steps ops deps envs m tmp p steps w))) k = remote (aw_remote w) k)"
  using assms
proof (induction steps arbitrary: w envs)
  case Nil
  then show ?case by simp
next
  case (Cons step steps)
  then show ?case using apply_step_remote [OF Cons.prems, of deps "envs 0" m tmp p step k]
    by (auto split: prod.split sum.split)
qed

lemma reconcile_path_remote:
  assumes "inv (aw_remote w)"
  shows "inv (aw_remote (fst (reconcile_path ops deps pe target dry m p w))) \<and>
    (k \<noteq> JoinKey (dp_prefix deps) p \<longrightarrow> remote (aw_remote (fst (reconcile_path ops deps pe target dry m p w))) k = remote (aw_remote w) k)"
  using reconcile_path_db [of ops deps pe target dry m p w] apply_steps_remote [OF assms, of deps _ m _ p _ k] assms
  by (auto simp: Apply_def dest!: plan_for_path)

text \<open>An upload gives the row an id that no listing taken before it knows.\<close>

lemma Archive_new_id:
  assumes "inv (aw_remote w)" "Archive ops deps en p w = (w', Inr u)" "\<not> row_in p ArchiveStateArchived (aw_db w)"
    and "listing_at (remote (aw_remote w)) m (JoinKey (dp_prefix deps) p)"
  shows "\<exists>r fid. tbl_lookup hr_path p (hub_entry (aw_db w')) = Some r \<and> hr_archive_file_id r = Some fid \<and>
    (\<forall>hit. map_of m (JoinKey (dp_prefix deps) p) = Some hit \<longrightarrow> ri_file_id hit \<noteq> fid)"
proof -
  let ?full = "filepath_Join (dp_hub_dir deps) p"
  obtain e where e: "EntryLookup (env_sql en) p (aw_db w) = Inr (Some e)" "he_kind e = FileKindFile" "he_archive_state e \<noteq> ArchiveStateArchived"
    using assms(2,3) by (auto simp: Archive_def EntryLookup_row_in split: sum.splits option.splits if_splits)
  obtain src where src: "os_Open (aw_fs w) ?full = Inr src"
    using assms(2) e by (auto simp: Archive_def Let_def split: sum.splits)
  define req where "req = \<lparr>up_key = JoinKey (dp_prefix deps) p, up_size = he_size e, up_mtime = None, up_source = src,
      up_digest = he_digest e, up_digest_algo = hash_name (dp_hasher deps), up_content_sha1 = ''''\<rparr>"
  obtain rem info where up: "upload_source ops (env_now en) (aw_fs w) ?full req (aw_remote w) = (rem, Inr info)"
    using assms(2) e src by (auto simp: Archive_def Let_def req_def split: sum.splits prod.splits)
  then have "as_Upload ops (env_now en) req (aw_remote w) = (rem, Inr info)" by (simp add: upload_source_def split: if_splits)
  from upload_ok [OF assms(1) this] have fresh: "\<forall>k i d. remote (aw_remote w) k = Some (i, d) \<longrightarrow> ri_file_id i \<noteq> ri_file_id info" by blast
  have mark: "MarkArchived en p (ri_file_id info) (Some (hex_prefix (ri_content_sha1 info))) (ri_uploaded_at info) (aw_db w) = (aw_db w', Inr ())"
    using assms(2) e src up by (auto simp: Archive_def Let_def req_def split: prod.splits)
  obtain r where "tbl_lookup hr_path p (hub_entry (aw_db w)) = Some r" using EntryLookup_lookup [OF e(1)] by blast
  with mark have "\<exists>r'. tbl_lookup hr_path p (hub_entry (aw_db w')) = Some r' \<and> hr_archive_file_id r' = Some (ri_file_id info)"
    using MarkArchived_id by blast
  with fresh assms(4) show ?thesis unfolding listing_at_def by blast
qed

lemma unpin_pending_path:
  assumes "inv (aw_remote w)" "pe_sql pe = no_faults" "EntryLookup no_faults p (aw_db w) = Inr (Some e)"
    and "he_archive_state e \<in> {ArchiveStateNull, ArchiveStateDirty}" "listing_at (remote (aw_remote w)) m (JoinKey (dp_prefix deps) p)"
    and "reconcile_path ops deps pe TargetUnpinned False (Some m) p w = (w', r)"
  shows "pr_error r \<noteq> '''' \<and> \<not> row_in p ArchiveStateUnpinned (aw_db w')"
proof -
  let ?plan = "\<lparr>pl_path = p, pl_steps = [StepArchive, StepEvict], pl_starting_state = state_str (he_archive_state e)\<rparr>"
  have plan: "plan_for TargetUnpinned deps (pe_sql pe) p w = (?plan, None)"
    using assms(2-4) by (auto simp: plan_for_def PlanUnpin_def)
  have pending: "\<not> row_in p ArchiveStateArchived (aw_db w)" "\<not> row_in p ArchiveStateUnpinned (aw_db w)"
    using EntryLookup_row_in [OF assms(3)] assms(4) by auto
  obtain w1 r1 where ar: "Archive ops deps (pe_envs pe 0) p w = (w1, r1)" by fastforce
  have keep: "\<not> row_in p ArchiveStateUnpinned (aw_db w1)" by (rule Archive_not_unpinned [OF pending(2) ar])
  have "\<exists>er. Apply ops deps (pe_envs pe) (Some m) (pe_tmp pe) ?plan w = (w1, Inl er)"
  proof (cases r1)
    case (Inl er)
    with ar show ?thesis by (simp add: Apply_def apply_step_def)
  next
    case (Inr u)
    from Archive_new_id [OF assms(1) ar [unfolded Inr] pending(1) assms(5)] obtain rw fid where
      "tbl_lookup hr_path p (hub_entry (aw_db w1)) = Some rw" "hr_archive_file_id rw = Some fid"
      "\<And>hit. map_of m (JoinKey (dp_prefix deps) p) = Some hit \<Longrightarrow> ri_file_id hit \<noteq> fid" by blast
    from evict_stale [where ops = ops and m = m and deps = deps and en = "pe_envs pe (Suc 0)", OF this] ar Inr show ?thesis by (auto simp: Apply_def apply_step_def)
  qed
  then obtain er where ap: "Apply ops deps (pe_envs pe) (Some m) (pe_tmp pe) ?plan w = (w1, Inl er)" by blast
  moreover have "err_str er \<noteq> ''''" by (rule apply_steps_error [OF ap [unfolded Apply_def]])
  ultimately show ?thesis using assms(6) plan keep by (auto simp: reconcile_path_def Let_def)
qed

lemma unpin_pending_paths:
  assumes "inv (aw_remote w)" "\<forall>i. pe_sql (pes i) = no_faults" "EntryLookup no_faults p (aw_db w) = Inr (Some e)"
    and "he_archive_state e \<in> {ArchiveStateNull, ArchiveStateDirty}" "listing_at (remote (aw_remote w)) m (JoinKey (dp_prefix deps) p)"
    and "reconcile_paths ops deps pes TargetUnpinned False (Some m) ps w = (w', rs)" "distinct ps" "p \<in> set ps"
    and "\<forall>q \<in> set ps. \<not> HasPrefix q ''/''"
  shows "(\<forall>r \<in> set rs. pr_path r = p \<longrightarrow> pr_error r \<noteq> '''') \<and> \<not> row_in p ArchiveStateUnpinned (aw_db w')"
  using assms
proof (induction ps arbitrary: w pes rs)
  case Nil
  then show ?case by simp
next
  case (Cons q ps)
  obtain w1 r1 where one: "reconcile_path ops deps (pes 0) TargetUnpinned False (Some m) q w = (w1, r1)" by fastforce
  obtain rs2 where rest: "reconcile_paths ops deps (\<lambda>i. pes (Suc i)) TargetUnpinned False (Some m) ps w1 = (w', rs2)" "rs = r1 # rs2"
    using Cons.prems(6) one by (auto split: prod.splits)
  have path: "pr_path r1 = q" using one by (auto simp: reconcile_path_def Let_def split: prod.splits option.splits sum.splits)
  show ?case
  proof (cases "q = p")
    case True
    have "pr_error r1 \<noteq> '''' \<and> \<not> row_in p ArchiveStateUnpinned (aw_db w1)"
      using unpin_pending_path [OF Cons.prems(1) _ Cons.prems(3-5)] Cons.prems(2) one True by blast
    moreover have "p \<notin> set ps" using True Cons.prems(7) by simp
    moreover have "tbl_lookup hr_path p (hub_entry (aw_db w')) = tbl_lookup hr_path p (hub_entry (aw_db w1))"
      using reconcile_paths_row_other [OF \<open>p \<notin> set ps\<close>, of ops deps "\<lambda>i. pes (Suc i)" TargetUnpinned False "Some m" w1] rest(1) by simp
    moreover have "pr_path ` set rs2 \<subseteq> set ps" using reconcile_paths_paths [OF rest(1)] by auto
    ultimately show ?thesis using rest(2) path True row_in_cong by (metis image_subset_iff set_ConsD)
  next
    case False
    then have "tbl_lookup hr_path p (hub_entry (aw_db w1)) = tbl_lookup hr_path p (hub_entry (aw_db w))"
      using reconcile_path_row_other [of p q ops deps "pes 0" TargetUnpinned False "Some m" w] one by simp
    then have look: "EntryLookup no_faults p (aw_db w1) = Inr (Some e)" using Cons.prems(3) by (simp add: EntryLookup_def)
    have "JoinKey (dp_prefix deps) p \<noteq> JoinKey (dp_prefix deps) q" using Cons.prems(8,9) False by (auto simp: JoinKey_inj)
    then have at: "inv (aw_remote w1)" "listing_at (remote (aw_remote w1)) m (JoinKey (dp_prefix deps) p)"
      using reconcile_path_remote [OF Cons.prems(1), of deps "pes 0" TargetUnpinned False "Some m" q "JoinKey (dp_prefix deps) p"] one Cons.prems(5)
      by (simp_all add: listing_at_def)
    show ?thesis using Cons.IH [OF at(1) _ look Cons.prems(4) at(2) rest(1)] Cons.prems(2,7-9) rest(2) path False by auto
  qed
qed

end

section \<open>Listing one level\<close>

lemma strings_Index_slash: "strings_Index s ''/'' = None \<longleftrightarrow> CHR ''/'' \<notin> set s"
  by (induction s) auto

lemma strings_Index_slash_Some: "strings_Index s ''/'' = Some i \<Longrightarrow> \<exists>a b. s = a @ ''/'' @ b \<and> CHR ''/'' \<notin> set a \<and> length a = i"
proof (induction s arbitrary: i)
  case Nil
  then show ?case by simp
next
  case (Cons c s)
  show ?case
  proof (cases "c = CHR ''/''")
    case True
    with Cons.prems show ?thesis by (intro exI [of _ "[]"] exI [of _ s]) auto
  next
    case False
    with Cons.prems obtain j where j: "strings_Index s ''/'' = Some j" "i = Suc j" by auto
    from Cons.IH [OF j(1)] obtain a b where "s = a @ ''/'' @ b" "CHR ''/'' \<notin> set a" "length a = j" by blast
    with False j(2) show ?thesis by (intro exI [of _ "c # a"] exI [of _ b]) auto
  qed
qed

lemma strings_Index_first: "CHR ''/'' \<notin> set a \<Longrightarrow> strings_Index (a @ CHR ''/'' # b) ''/'' = Some (length a)"
  by (induction a) auto


lemma level_of_iff: "level_of pre r = Some rest \<longleftrightarrow> rest \<noteq> '''' \<and> he_path r = pre @ rest"
  by (auto simp: level_of_def HasPrefix_iff Let_def)

lemma level_dir_iff:
  "level_dir pre r = Some d \<longleftrightarrow> (\<exists>a b. he_path r = pre @ a @ ''/'' @ b \<and> CHR ''/'' \<notin> set a \<and> d = pre @ a @ ''/'')"
proof
  assume "level_dir pre r = Some d"
  then obtain rest i where l: "level_of pre r = Some rest" "strings_Index rest ''/'' = Some i" "d = pre @ take (i + 1) rest"
    by (auto simp: level_dir_def split: option.splits)
  from strings_Index_slash_Some [OF l(2)] obtain a b where "rest = a @ ''/'' @ b" "CHR ''/'' \<notin> set a" "length a = i" by blast
  with l(1,3) show "\<exists>a b. he_path r = pre @ a @ ''/'' @ b \<and> CHR ''/'' \<notin> set a \<and> d = pre @ a @ ''/''"
    unfolding level_of_iff by (intro exI [of _ a] exI [of _ b]) simp
next
  assume "\<exists>a b. he_path r = pre @ a @ ''/'' @ b \<and> CHR ''/'' \<notin> set a \<and> d = pre @ a @ ''/''"
  then obtain a b where ab: "he_path r = pre @ a @ ''/'' @ b" "CHR ''/'' \<notin> set a" "d = pre @ a @ ''/''" by blast
  then have "level_of pre r = Some (a @ ''/'' @ b)" by (simp add: level_of_iff)
  with ab show "level_dir pre r = Some d" by (simp add: level_dir_def strings_Index_first)
qed

lemma dir_entry_path [simp]: "he_path (dir_entry p) = p"
  by (simp add: dir_entry_def)

lemma set_DelimitedEntries:
  "set (DelimitedEntries rows pre) =
     {r \<in> set rows. \<exists>a. he_path r = pre @ a \<and> a \<noteq> '''' \<and> CHR ''/'' \<notin> set a} \<union>
     dir_entry ` {pre @ a @ ''/'' | a. CHR ''/'' \<notin> set a \<and> (\<exists>r \<in> set rows. HasPrefix (he_path r) (pre @ a @ ''/''))}"
proof -
  have "set (List.map_filter (level_dir pre) rows) = {pre @ a @ ''/'' | a. CHR ''/'' \<notin> set a \<and> (\<exists>r \<in> set rows. HasPrefix (he_path r) (pre @ a @ ''/''))}"
    by (auto simp: set_map_filter_iff level_dir_iff HasPrefix_iff simp del: HasPrefix_code) fastforce+
  moreover have "(case level_of pre r of Some rest \<Rightarrow> strings_Index rest ''/'' = None | None \<Rightarrow> False) \<longleftrightarrow>
      (\<exists>a. he_path r = pre @ a \<and> a \<noteq> '''' \<and> CHR ''/'' \<notin> set a)" for r
    by (auto simp: strings_Index_slash level_of_iff split: option.split) (metis level_of_iff option.distinct(1))
  ultimately show ?thesis by (simp add: DelimitedEntries_def Let_def del: HasPrefix_code)
qed

text \<open>The pattern of a prefix matches every path with that prefix, wildcards in it included.\<close>

lemma sql_like_skip: "sql_like ps s \<Longrightarrow> sql_like (CHR ''%'' # ps) s"
  by (cases s) simp_all

lemma sql_like_percent: "sql_like ''%'' s"
  by (induction s) simp_all

lemma sql_like_prefix: "sql_like (p @ ''%'') (p @ x)"
proof (induction p)
  case Nil
  then show ?case by (simp add: sql_like_percent)
next
  case (Cons c p)
  then show ?case using sql_like_skip [OF Cons] by simp
qed

lemma ls_rows:
  assumes "EntriesByPrefix no_faults pre s = Inr rows"
  shows "{r \<in> set rows. HasPrefix (he_path r) pre} = {r \<in> toEntry ` set (hub_entry s). HasPrefix (he_path r) pre}"
proof (cases "pre = ''''")
  case True
  with assms show ?thesis by (auto simp: EntriesByPrefix_def EntrySnapshot_def)
next
  case False
  with assms have "rows = map toEntry (filter (\<lambda>r. hr_path r = TrimSuffix pre ''/'' \<or> sql_like (pre @ ''%'') (hr_path r)) (hub_entry s))"
    by (simp add: EntriesByPrefix_def)
  moreover have "sql_like (pre @ ''%'') (hr_path r)" if "HasPrefix (hr_path r) pre" for r
    using that sql_like_prefix by (auto simp: HasPrefix_iff simp del: HasPrefix_code)
  ultimately show ?thesis by (auto simp del: HasPrefix_code) blast
qed

section \<open>Status counts\<close>

definition counts_in :: "ArchiveState \<Rightarrow> HubEntry list \<Rightarrow> ArchiveCounts" where
  "counts_in st es = (let xs = filter (\<lambda>e. he_kind e = FileKindFile \<and> he_archive_state e = st) es in
     \<lparr>ac_count = int (length xs), ac_bytes = sum_list (map he_size xs)\<rparr>)"

definition plus_counts :: "ArchiveCounts \<Rightarrow> ArchiveCounts \<Rightarrow> ArchiveCounts" where
  "plus_counts a b = \<lparr>ac_count = ac_count a + ac_count b, ac_bytes = ac_bytes a + ac_bytes b\<rparr>"

lemma status_fold:
  "fold status_entry es out =
     \<lparr>st_files = st_files out + int (length (filter (\<lambda>e. he_kind e = FileKindFile) es)),
      st_dirs = st_dirs out + int (length (filter (\<lambda>e. he_kind e = FileKindDirectory) es)),
      st_archive = plus_counts (st_archive out) (counts_in ArchiveStateArchived es),
      st_dirty = plus_counts (st_dirty out) (counts_in ArchiveStateDirty es),
      st_unpinned = plus_counts (st_unpinned out) (counts_in ArchiveStateUnpinned es),
      st_null = plus_counts (st_null out) (counts_in ArchiveStateNull es)\<rparr>"
proof (induction es arbitrary: out)
  case Nil
  then show ?case by (cases out) (simp add: counts_in_def plus_counts_def)
next
  case (Cons e es)
  show ?case unfolding fold_Cons comp_apply Cons.IH
    by (cases "he_archive_state e")
      (simp_all add: status_entry_def Let_def counts_in_def plus_counts_def add_count_def FileKindFile_def FileKindDirectory_def)
qed

lemma state_partition:
  "length (filter (\<lambda>e. he_kind e = FileKindFile) es) =
     length (filter (\<lambda>e. he_kind e = FileKindFile \<and> he_archive_state e = ArchiveStateArchived) es) +
     length (filter (\<lambda>e. he_kind e = FileKindFile \<and> he_archive_state e = ArchiveStateDirty) es) +
     length (filter (\<lambda>e. he_kind e = FileKindFile \<and> he_archive_state e = ArchiveStateUnpinned) es) +
     length (filter (\<lambda>e. he_kind e = FileKindFile \<and> he_archive_state e = ArchiveStateNull) es)"
proof (induction es)
  case (Cons e es)
  then show ?case by (cases "he_archive_state e") simp_all
qed simp

section \<open>Properties\<close>

text \<open>
  The status counts every file row in exactly one archive state: each of the four counters is the number and the
  total size of the file rows in its state, and the four numbers add up to the number of files.
\<close>

theorem status_partitions_files:
  "\<exists>out. LocalStatus no_faults s = Inr out \<and>
     st_archive out = counts_in ArchiveStateArchived (map toEntry (hub_entry s)) \<and> st_dirty out = counts_in ArchiveStateDirty (map toEntry (hub_entry s)) \<and>
     st_unpinned out = counts_in ArchiveStateUnpinned (map toEntry (hub_entry s)) \<and> st_null out = counts_in ArchiveStateNull (map toEntry (hub_entry s)) \<and>
     st_files out = ac_count (st_archive out) + ac_count (st_dirty out) + ac_count (st_unpinned out) + ac_count (st_null out)"
  using state_partition [of "map toEntry (hub_entry s)"]
  by (simp add: LocalStatus_def EntrySnapshot_def status_fold plus_counts_def zero_counts_def counts_in_def Let_def)

text \<open>
  A pin or unpin run that is not dry reports truthfully: every path whose result carries no error (and whose plan
  was made) has, when the run is over, a row in the target state, archived for pin and unpinned for unpin, whatever
  the object store answered and whatever the later paths of the run did.
\<close>

theorem reconcile_reaches_target:
  assumes "RunReconcile ops deps sql glob pes req target w = (w', Inr rs)" "\<not> pq_dry req"
    and "r \<in> set rs" "pr_error r = ''''" "pr_steps r \<noteq> []"
  shows "row_in (pr_path r) (target_state target) (aw_db w')"
proof -
  from assms(1,2) obtain ps m where "MatchGlobs sql glob (pq_globs req) (aw_db w) = Inr ps"
    "reconcile_paths ops deps pes target False m ps w = (w', rs)"
    by (auto simp: RunReconcile_def Let_def split: sum.splits list.splits if_splits prod.splits)
  with reconcile_paths_target assms(3-5) MatchGlobs_distinct show ?thesis by blast
qed

text \<open>
  An unpin run cannot unpin a file that is not archived yet, although its plan is to archive and then evict it:
  the listing of the bucket is fetched before the first upload, so the eviction never finds the id of the object just
  uploaded. The path is reported with an error, and its row is not unpinned.
\<close>

theorem unpin_of_pending_fails:
  assumes "RunReconcile fake_ops deps sql glob pes req TargetUnpinned w = (w', Inr rs)" "\<not> pq_dry req"
    and "fake_inv (aw_remote w)" "\<forall>i. pe_sql (pes i) = no_faults" "\<forall>q \<in> set (hub_entry (aw_db w)). \<not> HasPrefix (hr_path q) ''/''"
    and "EntryLookup no_faults p (aw_db w) = Inr (Some e)" "he_archive_state e \<in> {ArchiveStateNull, ArchiveStateDirty}"
    and "r \<in> set rs" "pr_path r = p"
  shows "pr_error r \<noteq> '''' \<and> \<not> row_in p ArchiveStateUnpinned (aw_db w')"
proof -
  from assms(1,2) obtain ps m where run: "MatchGlobs sql glob (pq_globs req) (aw_db w) = Inr ps"
    "remoteLookupForGlobs fake_ops deps (pq_globs req) (aw_remote w) = Inr m"
    "reconcile_paths fake_ops deps pes TargetUnpinned False (Some m) ps w = (w', rs)"
    by (auto simp: RunReconcile_def Let_def split: sum.splits list.splits if_splits prod.splits)
  have "listing_at (fake_remote (aw_remote w)) m k" for k
    using fake.lookup_globs_at [OF assms(3) run(2) [unfolded remoteLookupForGlobs_def]] by (simp add: listing_at_def)
  moreover have "p \<in> set ps" using reconcile_paths_paths [OF run(3)] assms(8,9) by auto
  moreover have "\<forall>q \<in> set ps. \<not> HasPrefix q ''/''" using MatchGlobs_rows [OF run(1)] assms(5) by auto
  ultimately show ?thesis
    using fake.unpin_pending_paths [OF assms(3,4,6,7) _ run(3) MatchGlobs_distinct [OF run(1)]] assms(8,9) by blast
qed

text \<open>
  Listing a prefix shows exactly one level of the tree: the rows directly at the prefix as they are, one
  synthetic directory entry per name that has rows further down, nothing else, sorted by path. The wildcards and the
  letter case of the SQL pattern behind it make no difference.
\<close>

theorem ls_one_level:
  "\<exists>out. LocalLs no_faults \<lparr>lq_prefix = pre, lq_all = False\<rparr> s = Inr out \<and> sorted (map he_path out) \<and>
     set out = {e \<in> toEntry ` set (hub_entry s). \<exists>a. he_path e = pre @ a \<and> a \<noteq> '''' \<and> CHR ''/'' \<notin> set a} \<union>
       dir_entry ` {pre @ a @ ''/'' | a. CHR ''/'' \<notin> set a \<and> (\<exists>e \<in> toEntry ` set (hub_entry s). HasPrefix (he_path e) (pre @ a @ ''/''))}"
proof -
  obtain rows where rows: "EntriesByPrefix no_faults pre s = Inr rows"
    by (cases "pre = ''''") (simp_all add: EntriesByPrefix_def EntrySnapshot_def)
  note eq = ls_rows [OF rows]
  have 1: "{r \<in> set rows. \<exists>a. he_path r = pre @ a \<and> a \<noteq> '''' \<and> CHR ''/'' \<notin> set a} =
      {r \<in> toEntry ` set (hub_entry s). \<exists>a. he_path r = pre @ a \<and> a \<noteq> '''' \<and> CHR ''/'' \<notin> set a}"
    using eq HasPrefix_append [of pre] by (fastforce simp del: HasPrefix_code)
  have 2: "(\<exists>r \<in> set rows. HasPrefix (he_path r) (pre @ b)) \<longleftrightarrow> (\<exists>r \<in> toEntry ` set (hub_entry s). HasPrefix (he_path r) (pre @ b))" for b
  proof -
    have "HasPrefix x pre" if "HasPrefix x (pre @ b)" for x using that by (auto simp: HasPrefix_iff simp del: HasPrefix_code)
    with eq show ?thesis by blast
  qed
  show ?thesis
    unfolding LocalLs_def using set_DelimitedEntries [of rows pre] rows
    by (simp add: 1 2 DelimitedEntries_def Let_def del: HasPrefix_code)
qed

definition ex_pes :: "nat \<Rightarrow> path_env" where
  "ex_pes i = \<lparr>pe_sql = no_faults, pe_envs = (\<lambda>j. env_at (10 + int j)), pe_tmp = ''t''\<rparr>"

definition ex_glob :: glob_match where
  "ex_glob pat p = Inr (p = pat)"

definition ex_pin :: PinRequest where
  "ex_pin = \<lparr>pq_globs = [''a''], pq_dry = False\<rparr>"

theorem reconcile_reaches_target_witness:
  "\<exists>w'. fst (RunReconcile fake_ops ex_deps no_faults ex_glob ex_pes ex_pin TargetArchived ex_world) = w' \<and>
     row_in ''a'' (target_state TargetArchived) (aw_db w')"
proof -
  let ?R = "RunReconcile fake_ops ex_deps no_faults ex_glob ex_pes ex_pin TargetArchived ex_world"
  let ?r = "\<lparr>pr_path = ''a'', pr_starting_state = '''', pr_steps = [''archive''], pr_error = '''', pr_dry = False\<rparr>"
  have "snd ?R = Inr [?r]" by code_simp
  then have "?R = (fst ?R, Inr [?r])" by (metis prod.collapse)
  from reconcile_reaches_target [OF this, of ?r] show ?thesis by (simp add: ex_pin_def)
qed

theorem unpin_of_pending_fails_witness:
  "let R = RunReconcile fake_ops ex_deps no_faults ex_glob ex_pes ex_pin TargetUnpinned ex_world
   in (\<exists>rs. snd R = Inr rs \<and> map pr_steps rs = [[''archive'', ''evict'']] \<and> (\<forall>r \<in> set rs. pr_error r \<noteq> '''')) \<and>
      \<not> row_in ''a'' ArchiveStateUnpinned (aw_db (fst R))"
proof -
  let ?R = "RunReconcile fake_ops ex_deps no_faults ex_glob ex_pes ex_pin TargetUnpinned ex_world"
  have sh: "map_option (\<lambda>rs. (map pr_path rs, map pr_steps rs)) (case snd ?R of Inl e \<Rightarrow> None | Inr rs \<Rightarrow> Some rs) =
    Some ([''a''], [[''archive'', ''evict'']])" by code_simp
  then obtain rs where rs: "snd ?R = Inr rs" "map pr_path rs = [''a'']" "map pr_steps rs = [[''archive'', ''evict'']]"
    by (auto split: sum.splits)
  then obtain r where r: "rs = [r]" "pr_path r = ''a''" by auto
  have run: "?R = (fst ?R, Inr rs)" using rs(1) by (metis prod.collapse)
  have inv: "fake_inv (aw_remote ex_world)" by (simp add: ex_world_def fake_inv_def NewFakeStorage_def versions_at_def)
  have rows: "\<forall>q \<in> set (hub_entry (aw_db ex_world)). \<not> HasPrefix (hr_path q) ''/''" by code_simp
  have "map_option he_archive_state (projr (EntryLookup no_faults ''a'' (aw_db ex_world))) = Some ArchiveStateNull"
    "\<not> isl (EntryLookup no_faults ''a'' (aw_db ex_world))" by code_simp+
  then obtain e where e: "EntryLookup no_faults ''a'' (aw_db ex_world) = Inr (Some e)" "he_archive_state e = ArchiveStateNull"
    by (cases "EntryLookup no_faults ''a'' (aw_db ex_world)") auto
  have "pr_error r \<noteq> '''' \<and> \<not> row_in ''a'' ArchiveStateUnpinned (aw_db (fst ?R))"
    using unpin_of_pending_fails [OF run _ inv _ rows e(1), of r] e(2) r by (simp add: ex_pin_def ex_pes_def)
  with rs r show ?thesis by (auto simp: Let_def)
qed

end
