(* ===== verification/One_Shot.thy ===== *)
theory One_Shot
  imports Client Config Hub_Context B2_Storage Rpc
begin

text \<open>
  The command line (\<^verbatim>\<open>cli/hubsync\<close>) with the hub lock (\<^verbatim>\<open>hub_lock.go\<close>), the storage provider (\<^verbatim>\<open>providers.go\<close>)
  and the client side of the control interface (\<^verbatim>\<open>rpc.go\<close>): a command either takes the lock and works on the hub itself,
  or finds it taken and asks the serving process. Flags are in \<open>Command_Line\<close>; printing is not modelled.
\<close>

section \<open>The hub lock\<close>

text \<open>
  The flocks held on a machine: the lock file and the open file that holds it. \<open>flock\<close> is an error of the
  system call other than \<^verbatim>\<open>EWOULDBLOCK\<close>.
\<close>

type_synonym locks = "(fpath \<times> nat) list"

definition ErrLocked :: string where "ErrLocked = ''hub lock held by another process''"


definition AcquireHubLock :: "int \<Rightarrow> err option \<Rightarrow> nat \<Rightarrow> fpath \<Rightarrow> fs \<times> locks \<Rightarrow> (fs \<times> locks) \<times> unit res" where
  "AcquireHubLock now flock fd hubDir fl =
     (case fl of (f, ls) \<Rightarrow>
      let lockPath = HubLockPath hubDir in
      case os_MkdirAll (filepath_Dir lockPath) f of
        (f1, Inl e) \<Rightarrow> ((f1, ls), Inl (Wrap ''create .hubsync'' e))
      | (f1, Inr _) \<Rightarrow>
          (case open_create now lockPath f1 of
             (f2, Inl e) \<Rightarrow> ((f2, ls), Inl (Wrap (''open '' @ abs_path_str lockPath) e))
           | (f2, Inr _) \<Rightarrow>
               (case flock of
                  Some e \<Rightarrow> ((f2, ls), Inl (Wrap (''flock '' @ abs_path_str lockPath) e))
                | None \<Rightarrow>
                    if map_of ls lockPath \<noteq> None then ((f2, ls), Inl (Sentinel ErrLocked))
                    else ((f2, (lockPath, fd) # ls), Inr ()))))"

definition lock_Release :: "fpath \<Rightarrow> nat \<Rightarrow> locks \<Rightarrow> locks" where
  "lock_Release hubDir fd ls = filter (\<lambda>l. l \<noteq> (HubLockPath hubDir, fd)) ls"

section \<open>Storage and stack\<close>

definition ProvideArchiveStorage :: "(string \<Rightarrow> string \<Rightarrow> 'cl res) \<Rightarrow> ('cl \<Rightarrow> string \<Rightarrow> 'b blazer res) \<Rightarrow> (string \<Rightarrow> string) \<Rightarrow>
    ConfigFile option \<Rightarrow> 'b ArchiveStorage option res" where
  "ProvideArchiveStorage newClient bucketOf getenv cf =
     (case Option.bind cf cf_archive of
        None \<Rightarrow> Inr None
      | Some a \<Rightarrow>
          if ac_provider a \<noteq> '''' \<and> ac_provider a \<noteq> ''b2''
          then Inl (Error_string (''archive provider '' @ fmt_q (ac_provider a) @ '' not supported''))
          else (case NewB2Storage newClient bucketOf
                  \<lparr>bc_key_id = (if ac_b2_key_id a = '''' then getenv ''B2_APPLICATION_KEY_ID'' else ac_b2_key_id a),
                   bc_app_key = (if ac_b2_app_key a = '''' then getenv ''B2_APPLICATION_KEY'' else ac_b2_app_key a),
                   bc_bucket = ac_bucket a, bc_prefix = ac_bucket_prefix a\<rparr> of
                  Inl e \<Rightarrow> Inl e
                | Inr s \<Rightarrow> Inr (Some (b2_ops (b2_bucket s)))))"

text \<open>
  What a command is given from outside: the TOML decoder, the environment, the two hash functions, the
  ignore files of go-lstree, the storage provider and the directory walk.
\<close>

record 'w Setup =
  su_unmarshal :: "bytes \<Rightarrow> ConfigFile res"
  su_getenv :: "string \<Rightarrow> string"
  su_xxh128 :: "bytes \<Rightarrow> Digest"
  su_sha256 :: "bytes \<Rightarrow> Digest"
  su_ignorer :: "fpath \<Rightarrow> ignorer option res"
  su_storage :: "ConfigFile \<Rightarrow> 'w ArchiveStorage option res"
  su_walk :: walker

definition ProvideIgnorer :: "(fpath \<Rightarrow> ignorer option res) \<Rightarrow> fpath \<Rightarrow> ignorer res" where
  "ProvideIgnorer newIgnorer dir = (case newIgnorer dir of Inl e \<Rightarrow> Inl e | Inr base \<Rightarrow> Inr (IsIgnored base))"

record 'w oneShotStack =
  ss_config :: ConfigFile
  ss_scanner :: ScannerCfg
  ss_reconciler :: "('w ArchiveStorage \<times> ArchiveTaskDeps) option"

record 'w Machine =
  mc_world :: "'w ArchWorld"
  mc_locks :: locks

text \<open>Opening the database creates its file when there is none.\<close>

definition open_store :: "sql_faults \<Rightarrow> int \<Rightarrow> fpath \<Rightarrow> string \<Rightarrow> 'w ArchWorld \<Rightarrow> 'w ArchWorld \<times> unit res" where
  "open_store sql now hubDir algo w =
     (case os_MkdirAll (filepath_Dir (HubDBPath hubDir)) (aw_fs w) of
        (f, Inl e) \<Rightarrow> (w\<lparr>aw_fs := f\<rparr>, Inl (Wrap ''create db dir'' e))
      | (f, Inr _) \<Rightarrow>
          (case open_create now (HubDBPath hubDir) f of
             (f', Inl e) \<Rightarrow> (w\<lparr>aw_fs := f'\<rparr>, Inl e)
           | (f', Inr _) \<Rightarrow> (case NewHubStore sql (Some (aw_db w)) (Some algo) of (s, r) \<Rightarrow> (w\<lparr>aw_fs := f', aw_db := s\<rparr>, r))))"

definition newOneShotStack :: "'w Setup \<Rightarrow> sql_faults \<Rightarrow> int \<Rightarrow> fpath \<Rightarrow> bool \<Rightarrow> 'w ArchWorld \<Rightarrow> 'w ArchWorld \<times> 'w oneShotStack res" where
  "newOneShotStack su sql now hubDir needArchive w =
     (case LoadConfigFile (su_unmarshal su) (su_getenv su) (aw_fs w) hubDir of
        Inl e \<Rightarrow> (w, Inl (Wrap ''load config'' e))
      | Inr cfg \<Rightarrow>
     if needArchive \<and> cf_archive cfg = None
     then (w, Inl (Error_string (''archive not configured - add an [archive] section to '' @ abs_path_str (config_path hubDir))))
     else (case NewHasher (su_xxh128 su) (su_sha256 su) (cf_hash cfg) of
        Inl e \<Rightarrow> (w, Inl e)
      | Inr hasher \<Rightarrow>
     (case open_store sql now hubDir (hash_name hasher) w of
        (w1, Inl e) \<Rightarrow> (w1, Inl e)
      | (w1, Inr _) \<Rightarrow>
     (case ProvideIgnorer (su_ignorer su) hubDir of
        Inl e \<Rightarrow> (w1, Inl e)
      | Inr ign \<Rightarrow>
          let stack = \<lparr>ss_config = cfg, ss_scanner = \<lparr>sc_dir = hubDir, sc_ignorer = ign, sc_hasher = hasher\<rparr>, ss_reconciler = None\<rparr> in
          if \<not> needArchive then (w1, Inr stack)
          else (case (su_storage su cfg, cf_archive cfg) of
                  (Inl e, _) \<Rightarrow> (w1, Inl (Wrap ''open archive storage'' e))
                | (Inr (Some ops), Some a) \<Rightarrow>
                    (w1, Inr (stack\<lparr>ss_reconciler := Some (ops, \<lparr>dp_hasher = hasher, dp_hub_dir = hubDir, dp_prefix = ac_bucket_prefix a\<rparr>)\<rparr>))
                | _ \<Rightarrow> (w1, Inr stack))))))"

definition acquireOneShot :: "'w Setup \<Rightarrow> sql_faults \<Rightarrow> int \<Rightarrow> err option \<Rightarrow> nat \<Rightarrow> fpath \<Rightarrow> bool \<Rightarrow> 'w Machine \<Rightarrow> 'w Machine \<times> 'w oneShotStack res" where
  "acquireOneShot su sql now flock fd hubDir needArchive m =
     (case AcquireHubLock now flock fd hubDir (aw_fs (mc_world m), mc_locks m) of
        ((f, ls), Inl e) \<Rightarrow> (m\<lparr>mc_world := (mc_world m)\<lparr>aw_fs := f\<rparr>, mc_locks := ls\<rparr>, Inl e)
      | ((f, ls), Inr _) \<Rightarrow>
          (case newOneShotStack su sql now hubDir needArchive ((mc_world m)\<lparr>aw_fs := f\<rparr>) of
             (w, Inl e) \<Rightarrow> (m\<lparr>mc_world := w, mc_locks := lock_Release hubDir fd ls\<rparr>, Inl e)
           | (w, Inr stack) \<Rightarrow> (m\<lparr>mc_world := w, mc_locks := ls\<rparr>, Inr stack)))"

section \<open>Calling the serving process\<close>

definition is_space :: "char \<Rightarrow> bool" where
  "is_space c \<longleftrightarrow> c \<in> {CHR '' '', CHR 0x09, CHR 0x0A, CHR 0x0B, CHR 0x0C, CHR 0x0D}"

definition TrimSpace :: "string \<Rightarrow> string" where
  "TrimSpace s = rev (dropWhile is_space (rev (dropWhile is_space s)))"

definition strings_Contains :: "string \<Rightarrow> string \<Rightarrow> bool" where
  "strings_Contains s sub \<longleftrightarrow> strings_Index s sub \<noteq> None"

definition callRPC :: "fpath \<Rightarrow> string \<Rightarrow> string \<Rightarrow> 'a reply \<Rightarrow> 'a res" where
  "callRPC socket meth path reply =
     (case reply of
        No_reply e \<Rightarrow>
          if is_not_exist e \<or> strings_Contains (err_str e) ''no such file'' \<or> strings_Contains (err_str e) ''connection refused''
          then Inl (Error_string (''no hubsync serve running at '' @ abs_path_str socket @ ''; start it with `hubsync serve`''))
          else Inl e
      | Status status body \<Rightarrow>
          Inl (Error_string (''rpc '' @ meth @ '' '' @ path @ '': '' @ status @ '' ('' @ TrimSpace (take 512 body) @ '')''))
      | Body x \<Rightarrow> Inr x)"

definition bearer :: "string \<Rightarrow> string" where
  "bearer token = (if token = '''' then '''' else ''Bearer '' @ token)"

text \<open>\<open>send\<close> carries the authorization header and the request over the socket and back.\<close>

definition rpc_Pin :: "fpath \<Rightarrow> string \<Rightarrow> (string \<Rightarrow> string \<Rightarrow> PinRequest \<Rightarrow> 's \<Rightarrow> 's \<times> PinResult list reply) \<Rightarrow> PinRequest \<Rightarrow> 's \<Rightarrow> 's \<times> PinResult list res" where
  "rpc_Pin socket token send req s = (case send ''/rpc/pin'' (bearer token) req s of (s', r) \<Rightarrow> (s', callRPC socket ''POST'' ''/rpc/pin'' r))"

definition rpc_Unpin :: "fpath \<Rightarrow> string \<Rightarrow> (string \<Rightarrow> string \<Rightarrow> PinRequest \<Rightarrow> 's \<Rightarrow> 's \<times> PinResult list reply) \<Rightarrow> PinRequest \<Rightarrow> 's \<Rightarrow> 's \<times> PinResult list res" where
  "rpc_Unpin socket token send req s = (case send ''/rpc/unpin'' (bearer token) req s of (s', r) \<Rightarrow> (s', callRPC socket ''POST'' ''/rpc/unpin'' r))"

definition rpc_Status :: "fpath \<Rightarrow> string \<Rightarrow> (string \<Rightarrow> string \<Rightarrow> StatusResponse reply) \<Rightarrow> StatusResponse res" where
  "rpc_Status socket token send = callRPC socket ''GET'' ''/rpc/status'' (send ''/rpc/status'' (bearer token))"

text \<open>
  The routes of the serving process, each behind the token check, and its answer as the client sees
  it: \<^verbatim>\<open>http.Error\<close> ends the text with a newline, the status line is the code and its text.
\<close>

definition status_line :: "nat \<Rightarrow> string" where
  "status_line code = dec_digits code @ '' '' @
     (if code = 400 then ''Bad Request'' else if code = 401 then ''Unauthorized'' else if code = 404 then ''Not Found''
      else if code = 503 then ''Service Unavailable'' else ''Internal Server Error'')"

fun reply_of :: "'a http \<Rightarrow> 'a reply" where
  "reply_of (HttpOK x) = Body x"
| "reply_of (HttpError code t) = Status (status_line code) (t @ [CHR 0x0A])"
| "reply_of (HttpRedirect u) = Status (status_line 302) ''''"

definition rpc_routes :: "string \<Rightarrow> ('w ArchiveStorage \<times> ArchiveTaskDeps) option \<Rightarrow> sql_faults \<Rightarrow> glob_match \<Rightarrow> (nat \<Rightarrow> path_env) \<Rightarrow>
    string \<Rightarrow> string \<Rightarrow> PinRequest \<Rightarrow> 'w ArchWorld \<Rightarrow> 'w ArchWorld \<times> PinResult list reply" where
  "rpc_routes token reconciler sql glob pes path authorization req w =
     (case rpc_auth token (HttpOK ()) authorization of
        HttpOK _ \<Rightarrow>
          (case (if path = ''/rpc/pin'' then handlePin else handleUnpin) reconciler sql glob pes (Inr req) w of
             (w', r) \<Rightarrow> (w', reply_of r))
      | HttpError code t \<Rightarrow> (w, reply_of (HttpError code t))
      | HttpRedirect u \<Rightarrow> (w, reply_of (HttpRedirect u)))"

section \<open>Pin and unpin\<close>

definition rpcReachable :: "fs \<Rightarrow> fpath \<Rightarrow> bool \<Rightarrow> bool" where
  "rpcReachable f hubDir dial \<longleftrightarrow> fs_node f (RPCSocketPath hubDir) \<noteq> None \<and> dial"

definition lockHeldMessage :: "fpath \<Rightarrow> err option \<Rightarrow> err" where
  "lockHeldMessage hubDir cause =
     Error_string (''hub at '' @ abs_path_str hubDir @ '' is locked by another hubsync process ('' @ abs_path_str (HubLockPath hubDir) @ '')'' @
       (case cause of Some e \<Rightarrow> (if errors_Is e ErrLocked then '''' else '' ('' @ err_str e @ '')'') | None \<Rightarrow> '''') @
       ''; wait for it to finish, or remove the lock file if it's stale'')"

text \<open>What a run meets: its clock and lock, the databases it opens and scans, the globs and steps of the reconciler.\<close>

record run_env =
  re_now :: int
  re_flock :: "err option"
  re_fd :: nat
  re_sql :: sql_faults
  re_envs :: "nat \<Rightarrow> env"
  re_glob :: glob_match
  re_pes :: "nat \<Rightarrow> path_env"

definition scan_world :: "'w Setup \<Rightarrow> run_env \<Rightarrow> ScannerCfg \<Rightarrow> 'w ArchWorld \<Rightarrow> 'w ArchWorld \<times> unit res" where
  "scan_world su re sc w =
     (case FullScan (su_walk su) sc (re_sql re) (re_envs re) \<lparr>hub_db = aw_db w, hub_bc = NewBroadcaster, hub_fs = aw_fs w\<rparr> of
        (h, r) \<Rightarrow> (w\<lparr>aw_db := hub_db h, aw_fs := hub_fs h\<rparr>, r))"

definition in_process :: "'w Setup \<Rightarrow> run_env \<Rightarrow> PinRequest \<Rightarrow> TargetState \<Rightarrow> 'w oneShotStack \<Rightarrow> 'w ArchWorld \<Rightarrow> 'w ArchWorld \<times> PinResult list res" where
  "in_process su re req target stack w =
     (case scan_world su re (ss_scanner stack) w of
        (w1, Inl e) \<Rightarrow> (w1, Inl (Wrap ''scan'' e))
      | (w1, Inr _) \<Rightarrow>
          (case ss_reconciler stack of
             Some (ops, deps) \<Rightarrow> RunReconcile ops deps (re_sql re) (re_glob re) (re_pes re) req target w1
           | None \<Rightarrow> (w1, Inl (Error_string ''panic: nil reconciler''))))"

definition runPinOrUnpin :: "'w Setup \<Rightarrow> run_env \<Rightarrow> bool \<Rightarrow> string \<Rightarrow>
    (string \<Rightarrow> string \<Rightarrow> PinRequest \<Rightarrow> 'w ArchWorld \<Rightarrow> 'w ArchWorld \<times> PinResult list reply) \<Rightarrow> fpath \<Rightarrow> PinRequest \<Rightarrow> TargetState \<Rightarrow>
    'w Machine \<Rightarrow> 'w Machine \<times> PinResult list res" where
  "runPinOrUnpin su re dial token send hubDir req target m =
     (case acquireOneShot su (re_sql re) (re_now re) (re_flock re) (re_fd re) hubDir True m of
        (m1, Inr stack) \<Rightarrow>
          (case in_process su re req target stack (mc_world m1) of
             (w, r) \<Rightarrow> (m1\<lparr>mc_world := w, mc_locks := lock_Release hubDir (re_fd re) (mc_locks m1)\<rparr>, r))
      | (m1, Inl e) \<Rightarrow>
          if \<not> errors_Is e ErrLocked then (m1, Inl e)
          else if \<not> rpcReachable (aw_fs (mc_world m1)) hubDir dial then (m1, Inl (lockHeldMessage hubDir None))
          else (case (if target = TargetArchived then rpc_Pin else rpc_Unpin) (RPCSocketPath hubDir) token send req (mc_world m1) of
                  (w, r) \<Rightarrow> (m1\<lparr>mc_world := w\<rparr>, r)))"

text \<open>\<^verbatim>\<open>printPinResults\<close> counts the failures; the command exits with 1 when there are any.\<close>

definition printPinResults :: "PinResult list \<Rightarrow> nat" where
  "printPinResults rs = length (filter (\<lambda>r. pr_error r \<noteq> '''') rs)"

definition cmdPin :: "'w Setup \<Rightarrow> run_env \<Rightarrow> bool \<Rightarrow> string \<Rightarrow>
    (string \<Rightarrow> string \<Rightarrow> PinRequest \<Rightarrow> 'w ArchWorld \<Rightarrow> 'w ArchWorld \<times> PinResult list reply) \<Rightarrow> fpath \<Rightarrow> string list \<Rightarrow> bool \<Rightarrow> TargetState \<Rightarrow>
    'w Machine \<Rightarrow> 'w Machine \<times> nat" where
  "cmdPin su re dial token send cwd globs dry target m =
     (if globs = [] then (m, 1)
      else case hubContext (aw_fs (mc_world m)) cwd of
        Inl _ \<Rightarrow> (m, 2)
      | Inr hc \<Rightarrow>
          (case runPinOrUnpin su re dial token send (hx_root hc) \<lparr>pq_globs = globs, pq_dry = dry\<rparr> target m of
             (m', Inl _) \<Rightarrow> (m', 1)
           | (m', Inr rs) \<Rightarrow> (m', if 0 < printPinResults rs then 1 else 0)))"

section \<open>Status and listing\<close>

definition openHubStoreRO :: "fpath \<Rightarrow> 'w ArchWorld \<Rightarrow> HubStore res" where
  "openHubStoreRO hubDir w =
     (case os_Stat (aw_fs w) (HubDBPath hubDir) of
        Inl _ \<Rightarrow> Inl (Error_string (''hub db not found at '' @ abs_path_str (HubDBPath hubDir) @ '' (has the hub ever been scanned?)''))
      | Inr _ \<Rightarrow> Inr (aw_db w))"

definition fetchStatus :: "sql_faults \<Rightarrow> bool \<Rightarrow> string \<Rightarrow> (string \<Rightarrow> string \<Rightarrow> StatusResponse reply) \<Rightarrow> fpath \<Rightarrow> 'w ArchWorld \<Rightarrow> StatusResponse res" where
  "fetchStatus sql dial token send hubDir w =
     (if rpcReachable (aw_fs w) hubDir dial then rpc_Status (RPCSocketPath hubDir) token send
      else case openHubStoreRO hubDir w of Inl e \<Rightarrow> Inl e | Inr s \<Rightarrow> LocalStatus sql s)"

definition cmdLs :: "sql_faults \<Rightarrow> fpath \<Rightarrow> string \<Rightarrow> bool \<Rightarrow> 'w ArchWorld \<Rightarrow> HubEntry list res" where
  "cmdLs sql cwd arg all w =
     (case hubContext (aw_fs w) cwd of
        Inl e \<Rightarrow> Inl e
      | Inr hc \<Rightarrow>
     (case resolvePrefix hc arg of
        Inl e \<Rightarrow> Inl (Wrap ''ls'' e)
      | Inr pre \<Rightarrow>
     (case openHubStoreRO (hx_root hc) w of
        Inl e \<Rightarrow> Inl (Wrap ''ls'' e)
      | Inr s \<Rightarrow> LocalLs sql \<lparr>lq_prefix = pre, lq_all = all\<rparr> s)))"

section \<open>Collecting garbage\<close>

definition cmdArchiveGC :: "'w Setup \<Rightarrow> sql_faults \<Rightarrow> fpath \<Rightarrow> string \<Rightarrow> bool \<Rightarrow> 'w ArchWorld \<Rightarrow> 'w ArchWorld \<times> nat" where
  "cmdArchiveGC su sql cwd arg dry w =
     (case hubContext (aw_fs w) cwd of
        Inl _ \<Rightarrow> (w, 2)
      | Inr hc \<Rightarrow>
     (case resolvePrefix hc arg of
        Inl _ \<Rightarrow> (w, 2)
      | Inr relPrefix \<Rightarrow>
     (case LoadConfigFile (su_unmarshal su) (su_getenv su) (aw_fs w) (hx_root hc) of
        Inl _ \<Rightarrow> (w, 2)
      | Inr cfg \<Rightarrow>
     (case cf_archive cfg of
        None \<Rightarrow> (w, 2)
      | Some a \<Rightarrow>
     (case openHubStoreRO (hx_root hc) w of
        Inl _ \<Rightarrow> (w, 2)
      | Inr store \<Rightarrow>
     (case su_storage su cfg of
        Inl _ \<Rightarrow> (w, 2)
      | Inr storage \<Rightarrow>
     (case gc_Run sql \<lparr>ag_store = Some store, ag_storage = storage, ag_prefix = ac_bucket_prefix a\<rparr> (JoinKey (ac_bucket_prefix a) relPrefix) dry (aw_remote w) of
        (rem, emitted, summary, er) \<Rightarrow>
          (w\<lparr>aw_remote := rem\<rparr>, if er \<noteq> None then 1 else if 0 < gs_errors summary then 1 else 0))))))))"

section \<open>What the lock guarantees\<close>

lemma open_create_keeps: "fs_node f q = Some n \<Longrightarrow> fs_node (fst (open_create now p f)) q = Some n"
  using os_WriteFile_node(2) [of now p "[]" 420 f q] os_WriteFile_error [of now p "[]" 420 f]
  by (cases "q = p"; cases "snd (os_WriteFile now p [] 420 f)") (auto simp: open_create_def split: option.split node.split)

lemma AcquireHubLock_cases:
  assumes "AcquireHubLock now flock fd hubDir (f, ls) = ((f', ls'), r)"
  shows "ls' = (if isl r then ls else (HubLockPath hubDir, fd) # ls)" "map_of ls (HubLockPath hubDir) \<noteq> None \<Longrightarrow> isl r"
    "fs_node f q = Some n \<Longrightarrow> fs_node f' q = Some n"
proof -
  obtain f1 r1 where mk: "os_MkdirAll (filepath_Dir (HubLockPath hubDir)) f = (f1, r1)" by fastforce
  obtain f2 r2 where op: "open_create now (HubLockPath hubDir) f1 = (f2, r2)" by fastforce
  note acq = assms [unfolded AcquireHubLock_def, simplified, unfolded mk Let_def, simplified, unfolded op]
  show "ls' = (if isl r then ls else (HubLockPath hubDir, fd) # ls)" "map_of ls (HubLockPath hubDir) \<noteq> None \<Longrightarrow> isl r"
    using acq by (auto split: sum.splits option.splits if_splits)
  have "f' = f1 \<or> f' = f2" using acq by (auto split: sum.splits option.splits if_splits)
  moreover have "fs_node f q = Some n \<Longrightarrow> fs_node f1 q = Some n" using os_MkdirAll_file [of f q n "filepath_Dir (HubLockPath hubDir)"] mk by simp
  moreover have "fs_node f1 q = Some n \<Longrightarrow> fs_node f2 q = Some n" using open_create_keeps [of f1 q n now "HubLockPath hubDir"] op by simp
  ultimately show "fs_node f q = Some n \<Longrightarrow> fs_node f' q = Some n" by blast
qed

lemma Release_acquired: "(HubLockPath hubDir, fd) \<notin> set ls \<Longrightarrow> lock_Release hubDir fd ((HubLockPath hubDir, fd) # ls) = ls"
  by (auto simp: lock_Release_def intro: filter_True)

lemma acquireOneShot_locks:
  assumes "acquireOneShot su sql now flock fd hubDir na m = (m', r)" "(HubLockPath hubDir, fd) \<notin> set (mc_locks m)"
  shows "mc_locks m' = (if isl r then mc_locks m else (HubLockPath hubDir, fd) # mc_locks m)"
proof -
  obtain f ls r0 where acq: "AcquireHubLock now flock fd hubDir (aw_fs (mc_world m), mc_locks m) = ((f, ls), r0)" by (metis surj_pair)
  obtain w r1 where st: "newOneShotStack su sql now hubDir na ((mc_world m)\<lparr>aw_fs := f\<rparr>) = (w, r1)" by fastforce
  note cases = AcquireHubLock_cases(1) [OF acq]
  show ?thesis using assms cases Release_acquired [OF assms(2)]
    by (cases r0; cases r1) (auto simp: acquireOneShot_def acq st)
qed

section \<open>Properties\<close>

text \<open>
  C27: Pin and unpin respect the hub lock. Whatever happens, a run ends with the locks held that were held before it;
  and if some other process holds the lock and cannot be reached over the socket, the run fails, database and remote
  store are untouched, and every file and directory of the hub is as it was.
\<close>

theorem pin_respects_hub_lock:
  assumes "(HubLockPath hubDir, re_fd re) \<notin> set (mc_locks m)" "runPinOrUnpin su re dial token send hubDir req target m = (m', r)"
  shows "mc_locks m' = mc_locks m \<and>
    (map_of (mc_locks m) (HubLockPath hubDir) \<noteq> None \<and> \<not> dial \<longrightarrow>
       isl r \<and> aw_db (mc_world m') = aw_db (mc_world m) \<and> aw_remote (mc_world m') = aw_remote (mc_world m) \<and>
       (\<forall>q n. fs_node (aw_fs (mc_world m)) q = Some n \<longrightarrow> fs_node (aw_fs (mc_world m')) q = Some n))"
proof -
  obtain f ls r0 where acq: "AcquireHubLock (re_now re) (re_flock re) (re_fd re) hubDir (aw_fs (mc_world m), mc_locks m) = ((f, ls), r0)"
    by (metis surj_pair)
  obtain m1 r1 where one: "acquireOneShot su (re_sql re) (re_now re) (re_flock re) (re_fd re) hubDir True m = (m1, r1)" by fastforce
  note lock = acquireOneShot_locks [OF one assms(1)] and run = assms(2) [unfolded runPinOrUnpin_def one, simplified]
  have "mc_locks m' = mc_locks m"
    using run lock Release_acquired [OF assms(1)] by (cases r1) (auto split: prod.splits if_splits)
  moreover have "isl r \<and> aw_db (mc_world m') = aw_db (mc_world m) \<and> aw_remote (mc_world m') = aw_remote (mc_world m) \<and>
       (\<forall>q n. fs_node (aw_fs (mc_world m)) q = Some n \<longrightarrow> fs_node (aw_fs (mc_world m')) q = Some n)"
    if held: "map_of (mc_locks m) (HubLockPath hubDir) \<noteq> None" "\<not> dial"
  proof -
    from AcquireHubLock_cases(2) [OF acq held(1)] obtain e where e: "r0 = Inl e" by (cases r0) auto
    with one acq have m1: "r1 = Inl e" "m1 = m\<lparr>mc_world := (mc_world m)\<lparr>aw_fs := f\<rparr>, mc_locks := ls\<rparr>"
      by (auto simp: acquireOneShot_def)
    with run held(2) have "m' = m1" "isl r" by (auto simp: rpcReachable_def split: if_splits)
    with m1(2) AcquireHubLock_cases(3) [OF acq] show ?thesis by simp
  qed
  ultimately show ?thesis by blast
qed

definition ex_setup :: "FakeStorage Setup" where
  "ex_setup = \<lparr>su_unmarshal = ex_unmarshal, su_getenv = ex_getenv, su_xxh128 = (\<lambda>d. 9 # d), su_sha256 = (\<lambda>d. 8 # d),
     su_ignorer = (\<lambda>dir. Inr None), su_storage = (\<lambda>cf. Inr (Some fake_ops)), su_walk = walk_list\<rparr>"

definition ex_run :: run_env where
  "ex_run = \<lparr>re_now = 9, re_flock = None, re_fd = 8, re_sql = no_faults, re_envs = (\<lambda>i. env_at 9), re_glob = (\<lambda>g p. Inr True),
     re_pes = (\<lambda>i. \<lparr>pe_sql = no_faults, pe_envs = (\<lambda>j. env_at 9), pe_tmp = ''1''\<rparr>)\<rparr>"

definition ex_hub_world :: "FakeStorage ArchWorld" where
  "ex_hub_world = (gc_world ''hub/'')\<lparr>aw_fs := ex_hub_dir @ [([''hub'', ''.hubsync'', ''hub.db''], NFile [] 420 1), ([''hub'', ''d''], NDir), ([''hub'', ''d'', ''x''], NFile [1] 420 7)]\<rparr>"

definition ex_locked :: "FakeStorage Machine" where
  "ex_locked = \<lparr>mc_world = ex_hub_world, mc_locks = [(HubLockPath [''hub''], 7)]\<rparr>"

definition ex_unpin :: PinRequest where "ex_unpin = \<lparr>pq_globs = [''*''], pq_dry = False\<rparr>"

theorem pin_respects_hub_lock_witness:
  "case runPinOrUnpin ex_setup ex_run False ''t'' (\<lambda>path auth req w. (w, Body [])) [''hub''] ex_unpin TargetUnpinned ex_locked of
     (m, r) \<Rightarrow> isl r \<and> mc_locks m = [(HubLockPath [''hub''], 7)] \<and> aw_remote (mc_world m) = aw_remote (mc_world ex_locked)"
proof -
  obtain m r where run: "runPinOrUnpin ex_setup ex_run False ''t'' (\<lambda>path auth req w. (w, Body [])) [''hub''] ex_unpin TargetUnpinned ex_locked = (m, r)"
    by fastforce
  have "(HubLockPath [''hub''], re_fd ex_run) \<notin> set (mc_locks ex_locked)" by (simp add: ex_run_def ex_locked_def)
  from pin_respects_hub_lock [OF this run] show ?thesis unfolding run by (simp add: ex_locked_def)
qed





end
