(* ===== verification/Client_Push.thy ===== *)
theory Client_Push
  imports Client
begin

text \<open>
  The write side of the client (\<^verbatim>\<open>client_push.go\<close>): finding local edits, sending them to the hub,
  and applying its answer. A conflict moves the local file aside to a conflicted copy. The search
  for the name of that copy is the one loop of the client that may run forever, so handling a
  response is an option: \<^term>\<open>None\<close> is a call that does not return.
\<close>

section \<open>Local edits\<close>

record LocalChange =
  lc_path :: string
  lc_digest :: Digest
  lc_data :: bytes
  lc_hub_entry :: "HubTreeEntry option"

record LocalDeletion =
  ld_path :: string
  ld_hub_entry :: HubTreeEntry

text \<open>The callback of the walk in \<^verbatim>\<open>ScanLocal\<close>: a file that is in sync gives no change.\<close>

definition scan_local_entry :: "ClientCfg \<Rightarrow> Client \<Rightarrow> (string \<times> HubTreeEntry) list \<Rightarrow> walk_entry \<Rightarrow> LocalChange option res" where
  "scan_local_entry cfg c hubTree e =
     (let hubEntry = map_of hubTree (we_path e) in
      if (case hubEntry of
            None \<Rightarrow> False
          | Some he \<Rightarrow> te_mtime (hte_entry he) = we_mtime e \<and> te_size (hte_entry he) = we_size e)
      then Inr None
      else (case os_ReadFile (cl_fs c) (filepath_Join (cc_dir cfg) (we_path e)) of
              Inl er \<Rightarrow> Inl (Wrap (''read '' @ we_path e) er)
            | Inr d \<Rightarrow>
                if (case hubEntry of None \<Rightarrow> False | Some he \<Rightarrow> client_sum c d = te_digest (hte_entry he))
                then Inr None
                else Inr (Some \<lparr>lc_path = we_path e, lc_digest = client_sum c d, lc_data = d, lc_hub_entry = hubEntry\<rparr>)))"

fun scan_local :: "ClientCfg \<Rightarrow> Client \<Rightarrow> (string \<times> HubTreeEntry) list \<Rightarrow> walk_entry list \<Rightarrow> LocalChange list res" where
  "scan_local cfg c hubTree [] = Inr []"
| "scan_local cfg c hubTree (e # es) =
     (if we_is_dir e then scan_local cfg c hubTree es
      else (case scan_local_entry cfg c hubTree e of
              Inl er \<Rightarrow> Inl er
            | Inr ch \<Rightarrow>
                (case scan_local cfg c hubTree es of
                   Inl er \<Rightarrow> Inl er
                 | Inr chs \<Rightarrow> Inr (case ch of None \<Rightarrow> chs | Some x \<Rightarrow> x # chs))))"

definition ScanLocal :: "walker \<Rightarrow> ignorer option res \<Rightarrow> ClientCfg \<Rightarrow> sql_faults \<Rightarrow> Client \<Rightarrow>
    (LocalChange list \<times> LocalDeletion list) res" where
  "ScanLocal walk gitignore cfg sql c =
     (case ClientTreeSnapshot sql (cl_store c) of
        Inl e \<Rightarrow> Inl (Wrap ''load hub_tree'' e)
      | Inr hubTree \<Rightarrow>
     (case gitignore of
        Inl e \<Rightarrow> Inl (Wrap ''create ignorer'' e)
      | Inr base \<Rightarrow>
     (case walk (cl_fs c) (cc_dir cfg) (IsIgnored base) of
        Inl e \<Rightarrow> Inl (Wrap ''scan'' e)
      | Inr es \<Rightarrow>
     (case scan_local cfg c hubTree es of
        Inl e \<Rightarrow> Inl (Wrap ''scan'' e)
      | Inr changes \<Rightarrow>
          Inr (changes, map (\<lambda>pe. \<lparr>ld_path = fst pe, ld_hub_entry = snd pe\<rparr>)
                 (filter (\<lambda>pe. fst pe \<notin> set (walk_files es)) hubTree))))))"

definition change_op :: "LocalChange \<Rightarrow> PushOp" where
  "change_op ch =
     (case lc_hub_entry ch of
        None \<Rightarrow> \<lparr>po_path = lc_path ch, po_op = OpKind_OP_CREATE, po_base_version = 0,
                 po_digest = lc_digest ch, po_data = lc_data ch\<rparr>
      | Some he \<Rightarrow> \<lparr>po_path = lc_path ch, po_op = OpKind_OP_UPDATE, po_base_version = word_of_int (hte_version he),
                    po_digest = lc_digest ch, po_data = lc_data ch\<rparr>)"

definition deletion_op :: "LocalDeletion \<Rightarrow> PushOp" where
  "deletion_op d =
     \<lparr>po_path = ld_path d, po_op = OpKind_OP_DELETE, po_base_version = word_of_int (hte_version (ld_hub_entry d)),
      po_digest = [], po_data = []\<rparr>"

definition BuildPushOps :: "LocalChange list \<Rightarrow> LocalDeletion list \<Rightarrow> PushOp list" where
  "BuildPushOps changes deletions = map change_op changes @ map deletion_op deletions"

section \<open>Conflicted copies\<close>

definition stat_missing :: "fs \<Rightarrow> fpath \<Rightarrow> bool" where
  "stat_missing f p = (case os_Stat f p of Inl e \<Rightarrow> is_not_exist e | Inr _ \<Rightarrow> False)"

definition numbered_copy :: "fpath \<Rightarrow> string \<Rightarrow> string \<Rightarrow> nat \<Rightarrow> fpath" where
  "numbered_copy dir base ext i =
     filepath_Join dir (base @ '' (conflicted copy '' @ dec_digits i @ '')'' @ ext)"

partial_function (option) copy_loop :: "fs \<Rightarrow> fpath \<Rightarrow> string \<Rightarrow> string \<Rightarrow> nat \<Rightarrow> fpath option" where
  "copy_loop f dir base ext i =
     (if stat_missing f (numbered_copy dir base ext i) then Some (numbered_copy dir base ext i)
      else copy_loop f dir base ext (Suc i))"

declare copy_loop.simps [code]

definition conflictedCopyPath :: "fs \<Rightarrow> fpath \<Rightarrow> fpath option" where
  "conflictedCopyPath f fullPath =
     (let dir = filepath_Dir fullPath;
          ext = filepath_Ext (filepath_Base fullPath);
          base = TrimSuffix (filepath_Base fullPath) ext;
          candidate = filepath_Join dir (base @ '' (conflicted copy)'' @ ext)
      in if stat_missing f candidate then Some candidate
         else copy_loop f dir base ext 2)"

definition handleConflict :: "hub_api \<Rightarrow> ClientCfg \<Rightarrow> int \<Rightarrow> string \<Rightarrow> Digest \<Rightarrow> Client \<Rightarrow> Client option" where
  "handleConflict api cfg now p current_digest c =
     (let fullPath = filepath_Join (cc_dir cfg) p in
      case conflictedCopyPath (cl_fs c) fullPath of
        None \<Rightarrow> None
      | Some conflictPath \<Rightarrow>
          (case os_Rename fullPath conflictPath (cl_fs c) of
             (f, Inl _) \<Rightarrow> Some (c\<lparr>cl_fs := f\<rparr>)
           | (f, Inr _) \<Rightarrow>
               if current_digest \<noteq> []
               then Some (c\<lparr>cl_fs := fst (fetchFullBlob api now current_digest fullPath 420 f)\<rparr>)
               else Some (c\<lparr>cl_fs := f\<rparr>)))"

section \<open>Sending and answering\<close>

definition pushed_change :: "int \<Rightarrow> LocalChange \<Rightarrow> ChangeEntry" where
  "pushed_change version ch =
     \<lparr>ce_version = version, ce_path = lc_path ch,
      ce_op = (if lc_hub_entry ch \<noteq> None then OpUpdate else OpCreate), ce_kind = FileKindFile,
      ce_digest = lc_digest ch, ce_size = int (length (lc_data ch)), ce_mode = 420, ce_mtime = 0\<rparr>"

definition pushed_deletion :: "int \<Rightarrow> string \<Rightarrow> ChangeEntry" where
  "pushed_deletion version p =
     \<lparr>ce_version = version, ce_path = p, ce_op = OpDelete, ce_kind = FileKindFile, ce_digest = [],
      ce_size = 0, ce_mode = 0, ce_mtime = 0\<rparr>"

definition updateHubTreeAfterPush :: "sql_faults \<Rightarrow> string \<Rightarrow> int \<Rightarrow> LocalChange list \<Rightarrow> LocalDeletion list \<Rightarrow>
    ClientStore \<Rightarrow> ClientStore \<times> unit res" where
  "updateHubTreeAfterPush sql p version changes deletions s =
     (case find (\<lambda>ch. lc_path ch = p) changes of
        Some ch \<Rightarrow> ApplyChange sql (pushed_change version ch) s
      | None \<Rightarrow>
          (case find (\<lambda>d. ld_path d = p) deletions of
             Some d \<Rightarrow> ApplyChange sql (pushed_deletion version p) s
           | None \<Rightarrow> (s, Inr ())))"

text \<open>
  The loop of \<^verbatim>\<open>handlePushResponse\<close>; a failed update of the database is only logged, and the
  result still counts as accepted.
\<close>

fun handlePushResponse :: "hub_api \<Rightarrow> ClientCfg \<Rightarrow> (nat \<Rightarrow> int) \<Rightarrow> sql_faults \<Rightarrow> PushResult list \<Rightarrow> LocalChange list \<Rightarrow>
    LocalDeletion list \<Rightarrow> int \<Rightarrow> Client \<Rightarrow> (Client \<times> int) option" where
  "handlePushResponse api cfg clock sql [] changes deletions accepted c = Some (c, accepted)"
| "handlePushResponse api cfg clock sql (r # rs) changes deletions accepted c =
     (case ps_outcome r of
        PushAccepted v \<Rightarrow>
          handlePushResponse api cfg (\<lambda>i. clock (Suc i)) sql rs changes deletions (accepted + 1)
            (c\<lparr>cl_store := fst (updateHubTreeAfterPush sql (ps_path r) (sint v) changes deletions (cl_store c))\<rparr>)
      | PushConflict reason v current_digest \<Rightarrow>
          (case handleConflict api cfg (clock 0) (ps_path r) current_digest c of
             None \<Rightarrow> None
           | Some c' \<Rightarrow> handlePushResponse api cfg (\<lambda>i. clock (Suc i)) sql rs changes deletions accepted c'))"

definition sendPush :: "(PushRequest \<Rightarrow> PushResult list reply) \<Rightarrow> PushRequest \<Rightarrow> PushResult list res" where
  "sendPush post req =
     (case post req of
        No_reply e \<Rightarrow> Inl (Wrap ''push request'' e)
      | Status st body \<Rightarrow> Inl (Error_string (''push response '' @ st @ '': '' @ body))
      | Body results \<Rightarrow> Inr results)"

definition Push :: "hub_api \<Rightarrow> (PushRequest \<Rightarrow> PushResult list reply) \<Rightarrow> walker \<Rightarrow> ignorer option res \<Rightarrow> ClientCfg \<Rightarrow>
    (nat \<Rightarrow> int) \<Rightarrow> sql_faults \<Rightarrow> ConflictPolicy \<Rightarrow> Client \<Rightarrow> (Client \<times> int res) option" where
  "Push api post walk gitignore cfg clock sql policy c =
     (case ScanLocal walk gitignore cfg sql c of
        Inl e \<Rightarrow> Some (c, Inl (Wrap ''scan'' e))
      | Inr (changes, deletions) \<Rightarrow>
          let ops = BuildPushOps changes deletions in
          if ops = [] then Some (c, Inr 0)
          else (case sendPush post \<lparr>pq_ops = ops, pq_on_conflict = policy\<rparr> of
                  Inl e \<Rightarrow> Some (c, Inl e)
                | Inr results \<Rightarrow>
                    map_option (\<lambda>(c', n). (c', Inr n))
                      (handlePushResponse api cfg clock sql results changes deletions 0 c)))"

definition pendingPushPaths :: "walker \<Rightarrow> ignorer option res \<Rightarrow> ClientCfg \<Rightarrow> sql_faults \<Rightarrow> Client \<Rightarrow> string list option" where
  "pendingPushPaths walk gitignore cfg sql c =
     (case ScanLocal walk gitignore cfg sql c of
        Inl _ \<Rightarrow> None
      | Inr (changes, deletions) \<Rightarrow> Some (map lc_path changes @ map ld_path deletions))"

definition refreshLocalEditPaths :: "walker \<Rightarrow> ignorer option res \<Rightarrow> ClientCfg \<Rightarrow> sql_faults \<Rightarrow> Client \<Rightarrow> Client" where
  "refreshLocalEditPaths walk gitignore cfg sql c =
     (if \<not> cl_write_mode c then c
      else c\<lparr>cl_local_edits := pendingPushPaths walk gitignore cfg sql c\<rparr>)"

definition doPush :: "hub_api \<Rightarrow> (PushRequest \<Rightarrow> PushResult list reply) \<Rightarrow> walker \<Rightarrow> ignorer option res \<Rightarrow> ClientCfg \<Rightarrow>
    (nat \<Rightarrow> int) \<Rightarrow> sql_faults \<Rightarrow> Client \<Rightarrow> Client option" where
  "doPush api post walk gitignore cfg clock sql c =
     (case Push api post walk gitignore cfg clock sql ConflictPolicy_FAIL c of
        None \<Rightarrow> None
      | Some (c', Inl _) \<Rightarrow> Some c'
      | Some (c', Inr accepted) \<Rightarrow>
          Some (if 0 < accepted then refreshLocalEditPaths walk gitignore cfg sql c' else c'))"

section \<open>What a local scan finds\<close>

definition client_entries :: "ClientStore \<Rightarrow> string \<Rightarrow> HubTreeEntry option" where
  "client_entries s = tbl_map ht_path tree_row_entry (hub_tree s)"

lemma client_entries_view: "client_view s p = map_option hte_entry (client_entries s p)"
  by (simp add: client_entries_def client_view_def tbl_map_def map_option.compositionality comp_def)

lemma client_entries_versions: "client_versions s p = map_option hte_version (client_entries s p)"
  by (simp add: client_entries_def client_versions_def tbl_map_def map_option.compositionality comp_def tree_row_entry_def)

text \<open>A file that the walk can see, and the digest shortcut of the scan being right about it.\<close>

definition local_file :: "ClientCfg \<Rightarrow> ignorer \<Rightarrow> Client \<Rightarrow> string \<Rightarrow> bytes \<Rightarrow> bool" where
  "local_file cfg ign c p d \<longleftrightarrow>
     plain_path p \<and> walk_visible ign p \<and> os_ReadFile (cl_fs c) (filepath_Join (cc_dir cfg) p) = Inr d"

definition honest_stat :: "ClientCfg \<Rightarrow> Client \<Rightarrow> bool" where
  "honest_stat cfg c \<longleftrightarrow>
     (\<forall>p he d m t. client_entries (cl_store c) p = Some he \<longrightarrow> fs_node (cl_fs c) (filepath_Join (cc_dir cfg) p) = Some (NFile d m t) \<longrightarrow>
        te_mtime (hte_entry he) = t \<longrightarrow> te_size (hte_entry he) = int (length d) \<longrightarrow> te_digest (hte_entry he) = client_sum c d)"

text \<open>The change of a file with content \<open>d\<close>, if it differs from the recorded one.\<close>

definition local_change :: "Client \<Rightarrow> string \<Rightarrow> bytes \<Rightarrow> LocalChange option" where
  "local_change c p d =
     (if (case client_entries (cl_store c) p of None \<Rightarrow> False | Some he \<Rightarrow> client_sum c d = te_digest (hte_entry he)) then None
      else Some \<lparr>lc_path = p, lc_digest = client_sum c d, lc_data = d, lc_hub_entry = client_entries (cl_store c) p\<rparr>)"

lemma scan_local_entry_ok:
  assumes "honest_stat cfg c" "map_of hubTree = client_entries (cl_store c)"
    and "fs_node (cl_fs c) (filepath_Join (cc_dir cfg) (we_path e)) = Some (NFile d m (we_mtime e))" "we_size e = int (length d)"
  shows "scan_local_entry cfg c hubTree e = Inr (local_change c (we_path e) d)"
  using assms
  by (auto simp: scan_local_entry_def local_change_def honest_stat_def os_ReadFile_def Let_def split: option.split)

lemma scan_local_ok:
  assumes "\<forall>e \<in> set es. \<not> we_is_dir e \<longrightarrow> scan_local_entry cfg c hubTree e = Inr (g (we_path e))"
  shows "scan_local cfg c hubTree es = Inr (List.map_filter g (walk_files es))"
  using assms by (induction es) (auto simp: walk_files_def split: option.split)

lemma ScanLocal_ok:
  assumes "walk_ok walk (cl_fs c) (cc_dir cfg) (IsIgnored base)" "client_inv (cl_store c)" "honest_stat cfg c"
  obtains ps dels where
    "ScanLocal walk (Inr base) cfg no_faults c =
       Inr (List.map_filter (\<lambda>p. local_change c p (projr (os_ReadFile (cl_fs c) (filepath_Join (cc_dir cfg) p)))) ps, dels)"
    "distinct ps" "\<And>p. p \<in> set ps \<longleftrightarrow> (\<exists>d. local_file cfg (IsIgnored base) c p d)"
    "distinct (map ld_path dels)"
    "\<And>x. x \<in> set dels \<longleftrightarrow> client_entries (cl_store c) (ld_path x) = Some (ld_hub_entry x) \<and> ld_path x \<notin> set ps"
proof -
  from assms(1) obtain es where es: "walk (cl_fs c) (cc_dir cfg) (IsIgnored base) = Inr es" "distinct (walk_files es)"
    and snd: "\<And>e. e \<in> set es \<Longrightarrow> \<not> we_is_dir e \<Longrightarrow> plain_path (we_path e) \<and> walk_visible (IsIgnored base) (we_path e) \<and>
          (\<exists>d m. fs_node (cl_fs c) (filepath_Join (cc_dir cfg) (we_path e)) = Some (NFile d m (we_mtime e)) \<and> we_size e = int (length d))"
    and cmp: "\<And>p. plain_path p \<Longrightarrow> walk_visible (IsIgnored base) p \<Longrightarrow> is_file (cl_fs c) (filepath_Join (cc_dir cfg) p) \<Longrightarrow> p \<in> set (walk_files es)"
    unfolding walk_ok_def by blast
  let ?tree = "gomap_of ht_path tree_row_entry (hub_tree (cl_store c))"
  let ?dels = "map (\<lambda>pe. \<lparr>ld_path = fst pe, ld_hub_entry = snd pe\<rparr>) (filter (\<lambda>pe. fst pe \<notin> set (walk_files es)) ?tree)"
  have tree: "map_of ?tree = client_entries (cl_store c)"
    using assms(2) by (simp add: client_inv_def map_of_gomap_of client_entries_def)
  have "scan_local cfg c ?tree es =
      Inr (List.map_filter (\<lambda>p. local_change c p (projr (os_ReadFile (cl_fs c) (filepath_Join (cc_dir cfg) p)))) (walk_files es))"
  proof (rule scan_local_ok, intro ballI impI)
    fix e assume e: "e \<in> set es" "\<not> we_is_dir e"
    from snd [OF e] obtain d m where d: "fs_node (cl_fs c) (filepath_Join (cc_dir cfg) (we_path e)) = Some (NFile d m (we_mtime e))"
      "we_size e = int (length d)" by blast
    then have "os_ReadFile (cl_fs c) (filepath_Join (cc_dir cfg) (we_path e)) = Inr d" by (simp add: os_ReadFile_def)
    with scan_local_entry_ok [OF assms(3) tree d]
    show "scan_local_entry cfg c ?tree e = Inr (local_change c (we_path e) (projr (os_ReadFile (cl_fs c) (filepath_Join (cc_dir cfg) (we_path e)))))"
      by simp
  qed
  then have scan: "ScanLocal walk (Inr base) cfg no_faults c =
      Inr (List.map_filter (\<lambda>p. local_change c p (projr (os_ReadFile (cl_fs c) (filepath_Join (cc_dir cfg) p)))) (walk_files es), ?dels)"
    by (simp add: ScanLocal_def ClientTreeSnapshot_def es(1))
  have files: "p \<in> set (walk_files es) \<longleftrightarrow> (\<exists>d. local_file cfg (IsIgnored base) c p d)" for p
  proof
    assume "p \<in> set (walk_files es)"
    then obtain e where "e \<in> set es" "\<not> we_is_dir e" "p = we_path e" by (auto simp: walk_files_def)
    with snd [of e] show "\<exists>d. local_file cfg (IsIgnored base) c p d" by (auto simp: local_file_def ReadFile_node)
  next
    assume "\<exists>d. local_file cfg (IsIgnored base) c p d"
    then show "p \<in> set (walk_files es)" using cmp by (auto simp: local_file_def ReadFile_node is_file_def)
  qed
  have "distinct (map ld_path ?dels)" by (simp add: comp_def distinct_map_filter)
  moreover have "x \<in> set ?dels \<longleftrightarrow> client_entries (cl_store c) (ld_path x) = Some (ld_hub_entry x) \<and> ld_path x \<notin> set (walk_files es)" for x
  proof -
    have "x \<in> set ?dels \<longleftrightarrow> (ld_path x, ld_hub_entry x) \<in> set ?tree \<and> ld_path x \<notin> set (walk_files es)"
      by (cases x) (force simp: image_iff)
    also have "(ld_path x, ld_hub_entry x) \<in> set ?tree \<longleftrightarrow> client_entries (cl_store c) (ld_path x) = Some (ld_hub_entry x)"
      unfolding tree [symmetric] by (simp add: map_of_eq_Some_iff)
    finally show ?thesis .
  qed
  ultimately show ?thesis by (rule that [OF scan es(2) files])
qed

lemma local_change_path: "local_change c p d = Some ch \<Longrightarrow> lc_path ch = p"
  by (auto simp: local_change_def split: if_splits)

lemma changed_paths: "map lc_path (List.map_filter (\<lambda>p. local_change c p (F p)) ps) = filter (\<lambda>p. local_change c p (F p) \<noteq> None) ps"
  by (induction ps) (auto simp: List.map_filter_def dest: local_change_path)

lemma op_paths [simp]: "po_path (change_op ch) = lc_path ch" "po_path (deletion_op x) = ld_path x"
  by (simp_all add: change_op_def deletion_op_def split: option.split)

lemma ScanLocal_report:
  assumes "walk_ok walk (cl_fs c) (cc_dir cfg) (IsIgnored base)" "client_inv (cl_store c)" "honest_stat cfg c"
  shows "\<exists>changes deletions. ScanLocal walk (Inr base) cfg no_faults c = Inr (changes, deletions) \<and>
    distinct (map po_path (BuildPushOps changes deletions)) \<and>
    (\<forall>ch. ch \<in> set changes \<longleftrightarrow> (\<exists>d. local_file cfg (IsIgnored base) c (lc_path ch) d \<and> local_change c (lc_path ch) d = Some ch)) \<and>
    (\<forall>x. x \<in> set deletions \<longleftrightarrow> client_entries (cl_store c) (ld_path x) = Some (ld_hub_entry x) \<and>
       \<not> (\<exists>d. local_file cfg (IsIgnored base) c (ld_path x) d))"
proof -
  let ?data = "\<lambda>p. projr (os_ReadFile (cl_fs c) (filepath_Join (cc_dir cfg) p))"
  from ScanLocal_ok [OF assms] obtain ps dels where
    scan: "ScanLocal walk (Inr base) cfg no_faults c = Inr (List.map_filter (\<lambda>p. local_change c p (?data p)) ps, dels)"
    and ps: "distinct ps" "\<And>p. p \<in> set ps \<longleftrightarrow> (\<exists>d. local_file cfg (IsIgnored base) c p d)"
    and dels: "distinct (map ld_path dels)"
      "\<And>x. x \<in> set dels \<longleftrightarrow> client_entries (cl_store c) (ld_path x) = Some (ld_hub_entry x) \<and> ld_path x \<notin> set ps" by blast
  let ?chs = "List.map_filter (\<lambda>p. local_change c p (?data p)) ps"
  have data: "?data p = d" if "local_file cfg (IsIgnored base) c p d" for p d using that by (simp add: local_file_def)
  have paths: "map lc_path ?chs = filter (\<lambda>p. local_change c p (?data p) \<noteq> None) ps" by (rule changed_paths)
  have "distinct (map po_path (BuildPushOps ?chs dels))"
  proof -
    have "map po_path (BuildPushOps ?chs dels) = map lc_path ?chs @ map ld_path dels" by (simp add: BuildPushOps_def)
    moreover have "set (map ld_path dels) \<inter> set ps = {}" using dels(2) by auto
    ultimately show ?thesis unfolding paths using ps(1) dels(1) by auto
  qed
  moreover have "ch \<in> set ?chs \<longleftrightarrow> (\<exists>d. local_file cfg (IsIgnored base) c (lc_path ch) d \<and> local_change c (lc_path ch) d = Some ch)" for ch
  proof -
    have "ch \<in> set ?chs \<longleftrightarrow> (\<exists>p \<in> set ps. local_change c p (?data p) = Some ch)"
      by (induction ps) (auto split: option.split)
    also have "\<dots> \<longleftrightarrow> lc_path ch \<in> set ps \<and> local_change c (lc_path ch) (?data (lc_path ch)) = Some ch"
      using local_change_path by blast
    also have "\<dots> \<longleftrightarrow> (\<exists>d. local_file cfg (IsIgnored base) c (lc_path ch) d \<and> local_change c (lc_path ch) d = Some ch)"
      unfolding ps(2) using data [of "lc_path ch"] by auto
    finally show ?thesis .
  qed
  ultimately show ?thesis unfolding scan using dels(2) unfolding ps(2) by (intro exI [of _ ?chs] exI [of _ dels]) simp
qed

text \<open>
  A local scan reports exactly the local edits, each path once: the changes are the visible files whose
  hash differs from the recorded one (with their content, hash and recorded entry), the
  deletions the recorded paths without a visible file. (The walk lists the files, and a file
  with the recorded size and modification time has the recorded hash.)
\<close>

theorem scan_local_exact:
  assumes "walk_ok walk (cl_fs c) (cc_dir cfg) (IsIgnored base)" "client_inv (cl_store c)" "honest_stat cfg c"
  shows "\<exists>changes deletions. ScanLocal walk (Inr base) cfg no_faults c = Inr (changes, deletions) \<and>
    distinct (map po_path (BuildPushOps changes deletions)) \<and>
    (\<forall>ch. ch \<in> set changes \<longleftrightarrow> (\<exists>d. local_file cfg (IsIgnored base) c (lc_path ch) d \<and> local_change c (lc_path ch) d = Some ch)) \<and>
    (\<forall>x. x \<in> set deletions \<longleftrightarrow> client_entries (cl_store c) (ld_path x) = Some (ld_hub_entry x) \<and>
       \<not> (\<exists>d. local_file cfg (IsIgnored base) c (ld_path x) d))"
  by (rule ScanLocal_report [OF assms])

definition ex_editor :: Client where
  "ex_editor = \<lparr>cl_store = \<lparr>hub_tree = [tree_row ''a'' 0 [9, 1, 2] 2 420 5 1, tree_row ''g'' 0 [9, 8] 1 420 5 2],
                         sync_state = [(''hub_version'', ''2'')]\<rparr>,
     cl_fs = [([''sync''], NDir), ([''sync'', ''a''], NFile [5] 420 9), ([''sync'', ''n''], NFile [6] 420 9)],
     cl_hasher = Some \<lparr>hash_name = ''xxh128'', hash_sum = (\<lambda>d. 9 # d)\<rparr>, cl_write_mode = True, cl_local_edits = None\<rparr>"

lemma ex_editor_ok: "client_inv (cl_store ex_editor)" "honest_stat ex_ccfg ex_editor"
proof -
  show "client_inv (cl_store ex_editor)" by (simp add: ex_editor_def client_inv_def tbl_inv_def)
  have "client_entries (cl_store ex_editor) p = (if p = ''a'' then Some (tree_row_entry (tree_row ''a'' 0 [9, 1, 2] 2 420 5 1))
      else if p = ''g'' then Some (tree_row_entry (tree_row ''g'' 0 [9, 8] 1 420 5 2)) else None)" for p
    by (simp add: client_entries_def ex_editor_def tbl_map_def)
  moreover have "filepath_Join (cc_dir ex_ccfg) ''a'' = [''sync'', ''a'']" "filepath_Join (cc_dir ex_ccfg) ''g'' = [''sync'', ''g'']"
    by code_simp+
  ultimately show "honest_stat ex_ccfg ex_editor"
    by (simp add: honest_stat_def fs_node_def) (simp add: ex_editor_def)
qed

theorem scan_local_exact_witness:
  "\<exists>changes deletions. ScanLocal walk_list (Inr None) ex_ccfg no_faults ex_editor = Inr (changes, deletions) \<and>
     \<lparr>lc_path = ''n'', lc_digest = [9, 6], lc_data = [6], lc_hub_entry = None\<rparr> \<in> set changes \<and>
     \<lparr>ld_path = ''g'', ld_hub_entry = tree_row_entry (tree_row ''g'' 0 [9, 8] 1 420 5 2)\<rparr> \<in> set deletions"
proof -
  let ?ign = "IsIgnored None"
  have n: "local_file ex_ccfg ?ign ex_editor ''n'' [6]"
    "local_change ex_editor ''n'' [6] = Some \<lparr>lc_path = ''n'', lc_digest = [9, 6], lc_data = [6], lc_hub_entry = None\<rparr>"
    by code_simp+
  have "\<not> local_file ex_ccfg ?ign ex_editor ''g'' d" for d
  proof -
    have "filepath_Join (cc_dir ex_ccfg) ''g'' = [''sync'', ''g'']" by code_simp
    then show ?thesis by (simp add: local_file_def os_ReadFile_def fs_node_def ex_editor_def)
  qed
  moreover have "client_entries (cl_store ex_editor) ''g'' = Some (tree_row_entry (tree_row ''g'' 0 [9, 8] 1 420 5 2))" by code_simp
  moreover from scan_local_exact [OF walk_list_ok ex_editor_ok, of None] obtain chs dels where
    "ScanLocal walk_list (Inr None) ex_ccfg no_faults ex_editor = Inr (chs, dels)"
    "\<And>ch. ch \<in> set chs \<longleftrightarrow> (\<exists>d. local_file ex_ccfg ?ign ex_editor (lc_path ch) d \<and> local_change ex_editor (lc_path ch) d = Some ch)"
    "\<And>x. x \<in> set dels \<longleftrightarrow> client_entries (cl_store ex_editor) (ld_path x) = Some (ld_hub_entry x) \<and>
       \<not> (\<exists>d. local_file ex_ccfg ?ign ex_editor (ld_path x) d)" by auto
  ultimately show ?thesis using n by (intro exI [of _ chs] exI [of _ dels]) auto
qed

section \<open>What an accepting response does\<close>

definition entry_of_change :: "ChangeEntry \<Rightarrow> HubTreeEntry option" where
  "entry_of_change e = map_option (\<lambda>t. \<lparr>hte_entry = t, hte_version = ce_version e\<rparr>) (tree_of_change e)"

lemma applied_entries: "client_entries (applied e s) = (client_entries s)(ce_path e := entry_of_change e)"
  by (auto simp: fun_eq_iff client_entries_def applied_def apply_tree_def tbl_map_def tbl entry_of_change_def
      tree_of_change_def tree_row_entry_def tree_row_def)

interpretation client_full: log_view client_entries applied ce_path entry_of_change client_inv
  by unfold_locales (simp_all add: applied_entries applied_inv)

definition response_entry :: "LocalChange list \<Rightarrow> LocalDeletion list \<Rightarrow> PushResult \<Rightarrow> ChangeEntry option" where
  "response_entry changes deletions r =
     (case ps_outcome r of
        PushConflict reason v d \<Rightarrow> None
      | PushAccepted v \<Rightarrow>
          (case find (\<lambda>ch. lc_path ch = ps_path r) changes of
             Some ch \<Rightarrow> Some (pushed_change (sint v) ch)
           | None \<Rightarrow>
               (case find (\<lambda>d. ld_path d = ps_path r) deletions of
                  Some d \<Rightarrow> Some (pushed_deletion (sint v) (ps_path r))
                | None \<Rightarrow> None)))"

lemma handlePushResponse_accepted:
  assumes "\<forall>r \<in> set rs. \<exists>v. ps_outcome r = PushAccepted v"
  shows "handlePushResponse api cfg clock no_faults rs chs dels n c =
    Some (c\<lparr>cl_store := fold applied (List.map_filter (response_entry chs dels) rs) (cl_store c)\<rparr>, n + int (length rs))"
  using assms
  by (induction rs arbitrary: clock n c)
    (auto simp: updateHubTreeAfterPush_def ApplyChange_no_faults response_entry_def split: option.split)

definition settled :: "LocalChange list \<Rightarrow> LocalDeletion list \<Rightarrow> string \<Rightarrow> HubTreeEntry option \<Rightarrow> HubTreeEntry option \<Rightarrow> bool" where
  "settled changes deletions p old new =
     (case find (\<lambda>ch. lc_path ch = p) changes of
        Some ch \<Rightarrow> (case new of None \<Rightarrow> False | Some e \<Rightarrow> te_digest (hte_entry e) = lc_digest ch)
      | None \<Rightarrow> if find (\<lambda>d. ld_path d = p) deletions \<noteq> None then new = None else new = old)"

lemma settled_cases:
  assumes "settled chs dels p old new"
  shows "(\<exists>ch he. ch \<in> set chs \<and> lc_path ch = p \<and> new = Some he \<and> te_digest (hte_entry he) = lc_digest ch) \<or>
    p \<notin> lc_path ` set chs \<and> p \<in> ld_path ` set dels \<and> new = None \<or>
    p \<notin> lc_path ` set chs \<and> p \<notin> ld_path ` set dels \<and> new = old"
proof (cases "find (\<lambda>ch. lc_path ch = p) chs")
  case None
  then have "p \<notin> lc_path ` set chs" by (auto simp: find_None_iff_all)
  moreover have "find (\<lambda>d. ld_path d = p) dels = None \<longleftrightarrow> p \<notin> ld_path ` set dels" by (auto simp: find_None_iff_all)
  ultimately show ?thesis using assms None by (auto simp: settled_def split: if_splits)
next
  case (Some ch)
  with find_SomeD [OF Some] assms show ?thesis by (auto simp: settled_def split: option.splits)
qed

lemma response_entry_path: "response_entry changes deletions r = Some e \<Longrightarrow> ce_path e = ps_path r"
  using find_SomeD [of "\<lambda>ch. lc_path ch = ps_path r" changes]
  by (auto simp: response_entry_def pushed_change_def pushed_deletion_def split: PushOutcome.splits option.splits)

lemma response_entry_settles:
  assumes "ps_outcome r = PushAccepted v"
  shows "case response_entry changes deletions r of
      None \<Rightarrow> settled changes deletions (ps_path r) old old
    | Some e \<Rightarrow> settled changes deletions (ps_path r) old (entry_of_change e)"
  using assms
  by (auto simp: response_entry_def settled_def entry_of_change_def tree_of_change_def pushed_change_def pushed_deletion_def split: option.split)

lemma pushed_entries:
  assumes "client_inv s" "\<forall>r \<in> set rs. \<exists>v. ps_outcome r = PushAccepted v"
  shows "if p \<in> ps_path ` set rs
    then settled chs dels p (client_entries s p) (client_entries (fold applied (List.map_filter (response_entry chs dels) rs) s) p)
    else client_entries (fold applied (List.map_filter (response_entry chs dels) rs) s) p = client_entries s p"
  using assms(2)
proof (induction rs rule: rev_induct)
  case Nil
  then show ?case by simp
next
  case (snoc r rs)
  from snoc.prems obtain v where v: "ps_outcome r = PushAccepted v" by auto
  let ?X = "client_entries (fold applied (List.map_filter (response_entry chs dels) rs) s)"
  have snoc_eq: "List.map_filter g (rs @ [r]) = List.map_filter g rs @ (case g r of None \<Rightarrow> [] | Some x \<Rightarrow> [x])" for g :: "PushResult \<Rightarrow> ChangeEntry option"
    by (induction rs) (auto split: option.split)
  have new: "client_entries (fold applied (List.map_filter (response_entry chs dels) (rs @ [r])) s) p =
      (case response_entry chs dels r of None \<Rightarrow> ?X p | Some e \<Rightarrow> if p = ps_path r then entry_of_change e else ?X p)"
    using response_entry_path [of chs dels r] by (auto simp: snoc_eq applied_entries split: option.split)
  from snoc.IH snoc.prems have IH: "if p \<in> ps_path ` set rs then settled chs dels p (client_entries s p) (?X p) else ?X p = client_entries s p"
    by simp
  show ?case
  proof (cases "p = ps_path r")
    case True
    then show ?thesis using IH response_entry_settles [OF v, of chs dels] unfolding new by (auto split: option.splits if_splits)
  next
    case False
    then show ?thesis using IH unfolding new by (auto split: option.splits)
  qed
qed

text \<open>
  The store after an accepting response, for the changes and deletions that a scan reported:
  a pushed path has the hash of its file, a deleted one is gone, the others are unchanged.
\<close>

definition pushed_store :: "LocalChange list \<Rightarrow> LocalDeletion list \<Rightarrow> ClientStore \<Rightarrow> ClientStore \<Rightarrow> bool" where
  "pushed_store chs dels s s' \<longleftrightarrow>
     (\<forall>p. (\<exists>ch he. ch \<in> set chs \<and> lc_path ch = p \<and> client_entries s' p = Some he \<and> te_digest (hte_entry he) = lc_digest ch) \<or>
        p \<notin> lc_path ` set chs \<and> p \<in> ld_path ` set dels \<and> client_entries s' p = None \<or>
        p \<notin> lc_path ` set chs \<and> p \<notin> ld_path ` set dels \<and> client_entries s' p = client_entries s p)"

definition scan_report :: "ClientCfg \<Rightarrow> ignorer \<Rightarrow> Client \<Rightarrow> LocalChange list \<Rightarrow> LocalDeletion list \<Rightarrow> bool" where
  "scan_report cfg ign c chs dels \<longleftrightarrow>
     (\<forall>ch. ch \<in> set chs \<longleftrightarrow> (\<exists>d. local_file cfg ign c (lc_path ch) d \<and> local_change c (lc_path ch) d = Some ch)) \<and>
     (\<forall>x. x \<in> set dels \<longleftrightarrow> client_entries (cl_store c) (ld_path x) = Some (ld_hub_entry x) \<and>
        \<not> (\<exists>d. local_file cfg ign c (ld_path x) d))"

lemma pushed_storeI:
  assumes "client_inv s" "\<forall>r \<in> set rs. \<exists>v. ps_outcome r = PushAccepted v"
    and "map ps_path rs = map po_path (BuildPushOps chs dels)"
  shows "pushed_store chs dels s (fold applied (List.map_filter (response_entry chs dels) rs) s)"
proof -
  have "set (map ps_path rs) = set (map po_path (BuildPushOps chs dels))" using assms(3) by simp
  then have paths: "ps_path ` set rs = lc_path ` set chs \<union> ld_path ` set dels"
    by (simp add: BuildPushOps_def image_Un image_image)
  let ?s = "fold applied (List.map_filter (response_entry chs dels) rs) s"
  show ?thesis unfolding pushed_store_def
  proof
    fix p
    show "(\<exists>ch he. ch \<in> set chs \<and> lc_path ch = p \<and> client_entries ?s p = Some he \<and> te_digest (hte_entry he) = lc_digest ch) \<or>
        p \<notin> lc_path ` set chs \<and> p \<in> ld_path ` set dels \<and> client_entries ?s p = None \<or>
        p \<notin> lc_path ` set chs \<and> p \<notin> ld_path ` set dels \<and> client_entries ?s p = client_entries s p"
      using pushed_entries [OF assms(1,2), of p chs dels] settled_cases [of chs dels p "client_entries s p" "client_entries ?s p"]
      unfolding paths by (auto split: if_splits)
  qed
qed

lemma pushed_storeD:
  assumes "pushed_store chs dels s s'"
  shows "p \<in> lc_path ` set chs \<Longrightarrow> \<exists>ch he. ch \<in> set chs \<and> lc_path ch = p \<and> client_entries s' p = Some he \<and> te_digest (hte_entry he) = lc_digest ch"
    and "p \<notin> lc_path ` set chs \<Longrightarrow> client_entries s' p = (if p \<in> ld_path ` set dels then None else client_entries s p)"
  using assms [unfolded pushed_store_def, rule_format, of p] by auto

lemma local_change_digest: "local_change c p d = Some ch \<Longrightarrow> lc_digest ch = client_sum c d"
  by (auto simp: local_change_def split: if_splits)

lemma pushed_found:
  assumes "scan_report cfg ign c chs dels" "pushed_store chs dels (cl_store c) s'" "local_file cfg ign c p d"
  shows "\<exists>he. client_entries s' p = Some he \<and> te_digest (hte_entry he) = client_sum c d"
proof (cases "p \<in> lc_path ` set chs")
  case True
  then obtain ch he where ch: "ch \<in> set chs" "lc_path ch = p" "client_entries s' p = Some he" "te_digest (hte_entry he) = lc_digest ch"
    using pushed_storeD(1) [OF assms(2) True] by blast
  from ch(1,2) obtain d' where "local_file cfg ign c p d'" "local_change c p d' = Some ch"
    using assms(1) unfolding scan_report_def by blast
  with assms(3) have "lc_digest ch = client_sum c d" by (auto simp: local_file_def dest: local_change_digest)
  with ch show ?thesis by simp
next
  case False
  have "p \<notin> ld_path ` set dels" using assms(1,3) unfolding scan_report_def by auto
  with pushed_storeD(2) [OF assms(2) False] have same: "client_entries s' p = client_entries (cl_store c) p" by simp
  have "local_change c p d = None"
  proof (cases "local_change c p d")
    case (Some ch)
    with assms(1,3) local_change_path [OF Some] have "ch \<in> set chs" unfolding scan_report_def by auto
    with local_change_path [OF Some] False show ?thesis by auto
  qed
  with same show ?thesis by (auto simp: local_change_def split: if_splits option.splits)
qed

lemma pushed_others:
  assumes "scan_report cfg ign c chs dels" "pushed_store chs dels (cl_store c) s'" "\<not> (\<exists>d. local_file cfg ign c p d)"
  shows "client_entries s' p = None"
proof -
  have "p \<notin> lc_path ` set chs" using assms(1,3) unfolding scan_report_def by auto
  note entry = pushed_storeD(2) [OF assms(2) this]
  show ?thesis
  proof (cases "client_entries (cl_store c) p")
    case None
    with entry show ?thesis by simp
  next
    case (Some he)
    have "\<lparr>ld_path = p, ld_hub_entry = he\<rparr> \<in> set dels"
      using assms(1,3) Some unfolding scan_report_def by simp
    then have "p \<in> ld_path ` set dels" by (rule rev_image_eqI) simp
    with entry show ?thesis by simp
  qed
qed

lemma pushed_honest:
  assumes "scan_report cfg ign c chs dels" "pushed_store chs dels (cl_store c) s'" "honest_stat cfg c"
  shows "honest_stat cfg (c\<lparr>cl_store := s'\<rparr>)"
proof -
  have sum: "client_sum (c\<lparr>cl_store := s'\<rparr>) = client_sum c" by (simp add: client_sum_def fun_eq_iff)
  have "te_digest (hte_entry he) = client_sum c d"
    if a: "client_entries s' p = Some he" "fs_node (cl_fs c) (filepath_Join (cc_dir cfg) p) = Some (NFile d m t)"
      "te_mtime (hte_entry he) = t" "te_size (hte_entry he) = int (length d)" for p he d m t
  proof (cases "p \<in> lc_path ` set chs")
    case True
    then have "local_file cfg ign c p d" using assms(1) a(2) unfolding scan_report_def local_file_def
      by (auto simp: os_ReadFile_def)
    from pushed_found [OF assms(1,2) this] a(1) show ?thesis by simp
  next
    case False
    with pushed_storeD(2) [OF assms(2) False] a(1) have "client_entries (cl_store c) p = Some he" by (simp split: if_splits)
    with assms(3) a(2-4) show ?thesis by (simp add: honest_stat_def)
  qed
  then show ?thesis by (simp add: honest_stat_def sum)
qed

text \<open>
  C35: A push that the hub accepts leaves nothing to push: when the hub accepts every operation, the push
  succeeds, touches no file, and a scan right after it finds no local edit.
\<close>

theorem push_settles:
  assumes "walk_ok walk (cl_fs c) (cc_dir cfg) (IsIgnored base)" "client_inv (cl_store c)" "honest_stat cfg c"
    and "\<And>req. \<exists>results. post req = Body results \<and> map ps_path results = map po_path (pq_ops req) \<and>
           (\<forall>r \<in> set results. \<exists>v. ps_outcome r = PushAccepted v)"
  shows "\<exists>c' n. Push api post walk (Inr base) cfg clock no_faults policy c = Some (c', Inr n) \<and> cl_fs c' = cl_fs c \<and>
    ScanLocal walk (Inr base) cfg no_faults c' = Inr ([], [])"
proof -
  let ?ign = "IsIgnored base"
  from ScanLocal_report [OF assms(1-3)] obtain chs dels where scan: "ScanLocal walk (Inr base) cfg no_faults c = Inr (chs, dels)"
    and rep: "scan_report cfg ?ign c chs dels" unfolding scan_report_def by blast
  let ?req = "\<lparr>pq_ops = BuildPushOps chs dels, pq_on_conflict = policy\<rparr>"
  from assms(4) [of ?req] obtain rs where rs: "post ?req = Body rs" "\<forall>r \<in> set rs. \<exists>v. ps_outcome r = PushAccepted v"
    "map ps_path rs = map po_path (BuildPushOps chs dels)" by auto
  let ?s = "fold applied (List.map_filter (response_entry chs dels) rs) (cl_store c)"
  let ?c' = "c\<lparr>cl_store := ?s\<rparr>"
  have store: "pushed_store chs dels (cl_store c) ?s" by (rule pushed_storeI [OF assms(2) rs(2,3)])
  have "rs = []" if "BuildPushOps chs dels = []" using that rs(3) by simp
  then have push: "\<exists>n. Push api post walk (Inr base) cfg clock no_faults policy c = Some (?c', Inr n)"
    using handlePushResponse_accepted [OF rs(2), of api cfg clock chs dels 0 c] rs(1)
    by (cases "BuildPushOps chs dels = []") (simp_all add: Push_def scan sendPush_def)
  have walk: "walk_ok walk (cl_fs ?c') (cc_dir cfg) ?ign" using assms(1) by simp
  have inv: "client_inv (cl_store ?c')" using assms(2) by (simp add: client_full.inv_fold)
  from ScanLocal_report [OF walk inv pushed_honest [OF rep store assms(3)]] obtain chs' dels'
    where scan': "ScanLocal walk (Inr base) cfg no_faults ?c' = Inr (chs', dels')"
    and rep': "scan_report cfg ?ign ?c' chs' dels'" unfolding scan_report_def by blast
  have sum: "client_sum ?c' = client_sum c" by (simp add: client_sum_def fun_eq_iff)
  have lf: "local_file cfg ?ign ?c' = local_file cfg ?ign c" by (simp add: local_file_def fun_eq_iff)
  have "local_change ?c' p d = None" if "local_file cfg ?ign c p d" for p d
    using pushed_found [OF rep store that] by (auto simp: local_change_def sum)
  then have "ch \<notin> set chs'" for ch using rep' unfolding scan_report_def lf by force
  moreover have "x \<notin> set dels'" for x
    using rep' pushed_others [OF rep store] unfolding scan_report_def lf by force
  ultimately have "chs' = []" "dels' = []" by (metis list.set_intros(1) neq_Nil_conv)+
  then show ?thesis using push scan' by auto
qed

theorem push_settles_witness:
  "\<exists>c' n. Push ex_api (\<lambda>req. Body (map (\<lambda>po. \<lparr>ps_path = po_path po, ps_outcome = PushAccepted 7\<rparr>) (pq_ops req)))
      walk_list (Inr None) ex_ccfg (\<lambda>_. 0) no_faults ConflictPolicy_FAIL ex_editor = Some (c', Inr n) \<and> cl_fs c' = cl_fs ex_editor \<and>
    ScanLocal walk_list (Inr None) ex_ccfg no_faults c' = Inr ([], [])"
  by (rule push_settles [OF walk_list_ok ex_editor_ok]) (simp add: comp_def)

section \<open>The search for a free name\<close>

lemma dec_digits_no_slash: "CHR ''/'' \<notin> set (dec_digits n)"
proof
  assume "CHR ''/'' \<in> set (dec_digits n)"
  then have "is_digit (CHR ''/'')" using dec_digits_ok [of n] by blast
  then show False by (simp add: is_digit_def)
qed

lemma plain_name_around:
  assumes "CHR ''/'' \<notin> set a" "CHR ''/'' \<notin> set b" "CHR ''/'' \<notin> set m" "2 < length m"
  shows "plain_name (a @ m @ b)"
  using assms by (auto simp: plain_name_def dest!: arg_cong [where f = length])

lemma Join_single: "plain_name n \<Longrightarrow> filepath_Join dir n = dir @ [n]"
  by (simp add: filepath_Join_def split_slash_plain plain_name_def)

lemma numbered_copy_eq:
  assumes "CHR ''/'' \<notin> set base" "CHR ''/'' \<notin> set ext"
  shows "numbered_copy dir base ext i = dir @ [base @ '' (conflicted copy '' @ dec_digits i @ '')'' @ ext]"
proof -
  have "plain_name (base @ ('' (conflicted copy '' @ dec_digits i @ '')'') @ ext)"
    by (rule plain_name_around) (use assms in \<open>auto simp: dec_digits_no_slash\<close>)
  then show ?thesis by (simp add: numbered_copy_def Join_single)
qed

lemma stat_missing_in: "stat_missing f (dir @ [n]) \<longleftrightarrow> fs_node f (dir @ [n]) = None \<and> path_errno f (dir @ [n]) = ENOENT"
  by (auto simp: stat_missing_def os_Stat_def split: option.split)

lemma path_errno_sibling: "path_errno f (dir @ [n]) = path_errno f (dir @ [m])"
  by (simp add: path_errno_def)

lemma free_copy_exists:
  assumes "CHR ''/'' \<notin> set base" "CHR ''/'' \<notin> set ext"
  shows "\<exists>i \<ge> k. fs_node f (numbered_copy dir base ext i) = None"
proof (rule ccontr)
  assume "\<not> ?thesis"
  then have occupied: "fs_node f (numbered_copy dir base ext i) \<noteq> None" if "k \<le> i" for i using that by auto
  have "numbered_copy dir base ext i \<noteq> []" for i by (simp add: numbered_copy_eq [OF assms])
  with occupied have "map_of f (numbered_copy dir base ext i) \<noteq> None" if "k \<le> i" for i
    using that by (simp add: fs_node_def)
  then have "numbered_copy dir base ext ` {k..} \<subseteq> fst ` set f"
    by (metis (no_types, lifting) atLeast_iff image_subsetI map_of_eq_None_iff)
  moreover have "inj_on (numbered_copy dir base ext) {k..}"
    by (rule inj_onI) (simp add: numbered_copy_eq [OF assms] dec_digits_inj)
  ultimately have "finite {k..}" by (meson finite_imageD finite_imageI finite_set rev_finite_subset)
  then show False by (simp add: infinite_Ici)
qed

lemma copy_loop_finds:
  assumes "stat_missing f (numbered_copy dir base ext (i + n))"
  shows "\<exists>j \<ge> i. copy_loop f dir base ext i = Some (numbered_copy dir base ext j) \<and> stat_missing f (numbered_copy dir base ext j)"
  using assms
proof (induction n arbitrary: i)
  case 0
  then show ?case by (subst copy_loop.simps) auto
next
  case (Suc n)
  show ?case
  proof (cases "stat_missing f (numbered_copy dir base ext i)")
    case True
    then show ?thesis by (subst copy_loop.simps) auto
  next
    case False
    moreover from Suc.prems obtain j where "j \<ge> Suc i" "copy_loop f dir base ext (Suc i) = Some (numbered_copy dir base ext j)"
      "stat_missing f (numbered_copy dir base ext j)"
      using Suc.IH [of "Suc i"] by auto
    ultimately show ?thesis by (subst copy_loop.simps) (auto intro: exI [of _ j])
  qed
qed

lemma copy_loop_Some:
  assumes "copy_loop f dir base ext i = Some y"
  shows "stat_missing f y \<and> y \<in> range (numbered_copy dir base ext)"
  by (rule copy_loop.raw_induct [where P = "\<lambda>f dir base ext i y. stat_missing f y \<and> y \<in> range (numbered_copy dir base ext)", OF _ assms])
    (auto split: if_splits)

section \<open>Properties of conflict handling\<close>

lemma copy_names:
  assumes "plain_name n"
  obtains base ext where "n = base @ ext" "ext = filepath_Ext n" "base = TrimSuffix n ext"
    "CHR ''/'' \<notin> set base" "CHR ''/'' \<notin> set ext"
proof -
  let ?ext = "filepath_Ext n"
  have suffix: "\<exists>b. n = b @ ?ext"
  proof (cases "CHR ''.'' \<in> set n")
    case True
    then have "CHR ''.'' \<in> set (rev n)" by simp
    then obtain ys zs where "rev n = ys @ CHR ''.'' # zs" "CHR ''.'' \<notin> set ys" by (meson split_list_first)
    moreover from this have "takeWhile (\<lambda>c. c \<noteq> CHR ''.'') (rev n) = ys" by (auto simp: takeWhile_append)
    moreover from calculation(1) have "n = rev (ys @ CHR ''.'' # zs)" by (metis rev_rev_ident)
    ultimately show ?thesis using True by (simp add: filepath_Ext_def)
  next
    case False
    then show ?thesis by (simp add: filepath_Ext_def)
  qed
  then obtain b ext where b: "n = b @ ext" "ext = ?ext" by blast
  have "TrimSuffix (b @ e) e = b" for e by (simp add: TrimSuffix_def HasSuffix_def suffix_def)
  with b(1) have "b = TrimSuffix n ext" by metis
  moreover have "CHR ''/'' \<notin> set b" "CHR ''/'' \<notin> set ext" using assms unfolding b(1) plain_name_def by auto
  ultimately show ?thesis by (rule that [OF b])
qed

lemma conflictedCopyPath_cases:
  assumes "plain_name n"
  shows "path_errno f (dir @ [n]) = ENOENT \<Longrightarrow> \<exists>m. conflictedCopyPath f (dir @ [n]) = Some (dir @ [m]) \<and>
      fs_node f (dir @ [m]) = None \<and> length n < length m"
    and "path_errno f (dir @ [n]) = ENOTDIR \<Longrightarrow> conflictedCopyPath f (dir @ [n]) = None"
proof -
  from copy_names [OF assms] obtain base ext where n: "n = base @ ext" "ext = filepath_Ext n" "base = TrimSuffix n ext"
    and sl: "CHR ''/'' \<notin> set base" "CHR ''/'' \<notin> set ext" by metis
  let ?m0 = "base @ '' (conflicted copy)'' @ ext"
  have "plain_name ?m0" by (rule plain_name_around) (use sl in simp_all)
  then have m0: "filepath_Join dir ?m0 = dir @ [?m0]" by (rule Join_single)
  have ccp: "conflictedCopyPath f (dir @ [n]) =
      (if stat_missing f (dir @ [?m0]) then Some (dir @ [?m0]) else copy_loop f dir base ext 2)"
    using n(2,3) m0 by (simp add: conflictedCopyPath_def filepath_Dir_def filepath_Base_def Let_def)
  let ?num = "\<lambda>i. base @ '' (conflicted copy '' @ dec_digits i @ '')'' @ ext"
  have errno: "path_errno f (dir @ [m]) = path_errno f (dir @ [n])" for m by (rule path_errno_sibling)
  {
    assume enoent: "path_errno f (dir @ [n]) = ENOENT"
    from free_copy_exists [OF sl, of 2 f dir] obtain i where i: "2 \<le> i" "fs_node f (numbered_copy dir base ext i) = None" by blast
    then have "stat_missing f (numbered_copy dir base ext i)"
      using enoent errno by (simp add: numbered_copy_eq [OF sl] stat_missing_in)
    moreover have "i = 2 + (i - 2)" using i(1) by simp
    ultimately have "stat_missing f (numbered_copy dir base ext (2 + (i - 2)))" by metis
    from copy_loop_finds [OF this] obtain j where "copy_loop f dir base ext 2 = Some (dir @ [?num j])" "stat_missing f (dir @ [?num j])"
      unfolding numbered_copy_eq [OF sl] by blast
    moreover have "length n < length ?m0" "length n < length (?num j)" for j using n(1) by simp_all
    ultimately show "\<exists>m. conflictedCopyPath f (dir @ [n]) = Some (dir @ [m]) \<and> fs_node f (dir @ [m]) = None \<and> length n < length m"
      unfolding ccp stat_missing_in by metis
  next
    assume "path_errno f (dir @ [n]) = ENOTDIR"
    then have none: "\<not> stat_missing f (dir @ [m])" for m using errno [of m] by (simp add: stat_missing_in)
    have "copy_loop f dir base ext 2 = None"
    proof (cases "copy_loop f dir base ext 2")
      case (Some y)
      from copy_loop_Some [OF this] none show ?thesis by (auto simp: numbered_copy_eq [OF sl])
    qed simp
    with none show "conflictedCopyPath f (dir @ [n]) = None" by (simp add: ccp)
  }
qed

lemma Join_plain_last:
  assumes "plain_path p"
  obtains n where "filepath_Join d p = filepath_Dir (filepath_Join d p) @ [n]" "plain_name n"
proof
  show "filepath_Join d p = filepath_Dir (filepath_Join d p) @ [last (split_slash p)]"
    using assms by (simp add: Join_plain_path filepath_Dir_def butlast_append)
  show "plain_name (last (split_slash p))" using assms by (simp add: plain_path_def)
qed

text \<open>
  C36: Handling a conflict never loses the local edit: it ends, the edited file is found under a name that
  was free before, in the same directory; no other file changes; the client database stays as it
  is; and when the hub serves its current version, that is what the original path holds. (The
  edited file is a plain file whose ancestors are directories.)
\<close>

theorem conflict_keeps_local_edit:
  assumes "plain_path p" "os_ReadFile (cl_fs c) (filepath_Join (cc_dir cfg) p) = Inr d"
    and "is_dir (cl_fs c) (filepath_Dir (filepath_Join (cc_dir cfg) p))"
    and "path_errno (cl_fs c) (filepath_Join (cc_dir cfg) p) = ENOENT"
  shows "\<exists>c' copy. handleConflict api cfg now p digest c = Some c' \<and> cl_store c' = cl_store c \<and>
    filepath_Dir copy = filepath_Dir (filepath_Join (cc_dir cfg) p) \<and> fs_node (cl_fs c) copy = None \<and>
    os_ReadFile (cl_fs c') copy = Inr d \<and>
    (\<forall>q x. q \<noteq> filepath_Join (cc_dir cfg) p \<longrightarrow> os_ReadFile (cl_fs c) q = Inr x \<longrightarrow> os_ReadFile (cl_fs c') q = Inr x) \<and>
    (\<forall>b. digest \<noteq> [] \<longrightarrow> api_blob api (Digest_Hex digest) = Body b \<longrightarrow> os_ReadFile (cl_fs c') (filepath_Join (cc_dir cfg) p) = Inr b)"
proof -
  let ?full = "filepath_Join (cc_dir cfg) p"
  let ?dir = "filepath_Dir ?full"
  from Join_plain_last [OF assms(1)] obtain n where n: "?full = ?dir @ [n]" "plain_name n" by metis
  from conflictedCopyPath_cases(1) [OF n(2), of "cl_fs c" ?dir] assms(4) n(1) obtain m where
    m: "conflictedCopyPath (cl_fs c) ?full = Some (?dir @ [m])" "fs_node (cl_fs c) (?dir @ [m]) = None" "length n < length m" by metis
  let ?copy = "?dir @ [m]"
  have ne: "?copy \<noteq> ?full" using n(1) m(3) by (metis last_snoc less_irrefl)
  obtain mo t where node: "fs_node (cl_fs c) ?full = Some (NFile d mo t)" using assms(2) by (auto simp: ReadFile_node)
  let ?f = "fs_put ?copy (NFile d mo t) (fs_del ?full (cl_fs c))"
  have full: "?full \<noteq> []" using n(1) by (metis snoc_eq_iff_butlast)
  have ren: "os_Rename ?full ?copy (cl_fs c) = (?f, Inr ())"
    using node m(2) assms(3) by (simp add: os_Rename_def is_dir_def)
  have f: "fs_node ?f q = (if q = ?copy then Some (NFile d mo t) else if q = ?full then None else fs_node (cl_fs c) q)" for q
    using full by (simp add: fs_simps)
  have dir: "is_dir ?f (butlast ?full)"
  proof -
    have "?dir \<noteq> ?copy" "?dir \<noteq> ?full" using n(1) by (metis append_self_conv not_Cons_self2)+
    with assms(3) have "fs_node ?f ?dir = Some NDir" unfolding f by (simp add: is_dir_def)
    then show ?thesis by (simp add: is_dir_def filepath_Dir_def)
  qed
  let ?c' = "c\<lparr>cl_fs := if digest \<noteq> [] then fst (fetchFullBlob api now digest ?full 420 ?f) else ?f\<rparr>"
  have c': "handleConflict api cfg now p digest c = Some ?c'"
    using m(1) ren by (simp add: handleConflict_def Let_def)
  have keep: "os_ReadFile (cl_fs ?c') q = Inr x" if "os_ReadFile ?f q = Inr x" "q \<noteq> ?full" for q x
    using that fetchFullBlob_frame [OF that] by simp
  have "os_ReadFile ?f ?copy = Inr d" by (simp add: ReadFile_node f)
  from keep [OF this ne] have "os_ReadFile (cl_fs ?c') ?copy = Inr d" .
  moreover have "os_ReadFile (cl_fs ?c') q = Inr x" if "q \<noteq> ?full" "os_ReadFile (cl_fs c) q = Inr x" for q x
    by (rule keep [OF _ that(1)]) (use that m(2) in \<open>auto simp: ReadFile_node f\<close>)
  moreover have "os_ReadFile (cl_fs ?c') ?full = Inr b" if "digest \<noteq> []" "api_blob api (Digest_Hex digest) = Body b" for b
    using that ReadFile_write_same [of now ?full b 420 ?f] dir ne
    by (simp add: fetchFullBlob_def os_WriteFile_def f)
  moreover have "filepath_Dir ?copy = ?dir" by (simp add: filepath_Dir_def)
  ultimately show ?thesis using c' m(2) by (intro exI [of _ ?c'] exI [of _ ?copy]) simp
qed

theorem conflict_keeps_local_edit_witness:
  "\<exists>c' copy. handleConflict ex_api ex_ccfg 9 ''a.txt'' [9, 1, 2]
      (ex_client\<lparr>cl_fs := [([''sync''], NDir), ([''sync'', ''a.txt''], NFile [5] 420 0),
                     ([''sync'', ''a (conflicted copy).txt''], NFile [4] 420 0)]\<rparr>) = Some c' \<and>
     os_ReadFile (cl_fs c') copy = Inr [5] \<and> os_ReadFile (cl_fs c') [''sync'', ''a (conflicted copy).txt''] = Inr [4] \<and>
     os_ReadFile (cl_fs c') [''sync'', ''a.txt''] = Inr [1, 2]"
proof -
  let ?c = "ex_client\<lparr>cl_fs := [([''sync''], NDir), ([''sync'', ''a.txt''], NFile [5] 420 0),
                     ([''sync'', ''a (conflicted copy).txt''], NFile [4] 420 0)]\<rparr>"
  have hyps: "plain_path ''a.txt''" "os_ReadFile (cl_fs ?c) (filepath_Join (cc_dir ex_ccfg) ''a.txt'') = Inr [5]"
    "is_dir (cl_fs ?c) (filepath_Dir (filepath_Join (cc_dir ex_ccfg) ''a.txt''))"
    "path_errno (cl_fs ?c) (filepath_Join (cc_dir ex_ccfg) ''a.txt'') = ENOENT" by code_simp+
  have full: "filepath_Join (cc_dir ex_ccfg) ''a.txt'' = [''sync'', ''a.txt'']" by code_simp
  have other: "[''sync'', ''a (conflicted copy).txt''] \<noteq> [''sync'', ''a.txt'']"
    "os_ReadFile (cl_fs ?c) [''sync'', ''a (conflicted copy).txt''] = Inr [4]" by code_simp+
  have blob: "[9, 1, 2] \<noteq> ([] :: Digest)" "api_blob ex_api (Digest_Hex [9, 1, 2]) = Body [1, 2]" by (simp_all add: ex_api_def)
  from conflict_keeps_local_edit [where api = ex_api and now = 9 and digest = "[9, 1, 2]", OF hyps, unfolded full] other blob
  show ?thesis by metis
qed

text \<open>
  C37: Handling a conflict ends exactly when no ancestor of the path is a file: when the user has replaced a
  directory by a file and the hub reports a conflict for a path below it, the search for a free
  conflicted name never ends, because the stat error is "not a directory" and never "does not exist".
\<close>

theorem conflict_handling_returns_iff:
  assumes "plain_path p"
  shows "handleConflict api cfg now p digest c = None \<longleftrightarrow>
    path_errno (cl_fs c) (filepath_Join (cc_dir cfg) p) = ENOTDIR"
proof -
  let ?full = "filepath_Join (cc_dir cfg) p"
  from Join_plain_last [OF assms] obtain dir n where n: "?full = dir @ [n]" "plain_name n" by metis
  have "path_errno (cl_fs c) ?full = ENOTDIR \<or> path_errno (cl_fs c) ?full = ENOENT" by (simp add: path_errno_def)
  moreover have "handleConflict api cfg now p digest c = None \<longleftrightarrow> conflictedCopyPath (cl_fs c) ?full = None"
    by (simp add: handleConflict_def Let_def split: option.split prod.split sum.split)
  ultimately show ?thesis using conflictedCopyPath_cases [OF n(2), of "cl_fs c" dir] n(1) by auto
qed

theorem conflict_handling_returns_iff_witness:
  "handleConflict ex_api ex_ccfg 9 ''a/b'' [] (ex_client\<lparr>cl_fs := [([''sync''], NDir), ([''sync'', ''a''], NFile [1] 420 0)]\<rparr>) = None"
proof -
  let ?c = "ex_client\<lparr>cl_fs := [([''sync''], NDir), ([''sync'', ''a''], NFile [1] 420 0)]\<rparr>"
  have "plain_path ''a/b''" "path_errno (cl_fs ?c) (filepath_Join (cc_dir ex_ccfg) ''a/b'') = ENOTDIR" by code_simp+
  then show ?thesis using conflict_handling_returns_iff [of "''a/b''" ex_api ex_ccfg 9 "[]" ?c] by simp
qed

end
