(* ===== verification/Replication.thy ===== *)
theory Replication
  imports Client_Push
begin

text \<open>
  A hub and a replica together: writers publish on the hub, the subscription handler streams the log,
  and the client applies what it received, reconnects, bootstraps and fails, in any interleaving.
  The client database is the hub's tree at the version it records, at every moment, as long as
  no buffer overflowed.
\<close>

section \<open>The system\<close>

text \<open>
  \<open>rw_conn\<close> is the open subscription with the number of its events the client has applied. \<open>rw_lost\<close> is a
  ghost: some subscription of this replica found its buffer full.
\<close>

record Replica_World =
  rw_hub :: Hub
  rw_conn :: "(Session \<times> nat) option"
  rw_client :: Client
  rw_lost :: bool

inductive repl_step :: "(bytes \<Rightarrow> bytes) \<Rightarrow> ScannerCfg \<Rightarrow> (ClientStore \<Rightarrow> bytes) \<Rightarrow> ClientCfg \<Rightarrow> Replica_World \<Rightarrow> Replica_World \<Rightarrow> bool"
  for sha sc db_bytes cfg where
  repl_publish: "rw_conn w = None \<Longrightarrow> Append en e (hub_db (rw_hub w)) = (s, Inr v) \<Longrightarrow>
    Broadcast (e\<lparr>ce_version := v\<rparr>) (hub_bc (rw_hub w)) = Some bc \<Longrightarrow>
    repl_step sha sc db_bytes cfg w (w\<lparr>rw_hub := (rw_hub w)\<lparr>hub_db := s, hub_bc := bc\<rparr>\<rparr>)"
| repl_disk: "repl_step sha sc db_bytes cfg w (w\<lparr>rw_hub := (rw_hub w)\<lparr>hub_fs := f\<rparr>\<rparr>)"
| repl_edit: "repl_step sha sc db_bytes cfg w (w\<lparr>rw_client := (rw_client w)\<lparr>cl_fs := f, cl_local_edits := ps\<rparr>\<rparr>)"
| repl_bootstrap: "rw_conn w = None \<Longrightarrow> bootstrapTreeDB (api_of sha sc (rw_hub w)) db_bytes cfg now (rw_client w) = (c, r) \<Longrightarrow>
    repl_step sha sc db_bytes cfg w (w\<lparr>rw_client := c\<rparr>)"
| repl_connect: "rw_conn w = None \<Longrightarrow> HubVersion no_faults (cl_store (rw_client w)) = Inr v \<Longrightarrow> sub_start v (rw_hub w) = (h, ss) \<Longrightarrow>
    repl_step sha sc db_bytes cfg w (w\<lparr>rw_hub := h, rw_conn := Some (ss, 0)\<rparr>)"
| repl_serve: "rw_conn w = Some (ss, n) \<Longrightarrow> sub_step (rw_hub w, ss) (h, ss') \<Longrightarrow>
    repl_step sha sc db_bytes cfg w (w\<lparr>rw_hub := h, rw_conn := Some (ss', n), rw_lost := rw_lost w \<or> ss_lost ss'\<rparr>)"
| repl_apply: "rw_conn w = Some (ss, n) \<Longrightarrow> n < length (ss_out ss) \<Longrightarrow>
    applyEvent api cfg now sql (sync_event (sc_dir sc) f (ss_out ss ! n)) (rw_client w) = (c, Inr ()) \<Longrightarrow>
    repl_step sha sc db_bytes cfg w (w\<lparr>rw_client := c, rw_conn := Some (ss, Suc n)\<rparr>)"
| repl_fail: "rw_conn w = Some (ss, n) \<Longrightarrow> n < length (ss_out ss) \<Longrightarrow>
    applyEvent api cfg now sql (sync_event (sc_dir sc) f (ss_out ss ! n)) (rw_client w) = (c, Inl e) \<Longrightarrow>
    Unsubscribe (ss_chan ss) (hub_bc (rw_hub w)) = Some bc \<Longrightarrow>
    repl_step sha sc db_bytes cfg w (w\<lparr>rw_hub := (rw_hub w)\<lparr>hub_bc := bc\<rparr>, rw_client := c, rw_conn := None\<rparr>)"
| repl_drop: "rw_conn w = Some (ss, n) \<Longrightarrow> Unsubscribe (ss_chan ss) (hub_bc (rw_hub w)) = Some bc \<Longrightarrow>
    repl_step sha sc db_bytes cfg w (w\<lparr>rw_hub := (rw_hub w)\<lparr>hub_bc := bc\<rparr>, rw_conn := None\<rparr>)"

text \<open>A replica starts with an empty database, whatever is on its disk, against any hub.\<close>

definition repl_start :: "Hub \<Rightarrow> Client \<Rightarrow> Replica_World" where
  "repl_start h c = \<lparr>rw_hub = h, rw_conn = None, rw_client = c\<lparr>cl_store := initClientSchema None\<rparr>, rw_lost = False\<rparr>"

section \<open>What the stream says\<close>

text \<open>The entry a client makes of an event is the entry of the log, with every write recorded as a create.\<close>

definition int64_range :: "int \<Rightarrow> bool" where
  "int64_range n \<longleftrightarrow> - (2 ^ 63) \<le> n \<and> n \<le> 2 ^ 63 - 1"

lemma event_of_entry:
  assumes "int64_range (ce_version e)" "int64_range (ce_size e)"
  obtains e' where "event_entry (sync_event dir f e) = Some e'" "ce_path e' = ce_path e" "ce_version e' = ce_version e"
    "tree_of_change e' = tree_of_change e"
proof (cases "ce_op e = OpDelete")
  case True
  with assms show ?thesis
    by (intro that [of "event_delete (word_of_int (ce_version e)) (ce_path e)"])
       (simp_all add: event_entry_def sync_event_def event_delete_def int64_range_def int64_uint64_inverse tree_of_change_def)
next
  case False
  let ?ch = "\<lparr>fc_kind = ce_kind e, fc_digest = ce_digest e, fc_size = word_of_int (ce_size e), fc_mode = ce_mode e,
    fc_mtime = ce_mtime e, fc_data = inline_data dir f e\<rparr>"
  from False assms show ?thesis
    by (intro that [of "event_change (word_of_int (ce_version e)) (ce_path e) ?ch"])
       (simp_all add: event_entry_def sync_event_def event_change_def int64_range_def int64_uint64_inverse tree_of_change_def)
qed

lemma applyEvent_store_any:
  assumes "applyEvent api cfg now sql ev c = (c', r)"
  shows "r = Inr () \<Longrightarrow> cl_store c' = (case event_entry ev of None \<Rightarrow> cl_store c | Some e \<Rightarrow> applied e (cl_store c))"
    "r \<noteq> Inr () \<Longrightarrow> cl_store c' = cl_store c"
proof -
  have w: "cl_store c1 = cl_store c" if "write_change api cfg now sql p change c = (c1, x)" for p change c1 x
    using write_change_unchanged [of api cfg now sql p change c] that by simp
  have a: "s' = (if x = Inr () then applied e s else s)" if "ApplyChange sql e s = (s', x)" for e s s' x
    using ApplyChange_result [of sql e s] that by auto
  show "r = Inr () \<Longrightarrow> cl_store c' = (case event_entry ev of None \<Rightarrow> cl_store c | Some e \<Rightarrow> applied e (cl_store c))"
    "r \<noteq> Inr () \<Longrightarrow> cl_store c' = cl_store c"
    using assms w
    by (auto simp: applyEvent_def store_change_def event_entry_def Let_def dest!: a split: Event.splits if_splits prod.splits sum.splits)
qed

section \<open>The database is the tree at its version\<close>

definition at_version :: "ChangeEntry list \<Rightarrow> ClientStore \<Rightarrow> nat \<Rightarrow> bool" where
  "at_version log s v \<longleftrightarrow> v \<le> length log \<and> client_inv s \<and> HubVersion no_faults s = Inr (int v) \<and>
     client_view s = replay ce_path tree_of_change (take v log) Map.empty"

lemma at_version_grow: "at_version log s v \<Longrightarrow> at_version (log @ xs) s v"
  by (simp add: at_version_def)

lemma at_version_start: "at_version log (initClientSchema None) 0"
  by (auto simp: at_version_def client_inv_def initClientSchema_def HubVersion_def client_view_def tbl_map_def)

lemma at_version_next:
  assumes "at_version log s v" "v < length log" "ce_version (log ! v) = int v + 1" "int64_range (int v + 1)" "int64_range (ce_size (log ! v))"
    and "s' = (case event_entry (sync_event dir f (log ! v)) of None \<Rightarrow> s | Some e \<Rightarrow> applied e s)"
  shows "at_version log s' (Suc v)"
proof -
  obtain e where e: "event_entry (sync_event dir f (log ! v)) = Some e" "ce_path e = ce_path (log ! v)"
    "ce_version e = int v + 1" "tree_of_change e = tree_of_change (log ! v)"
    using event_of_entry [of "log ! v" dir f] assms(3-5) by metis
  have s': "s' = applied e s" using assms(6) e(1) by simp
  have "HubVersion no_faults s' = Inr (int v + 1)"
    using HubVersion_applied [of e s] e(3) assms(4) by (simp add: s' int64_range_def)
  moreover have "client_view s' = replay ce_path tree_of_change (take (Suc v) log) Map.empty"
    using assms(1,2) e(2,4) by (simp add: s' at_version_def client_log.view_apply take_Suc_conv_app_nth replay_append)
  ultimately show ?thesis using assms(1,2) by (simp add: s' at_version_def client_log.inv_apply)
qed

lemma at_version_snapshot:
  assumes "hub_inv h" "api_tree (api_of sha sc h) = Body db"
  shows "at_version (log_entries h) db (length (log_entries h))"
proof -
  have inv: "store_inv (hub_db h)" using assms(1) by (simp add: hub_inv_def)
  let ?v = "log_seq (hub_db h)"
  have v: "?v = int (length (log_entries h))" "?v \<le> 2 ^ 63 - 1"
    using inv log_entries_length [OF assms(1)] by (simp_all add: store_inv_def max_int64_def)
  have pos: "?v \<noteq> 0" using assms(2) LatestVersion_inv [OF inv] by (auto simp: api_of_def reply_of_def handleLatestSnapshotTree_def)
  have "- (2 ^ 63) \<le> ?v" using v(1) by simp
  from generateClientDB_ok [OF inv this v(2), of "hash_name (sc_hasher sc)"] obtain s where
    s: "generateClientDB no_faults no_faults (hub_db h) ?v (hash_name (sc_hasher sc)) = Inr s"
    "client_inv s" "client_view s = tree_view (hub_entry (hub_db h))" "HubVersion no_faults s = Inr ?v" by blast
  have "TrimPrefix (''/snapshots-tree/'' @ fmt_d ?v) ''/snapshots-tree/'' = fmt_d ?v" by (simp add: TrimPrefix_def)
  then have "db = s" using assms(2) LatestVersion_inv [OF inv] pos ParseInt_fmt [OF _ v(2)] v(1) s(1)
    by (simp add: api_of_def reply_of_def handleLatestSnapshotTree_def handleSnapshotTree_def)
  with s v(1) inv show ?thesis by (simp add: at_version_def store_inv_def log_tree_changes log_entries_def)
qed

section \<open>Steps of the hub\<close>

lemma sub_step_grows:
  assumes "sub_step (h, ss) (h', ss')"
  shows "\<exists>xs. log_entries h' = log_entries h @ xs" "ss_since ss' = ss_since ss" "length (ss_out ss) \<le> length (ss_out ss')"
proof -
  have app: "\<exists>xs. change_log s = change_log (hub_db h) @ xs" if "Append en c (hub_db h) = (s, Inr v)" for en c s v
    using that by (cases rule: Append_cases [of en c "hub_db h"]) auto
  show "\<exists>xs. log_entries h' = log_entries h @ xs"
    using assms
  proof cases
    case (sub_publish en c s v bc)
    with app [OF sub_publish(3)] show ?thesis by (auto simp: log_entries_def)
  qed (auto simp: log_entries_def Mark_log sub_live_def split: option.splits)
  show "ss_since ss' = ss_since ss" "length (ss_out ss) \<le> length (ss_out ss')"
    using assms by (cases; auto simp: sub_backfill_def sub_live_def split: sum.splits option.splits if_splits)+
qed

lemma publish_inv:
  assumes "hub_inv h" "Append en e (hub_db h) = (s, Inr v)" "Broadcast (e\<lparr>ce_version := v\<rparr>) (hub_bc h) = Some bc"
  shows "hub_inv (h\<lparr>hub_db := s, hub_bc := bc\<rparr>)"
proof -
  have st: "store_inv (hub_db h)" "bc_inv (hub_bc h)" using assms(1) by (simp_all add: hub_inv_def)
  from Append_inv [OF st(1), of en e] Broadcast_inv_result [OF st(2), of "e\<lparr>ce_version := v\<rparr>"] assms(2,3)
  show ?thesis by (auto simp: hub_inv_def)
qed

lemma publish_grows:
  assumes "Append en e (hub_db h) = (s, Inr v)"
  obtains xs where "log_entries (h\<lparr>hub_db := s, hub_bc := bc\<rparr>) = log_entries h @ xs"
  using assms by (cases rule: Append_cases [of en e "hub_db h"]) (auto simp: log_entries_def)

lemma session_entry:
  assumes "sub_inv h ss" "\<not> ss_lost ss" "n < length (ss_out ss)"
  shows "nat (ss_since ss) + n < length (log_entries h)" "ss_out ss ! n = log_entries h ! (nat (ss_since ss) + n)"
proof -
  from assms have prog: "sub_progress h ss" by (simp add: sub_inv_def)
  with assms(3) have "ss_live ss" by (auto simp: sub_progress_def split: if_splits)
  with prog have out: "ss_out ss @ filter (\<lambda>e. ss_last ss < ce_version e) (session_buf h ss) = drop (nat (ss_since ss)) (log_entries h)"
    by (simp add: sub_progress_def)
  then have len: "length (ss_out ss) \<le> length (log_entries h) - nat (ss_since ss)"
    by (metis le_add1 length_append length_drop)
  with assms(3) show "nat (ss_since ss) + n < length (log_entries h)" by linarith
  have "ss_out ss ! n = drop (nat (ss_since ss)) (log_entries h) ! n" using assms(3) by (simp flip: out add: nth_append)
  with len assms(3) show "ss_out ss ! n = log_entries h ! (nat (ss_since ss) + n)" by simp
qed

section \<open>The invariant\<close>

definition repl_inv :: "Replica_World \<Rightarrow> bool" where
  "repl_inv w \<longleftrightarrow> hub_inv (rw_hub w) \<and>
     (\<exists>v. at_version (log_entries (rw_hub w)) (cl_store (rw_client w)) v \<and>
        (case rw_conn w of
           None \<Rightarrow> True
         | Some (ss, n) \<Rightarrow> sub_inv (rw_hub w) ss \<and> \<not> ss_lost ss \<and> n \<le> length (ss_out ss) \<and> int v = ss_since ss + int n))"

definition int64_sizes :: "Replica_World \<Rightarrow> bool" where
  "int64_sizes w \<longleftrightarrow> (\<forall>e \<in> set (log_entries (rw_hub w)). int64_range (ce_size e))"

lemma repl_inv_offline:
  assumes "hub_inv h" "at_version (log_entries h) (cl_store c) v"
  shows "repl_inv \<lparr>rw_hub = h, rw_conn = None, rw_client = c, rw_lost = l\<rparr>"
  using assms by (auto simp: repl_inv_def)

lemma Unsubscribe_hub:
  assumes "hub_inv h" "Unsubscribe ch (hub_bc h) = Some bc"
  shows "hub_inv (h\<lparr>hub_bc := bc\<rparr>)" "log_entries (h\<lparr>hub_bc := bc\<rparr>) = log_entries h"
  using assms Unsubscribe_inv by (auto simp: hub_inv_def log_entries_def)

lemma repl_step_grows:
  assumes "repl_step sha sc db_bytes cfg w w'"
  shows "\<exists>xs. log_entries (rw_hub w') = log_entries (rw_hub w) @ xs"
  using assms
proof cases
  case (repl_publish en e s v bc)
  from publish_grows [OF repl_publish(3), of bc] repl_publish(1) show ?thesis by auto
next
  case (repl_connect v h ss)
  then show ?thesis by (auto simp: sub_start_def log_entries_def split: prod.splits)
next
  case (repl_serve ss n h ss')
  with sub_step_grows(1) show ?thesis by simp
qed (auto simp: log_entries_def)

lemma repl_apply_inv:
  assumes "repl_inv w" "int64_sizes w" "rw_conn w = Some (ss, n)" "n < length (ss_out ss)"
    and "applyEvent api cfg now sql (sync_event dir f (ss_out ss ! n)) (rw_client w) = (c, Inr ())"
  shows "repl_inv (w\<lparr>rw_client := c, rw_conn := Some (ss, Suc n)\<rparr>)"
proof -
  let ?log = "log_entries (rw_hub w)"
  obtain v where v: "at_version ?log (cl_store (rw_client w)) v" "sub_inv (rw_hub w) ss" "\<not> ss_lost ss" "int v = ss_since ss + int n"
    and hub: "hub_inv (rw_hub w)" using assms(1,3) by (auto simp: repl_inv_def)
  have idx: "v = nat (ss_since ss) + n" using v(2,4) unfolding sub_inv_def by linarith
  have e: "v < length ?log" "ss_out ss ! n = ?log ! v" using session_entry [OF v(2,3) assms(4)] by (simp_all add: idx)
  have ver: "ce_version (?log ! v) = int v + 1" by (rule log_entries_version [OF hub e(1)])
  moreover have "int64_range (int v + 1)"
    using log_entry_versions [OF hub nth_mem [OF e(1)]] ver hub by (simp add: int64_range_def hub_inv_def store_inv_def max_int64_def)
  moreover have "int64_range (ce_size (?log ! v))" using assms(2) nth_mem [OF e(1)] by (simp add: int64_sizes_def)
  ultimately have "at_version ?log (cl_store c) (Suc v)"
    using at_version_next [OF v(1) e(1)] applyEvent_store_any(1) [OF assms(5) refl] e(2) by simp
  with v hub assms(4) show ?thesis by (auto simp: repl_inv_def intro!: exI [of _ "Suc v"])
qed

lemma repl_serve_inv:
  assumes "repl_inv w" "rw_conn w = Some (ss, n)" "sub_step (rw_hub w, ss) (h, ss')" "\<not> ss_lost ss'"
  shows "repl_inv (w\<lparr>rw_hub := h, rw_conn := Some (ss', n), rw_lost := l\<rparr>)"
proof -
  obtain v where v: "at_version (log_entries (rw_hub w)) (cl_store (rw_client w)) v" "sub_inv (rw_hub w) ss"
    "n \<le> length (ss_out ss)" "int v = ss_since ss + int n" using assms(1,2) by (auto simp: repl_inv_def)
  have inv: "sub_inv h ss'" using sub_step_inv [OF assms(3)] v(2) by simp
  from sub_step_grows(1) [OF assms(3)] obtain xs where "log_entries h = log_entries (rw_hub w) @ xs" by blast
  then have "at_version (log_entries h) (cl_store (rw_client w)) v" using at_version_grow [OF v(1)] by simp
  moreover have "hub_inv h" using inv by (simp add: sub_inv_def)
  ultimately show ?thesis using inv v(3,4) sub_step_grows(2,3) [OF assms(3)] assms(4) by (auto simp: repl_inv_def intro!: exI [of _ v])
qed

lemma repl_connect_inv:
  assumes "repl_inv w" "HubVersion no_faults (cl_store (rw_client w)) = Inr v" "sub_start v (rw_hub w) = (h, ss)"
  shows "repl_inv (w\<lparr>rw_hub := h, rw_conn := Some (ss, 0)\<rparr>)"
proof -
  obtain u where u: "at_version (log_entries (rw_hub w)) (cl_store (rw_client w)) u" and hub: "hub_inv (rw_hub w)"
    using assms(1) by (auto simp: repl_inv_def)
  then have v: "v = int u" using assms(2) by (simp add: at_version_def)
  have "sub_inv h ss" using sub_start_inv [OF hub, of v] v assms(3) by simp
  moreover have "log_entries h = log_entries (rw_hub w)" "ss_since ss = v" "\<not> ss_lost ss"
    using assms(3) by (auto simp: sub_start_def log_entries_def split: prod.splits)
  ultimately show ?thesis using u v by (auto simp: repl_inv_def sub_inv_def intro!: exI [of _ u])
qed

lemma repl_bootstrap_inv:
  assumes "repl_inv w" "rw_conn w = None" "bootstrapTreeDB (api_of sha sc (rw_hub w)) db_bytes cfg now (rw_client w) = (c, r)"
  shows "repl_inv (w\<lparr>rw_client := c\<rparr>)"
proof -
  have hub: "hub_inv (rw_hub w)" using assms(1) by (simp add: repl_inv_def)
  have "cl_store c = cl_store (rw_client w) \<or> (\<exists>db. api_tree (api_of sha sc (rw_hub w)) = Body db \<and> cl_store c = db)"
    using assms(3) by (auto simp: bootstrapTreeDB_def initClientSchema_def split: reply.splits prod.splits sum.splits)
  with at_version_snapshot [OF hub] assms(1,2) show ?thesis by (auto simp: repl_inv_def)
qed

lemma repl_step_inv:
  assumes "repl_step sha sc db_bytes cfg w w'" "repl_inv w" "int64_sizes w" "\<not> rw_lost w'"
  shows "repl_inv w'"
  using assms(1)
proof cases
  case (repl_publish en e s v bc)
  have hub: "hub_inv (rw_hub w)" using assms(2) by (simp add: repl_inv_def)
  obtain xs where log: "log_entries ((rw_hub w)\<lparr>hub_db := s, hub_bc := bc\<rparr>) = log_entries (rw_hub w) @ xs"
    using publish_grows [OF repl_publish(3)] by blast
  obtain u where "at_version (log_entries (rw_hub w)) (cl_store (rw_client w)) u" using assms(2) by (auto simp: repl_inv_def)
  from at_version_grow [OF this, of xs] log repl_publish(1,2) publish_inv [OF hub repl_publish(3,4)]
  show ?thesis by (auto simp: repl_inv_def)
next
  case (repl_disk f)
  then show ?thesis using assms(2)
    by (auto simp: repl_inv_def hub_inv_def log_entries_def sub_inv_def sub_progress_def session_buf_def split: option.splits)
next
  case (repl_connect v h ss)
  with repl_connect_inv [OF assms(2) repl_connect(3,4)] show ?thesis by simp
next
  case (repl_bootstrap now c r)
  with repl_bootstrap_inv [OF assms(2) repl_bootstrap(2,3)] show ?thesis by simp
next
  case (repl_serve ss n h ss')
  with repl_serve_inv [OF assms(2) repl_serve(2,3)] assms(4) show ?thesis by simp
next
  case (repl_apply ss n api now sql f c)
  with repl_apply_inv [OF assms(2,3) repl_apply(2-4)] show ?thesis by simp
next
  case (repl_fail ss n api now sql f c e bc)
  have "cl_store c = cl_store (rw_client w)" using applyEvent_store_any(2) [OF repl_fail(4)] by simp
  with repl_fail assms(2) Unsubscribe_hub [OF _ repl_fail(5)] show ?thesis by (auto simp: repl_inv_def)
next
  case (repl_drop ss n bc)
  with assms(2) Unsubscribe_hub [OF _ repl_drop(3)] show ?thesis by (auto simp: repl_inv_def)
qed (use assms(2) in \<open>auto simp: repl_inv_def split: option.splits\<close>)

lemma repl_step_lost: "repl_step sha sc db_bytes cfg w w' \<Longrightarrow> \<not> rw_lost w' \<Longrightarrow> \<not> rw_lost w"
  by (cases rule: repl_step.cases) auto

lemma repl_reachable_inv:
  assumes "hub_inv h" "(repl_step sha sc db_bytes cfg)\<^sup>*\<^sup>* (repl_start h c) w" "\<not> rw_lost w" "int64_sizes w"
  shows "repl_inv w"
  using assms(2-4)
proof (induction rule: rtranclp_induct)
  case base
  show ?case unfolding repl_start_def by (rule repl_inv_offline [where v = 0]) (simp_all add: assms(1) at_version_start)
next
  case (step y z)
  have nl: "\<not> rw_lost y" by (rule repl_step_lost [OF step.hyps(2) step.prems(1)])
  obtain xs where "log_entries (rw_hub z) = log_entries (rw_hub y) @ xs" using repl_step_grows [OF step.hyps(2)] by blast
  with step.prems(2) have sizes: "int64_sizes y" by (simp add: int64_sizes_def)
  from repl_step_inv [OF step.hyps(2) step.IH [OF nl sizes] sizes step.prems(1)] show ?case .
qed

section \<open>Properties\<close>


definition ex_origin :: Hub where
  "ex_origin = ex_hub\<lparr>hub_db := ex_store\<rparr>"

definition ex_session :: Session where
  "ex_session = the (sub_backfill no_faults ex_origin (snd (sub_start 0 ex_origin)))"

definition ex_replica :: Client where
  "ex_replica = fst (applyEvent ex_api ex_ccfg 0 no_faults (sync_event (sc_dir ex_cfg) (hub_fs ex_origin) (ss_out ex_session ! 0)) ex_client)"

definition ex_repl_world :: Replica_World where
  "ex_repl_world = \<lparr>rw_hub = fst (sub_start 0 ex_origin), rw_conn = Some (ex_session, 1), rw_client = ex_replica, rw_lost = False\<rparr>"

lemma ex_origin_inv: "hub_inv ex_origin"
  using store_reachable_inv [OF ex_store_reachable] ex_hub_ok(1) by (simp add: ex_origin_def hub_inv_def)

lemma ex_repl_world_reachable: "(repl_step ex_sha ex_cfg (\<lambda>_. []) ex_ccfg)\<^sup>*\<^sup>* (repl_start ex_origin ex_client) ex_repl_world"
proof -
  let ?R = "repl_step ex_sha ex_cfg (\<lambda>_. []) ex_ccfg"
  let ?w0 = "repl_start ex_origin ex_client" and ?h = "fst (sub_start 0 ex_origin)" and ?ss = "snd (sub_start 0 ex_origin)"
  let ?w1 = "?w0\<lparr>rw_hub := ?h, rw_conn := Some (?ss, 0)\<rparr>"
  let ?w2 = "?w1\<lparr>rw_conn := Some (ex_session, 0)\<rparr>"
  have c: "rw_client ?w0 = ex_client" by (simp add: repl_start_def ex_client_def)
  have "?R ?w0 ?w1" by (rule repl_connect [where v = 0]) (simp_all add: repl_start_def initClientSchema_def HubVersion_def)
  moreover have "?R ?w1 ?w2"
  proof -
    have ss: "sub_backfill no_faults ?h ?ss = Some ex_session" "\<not> ss_live ?ss" "\<not> ss_lost ex_session"
      by (simp_all add: ex_session_def sub_backfill_def sub_start_def ChangesSince_def split_beta split: sum.split)
    have "rw_conn ?w1 = Some (?ss, 0)" "rw_hub ?w1 = ?h" by simp_all
    from repl_serve [OF this(1), of ?h ex_session] sub_do_backfill [OF ss(2,1)] this(2) ss(3) show ?thesis
      by (simp add: repl_start_def)
  qed
  moreover have "?R ?w2 ex_repl_world"
  proof -
    let ?ev = "sync_event (sc_dir ex_cfg) (hub_fs ex_origin) (ss_out ex_session ! 0)"
    have "0 < length (ss_out ex_session)" "snd (applyEvent ex_api ex_ccfg 0 no_faults ?ev ex_client) = Inr ()" by code_simp+
    then have "applyEvent ex_api ex_ccfg 0 no_faults ?ev (rw_client ?w2) = (ex_replica, Inr ())"
      using c by (simp add: ex_replica_def prod_eq_iff)
    from repl_apply [OF _ \<open>0 < length (ss_out ex_session)\<close> this, where sha = ex_sha and db_bytes = "\<lambda>_. []"] show ?thesis
      by (simp add: ex_repl_world_def repl_start_def)
  qed
  ultimately show ?thesis by (meson rtranclp.rtrancl_into_rtrancl rtranclp.rtrancl_refl)
qed


end
