(* ===== verification/Replica_Files.thy ===== *)
theory Replica_Files
  imports Replication
begin

text \<open>
  What streaming does to the replica's disk: through every event, failure and reconnection, each file the
  client database lists is on disk with the digest it lists, provided the hub's data has the
  digest it is sent under.
\<close>

section \<open>Files and rows\<close>

definition files_match :: "ClientCfg \<Rightarrow> Client \<Rightarrow> bool" where
  "files_match cfg c \<longleftrightarrow> (\<forall>p t. client_view (cl_store c) p = Some t \<longrightarrow>
     (\<exists>d. os_ReadFile (cl_fs c) (filepath_Join (cc_dir cfg) p) = Inr d \<and> client_sum c d = te_digest t))"

text \<open>Inline data has the digest of its event.\<close>

definition honest_event :: "(bytes \<Rightarrow> Digest) \<Rightarrow> SyncEvent \<Rightarrow> bool" where
  "honest_event hash ev \<longleftrightarrow> (case ev_event ev of SyncEvent_Change change \<Rightarrow> fc_data change = [] \<or> hash (fc_data change) = fc_digest change | _ \<Rightarrow> True)"

text \<open>No path is inside another: no file takes the place of a directory.\<close>

definition unnested :: "string set \<Rightarrow> bool" where
  "unnested P \<longleftrightarrow> (\<forall>p \<in> P. plain_path p) \<and> (\<forall>p \<in> P. \<forall>q \<in> P. prefix (split_slash p) (split_slash q) \<longrightarrow> p = q)"

lemma unnested_frame:
  assumes "unnested P" "p \<in> P" "q \<in> P" "p \<noteq> q"
  shows "\<not> prefix (filepath_Join d p) (filepath_Join d q)"
  using assms by (auto simp: unnested_def Join_plain_path)

lemma unnested_neq: "unnested P \<Longrightarrow> p \<in> P \<Longrightarrow> q \<in> P \<Longrightarrow> p \<noteq> q \<Longrightarrow> filepath_Join d p \<noteq> filepath_Join d q"
  using unnested_frame [of P p q d] prefix_order.refl by metis

lemma client_sum_update [simp]: "client_sum (c\<lparr>cl_fs := f\<rparr>) = client_sum c" "client_sum (c\<lparr>cl_store := s\<rparr>) = client_sum c"
  by (simp_all add: fun_eq_iff client_sum_def)

section \<open>Writing a change\<close>

lemma row_of_digest:
  assumes "client_inv s" "LookupByDigest sql digest ex s = Inr (Some q)"
  obtains t where "client_view s q = Some t" "te_digest t = digest"
proof -
  from assms(2) obtain r where r: "find (\<lambda>r. ht_digest r = Some digest \<and> ht_path r \<noteq> ex) (hub_tree s) = Some r" "q = ht_path r"
    by (auto simp: LookupByDigest_def split: if_splits option.splits)
  from find_SomeD [OF r(1)] have "r \<in> set (hub_tree s)" "ht_digest r = Some digest" by simp_all
  moreover from this(1) have "tbl_lookup ht_path q (hub_tree s) = Some r"
    using tbl_lookup_in assms(1) r(2) by (auto simp: client_inv_def)
  ultimately show ?thesis
    using that [of "hte_entry (tree_row_entry r)"] by (simp add: client_view_def tbl_map_def tree_row_entry_def digest_of_blob_def)
qed

lemma fetchLargeFile_content:
  assumes "fetchLargeFile api cfg now sql digest p dest mode c = (c', Inr ())" "honest_blobs api (client_sum c)" "client_inv (cl_store c)"
    and "files_match cfg c"
  shows "\<exists>d. os_ReadFile (cl_fs c') dest = Inr d \<and> client_sum c d = digest"
proof -
  have wr: "os_ReadFile (fst (os_WriteFile now dest d mode (cl_fs c))) dest = Inr d" if "snd (os_WriteFile now dest d mode (cl_fs c)) = Inr ()" for d
    by (rule ReadFile_write_same [OF that])
  have copy: "client_sum c d = digest"
    if "LookupByDigest sql digest p (cl_store c) = Inr (Some q)" "os_ReadFile (cl_fs c) (filepath_Join (cc_dir cfg) q) = Inr d" for q d
  proof -
    from row_of_digest [OF assms(3) that(1)] obtain t where t: "client_view (cl_store c) q = Some t" "te_digest t = digest" .
    with assms(4) obtain d' where "os_ReadFile (cl_fs c) (filepath_Join (cc_dir cfg) q) = Inr d'" "client_sum c d' = digest"
      unfolding files_match_def by metis
    with that(2) show ?thesis by simp
  qed
  have delta: "client_sum c d = digest" if "fetchDelta api sha (client_sum c) digest l = Inr d" for sha l d
    using that by (auto simp: fetchDelta_def Let_def split: reply.splits if_splits)
  have full: "\<exists>d. os_ReadFile (fst (fetchFullBlob api now digest dest mode (cl_fs c))) dest = Inr d \<and> client_sum c d = digest"
    if "snd (fetchFullBlob api now digest dest mode (cl_fs c)) = Inr ()"
    using fetchFullBlob_ok [OF that] assms(2) by (metis honest_blobs_def)
  let ?copied = "case LookupByDigest sql digest p (cl_store c) of
      Inr (Some q) \<Rightarrow> (case os_ReadFile (cl_fs c) (filepath_Join (cc_dir cfg) q) of Inr d \<Rightarrow> Some d | Inl _ \<Rightarrow> None) | _ \<Rightarrow> None"
  let ?delta = "case os_ReadFile (cl_fs c) dest of
      Inr l \<Rightarrow> if l \<noteq> [] then (case fetchDelta api (cc_sha256 cfg) (client_sum c) digest l of Inr d \<Rightarrow> Some d | Inl _ \<Rightarrow> None) else None
    | Inl _ \<Rightarrow> None"
  have c: "client_sum c d = digest" if "?copied = Some d" for d using that copy by (auto split: sum.splits option.splits)
  have d: "client_sum c d = digest" if "?delta = Some d" for d using that delta by (auto split: sum.splits if_splits)
  show ?thesis
  proof (cases ?copied)
    case (Some x)
    with assms(1) have "snd (os_WriteFile now dest x mode (cl_fs c)) = Inr ()" "cl_fs c' = fst (os_WriteFile now dest x mode (cl_fs c))"
      by (auto simp: fetchLargeFile_def Let_def)
    with wr c [OF Some] show ?thesis by auto
  next
    case none: None
    show ?thesis
    proof (cases ?delta)
      case (Some x)
      with assms(1) none have "snd (os_WriteFile now dest x mode (cl_fs c)) = Inr ()" "cl_fs c' = fst (os_WriteFile now dest x mode (cl_fs c))"
        by (auto simp: fetchLargeFile_def Let_def)
      with wr d [OF Some] show ?thesis by auto
    next
      case None
      with assms(1) none have "snd (fetchFullBlob api now digest dest mode (cl_fs c)) = Inr ()"
        "cl_fs c' = fst (fetchFullBlob api now digest dest mode (cl_fs c))"
        by (auto simp: fetchLargeFile_def Let_def)
      with full show ?thesis by auto
    qed
  qed
qed

lemma write_change_content:
  assumes "write_change api cfg now sql p change c = (c', Inr ())" "honest_blobs api (client_sum c)" "client_inv (cl_store c)"
    and "files_match cfg c" "fc_data change = [] \<or> client_sum c (fc_data change) = fc_digest change"
  shows "\<exists>d. os_ReadFile (cl_fs c') (filepath_Join (cc_dir cfg) p) = Inr d \<and> client_sum c d = fc_digest change"
proof -
  let ?full = "filepath_Join (cc_dir cfg) p"
  obtain f r where mk: "os_MkdirAll (filepath_Dir ?full) (cl_fs c) = (f, r)" by fastforce
  with assms(1) have r: "r = Inr ()" by (cases r) (auto simp: write_change_def Let_def)
  let ?c1 = "c\<lparr>cl_fs := f\<rparr>"
  have "os_ReadFile f q = Inr d" if "os_ReadFile (cl_fs c) q = Inr d" for q d
    using ReadFile_mkdir [OF that, of "filepath_Dir ?full"] mk by simp
  then have m: "files_match cfg ?c1" using assms(4) by (fastforce simp: files_match_def)
  show ?thesis
  proof (cases "fc_data change = []")
    case True
    obtain c2 r2 where fe: "fetchLargeFile api cfg now sql (fc_digest change) p ?full (fc_mode change) ?c1 = (c2, r2)" by fastforce
    with assms(1) mk r True have ok: "r2 = Inr ()" "cl_fs c' = os_Chtimes ?full (fc_mtime change) (cl_fs c2)"
      by (cases r2; auto simp: write_change_def Let_def)+
    from fetchLargeFile_content [OF fe [unfolded ok(1)] _ _ m] assms(2,3) show ?thesis
      by (simp add: ok(2) ReadFile_chtimes)
  next
    case False
    obtain f1 r1 where wr: "os_WriteFile now ?full (fc_data change) (fc_mode change) f = (f1, r1)" by fastforce
    with assms(1) mk r False have ok: "r1 = Inr ()" "cl_fs c' = os_Chtimes ?full (fc_mtime change) f1"
      by (cases r1; auto simp: write_change_def Let_def)+
    from ReadFile_write_same [of now ?full "fc_data change" "fc_mode change" f] wr ok(1) assms(5) False show ?thesis
      by (simp add: ok(2) ReadFile_chtimes)
  qed
qed

text \<open>A write that fails leaves every file as it was.\<close>

lemma fetchLargeFile_error:
  assumes "fetchLargeFile api cfg now sql digest p dest mode c = (c', Inl e)"
  shows "cl_fs c' = cl_fs c"
  using assms os_WriteFile_error
  by (fastforce simp: fetchLargeFile_def fetchFullBlob_def Let_def prod_eq_iff split: option.splits reply.splits)

lemma write_change_error:
  assumes "write_change api cfg now sql p change c = (c', Inl e)" "os_ReadFile (cl_fs c) q = Inr d"
  shows "os_ReadFile (cl_fs c') q = Inr d"
proof -
  let ?full = "filepath_Join (cc_dir cfg) p"
  obtain f r where mk: "os_MkdirAll (filepath_Dir ?full) (cl_fs c) = (f, r)" by fastforce
  have f: "os_ReadFile f q = Inr d" using ReadFile_mkdir [OF assms(2), of "filepath_Dir ?full"] mk by simp
  obtain f1 r1 where wr: "os_WriteFile now ?full (fc_data change) (fc_mode change) f = (f1, r1)" by fastforce
  obtain c2 r2 where fe: "fetchLargeFile api cfg now sql (fc_digest change) p ?full (fc_mode change) (c\<lparr>cl_fs := f\<rparr>) = (c2, r2)" by fastforce
  have e1: "f1 = f" if "r1 = Inl x" for x using os_WriteFile_error [of now ?full "fc_data change" "fc_mode change" f x] wr that by simp
  have e2: "cl_fs c2 = f" if "r2 = Inl x" for x using fetchLargeFile_error [OF fe [unfolded that]] by simp
  show ?thesis using assms(1) f e1 e2 by (cases r; cases r1; cases r2) (auto simp: write_change_def Let_def mk wr fe split: if_splits)
qed

section \<open>Events\<close>

lemma fetchLargeFile_hasher: "cl_hasher (fst (fetchLargeFile api cfg now sql digest p dest mode c)) = cl_hasher c"
  by (simp add: fetchLargeFile_def Let_def)

lemma write_change_hasher: "cl_hasher (fst (write_change api cfg now sql p change c)) = cl_hasher c"
proof -
  let ?full = "filepath_Join (cc_dir cfg) p"
  obtain f r where mk: "os_MkdirAll (filepath_Dir ?full) (cl_fs c) = (f, r)" by fastforce
  obtain f1 r1 where wr: "os_WriteFile now ?full (fc_data change) (fc_mode change) f = (f1, r1)" by fastforce
  obtain c2 r2 where fe: "fetchLargeFile api cfg now sql (fc_digest change) p ?full (fc_mode change) (c\<lparr>cl_fs := f\<rparr>) = (c2, r2)" by fastforce
  have "cl_hasher c2 = cl_hasher c"
    using fetchLargeFile_hasher [of api cfg now sql "fc_digest change" p ?full "fc_mode change" "c\<lparr>cl_fs := f\<rparr>"] fe by simp
  then show ?thesis by (simp add: write_change_def Let_def mk wr fe split: sum.split)
qed

lemma applyEvent_sum:
  assumes "applyEvent api cfg now no_faults ev c = (c', r)"
  shows "client_sum c' = client_sum c"
proof -
  have "cl_hasher c1 = cl_hasher c" if "write_change api cfg now no_faults p change c = (c1, x)" for p change c1 x
    using write_change_hasher [of api cfg now no_faults p change c] that by simp
  then have "cl_hasher c' = cl_hasher c" using assms
    by (auto simp: applyEvent_def store_change_def ApplyChange_no_faults Let_def split: Event.splits if_splits prod.splits sum.splits)
  then show ?thesis by (simp add: fun_eq_iff client_sum_def)
qed

lemma applyEvent_touched:
  assumes "applyEvent api cfg now no_faults ev c = (c', Inr ())" "\<not> skipPath c (ev_path ev)" "ev_event ev = SyncEvent_Change change"
    and "honest_blobs api (client_sum c)" "honest_event (client_sum c) ev" "client_inv (cl_store c)" "files_match cfg c"
  shows "\<exists>d. os_ReadFile (cl_fs c') (filepath_Join (cc_dir cfg) (ev_path ev)) = Inr d \<and> client_sum c d = fc_digest change"
proof -
  obtain c1 r1 where w: "write_change api cfg now no_faults (ev_path ev) change c = (c1, r1)" by fastforce
  with assms(1-3) have r1: "r1 = Inr ()" and c': "cl_fs c' = cl_fs c1"
    by (cases r1; auto simp: applyEvent_def store_change_def ApplyChange_no_faults Let_def)+
  from write_change_content [OF w [unfolded r1] assms(4,6,7)] assms(3,5) show ?thesis by (simp add: c' honest_event_def)
qed

lemma applyEvent_error_files:
  assumes "applyEvent api cfg now no_faults ev c = (c', Inl e)" "os_ReadFile (cl_fs c) q = Inr d"
  shows "os_ReadFile (cl_fs c') q = Inr d"
  using assms write_change_error [where q = q and d = d and c = c]
  by (auto simp: applyEvent_def store_change_def ApplyChange_no_faults Let_def split: Event.splits if_splits prod.splits sum.splits)

text \<open>One event keeps files and rows in step.\<close>

definition in_step :: "string set \<Rightarrow> ClientCfg \<Rightarrow> Client \<Rightarrow> bool" where
  "in_step P cfg c \<longleftrightarrow> files_match cfg c \<and> client_inv (cl_store c) \<and> cl_local_edits c = None \<and> dom (client_view (cl_store c)) \<subseteq> P"

lemma applyEvent_untouched:
  assumes "applyEvent api cfg now no_faults ev c = (c', r)" "in_step P cfg c" "unnested P" "ev_path ev \<in> P"
    and "client_view (cl_store c) p = Some t" "p \<noteq> ev_path ev"
  shows "\<exists>d. os_ReadFile (cl_fs c') (filepath_Join (cc_dir cfg) p) = Inr d \<and> client_sum c d = te_digest t"
proof -
  from assms(2,5) obtain d where d: "os_ReadFile (cl_fs c) (filepath_Join (cc_dir cfg) p) = Inr d" "client_sum c d = te_digest t"
    unfolding files_match_def in_step_def by blast
  have "p \<in> P" using assms(2,5) by (auto simp: in_step_def)
  from applyEvent_frame [OF d(1) unnested_frame [OF assms(3) this assms(4,6)], of api now no_faults] assms(1) d(2) show ?thesis by simp
qed

lemma applyEvent_in_step:
  assumes "applyEvent api cfg now no_faults ev c = (c', r)" "in_step P cfg c" "unnested P" "ev_path ev \<in> P"
    and "honest_blobs api (client_sum c)" "honest_event (client_sum c) ev"
  shows "in_step P cfg c'"
proof (cases r)
  case (Inl e)
  have "cl_store c' = cl_store c" "cl_local_edits c' = cl_local_edits c" using applyEvent_store [OF assms(1)] Inl by simp_all
  moreover have "files_match cfg c'" unfolding files_match_def applyEvent_sum [OF assms(1)] \<open>cl_store c' = cl_store c\<close>
    using assms(2) applyEvent_error_files [OF assms(1) [unfolded Inl]] unfolding in_step_def files_match_def by blast
  ultimately show ?thesis using assms(2) by (simp add: in_step_def)
next
  case (Inr u)
  then have ok: "applyEvent api cfg now no_faults ev c = (c', Inr ())" using assms(1) by simp
  have skip: "\<not> skipPath c (ev_path ev)" using assms(2) by (simp add: in_step_def skipPath_def)
  note store = applyEvent_store(2) [OF ok refl]
  have inv: "client_inv (cl_store c)" "files_match cfg c" "dom (client_view (cl_store c)) \<subseteq> P" using assms(2) by (simp_all add: in_step_def)
  note other = applyEvent_untouched [OF ok assms(2,3,4)]
  have "files_match cfg c' \<and> dom (client_view (cl_store c')) \<subseteq> P \<and> client_inv (cl_store c')"
  proof (cases "ev_event ev")
    case (SyncEvent_Change change)
    then have e: "event_entry ev = Some (event_change (ev_version ev) (ev_path ev) change)" by (simp add: event_entry_def)
    have view: "client_view (cl_store c') p = (if p = ev_path ev then tree_of_change (event_change (ev_version ev) (ev_path ev) change) else client_view (cl_store c) p)" for p
      using store e applied_view by (simp add: event_change_def)
    have "\<exists>d. os_ReadFile (cl_fs c') (filepath_Join (cc_dir cfg) (ev_path ev)) = Inr d \<and> client_sum c d = fc_digest change"
      by (rule applyEvent_touched [OF ok skip SyncEvent_Change assms(5,6) inv(1,2)])
    then have "files_match cfg c'" unfolding files_match_def applyEvent_sum [OF ok] view using other
      by (auto simp: tree_of_change_def event_change_def)
    moreover have "dom (client_view (cl_store c')) \<subseteq> P" using inv(3) assms(4) by (auto simp: view dom_def)
    ultimately show ?thesis using inv(1) store e applied_inv by simp
  next
    case SyncEvent_Delete
    then have e: "event_entry ev = Some (event_delete (ev_version ev) (ev_path ev))" by (simp add: event_entry_def)
    have view: "client_view (cl_store c') p = (if p = ev_path ev then None else client_view (cl_store c) p)" for p
      using store e applied_view by (simp add: event_delete_def tree_of_change_def)
    have "files_match cfg c'" unfolding files_match_def applyEvent_sum [OF ok] view using other by auto
    moreover have "dom (client_view (cl_store c')) \<subseteq> P" using inv(3) by (auto simp: view dom_def)
    ultimately show ?thesis using inv(1) store e applied_inv by simp
  next
    case SyncEvent_unset
    then have "c' = c" using ok by (simp add: applyEvent_def Let_def)
    with inv show ?thesis by simp
  qed
  then show ?thesis using applyEvent_store(1) [OF ok] assms(2) by (simp add: in_step_def)
qed

section \<open>Connections\<close>

lemma apply_events_in_step:
  assumes "apply_events api cfg clock no_faults evs c = (c', r)" "in_step P cfg c" "unnested P"
    and "honest_blobs api (client_sum c)" "\<forall>ev \<in> set evs. ev_path ev \<in> P \<and> honest_event (client_sum c) ev"
  shows "in_step P cfg c' \<and> client_sum c' = client_sum c"
  using assms
proof (induction evs arbitrary: clock c)
  case Nil
  then show ?case by simp
next
  case (Cons ev evs)
  obtain c1 r1 where c1: "applyEvent api cfg (clock 0) no_faults ev c = (c1, r1)" by fastforce
  have s1: "in_step P cfg c1" using applyEvent_in_step [OF c1 Cons.prems(2,3) _ Cons.prems(4)] Cons.prems(5) by simp
  have sum: "client_sum c1 = client_sum c" by (rule applyEvent_sum [OF c1])
  show ?case
  proof (cases r1)
    case (Inl e)
    have "c' = c1" using Cons.prems(1) unfolding apply_events.simps c1 Inl by simp
    with s1 sum show ?thesis by simp
  next
    case (Inr u)
    have "apply_events api cfg (\<lambda>i. clock (Suc i)) no_faults evs c1 = (c', r)"
      using Cons.prems(1) unfolding apply_events.simps c1 Inr prod.case sum.case .
    from Cons.IH [OF this s1 Cons.prems(3)] Cons.prems(4,5) show ?thesis unfolding sum by simp
  qed
qed

lemma syncOnce_in_step:
  assumes "in_step P cfg c" "unnested P" "honest_blobs api (client_sum c)"
    and "\<And>v evs. subscribe v = Body evs \<Longrightarrow> \<forall>ev \<in> set evs. ev_path ev \<in> P \<and> honest_event (client_sum c) ev"
  shows "in_step P cfg (fst (syncOnce api cfg clock no_faults subscribe c)) \<and>
    client_sum (fst (syncOnce api cfg clock no_faults subscribe c)) = client_sum c"
proof -
  obtain v where v: "HubVersion no_faults (cl_store c) = Inr v"
    by (cases "tbl_lookup fst ''hub_version'' (sync_state (cl_store c))") (simp_all add: HubVersion_def)
  show ?thesis
  proof (cases "subscribe v")
    case (Body evs)
    obtain c1 r1 where a: "apply_events api cfg clock no_faults evs c = (c1, r1)" by fastforce
    from apply_events_in_step [OF a assms(1,2,3) assms(4) [OF Body]] Body v a show ?thesis
      by (simp add: syncOnce_def split: sum.split)
  qed (use v assms(1) in \<open>simp_all add: syncOnce_def\<close>)
qed

section \<open>Properties\<close>


definition ex_honest :: Hub where
  "ex_honest = ex_hub\<lparr>hub_db := fst (Append (env_at 3) ((ex_change OpCreate [9, 1, 2])\<lparr>ce_size := 2\<rparr>) empty_store)\<rparr>"

definition ex_hashing :: Client where
  "ex_hashing = ex_client\<lparr>cl_hasher := Some \<lparr>hash_name = DefaultHash, hash_sum = (\<lambda>d. 9 # d)\<rparr>\<rparr>"


end
