(* ===== verification/Write_Mode.thy ===== *)
theory Write_Mode
  imports Replica_Files
begin

text \<open>
  The read-write replica: \<^verbatim>\<open>Sync\<close> with its reconnect loop and the push loop. Each turn of
  \<^verbatim>\<open>syncReadWrite\<close> refreshes the local edit set, streams until the connection breaks and then pushes.
\<close>

section \<open>The loops\<close>

text \<open>
  The hub of turn \<open>i\<close> is seen through \<open>api i\<close>, \<open>subscribe i\<close> and \<open>post i\<close>. The loop ends only when its context is
  cancelled, so every number of turns is a possible end; \<open>None\<close> is a push that does not return. Pushes of
  the ticker that fall into a connection are not interleaved with its events.
\<close>

primrec syncReadWrite :: "(nat \<Rightarrow> hub_api) \<Rightarrow> (nat \<Rightarrow> PushRequest \<Rightarrow> PushResult list reply) \<Rightarrow> (nat \<Rightarrow> int \<Rightarrow> SyncEvent list reply) \<Rightarrow>
    walker \<Rightarrow> ignorer option res \<Rightarrow> ClientCfg \<Rightarrow> (nat \<Rightarrow> nat \<Rightarrow> int) \<Rightarrow> sql_faults \<Rightarrow> nat \<Rightarrow> Client \<Rightarrow> Client option" where
  "syncReadWrite api post subscribe walk gitignore cfg clock sql 0 c = Some c"
| "syncReadWrite api post subscribe walk gitignore cfg clock sql (Suc n) c =
     (case syncReadWrite api post subscribe walk gitignore cfg clock sql n c of
        None \<Rightarrow> None
      | Some c1 \<Rightarrow>
          doPush (api n) (post n) walk gitignore cfg (clock n) sql
            (fst (syncOnce (api n) cfg (clock n) sql (subscribe n) (refreshLocalEditPaths walk gitignore cfg sql c1))))"

text \<open>\<^verbatim>\<open>pushLoop\<close>: one push at once and one per tick.\<close>

primrec pushLoop :: "(nat \<Rightarrow> hub_api) \<Rightarrow> (nat \<Rightarrow> PushRequest \<Rightarrow> PushResult list reply) \<Rightarrow> walker \<Rightarrow> ignorer option res \<Rightarrow> ClientCfg \<Rightarrow>
    (nat \<Rightarrow> nat \<Rightarrow> int) \<Rightarrow> sql_faults \<Rightarrow> nat \<Rightarrow> Client \<Rightarrow> Client option" where
  "pushLoop api post walk gitignore cfg clock sql 0 c = doPush (api 0) (post 0) walk gitignore cfg (clock 0) sql c"
| "pushLoop api post walk gitignore cfg clock sql (Suc ticks) c =
     (case pushLoop api post walk gitignore cfg clock sql ticks c of
        None \<Rightarrow> None
      | Some c1 \<Rightarrow> doPush (api (Suc ticks)) (post (Suc ticks)) walk gitignore cfg (clock (Suc ticks)) sql c1)"

text \<open>\<^verbatim>\<open>Sync\<close> resolves the hasher and runs the loop of its mode.\<close>

definition Sync :: "(nat \<Rightarrow> hub_api) \<Rightarrow> (nat \<Rightarrow> PushRequest \<Rightarrow> PushResult list reply) \<Rightarrow> (nat \<Rightarrow> int \<Rightarrow> SyncEvent list reply) \<Rightarrow>
    walker \<Rightarrow> ignorer option res \<Rightarrow> ClientCfg \<Rightarrow> (nat \<Rightarrow> nat \<Rightarrow> int) \<Rightarrow> sql_faults \<Rightarrow> nat \<Rightarrow> Client \<Rightarrow> (Client \<times> err option) option" where
  "Sync api post subscribe walk gitignore cfg clock sql n c =
     (case ensureHasher cfg sql c of
        (c1, Inl e) \<Rightarrow> Some (c1, Some (Wrap ''resolve hasher'' e))
      | (c1, Inr _) \<Rightarrow>
          if cl_write_mode c1
          then map_option (\<lambda>c2. (c2, None)) (syncReadWrite api post subscribe walk gitignore cfg clock sql n c1)
          else Some (syncReadOnly api cfg clock sql subscribe n c1, None))"

section \<open>Properties\<close>

text \<open>The hub after another writer created \<open>a\<close>, and after it accepted the push of this client.\<close>

definition ex_writer :: Client where
  "ex_writer = ex_hashing\<lparr>cl_write_mode := True\<rparr>"

definition ex_push_request :: PushRequest where
  "ex_push_request = \<lparr>pq_ops = (case ScanLocal walk_list (Inr None) ex_ccfg no_faults ex_writer of Inr (chs, dels) \<Rightarrow> BuildPushOps chs dels | Inl _ \<Rightarrow> []),
     pq_on_conflict = ConflictPolicy_FAIL\<rparr>"

definition ex_pushed :: Hub where
  "ex_pushed = fst (ProcessPush ex_cfg (\<lambda>_. env_at 9) ex_push_request ex_honest)"

definition ex_post :: "PushRequest \<Rightarrow> PushResult list reply" where
  "ex_post req = (case snd (ProcessPush ex_cfg (\<lambda>_. env_at 9) req ex_honest) of Inr rs \<Rightarrow> Body rs | Inl e \<Rightarrow> No_reply e)"

definition ex_turns :: "nat \<Rightarrow> Client option" where
  "ex_turns n = syncReadWrite (\<lambda>i. api_of ex_sha ex_cfg (if i = 0 then ex_honest else ex_pushed))
     (\<lambda>i. if i = 0 then ex_post else (\<lambda>_. No_reply (Error_string ''refused'')))
     (\<lambda>i. if i = 0 then (\<lambda>_. No_reply (Error_string ''refused'')) else hub_subscribe ex_cfg ex_pushed)
     walk_list (Inr None) ex_ccfg (\<lambda>_ _. 20) no_faults n ex_writer"

text \<open>After the first turn the replica is where every later turn leaves it.\<close>

definition ex_stuck :: Client where
  "ex_stuck = the (ex_turns 1)"

lemma ex_stuck_facts:
  "\<not> Option.is_none (ex_turns 1)" "ScanLocal walk_list (Inr None) ex_ccfg no_faults ex_stuck = Inr ([], [])"
  "cl_write_mode ex_stuck" "cl_local_edits ex_stuck = Some []" "HubVersion no_faults (cl_store ex_stuck) = Inr 2"
  "hub_subscribe ex_cfg ex_pushed 2 = Body []"
  by code_simp+

lemma ex_first_turn: "ex_turns 1 = Some ex_stuck"
  using ex_stuck_facts(1) by (simp add: ex_stuck_def Option.is_none_def)

lemma ex_later_turn:
  "doPush api post walk_list (Inr None) ex_ccfg clock no_faults
    (fst (syncOnce api ex_ccfg clock no_faults (hub_subscribe ex_cfg ex_pushed)
      (refreshLocalEditPaths walk_list (Inr None) ex_ccfg no_faults ex_stuck))) = Some ex_stuck"
proof -
  have "refreshLocalEditPaths walk_list (Inr None) ex_ccfg no_faults ex_stuck = ex_stuck"
    using ex_stuck_facts(2-4) by (simp add: refreshLocalEditPaths_def pendingPushPaths_def)
  moreover have "fst (syncOnce api ex_ccfg clock no_faults (hub_subscribe ex_cfg ex_pushed) ex_stuck) = ex_stuck"
    using ex_stuck_facts(5,6) by (simp add: syncOnce_def)
  ultimately show ?thesis using ex_stuck_facts(2) by (simp add: doPush_def Push_def BuildPushOps_def)
qed


lemma ex_turns_stuck: "ex_turns (Suc n) = Some ex_stuck"
proof (induction n)
  case 0
  show ?case using ex_first_turn by simp
next
  case (Suc n)
  then show ?case using ex_later_turn unfolding ex_turns_def by (subst syncReadWrite.simps(2)) simp
qed

text \<open>
  C40: In write mode a replica can lose another writer's change for good. While the replica is offline, another writer
  creates \<open>a\<close> as version 1; the replica's reconnect loop pushes its own new file \<open>old\<close> before it reconnects, the hub
  accepts it as version 2, and the replica records 2 as the version it has seen. However often it then reconnects, to a
  hub that works, it asks for events after 2, so it never learns of \<open>a\<close>, although it holds itself to be up to date.
\<close>

theorem write_mode_loses_concurrent_change:
  "\<forall>n. case ex_turns (Suc n) of
      None \<Rightarrow> False
    | Some c \<Rightarrow> HubVersion no_faults (cl_store c) = LatestVersion no_faults (hub_db ex_pushed) \<and>
        client_view (cl_store c) ''a'' = None \<and> TreeLookup no_faults ''a'' (hub_db ex_pushed) \<noteq> None"
proof -
  have "HubVersion no_faults (cl_store ex_stuck) = LatestVersion no_faults (hub_db ex_pushed)"
    "client_view (cl_store ex_stuck) ''a'' = None" "TreeLookup no_faults ''a'' (hub_db ex_pushed) \<noteq> None" by code_simp+
  then show ?thesis by (simp add: ex_turns_stuck)
qed

end
