(* ===== verification/Wiring.thy ===== *)
theory Wiring
  imports One_Shot Write_Mode
begin

text \<open>
  How the parts are put together: the providers (\<^verbatim>\<open>providers.go\<close>), the injectors of the two applications
  (\<^verbatim>\<open>cli/hubsync/wire_gen.go\<close>) and the verbs \<^verbatim>\<open>serve\<close> and \<^verbatim>\<open>client\<close> up to the point where their loops start.
\<close>

section \<open>The hub application\<close>

record 'w ServerConfig =
  sv_listen :: string
  sv_token :: string
  sv_hasher :: Hasher
  sv_presigner :: "'w ArchiveStorage option"
  sv_prefix :: string

definition config_prefix :: "ConfigFile \<Rightarrow> string" where
  "config_prefix cf = (case cf_archive cf of Some a \<Rightarrow> ac_bucket_prefix a | None \<Rightarrow> '''')"

definition ProvideServerConfig :: "HubConfig \<Rightarrow> ConfigFile \<Rightarrow> Hasher \<Rightarrow> 'w ArchiveStorage option \<Rightarrow> 'w ServerConfig" where
  "ProvideServerConfig cfg cf h stor =
     \<lparr>sv_listen = hc_listen cfg, sv_token = hc_token cfg, sv_hasher = h, sv_presigner = stor,
      sv_prefix = (case stor of Some _ \<Rightarrow> config_prefix cf | None \<Rightarrow> '''')\<rparr>"

definition ProvideScannerConfig :: "(fpath \<Rightarrow> ignorer option res) \<Rightarrow> HubConfig \<Rightarrow> Hasher \<Rightarrow> ScannerCfg res" where
  "ProvideScannerConfig newIgnorer cfg h =
     (case ProvideIgnorer newIgnorer (hc_watch_dir cfg) of
        Inl e \<Rightarrow> Inl e
      | Inr ig \<Rightarrow> Inr \<lparr>sc_dir = hc_watch_dir cfg, sc_ignorer = ig, sc_hasher = h\<rparr>)"

definition archive_deps :: "HubConfig \<Rightarrow> ConfigFile \<Rightarrow> Hasher \<Rightarrow> ArchiveTaskDeps" where
  "archive_deps cfg cf h = \<lparr>dp_hasher = h, dp_hub_dir = hc_watch_dir cfg, dp_prefix = config_prefix cf\<rparr>"

definition ProvideReconciler :: "HubConfig \<Rightarrow> ConfigFile \<Rightarrow> 'w ArchiveStorage option \<Rightarrow> Hasher \<Rightarrow> ('w ArchiveStorage \<times> ArchiveTaskDeps) option" where
  "ProvideReconciler cfg cf stor h = (case stor of None \<Rightarrow> None | Some ops \<Rightarrow> Some (ops, archive_deps cfg cf h))"

definition ProvideArchiveWorker :: "HubConfig \<Rightarrow> ConfigFile \<Rightarrow> 'w ArchiveStorage option \<Rightarrow> Hasher \<Rightarrow> ('w ArchiveStorage \<times> ArchiveTaskDeps \<times> int) option" where
  "ProvideArchiveWorker cfg cf stor h =
     (case stor of
        None \<Rightarrow> None
      | Some ops \<Rightarrow> Some (ops, archive_deps cfg cf h, case cf_archive cf of Some a \<Rightarrow> ac_archive_workers a | None \<Rightarrow> 0))"

record 'w RPCServer =
  rs_reconciler :: "('w ArchiveStorage \<times> ArchiveTaskDeps) option"
  rs_token :: string
  rs_socket :: fpath

definition ProvideRPCServer :: "HubConfig \<Rightarrow> ('w ArchiveStorage \<times> ArchiveTaskDeps) option \<Rightarrow> 'w RPCServer" where
  "ProvideRPCServer cfg r = \<lparr>rs_reconciler = r, rs_token = hc_token cfg, rs_socket = RPCSocketPath (hc_watch_dir cfg)\<rparr>"

record 'w HubApp =
  ha_server :: "'w ServerConfig"
  ha_scanner :: ScannerCfg
  ha_hub :: Hub
  ha_worker :: "('w ArchiveStorage \<times> ArchiveTaskDeps \<times> int) option"
  ha_rpc :: "'w RPCServer"

text \<open>\<open>newWatcher\<close> is the result of fsnotify for the watched directory.\<close>

definition InitializeHubApp :: "'w Setup \<Rightarrow> (fpath \<Rightarrow> unit res) \<Rightarrow> sql_faults \<Rightarrow> HubConfig \<Rightarrow> 'w ArchWorld \<Rightarrow> 'w ArchWorld \<times> 'w HubApp res" where
  "InitializeHubApp su newWatcher sql cfg w =
     (case ProvideHubHasher (su_xxh128 su) (su_sha256 su) (su_unmarshal su) (su_getenv su) (aw_fs w) cfg of
        Inl e \<Rightarrow> (w, Inl e)
      | Inr hasher \<Rightarrow>
     (case NewHubStore sql (Some (aw_db w)) (Some (hash_name hasher)) of
        (s, Inl e) \<Rightarrow> (w\<lparr>aw_db := s\<rparr>, Inl e)
      | (s, Inr _) \<Rightarrow>
     (case ProvideScannerConfig (su_ignorer su) cfg hasher of
        Inl e \<Rightarrow> (w\<lparr>aw_db := s\<rparr>, Inl e)
      | Inr scanner \<Rightarrow>
     (case newWatcher (hc_watch_dir cfg) of
        Inl e \<Rightarrow> (w\<lparr>aw_db := s\<rparr>, Inl e)
      | Inr _ \<Rightarrow>
     (case LoadConfigFile (su_unmarshal su) (su_getenv su) (aw_fs w) (hc_watch_dir cfg) of
        Inl e \<Rightarrow> (w\<lparr>aw_db := s\<rparr>, Inl e)
      | Inr cf \<Rightarrow>
     (case su_storage su cf of
        Inl e \<Rightarrow> (w\<lparr>aw_db := s\<rparr>, Inl e)
      | Inr stor \<Rightarrow>
          (w\<lparr>aw_db := s\<rparr>, Inr
             \<lparr>ha_server = ProvideServerConfig cfg cf hasher stor, ha_scanner = scanner,
              ha_hub = \<lparr>hub_db = s, hub_bc = NewBroadcaster, hub_fs = aw_fs w\<rparr>,
              ha_worker = ProvideArchiveWorker cfg cf stor hasher,
              ha_rpc = ProvideRPCServer cfg (ProvideReconciler cfg cf stor hasher)\<rparr>)))))))"

text \<open>
  \<^verbatim>\<open>cmdServe\<close> up to the start of its goroutines: the lock is held for as long as the process lives.
\<close>

definition cmdServe :: "'w Setup \<Rightarrow> (fpath \<Rightarrow> unit res) \<Rightarrow> run_env \<Rightarrow> fpath \<Rightarrow> string \<Rightarrow> fpath option \<Rightarrow> 'w Machine \<Rightarrow> 'w Machine \<times> 'w HubApp res" where
  "cmdServe su newWatcher re cwd listen dbPath m =
     (case hubContext (aw_fs (mc_world m)) cwd of
        Inl e \<Rightarrow> (m, Inl e)
      | Inr hc \<Rightarrow>
          let db = (case dbPath of Some p \<Rightarrow> p | None \<Rightarrow> HubDBPath (hx_root hc)) in
     (case os_MkdirAll (filepath_Dir db) (aw_fs (mc_world m)) of
        (f, Inl e) \<Rightarrow> (m\<lparr>mc_world := (mc_world m)\<lparr>aw_fs := f\<rparr>\<rparr>, Inl (Wrap ''create db dir'' e))
      | (f, Inr _) \<Rightarrow>
     (case AcquireHubLock (re_now re) (re_flock re) (re_fd re) (hx_root hc) (f, mc_locks m) of
        ((f1, ls), Inl e) \<Rightarrow> (m\<lparr>mc_world := (mc_world m)\<lparr>aw_fs := f1\<rparr>, mc_locks := ls\<rparr>, Inl (Wrap ''acquire hub lock'' e))
      | ((f1, ls), Inr _) \<Rightarrow>
     (case InitializeHubApp su newWatcher (re_sql re)
             \<lparr>hc_db_path = db, hc_watch_dir = hx_root hc, hc_token = su_getenv su ''HUBSYNC_TOKEN'', hc_listen = listen, hc_hash_algo = ''''\<rparr>
             ((mc_world m)\<lparr>aw_fs := f1\<rparr>) of
        (w, Inl e) \<Rightarrow> (\<lparr>mc_world = w, mc_locks = lock_Release (hx_root hc) (re_fd re) ls\<rparr>, Inl (Wrap ''initialize'' e))
      | (w, Inr app) \<Rightarrow> (\<lparr>mc_world = w, mc_locks = ls\<rparr>, Inr app)))))"

section \<open>The client application\<close>

text \<open>\<open>parseDuration\<close> is \<^verbatim>\<open>time.ParseDuration\<close> with an error read as zero; times are nanoseconds.\<close>

record ClientConfig =
  ci_hub_url :: string
  ci_token :: string
  ci_sync_dir :: fpath
  ci_mode :: string
  ci_scan_interval :: string

definition default_interval :: int where "default_interval = 5000000000"

definition NewClient :: "ClientStore \<Rightarrow> fs \<Rightarrow> Client \<times> int" where
  "NewClient store f = (\<lparr>cl_store = store, cl_fs = f, cl_hasher = None, cl_write_mode = False, cl_local_edits = None\<rparr>, default_interval)"

definition SetWriteMode :: "int \<Rightarrow> Client \<times> int \<Rightarrow> Client \<times> int" where
  "SetWriteMode interval ci = (case ci of (c, i) \<Rightarrow> (c\<lparr>cl_write_mode := True\<rparr>, if 0 < interval then interval else i))"

definition ProvideClient :: "(string \<Rightarrow> int) \<Rightarrow> ClientStore \<Rightarrow> ClientConfig \<Rightarrow> fs \<Rightarrow> Client \<times> int" where
  "ProvideClient parseDuration store cfg f =
     (let ci = NewClient store f in
      if ci_mode cfg = ''write''
      then SetWriteMode (if ci_scan_interval cfg = '''' then 0 else parseDuration (ci_scan_interval cfg)) ci
      else ci)"

text \<open>The checks of \<^verbatim>\<open>cmdClient\<close> on its flags.\<close>

definition client_flags :: "string \<Rightarrow> string \<Rightarrow> bool \<Rightarrow> unit res" where
  "client_flags hubURL mode once =
     (if hubURL = '''' then Inl (Error_string ''-hub is required'')
      else if mode \<noteq> ''read'' \<and> mode \<noteq> ''write'' then Inl (Error_string (''-mode must be 'read' or 'write', got '' @ fmt_q mode))
      else if once \<and> mode = ''write'' then Inl (Error_string ''-once is not supported with -mode write'')
      else Inr ())"

section \<open>Properties\<close>

lemma NewHubStore_hash:
  assumes "NewHubStore no_faults (Some s) (Some algo) = (s', Inr u)"
  shows "ConfigCacheGet no_faults ''hash_algo'' s' = Inr (Some algo)"
    "ConfigCacheGet no_faults ''hash_algo'' s = Inr (Some old) \<Longrightarrow> old = algo"
  using assms by (auto simp: NewHubStore_def initHubSchema_def ensureHashAlgo_def ConfigCacheGet_def ConfigCacheSet_def tbl_lookup_upsert Let_def
      split: option.splits if_splits)

text \<open>
  C28: The parts of a hub application agree. When the application comes up, scanner, server, archive worker and
  reconciler use one hasher, whose name is the one the database records and has always recorded; worker and reconciler
  work on the watched directory with the same store and the same key prefix, and the server presigns downloads with that
  store and that prefix, so the key a blob request is redirected to is the key the worker uploads the path under.
\<close>

theorem hub_parts_agree:
  assumes "InitializeHubApp su newWatcher no_faults cfg w = (w', Inr app)"
  shows "let h = sv_hasher (ha_server app) in
    sc_hasher (ha_scanner app) = h \<and> sc_dir (ha_scanner app) = hc_watch_dir cfg \<and> hub_db (ha_hub app) = aw_db w' \<and>
    ConfigCacheGet no_faults ''hash_algo'' (aw_db w') = Inr (Some (hash_name h)) \<and>
    ConfigCacheGet no_faults ''hash_algo'' (aw_db w) \<in> {Inr None, Inr (Some (hash_name h))} \<and>
    sv_presigner (ha_server app) = map_option fst (ha_worker app) \<and>
    rs_reconciler (ha_rpc app) = map_option (\<lambda>(ops, deps, n). (ops, deps)) (ha_worker app) \<and>
    (case ha_worker app of
       None \<Rightarrow> True
     | Some (ops, deps, n) \<Rightarrow> dp_hasher deps = h \<and> dp_hub_dir deps = sc_dir (ha_scanner app) \<and>
         (\<forall>p. JoinKey (dp_prefix deps) p = JoinKey (sv_prefix (ha_server app)) p))"
proof -
  from assms obtain hasher s u scanner cf stor where parts:
    "NewHubStore no_faults (Some (aw_db w)) (Some (hash_name hasher)) = (s, Inr u)" "ProvideScannerConfig (su_ignorer su) cfg hasher = Inr scanner"
    and app: "w' = w\<lparr>aw_db := s\<rparr>" "app = \<lparr>ha_server = ProvideServerConfig cfg cf hasher stor, ha_scanner = scanner,
        ha_hub = \<lparr>hub_db = s, hub_bc = NewBroadcaster, hub_fs = aw_fs w\<rparr>, ha_worker = ProvideArchiveWorker cfg cf stor hasher,
        ha_rpc = ProvideRPCServer cfg (ProvideReconciler cfg cf stor hasher)\<rparr>"
    unfolding InitializeHubApp_def by (auto split: sum.splits prod.splits)
  have "\<exists>r. ConfigCacheGet no_faults ''hash_algo'' (aw_db w) = Inr r" by (simp add: ConfigCacheGet_def)
  then have "ConfigCacheGet no_faults ''hash_algo'' (aw_db w) \<in> {Inr None, Inr (Some (hash_name hasher))}"
    using NewHubStore_hash(2) [OF parts(1)] by (auto simp: not_None_eq) (metis option.exhaust)
  with NewHubStore_hash(1) [OF parts(1)] parts(2) app show ?thesis
    by (cases stor)
      (auto simp: ProvideServerConfig_def ProvideScannerConfig_def ProvideArchiveWorker_def ProvideReconciler_def ProvideRPCServer_def archive_deps_def Let_def split: sum.splits)
qed

definition ex_hub_config :: HubConfig where
  "ex_hub_config = \<lparr>hc_db_path = HubDBPath [''hub''], hc_watch_dir = [''hub''], hc_token = ''t'', hc_listen = '':8080'', hc_hash_algo = ''''\<rparr>"

theorem hub_parts_agree_witness:
  "case InitializeHubApp ex_setup (\<lambda>d. Inr ()) no_faults ex_hub_config ex_hub_world of
     (w, Inl _) \<Rightarrow> False
   | (w, Inr app) \<Rightarrow> ConfigCacheGet no_faults ''hash_algo'' (aw_db w) = Inr (Some (hash_name (sv_hasher (ha_server app)))) \<and>
       rs_reconciler (ha_rpc app) = map_option (\<lambda>(ops, deps, n). (ops, deps)) (ha_worker app)"
proof -
  let ?i = "InitializeHubApp ex_setup (\<lambda>d. Inr ()) no_faults ex_hub_config ex_hub_world"
  have "\<not> isl (snd ?i)" by code_simp
  then obtain w app where i: "?i = (w, Inr app)" by (cases ?i; cases "snd ?i") auto
  from hub_parts_agree [OF i] show ?thesis unfolding i by (simp add: Let_def)
qed

end
