(* ===== verification/Http_Api.thy ===== *)
theory Http_Api
  imports Wiring
begin

text \<open>
  The HTTP interface of the hub around its handlers (\<^verbatim>\<open>server.go\<close>): the server, its routes, the token check, and Go's
  \<^verbatim>\<open>http.ServeMux\<close> that chooses the handler. A request without the token learns nothing of the hub and changes
  nothing of it; a client with the token finds behind its URLs exactly the handlers, so that what is proved
  of a replica and a hub's handlers holds for the two ends of the connection. Sockets and headers other than the
  authorization are not modelled.
\<close>

section \<open>Paths of requests\<close>


text \<open>\<^verbatim>\<open>url.PathUnescape\<close>; a text with a malformed escape stays as it is.\<close>

fun unescape :: "string \<Rightarrow> string option" where
  "unescape [] = Some []"
| "unescape (c # cs) =
     (if c \<noteq> CHR ''%'' then map_option ((#) c) (unescape cs)
      else (case cs of
              a # b # ds \<Rightarrow>
                (case (from_hex_char a, from_hex_char b) of
                   (Some h, Some l) \<Rightarrow> map_option ((#) (char_of (16 * h + l))) (unescape ds)
                 | _ \<Rightarrow> None)
            | _ \<Rightarrow> None))"

definition pathUnescape :: "string \<Rightarrow> string" where
  "pathUnescape s = (case unescape s of Some t \<Rightarrow> t | None \<Rightarrow> s)"

text \<open>
  \<^verbatim>\<open>cleanPath\<close>: rooted, without empty and dot segments, a trailing slash kept.
\<close>

definition rooted :: "fpath \<Rightarrow> string" where
  "rooted cs = CHR ''/'' # join_slash cs"

definition cleanPath :: "string \<Rightarrow> string" where
  "cleanPath p =
     (if p = '''' then ''/''
      else let p' = (if hd p = CHR ''/'' then p else CHR ''/'' # p);
               np = rooted (clean_onto [] (split_slash p'))
           in if last p' = CHR ''/'' \<and> np \<noteq> ''/'' then np @ ''/'' else np)"

text \<open>The segments the routing tree walks through: a slash at the end is a segment of its own.\<close>

definition last_segment :: "string \<Rightarrow> string" where
  "last_segment s = (if s = '''' then ''/'' else pathUnescape s)"

definition segments :: "string \<Rightarrow> string list" where
  "segments path =
     (let ss = split_slash (tl path) in map pathUnescape (butlast ss) @ [last_segment (last ss)])"

section \<open>The routing tree\<close>

datatype seg = Lit string | Wild

type_synonym 'h patterns = "(seg list \<times> 'h) list"

text \<open>The branch of a tree node under a key; a literal is tried before the wildcard, which a trailing slash never matches.\<close>

definition child :: "seg \<Rightarrow> 'h patterns \<Rightarrow> 'h patterns" where
  "child k ps = map (\<lambda>(p, h). (tl p, h)) (filter (\<lambda>(p, h). p \<noteq> [] \<and> hd p = k) ps)"

fun matchPath :: "'h patterns \<Rightarrow> string list \<Rightarrow> ('h \<times> string list) option" where
  "matchPath ps [] = (case filter (\<lambda>(p, h). p = []) ps of [] \<Rightarrow> None | (p, h) # _ \<Rightarrow> Some (h, []))"
| "matchPath ps (s # ss) =
     (case matchPath (child (Lit s) ps) ss of
        Some r \<Rightarrow> Some r
      | None \<Rightarrow>
          if s = ''/'' then None
          else map_option (\<lambda>(h, ms). (h, s # ms)) (matchPath (child Wild ps) ss))"

type_synonym 'h mux = "(string \<times> seg list \<times> 'h) list"

definition of_method :: "string \<Rightarrow> 'h mux \<Rightarrow> 'h patterns" where
  "of_method meth mux = map snd (filter (\<lambda>r. fst r = meth) mux)"

definition matchMethod :: "'h mux \<Rightarrow> string \<Rightarrow> string list \<Rightarrow> ('h \<times> string list) option" where
  "matchMethod mux meth ss =
     (case matchPath (of_method meth mux) ss of
        Some r \<Rightarrow> Some r
      | None \<Rightarrow> if meth = ''HEAD'' then matchPath (of_method ''GET'' mux) ss else None)"

datatype 'h mux_result = Mux_handler 'h "string list" | Mux_redirect string | Mux_error nat string

text \<open>
  \<^verbatim>\<open>ServeMux.findHandler\<close>: an unclean path is redirected to its clean form, whatever it leads to; a path that only other
  methods have is 405, any other 404.
\<close>

definition dispatch :: "'h mux \<Rightarrow> string \<Rightarrow> string list \<Rightarrow> 'h mux_result" where
  "dispatch mux meth ss =
     (case matchMethod mux meth ss of
        Some (h, ms) \<Rightarrow> Mux_handler h ms
      | None \<Rightarrow>
          if \<exists>r \<in> set mux. matchMethod mux (fst r) ss \<noteq> None then Mux_error 405 ''Method Not Allowed''
          else Mux_error 404 ''404 page not found'')"

definition findHandler :: "'h mux \<Rightarrow> string \<Rightarrow> string \<Rightarrow> 'h mux_result" where
  "findHandler mux meth rawpath =
     (if rawpath = ''*'' then Mux_error 400 ''''
      else let path = (if meth = ''CONNECT'' then rawpath else cleanPath rawpath)
           in if path \<noteq> rawpath then Mux_redirect path else dispatch mux meth (segments path))"

section \<open>The server\<close>

text \<open>\<open>rq_path\<close> is the escaped path, \<open>rq_since\<close> the query parameter, empty when absent, \<open>rq_auth\<close> the authorization header.\<close>

record Request =
  rq_method :: string
  rq_path :: string
  rq_since :: string
  rq_auth :: string
  rq_body :: "bytes res"

record 'w HttpServer =
  hs_scanner :: ScannerCfg
  hs_hasher :: Hasher
  hs_token :: string
  hs_listen :: string
  hs_storage :: "'w ArchiveStorage option"
  hs_prefix :: string
  hs_blobTTL :: int

text \<open>\<open>blobTTL\<close> is the configured life time of a download URL in nanoseconds; zero stands for an hour.\<close>

definition NewServer :: "ScannerCfg \<Rightarrow> 'w ServerConfig \<Rightarrow> int \<Rightarrow> 'w HttpServer" where
  "NewServer sc cfg blobTTL =
     \<lparr>hs_scanner = sc, hs_hasher = sv_hasher cfg, hs_token = sv_token cfg, hs_listen = sv_listen cfg, hs_storage = sv_presigner cfg,
      hs_prefix = sv_prefix cfg, hs_blobTTL = (if blobTTL = 0 then 3600000000000 else blobTTL)\<rparr>"

text \<open>What a handler meets: the databases, the codecs of the messages, the hash, the remote store, the connection.\<close>

record 'w http_env =
  he_sql :: sql_faults
  he_csql :: sql_faults
  he_envs :: "nat \<Rightarrow> env"
  he_sha :: "bytes \<Rightarrow> bytes"
  he_read_delta :: "bytes \<Rightarrow> DeltaRequest res"
  he_write_delta :: "DeltaResponse \<Rightarrow> bytes res"
  he_read_push :: "bytes \<Rightarrow> PushRequest res"
  he_write_push :: "PushResult list \<Rightarrow> bytes res"
  he_remote :: 'w
  he_flusher :: bool

datatype response = Plain "bytes http" | Database "ClientStore http" | Stream Session

definition handleSubscribe :: "bool \<Rightarrow> string \<Rightarrow> Hub \<Rightarrow> Hub \<times> response" where
  "handleSubscribe flusher sinceStr h =
     (case subscribe_since sinceStr of
        Inl _ \<Rightarrow> (h, Plain (HttpError 400 ''invalid since parameter''))
      | Inr since \<Rightarrow>
          if \<not> flusher then (h, Plain (HttpError 500 ''streaming not supported''))
          else (case sub_start since h of (h', ss) \<Rightarrow> (h', Stream ss)))"

type_synonym handler = "string list \<Rightarrow> Request \<Rightarrow> Hub \<Rightarrow> Hub \<times> response"

definition server_auth :: "'w HttpServer \<Rightarrow> handler \<Rightarrow> handler" where
  "server_auth s next_handler ms r h =
     AuthMiddleware (hs_token s) (h, Plain (HttpError 401 ''unauthorized'')) (\<lambda>auth. next_handler ms r h) (rq_auth r)"

definition presigner :: "'w http_env \<Rightarrow> 'w HttpServer \<Rightarrow> (string \<Rightarrow> string res) option" where
  "presigner he s = map_option (\<lambda>ops key. as_PresignDownloadURL ops key (he_remote he)) (hs_storage s)"

definition routes :: "'w http_env \<Rightarrow> 'w HttpServer \<Rightarrow> handler mux" where
  "routes he s =
     [(''GET'', [Lit ''sync'', Lit ''subscribe''],
         server_auth s (\<lambda>ms r h. handleSubscribe (he_flusher he) (rq_since r) h)),
      (''GET'', [Lit ''blobs'', Wild],
         server_auth s (\<lambda>ms r h. (h, Plain (handleBlob (he_sql he) (sc_dir (hs_scanner s)) (presigner he s) (hs_prefix s) (hd ms) h)))),
      (''POST'', [Lit ''blobs'', Lit ''delta''],
         server_auth s (\<lambda>ms r h. (h, Plain (handleDelta (he_sha he) (he_read_delta he) (he_write_delta he) (he_sql he) (sc_dir (hs_scanner s)) (rq_body r) h)))),
      (''POST'', [Lit ''push''],
         server_auth s (\<lambda>ms r h. case handlePush (he_read_push he) (he_write_push he) (hs_scanner s) (he_envs he) (rq_body r) h of (h', a) \<Rightarrow> (h', Plain a))),
      (''GET'', [Lit ''snapshots-tree'', Lit ''latest''],
         server_auth s (\<lambda>ms r h. (h, Database (handleLatestSnapshotTree (he_sql he) h)))),
      (''GET'', [Lit ''snapshots-tree'', Wild],
         server_auth s (\<lambda>ms r h. (h, Database (handleSnapshotTree (he_sql he) (he_csql he) (hash_name (hs_hasher s)) (hd ms) h))))]"

definition ServeHTTP :: "'w http_env \<Rightarrow> 'w HttpServer \<Rightarrow> Request \<Rightarrow> Hub \<Rightarrow> Hub \<times> response" where
  "ServeHTTP he s r h =
     (case findHandler (routes he s) (rq_method r) (rq_path r) of
        Mux_handler next_handler ms \<Rightarrow> next_handler ms r h
      | Mux_redirect u \<Rightarrow> (h, Plain (HttpRedirect u))
      | Mux_error st t \<Rightarrow> (h, Plain (HttpError st t)))"

section \<open>Routing as such\<close>

text \<open>Which route is chosen depends on the patterns alone: handlers may be replaced by their names.\<close>

lemma child_map: "child k (map (apsnd f) ps) = map (apsnd f) (child k ps)"
  by (induction ps) (auto simp: child_def)

lemma leaf_map: "filter (\<lambda>(p, h). p = []) (map (apsnd f) ps) = map (apsnd f) (filter (\<lambda>(p, h). p = []) ps)"
  by (induction ps) auto

lemma matchPath_map: "matchPath (map (apsnd f) ps) ss = map_option (apfst f) (matchPath ps ss)"
proof (induction ps ss rule: matchPath.induct)
  case (1 ps)
  show ?case by (auto simp: leaf_map split: list.split)
next
  case (2 ps s ss)
  show ?case
    by (cases "matchPath (child (Lit s) ps) ss"; cases "matchPath (child Wild ps) ss") (use 2 in \<open>auto simp: child_map\<close>)
qed

lemma of_method_map: "of_method meth (map (apsnd (apsnd f)) mux) = map (apsnd f) (of_method meth mux)"
  by (induction mux) (auto simp: of_method_def)

lemma matchMethod_map: "matchMethod (map (apsnd (apsnd f)) mux) meth ss = map_option (apfst f) (matchMethod mux meth ss)"
  by (simp add: matchMethod_def of_method_map matchPath_map split: option.split)

lemma dispatch_map: "dispatch (map (apsnd (apsnd f)) mux) meth ss = map_mux_result f (dispatch mux meth ss)"
  by (cases "matchMethod mux meth ss") (auto simp: dispatch_def matchMethod_map)

lemma findHandler_map:
  "findHandler (map (apsnd (apsnd f)) mux) meth path = map_mux_result f (findHandler mux meth path)"
  by (simp add: findHandler_def Let_def dispatch_map)

lemma matchPath_in: "matchPath ps ss = Some (h, ms) \<Longrightarrow> h \<in> snd ` set ps"
proof (induction ps ss arbitrary: ms rule: matchPath.induct)
  case (1 ps)
  then obtain p rest where "filter (\<lambda>(p, h). p = []) ps = (p, h) # rest" by (auto split: list.splits)
  then have "(p, h) \<in> set ps" by (metis filter_is_subset list.set_intros(1) subsetD)
  then show ?case by force
next
  case (2 ps s ss)
  have sub: "h \<in> snd ` set (child k ps) \<Longrightarrow> h \<in> snd ` set ps" for k by (force simp: child_def)
  show ?case
    by (cases "matchPath (child (Lit s) ps) ss") (use 2 sub in \<open>auto split: if_splits\<close>)
qed

lemma findHandler_in: "findHandler mux meth path = Mux_handler h ms \<Longrightarrow> h \<in> snd ` snd ` set mux"
proof -
  assume "findHandler mux meth path = Mux_handler h ms"
  then obtain ss where "matchMethod mux meth ss = Some (h, ms)"
    by (auto simp: findHandler_def dispatch_def Let_def split: if_splits option.splits)
  then obtain m where "matchPath (of_method m mux) ss = Some (h, ms)"
    by (auto simp: matchMethod_def split: option.splits if_splits)
  from matchPath_in [OF this] have "h \<in> snd ` set (of_method m mux)" .
  then show ?thesis by (force simp: of_method_def)
qed

lemma findHandler_error: "findHandler mux meth path = Mux_error st t \<Longrightarrow> st \<in> {400, 404, 405}"
  by (auto simp: findHandler_def dispatch_def Let_def split: if_splits option.splits)

lemma findHandler_redirect: "findHandler mux meth path = Mux_redirect u \<Longrightarrow> u = cleanPath path"
  by (auto simp: findHandler_def dispatch_def Let_def split: if_splits option.splits)

definition route_names :: "nat mux" where
  "route_names =
     [(''GET'', [Lit ''sync'', Lit ''subscribe''], 0), (''GET'', [Lit ''blobs'', Wild], 1), (''POST'', [Lit ''blobs'', Lit ''delta''], 2),
      (''POST'', [Lit ''push''], 3), (''GET'', [Lit ''snapshots-tree'', Lit ''latest''], 4), (''GET'', [Lit ''snapshots-tree'', Wild], 5)]"

definition route_handler :: "'w http_env \<Rightarrow> 'w HttpServer \<Rightarrow> nat \<Rightarrow> handler" where
  "route_handler he s i = snd (snd (routes he s ! i))"

lemma routes_named: "routes he s = map (apsnd (apsnd (route_handler he s))) route_names"
  by (simp add: route_names_def route_handler_def routes_def)

lemma ServeHTTP_named:
  "ServeHTTP he s r h =
     (case findHandler route_names (rq_method r) (rq_path r) of
        Mux_handler i ms \<Rightarrow> route_handler he s i ms r h
      | Mux_redirect u \<Rightarrow> (h, Plain (HttpRedirect u))
      | Mux_error st t \<Rightarrow> (h, Plain (HttpError st t)))"
  by (cases "findHandler route_names (rq_method r) (rq_path r)") (simp_all add: ServeHTTP_def routes_named findHandler_map)

lemma named_handler_guarded:
  assumes "findHandler route_names meth path = Mux_handler i ms"
  shows "\<exists>next_handler. route_handler he s i = server_auth s next_handler"
proof -
  have "i \<in> {0, 1, 2, 3, 4, 5}" using findHandler_in [OF assms] by (simp add: route_names_def)
  then show ?thesis by (elim insertE) (auto simp: route_handler_def routes_def)
qed

lemma server_auth_denied:
  assumes "hs_token s \<noteq> ''''" "rq_auth r \<noteq> ''Bearer '' @ hs_token s"
  shows "server_auth s next_handler ms r h = (h, Plain (HttpError 401 ''unauthorized''))"
  using assms by (auto simp: server_auth_def AuthMiddleware_def HasPrefix_iff)

lemma server_auth_passed: "rq_auth r = setAuth (hs_token s) \<Longrightarrow> server_auth s next_handler ms r h = next_handler ms r h"
  by (simp add: server_auth_def AuthMiddleware_def setAuth_def HasPrefix_iff)

section \<open>Paths without escapes\<close>

definition plain_segment :: "string \<Rightarrow> bool" where
  "plain_segment c \<longleftrightarrow> plain_name c \<and> CHR ''%'' \<notin> set c"

lemma pathUnescape_plain: "CHR ''%'' \<notin> set c \<Longrightarrow> pathUnescape c = c"
proof -
  have "CHR ''%'' \<notin> set c \<Longrightarrow> unescape c = Some c" by (induction c rule: unescape.induct) auto
  then show "CHR ''%'' \<notin> set c \<Longrightarrow> ?thesis" by (simp add: pathUnescape_def)
qed

lemma segments_rooted:
  assumes "cs \<noteq> []" "\<forall>c \<in> set cs. plain_segment c"
  shows "segments (rooted cs) = cs"
proof -
  have plain: "\<And>c. c \<in> set cs \<Longrightarrow> pathUnescape c = c \<and> c \<noteq> '''' \<and> CHR ''/'' \<notin> set c"
    using assms by (simp add: plain_segment_def plain_name_def pathUnescape_plain)
  then have "map pathUnescape (butlast cs) = butlast cs" by (simp add: map_idI in_set_butlastD)
  moreover have "last_segment (last cs) = last cs" using plain assms(1) by (simp add: last_segment_def)
  moreover have "split_slash (join_slash cs) = cs" using assms(1) plain by (simp add: split_join)
  ultimately show ?thesis using assms(1) by (simp add: segments_def rooted_def)
qed

lemma cleanPath_rooted:
  assumes "cs \<noteq> []" "\<forall>c \<in> set cs. plain_segment c"
  shows "cleanPath (rooted cs) = rooted cs"
proof -
  have plain: "\<forall>c \<in> set cs. plain_name c \<and> CHR ''/'' \<notin> set c" using assms by (simp add: plain_segment_def plain_name_def)
  have "split_slash (rooted cs) = '''' # cs" using assms(1) plain by (simp add: rooted_def split_join)
  then have clean: "rooted (clean_onto [] (split_slash (rooted cs))) = rooted cs" using plain by (simp add: clean_onto_plain)
  have end_char: "w \<noteq> [] \<Longrightarrow> CHR ''/'' \<notin> set w \<Longrightarrow> last w \<noteq> CHR ''/''" for w by (metis last_in_set)
  have "last (join_slash cs) \<noteq> CHR ''/'' \<and> join_slash cs \<noteq> ''''" if "cs \<noteq> []"
    using that plain by (induction cs rule: join_slash.induct) (auto simp: plain_name_def end_char)
  with assms(1) clean show ?thesis by (simp add: cleanPath_def Let_def) (simp add: rooted_def)
qed

lemma findHandler_rooted:
  assumes "cs \<noteq> []" "\<forall>c \<in> set cs. plain_segment c" "matchMethod mux meth cs = Some (h, ms)"
  shows "findHandler mux meth (rooted cs) = Mux_handler h ms"
proof -
  have "rooted cs \<noteq> ''*''" by (simp add: rooted_def)
  with assms show ?thesis by (simp add: findHandler_def dispatch_def cleanPath_rooted segments_rooted Let_def)
qed


section \<open>The client's end\<close>

text \<open>
  The requests of \<^verbatim>\<open>client.go\<close> and \<^verbatim>\<open>client_push.go\<close>: each sets the authorization header of its token. The client follows the
  redirect from the latest snapshot to the numbered one; \<open>download\<close> is what a presigned URL of the archive answers.
\<close>

record client_codec =
  cd_write_delta :: "DeltaRequest \<Rightarrow> bytes res"
  cd_read_delta :: "bytes \<Rightarrow> DeltaResponse res"
  cd_write_push :: "PushRequest \<Rightarrow> bytes res"
  cd_read_push :: "bytes \<Rightarrow> PushResult list res"

definition get_request :: "string \<Rightarrow> string \<Rightarrow> string \<Rightarrow> Request" where
  "get_request token path since =
     \<lparr>rq_method = ''GET'', rq_path = path, rq_since = since, rq_auth = setAuth token, rq_body = Inr []\<rparr>"

definition post_request :: "string \<Rightarrow> string \<Rightarrow> bytes \<Rightarrow> Request" where
  "post_request token path body =
     \<lparr>rq_method = ''POST'', rq_path = path, rq_since = '''', rq_auth = setAuth token, rq_body = Inr body\<rparr>"

fun plain_reply :: "(string \<Rightarrow> bytes reply) \<Rightarrow> response \<Rightarrow> bytes reply" where
  "plain_reply download (Plain (HttpRedirect u)) = download u"
| "plain_reply download (Plain (HttpError st t)) = Client.reply_of (HttpError st t)"
| "plain_reply download (Plain (HttpOK b)) = Body b"
| "plain_reply download (Database a) = No_reply (Error_string ''unexpected body'')"
| "plain_reply download (Stream ss) = No_reply (Error_string ''unexpected body'')"

fun database_reply :: "response \<Rightarrow> ClientStore reply" where
  "database_reply (Database a) = Client.reply_of a"
| "database_reply (Plain (HttpError st t)) = Client.reply_of (HttpError st t)"
| "database_reply (Plain (HttpRedirect u)) = Client.reply_of (HttpRedirect u)"
| "database_reply (Plain (HttpOK b)) = No_reply (Error_string ''unexpected body'')"
| "database_reply (Stream ss) = No_reply (Error_string ''unexpected body'')"

definition decode_reply :: "(bytes \<Rightarrow> 'a res) \<Rightarrow> bytes reply \<Rightarrow> 'a reply" where
  "decode_reply unmarshal rep =
     (case rep of
        Body b \<Rightarrow> (case unmarshal b of Inl e \<Rightarrow> No_reply e | Inr x \<Rightarrow> Body x)
      | Status st t \<Rightarrow> Status st t
      | No_reply e \<Rightarrow> No_reply e)"

definition remote_api :: "client_codec \<Rightarrow> (string \<Rightarrow> bytes reply) \<Rightarrow> string \<Rightarrow> 'w http_env \<Rightarrow> 'w HttpServer \<Rightarrow> Hub \<Rightarrow> hub_api" where
  "remote_api cd download token he s h =
     \<lparr>api_blob = (\<lambda>hex. plain_reply download (snd (ServeHTTP he s (get_request token (''/blobs/'' @ hex) '''') h))),
      api_delta = (\<lambda>req. case cd_write_delta cd req of
                     Inl e \<Rightarrow> No_reply e
                   | Inr body \<Rightarrow> decode_reply (cd_read_delta cd) (plain_reply download (snd (ServeHTTP he s (post_request token ''/blobs/delta'' body) h)))),
      api_tree = (case snd (ServeHTTP he s (get_request token ''/snapshots-tree/latest'' '''') h) of
                    Database (HttpRedirect loc) \<Rightarrow> database_reply (snd (ServeHTTP he s (get_request token loc '''') h))
                  | r \<Rightarrow> database_reply r)\<rparr>"

definition remote_push :: "client_codec \<Rightarrow> string \<Rightarrow> 'w http_env \<Rightarrow> 'w HttpServer \<Rightarrow> PushRequest \<Rightarrow> Hub \<Rightarrow> Hub \<times> PushResult list reply" where
  "remote_push cd token he s req h =
     (case cd_write_push cd req of
        Inl e \<Rightarrow> (h, No_reply e)
      | Inr body \<Rightarrow>
          (case ServeHTTP he s (post_request token ''/push'' body) h of
             (h', r) \<Rightarrow> (h', decode_reply (cd_read_push cd) (plain_reply (\<lambda>u. No_reply (Error_string u)) r))))"

text \<open>Decoding a message gives what was encoded.\<close>

definition carries :: "('a \<Rightarrow> bytes res) \<Rightarrow> (bytes \<Rightarrow> 'a res) \<Rightarrow> 'a \<Rightarrow> bool" where
  "carries marshal unmarshal x = (case marshal x of Inr b \<Rightarrow> unmarshal b = Inr x | Inl _ \<Rightarrow> False)"

lemma carries_iff: "carries marshal unmarshal x \<longleftrightarrow> (\<exists>b. marshal x = Inr b \<and> unmarshal b = Inr x)"
  by (auto simp: carries_def split: sum.split)

lemma plain_reply_of: "plain_reply (\<lambda>u. No_reply (Error_string u)) (Plain a) = Client.reply_of a"
  by (cases a) (simp_all add: Client.reply_of_def)

lemma rooted_literals:
  "''/blobs/'' @ x = rooted [''blobs'', x]" "''/blobs/delta'' = rooted [''blobs'', ''delta'']" "''/push'' = rooted [''push'']"
  "''/snapshots-tree/latest'' = rooted [''snapshots-tree'', ''latest'']" "''/snapshots-tree/'' @ x = rooted [''snapshots-tree'', x]"
  "''/sync/subscribe'' = rooted [''sync'', ''subscribe'']"
  by (simp_all add: rooted_def)

lemma route_of:
  assumes "plain_segment x"
  shows "findHandler route_names ''GET'' (''/blobs/'' @ x) = Mux_handler 1 [x]"
    and "findHandler route_names ''POST'' ''/blobs/delta'' = Mux_handler 2 []"
    and "findHandler route_names ''POST'' ''/push'' = Mux_handler 3 []"
    and "findHandler route_names ''GET'' ''/snapshots-tree/latest'' = Mux_handler 4 []"
    and "x \<noteq> ''latest'' \<Longrightarrow> findHandler route_names ''GET'' (''/snapshots-tree/'' @ x) = Mux_handler 5 [x]"
    and "findHandler route_names ''GET'' ''/sync/subscribe'' = Mux_handler 0 []"
proof -
  have slash: "x \<noteq> ''/''" using assms by (auto simp: plain_segment_def plain_name_def)
  note go = findHandler_rooted [OF list.distinct(2)] and unfold = matchMethod_def of_method_def route_names_def child_def
  have lits: "plain_segment ''blobs''" "plain_segment ''delta''" "plain_segment ''push''" "plain_segment ''snapshots-tree''"
    "plain_segment ''latest''" "plain_segment ''sync''" "plain_segment ''subscribe''" by (simp_all add: plain_segment_def plain_name_def)
  show "findHandler route_names ''GET'' (''/blobs/'' @ x) = Mux_handler 1 [x]"
    unfolding rooted_literals by (rule go) (use assms lits slash in \<open>simp_all add: unfold\<close>)
  show "findHandler route_names ''POST'' ''/blobs/delta'' = Mux_handler 2 []"
    unfolding rooted_literals by (rule go) (use lits in \<open>simp_all add: unfold\<close>)
  show "findHandler route_names ''POST'' ''/push'' = Mux_handler 3 []"
    unfolding rooted_literals by (rule go) (use lits in \<open>simp_all add: unfold\<close>)
  show "findHandler route_names ''GET'' ''/snapshots-tree/latest'' = Mux_handler 4 []"
    unfolding rooted_literals by (rule go) (use lits in \<open>simp_all add: unfold\<close>)
  show "x \<noteq> ''latest'' \<Longrightarrow> findHandler route_names ''GET'' (''/snapshots-tree/'' @ x) = Mux_handler 5 [x]"
    unfolding rooted_literals by (rule go) (use assms lits slash in \<open>simp_all add: unfold\<close>)
  show "findHandler route_names ''GET'' ''/sync/subscribe'' = Mux_handler 0 []"
    unfolding rooted_literals by (rule go) (use lits in \<open>simp_all add: unfold\<close>)
qed


lemma Digest_Hex_segment:
  assumes "d \<noteq> []"
  shows "plain_segment (Digest_Hex d)"
proof -
  have "unat (x :: byte) < 16 * 16" for x using unsigned_less [of x, where 'a = nat] by simp
  then have "unat (x :: byte) div 16 < 16" for x by (rule less_mult_imp_div_less)
  then have "from_hex_char c \<noteq> None" if "c \<in> set (Digest_Hex d)" for c
    using that hex_char_lt16 by (auto simp: Digest_Hex_def hex_byte_def)
  moreover have "from_hex_char (CHR ''/'') = None" "from_hex_char (CHR ''%'') = None" "from_hex_char (CHR ''.'') = None"
    by (simp_all add: from_hex_char_def)
  ultimately have "CHR ''/'' \<notin> set (Digest_Hex d) \<and> CHR ''%'' \<notin> set (Digest_Hex d) \<and> CHR ''.'' \<notin> set (Digest_Hex d)" by metis
  moreover have "Digest_Hex d \<noteq> ''''" using assms length_Digest_Hex [of d] by (metis length_0_conv mult_eq_0_iff zero_neq_numeral)
  ultimately show ?thesis by (auto simp: plain_segment_def plain_name_def)
qed

lemma fmt_d_segment: "plain_segment (fmt_d v) \<and> fmt_d v \<noteq> ''latest''"
proof -
  have digits: "CHR ''/'' \<notin> set (dec_digits n) \<and> CHR ''%'' \<notin> set (dec_digits n) \<and> CHR ''.'' \<notin> set (dec_digits n) \<and> CHR ''l'' \<notin> set (dec_digits n)" for n
    using dec_digits_ok [of n] by (auto simp: is_digit_def)
  with dec_digits_ok have "CHR ''/'' \<notin> set (fmt_d v) \<and> CHR ''%'' \<notin> set (fmt_d v) \<and> CHR ''.'' \<notin> set (fmt_d v) \<and> CHR ''l'' \<notin> set (fmt_d v) \<and> fmt_d v \<noteq> ''''"
    by (auto simp: fmt_d_def)
  then show ?thesis by (auto simp: plain_segment_def plain_name_def)
qed

lemma served_get:
  assumes "hs_token s = token" "findHandler route_names ''GET'' path = Mux_handler i ms"
  shows "ServeHTTP he s (get_request token path since) h = route_handler he s i ms (get_request token path since) h"
  using assms by (simp add: ServeHTTP_named get_request_def)

lemma served_post:
  assumes "hs_token s = token" "findHandler route_names ''POST'' path = Mux_handler i ms"
  shows "ServeHTTP he s (post_request token path body) h = route_handler he s i ms (post_request token path body) h"
  using assms by (simp add: ServeHTTP_named post_request_def)

lemma request_auth: "rq_auth (get_request token path since) = setAuth token" "rq_auth (post_request token path body) = setAuth token"
  by (simp_all add: get_request_def post_request_def)

lemmas handler_simps = route_handler_def routes_def server_auth_passed request_auth

lemma remote_blob:
  assumes "hs_token s = token" "d \<noteq> []"
  shows "ServeHTTP he s (get_request token (''/blobs/'' @ Digest_Hex d) since) h =
    (h, Plain (handleBlob (he_sql he) (sc_dir (hs_scanner s)) (presigner he s) (hs_prefix s) (Digest_Hex d) h))"
  unfolding served_get [OF assms(1) route_of(1) [OF Digest_Hex_segment [OF assms(2)]]] using assms by (simp add: handler_simps)

lemma remote_latest:
  assumes "hs_token s = token"
  shows "ServeHTTP he s (get_request token ''/snapshots-tree/latest'' since) h = (h, Database (handleLatestSnapshotTree (he_sql he) h))"
  unfolding served_get [OF assms(1) route_of(4) [OF conjunct1 [OF fmt_d_segment [of 0]]]] using assms by (simp add: handler_simps)

lemma remote_snapshot:
  assumes "hs_token s = token"
  shows "ServeHTTP he s (get_request token (''/snapshots-tree/'' @ fmt_d v) since) h =
    (h, Database (handleSnapshotTree (he_sql he) (he_csql he) (hash_name (hs_hasher s)) (fmt_d v) h))"
  unfolding served_get [OF assms(1) route_of(5) [OF conjunct1 [OF fmt_d_segment] conjunct2 [OF fmt_d_segment]]] using assms by (simp add: handler_simps)

lemma remote_tree:
  assumes "hs_token s = token" "hs_hasher s = sc_hasher (hs_scanner s)" "he_sql he = no_faults" "he_csql he = no_faults"
  shows "api_tree (remote_api cd download token he s h) = api_tree (api_of sha (hs_scanner s) h)"
proof -
  have "database_reply (snd (ServeHTTP he s (get_request token (''/snapshots-tree/'' @ fmt_d v) '''') h)) =
    Client.reply_of (handleSnapshotTree no_faults no_faults (hash_name (sc_hasher (hs_scanner s))) (TrimPrefix (''/snapshots-tree/'' @ fmt_d v) ''/snapshots-tree/'') h)" for v
    unfolding remote_snapshot [OF assms(1)] TrimPrefix_append by (simp add: assms(2-))
  moreover have "(\<exists>st t. handleLatestSnapshotTree no_faults h = HttpError st t) \<or> (\<exists>v. handleLatestSnapshotTree no_faults h = HttpRedirect (''/snapshots-tree/'' @ fmt_d v))"
    by (auto simp: handleLatestSnapshotTree_def split: sum.split)
  ultimately show ?thesis
    unfolding remote_api_def api_of_def hub_api.select_convs remote_latest [OF assms(1)] assms(3) by (elim disjE exE) (simp_all only: snd_conv response.case http.case database_reply.simps)
qed

lemma remote_delta:
  assumes "hs_token s = token"
  shows "ServeHTTP he s (post_request token ''/blobs/delta'' body) h =
    (h, Plain (handleDelta (he_sha he) (he_read_delta he) (he_write_delta he) (he_sql he) (sc_dir (hs_scanner s)) (Inr body) h))"
  unfolding served_post [OF assms(1) route_of(2) [OF conjunct1 [OF fmt_d_segment [of 0]]]] using assms by (simp add: handler_simps) (simp add: post_request_def)

lemma remote_pushed:
  assumes "hs_token s = token"
  shows "ServeHTTP he s (post_request token ''/push'' body) h =
    (case handlePush (he_read_push he) (he_write_push he) (hs_scanner s) (he_envs he) (Inr body) h of (h', a) \<Rightarrow> (h', Plain a))"
  unfolding served_post [OF assms(1) route_of(3) [OF conjunct1 [OF fmt_d_segment [of 0]]]] using assms by (simp add: handler_simps) (simp add: post_request_def)

lemma remote_subscribe:
  assumes "hs_token s = token" "he_flusher he" "0 \<le> v" "v \<le> 2 ^ 63 - 1"
  shows "ServeHTTP he s (get_request token ''/sync/subscribe'' (fmt_d v)) h = (case sub_start v h of (h', ss) \<Rightarrow> (h', Stream ss))"
proof -
  have "subscribe_since (fmt_d v) = Inr v"
    using ParseInt_fmt [OF assms(3,4)] fmt_d_segment [of v] by (simp add: subscribe_since_def plain_segment_def plain_name_def)
  with assms show ?thesis
    unfolding served_get [OF assms(1) route_of(6) [OF conjunct1 [OF fmt_d_segment [of 0]]]]
    by (simp add: handler_simps handleSubscribe_def) (simp add: get_request_def)
qed


section \<open>Redirections\<close>

text \<open>
  The client follows redirections with the rules of \<^verbatim>\<open>http.Client\<close>: the authorization header goes along to the same host and its
  subdomains only, and then \<^verbatim>\<open>CheckRedirect\<close>, when it is set, has the last word. \<^verbatim>\<open>bootstrapTreeDB\<close> sets it, on the client that all
  later requests share, to a function that adds the header again. A presigned download URL is on another host.
\<close>

definition url_host :: "string \<Rightarrow> string" where
  "url_host u =
     (case strings_Index u ''://'' of
        Some i \<Rightarrow> takeWhile (\<lambda>c. c \<noteq> CHR ''/'' \<and> c \<noteq> CHR '':'') (drop (i + 3) u)
      | None \<Rightarrow> '''')"

text \<open>A location that is a path stays on the host of the request.\<close>

definition location_host :: "string \<Rightarrow> string \<Rightarrow> string" where
  "location_host hubURL u = (if HasPrefix u ''/'' then url_host hubURL else url_host u)"

definition keeps_header :: "string \<Rightarrow> string \<Rightarrow> bool" where
  "keeps_header host dest \<longleftrightarrow> dest = host \<or> HasSuffix dest (CHR ''.'' # host)"

record http_client =
  ht_check_redirect :: bool

definition new_http_client :: http_client where "new_http_client = \<lparr>ht_check_redirect = False\<rparr>"

definition bootstrap_http :: "http_client \<Rightarrow> http_client" where
  "bootstrap_http hc = hc\<lparr>ht_check_redirect := True\<rparr>"

definition redirect_header :: "http_client \<Rightarrow> string \<Rightarrow> string \<Rightarrow> string \<Rightarrow> string" where
  "redirect_header hc hubURL token u =
     (let kept = (if keeps_header (url_host hubURL) (location_host hubURL u) then setAuth token else '''')
      in if ht_check_redirect hc \<and> token \<noteq> '''' then setAuth token else kept)"

text \<open>The requests that fetching a blob sends, each as its host and its authorization header.\<close>

definition blob_requests :: "http_client \<Rightarrow> string \<Rightarrow> string \<Rightarrow> 'w http_env \<Rightarrow> 'w HttpServer \<Rightarrow> Digest \<Rightarrow> Hub \<Rightarrow> (string \<times> string) list" where
  "blob_requests hc hubURL token he s digest h =
     (let r = get_request token (''/blobs/'' @ Digest_Hex digest) '''' in
      (url_host hubURL, rq_auth r) #
      (case snd (ServeHTTP he s r h) of
         Plain (HttpRedirect u) \<Rightarrow> [(location_host hubURL u, redirect_header hc hubURL token u)]
       | _ \<Rightarrow> []))"

section \<open>Properties\<close>

text \<open>
  C8: Without the token there is no access. When the hub has a token and a request does not carry exactly it, the answer
  is an error of the routing or 401, or the redirection of an unclean path to its clean form; it is the same
  whatever the hub, its files and its remote store hold, and the hub is left as it was: no push, no
  subscription, no download.
\<close>

theorem no_token_no_access:
  assumes "hs_token s \<noteq> ''''" "rq_auth r \<noteq> ''Bearer '' @ hs_token s"
  shows "\<exists>answer. (\<forall>he h. ServeHTTP he s r h = (h, Plain answer)) \<and>
    (case answer of
       HttpOK b \<Rightarrow> False
     | HttpError st t \<Rightarrow> st \<in> {400, 401, 404, 405}
     | HttpRedirect u \<Rightarrow> u = cleanPath (rq_path r) \<and> u \<noteq> rq_path r)"
proof (cases "findHandler route_names (rq_method r) (rq_path r)")
  case (Mux_handler i ms)
  have "ServeHTTP he s r h = (h, Plain (HttpError 401 ''unauthorized''))" for he h
    using named_handler_guarded [OF Mux_handler, of he s] server_auth_denied [OF assms] Mux_handler by (auto simp: ServeHTTP_named)
  then show ?thesis by (intro exI [of _ "HttpError 401 ''unauthorized''"]) simp
next
  case (Mux_redirect u)
  then have "u = cleanPath (rq_path r) \<and> u \<noteq> rq_path r" by (auto simp: findHandler_def dispatch_def Let_def split: if_splits option.splits)
  then show ?thesis by (intro exI [of _ "HttpRedirect u"]) (auto simp: ServeHTTP_named Mux_redirect)
next
  case (Mux_error st t)
  then show ?thesis using findHandler_error [OF Mux_error] by (intro exI [of _ "HttpError st t"]) (auto simp: ServeHTTP_named)
qed

definition ex_http_server :: "FakeStorage HttpServer" where
  "ex_http_server = NewServer ex_cfg \<lparr>sv_listen = '':8080'', sv_token = ''t'', sv_hasher = sc_hasher ex_cfg, sv_presigner = None, sv_prefix = ''''\<rparr> 0"

theorem no_token_no_access_witness:
  "\<exists>answer. \<forall>he h. ServeHTTP he ex_http_server (post_request ''u'' ''/push'' [1]) h = (h, Plain answer)"
  using no_token_no_access [of ex_http_server "post_request ''u'' ''/push'' [1]"]
  by (auto simp: ex_http_server_def NewServer_def post_request_def setAuth_def)

text \<open>
  C9: The two ends of the connection agree. A client that has the hub's token, of a hub without archive, sees through HTTP the
  handlers themselves: the latest snapshot after its redirection, every delta and every blob are answered as the
  handlers answer, a push is processed as the hub processes it, with its results, and a subscription from
  a version starts a session at that version. Of the message codecs only that decoding these messages inverts encoding is assumed.
\<close>

theorem remote_client_reaches_handlers:
  assumes "hs_token s = token" "hs_storage s = None" "hs_hasher s = sc_hasher (hs_scanner s)"
    and "he_sql he = no_faults" "he_csql he = no_faults" "he_flusher he"
    and "carries (cd_write_delta cd) (he_read_delta he) req"
    and "\<And>resp. delta_response (he_sha he) no_faults (sc_dir (hs_scanner s)) req h = HttpOK resp \<Longrightarrow> carries (he_write_delta he) (cd_read_delta cd) resp"
    and "carries (cd_write_push cd) (he_read_push he) preq"
    and "ProcessPush (hs_scanner s) (he_envs he) preq h = (h', Inr results)" "carries (he_write_push he) (cd_read_push cd) results"
  shows "api_tree (remote_api cd download token he s h) = api_tree (api_of (he_sha he) (hs_scanner s) h) \<and>
    api_delta (remote_api cd download token he s h) req = api_delta (api_of (he_sha he) (hs_scanner s) h) req \<and>
    (d \<noteq> [] \<longrightarrow> api_blob (remote_api cd (\<lambda>u. No_reply (Error_string u)) token he s h) (Digest_Hex d) = api_blob (api_of (he_sha he) (hs_scanner s) h) (Digest_Hex d)) \<and>
    remote_push cd token he s preq h = (h', Body results) \<and>
    (0 \<le> v \<and> v \<le> 2 ^ 63 - 1 \<longrightarrow> ServeHTTP he s (get_request token ''/sync/subscribe'' (fmt_d v)) h = (case sub_start v h of (h', ss) \<Rightarrow> (h', Stream ss)))"
proof (intro conjI impI)
  show "api_tree (remote_api cd download token he s h) = api_tree (api_of (he_sha he) (hs_scanner s) h)"
    by (rule remote_tree [OF assms(1,3-5)])
  obtain b where b: "cd_write_delta cd req = Inr b" "he_read_delta he b = Inr req" using assms(7) [unfolded carries_iff] by blast
  show "api_delta (remote_api cd download token he s h) req = api_delta (api_of (he_sha he) (hs_scanner s) h) req"
  proof (cases "delta_response (he_sha he) no_faults (sc_dir (hs_scanner s)) req h")
    case (HttpOK x)
    from assms(8) [OF HttpOK, unfolded carries_iff] obtain c where "he_write_delta he x = Inr c" "cd_read_delta cd c = Inr x" by blast
    with HttpOK b assms(1,4) show ?thesis
      by (simp add: remote_api_def api_of_def remote_delta handleDelta_def decode_reply_def Client.reply_of_def)
  next
    case (HttpRedirect u)
    then show ?thesis by (auto simp: delta_response_def Let_def split: if_splits option.splits sum.splits)
  qed (use b assms(1,4) in \<open>auto simp: remote_api_def api_of_def remote_delta handleDelta_def decode_reply_def Client.reply_of_def\<close>)
  show "api_blob (remote_api cd (\<lambda>u. No_reply (Error_string u)) token he s h) (Digest_Hex d) = api_blob (api_of (he_sha he) (hs_scanner s) h) (Digest_Hex d)"
    if "d \<noteq> []"
    unfolding remote_api_def api_of_def hub_api.select_convs remote_blob [OF assms(1) that] snd_conv plain_reply_of
    using assms(2,4) by (simp add: presigner_def) (simp add: handleBlob_def split: sum.split option.split)
  obtain b where "cd_write_push cd preq = Inr b" "he_read_push he b = Inr preq" using assms(9) [unfolded carries_iff] by blast
  moreover obtain c where "he_write_push he results = Inr c" "cd_read_push cd c = Inr results" using assms(11) [unfolded carries_iff] by blast
  ultimately show "remote_push cd token he s preq h = (h', Body results)"
    using assms(1,10) by (simp add: remote_push_def remote_pushed handlePush_def decode_reply_def)
  show "ServeHTTP he s (get_request token ''/sync/subscribe'' (fmt_d v)) h = (case sub_start v h of (h', ss) \<Rightarrow> (h', Stream ss))"
    if "0 \<le> v \<and> v \<le> 2 ^ 63 - 1" using that remote_subscribe assms by blast
qed

definition ex_delta_request :: DeltaRequest where
  "ex_delta_request = \<lparr>dq_target_digest = [9, 7], dq_block_size = 1024, dq_signature = []\<rparr>"

definition ex_one_push :: PushRequest where
  "ex_one_push = \<lparr>pq_ops = [ex_op OpKind_OP_CREATE ''b'' 0], pq_on_conflict = ConflictPolicy_FAIL\<rparr>"

definition ex_http_env :: "FakeStorage http_env" where
  "ex_http_env = \<lparr>he_sql = no_faults, he_csql = no_faults, he_envs = (\<lambda>i. env_at 3), he_sha = ex_sha,
     he_read_delta = (\<lambda>b. Inr ex_delta_request), he_write_delta = (\<lambda>resp. Inr [2]),
     he_read_push = (\<lambda>b. Inr ex_one_push), he_write_push = (\<lambda>rs. Inr [4]), he_remote = NewFakeStorage, he_flusher = True\<rparr>"

definition ex_codec :: "PushResult list \<Rightarrow> client_codec" where
  "ex_codec results = \<lparr>cd_write_delta = (\<lambda>r. Inr [1]),
     cd_read_delta = (\<lambda>b. case delta_response ex_sha no_faults (sc_dir ex_cfg) ex_delta_request ex_big_hub of HttpOK r \<Rightarrow> Inr r | _ \<Rightarrow> Inl io_EOF),
     cd_write_push = (\<lambda>r. Inr [3]), cd_read_push = (\<lambda>b. Inr results)\<rparr>"

theorem remote_client_reaches_handlers_witness:
  "\<exists>results. api_blob (remote_api (ex_codec results) (\<lambda>u. No_reply (Error_string u)) ''t'' ex_http_env ex_http_server ex_big_hub) (Digest_Hex [9, 7]) = Body (replicate 1024 7) \<and>
     snd (remote_push (ex_codec results) ''t'' ex_http_env ex_http_server ex_one_push ex_big_hub) = Body results"
proof -
  have "\<not> isl (snd (ProcessPush ex_cfg (\<lambda>i. env_at 3) ex_one_push ex_big_hub))" by code_simp
  then obtain h' results where push: "ProcessPush ex_cfg (\<lambda>i. env_at 3) ex_one_push ex_big_hub = (h', Inr results)"
    by (cases "ProcessPush ex_cfg (\<lambda>i. env_at 3) ex_one_push ex_big_hub"; cases "snd (ProcessPush ex_cfg (\<lambda>i. env_at 3) ex_one_push ex_big_hub)") auto
  have server: "hs_scanner ex_http_server = ex_cfg" "hs_token ex_http_server = ''t''" "hs_storage ex_http_server = None" "hs_hasher ex_http_server = sc_hasher ex_cfg"
    by (simp_all add: ex_http_server_def NewServer_def)
  note all = remote_client_reaches_handlers [where cd = "ex_codec results" and s = ex_http_server and he = ex_http_env and token = "''t''" and h = ex_big_hub and
      req = ex_delta_request and preq = ex_one_push and h' = h' and results = results and d = "[9, 7]" and v = 0 and download = "\<lambda>u. No_reply (Error_string u)",
      unfolded server]
  have blob: "api_blob (api_of ex_sha ex_cfg ex_big_hub) (Digest_Hex [9, 7]) = Body (replicate 1024 7)" by code_simp
  show ?thesis using all push blob by (intro exI [of _ results]) (simp add: ex_codec_def ex_http_env_def carries_def)
qed

text \<open>
  C10: The token of the hub goes to the archive. Asked for a blob whose file is unpinned, the hub redirects the client to a presigned
  URL of the object store. A client that has bootstrapped in this process sends its authorization header, the
  token of the hub, to that host; the same client before a bootstrap does not.
\<close>

theorem bootstrapped_client_sends_token_to_archive:
  assumes "hs_token s = token" "token \<noteq> ''''" "hs_storage s = Some ops" "digest \<noteq> []"
    and "PathByDigest (he_sql he) digest (hub_db h) = Some p" "isl (os_Open (hub_fs h) (filepath_Join (sc_dir (hs_scanner s)) p))"
    and "EntryLookup (he_sql he) p (hub_db h) = Inr (Some entry)" "he_archive_state entry = ArchiveStateUnpinned"
    and "as_PresignDownloadURL ops (JoinKey (hs_prefix s) p) (he_remote he) = Inr u" "\<not> keeps_header (url_host hubURL) (location_host hubURL u)"
  shows "blob_requests (bootstrap_http hc) hubURL token he s digest h =
      [(url_host hubURL, ''Bearer '' @ token), (location_host hubURL u, ''Bearer '' @ token)] \<and>
    blob_requests new_http_client hubURL token he s digest h = [(url_host hubURL, ''Bearer '' @ token), (location_host hubURL u, '''')]"
proof -
  have "ParseDigest (Digest_Hex digest) = Inr digest" by (simp add: ParseDigest_def hex_decode_encode)
  then have "handleBlob (he_sql he) (sc_dir (hs_scanner s)) (presigner he s) (hs_prefix s) (Digest_Hex digest) h = HttpRedirect u"
    using assms(3,5-9) by (auto simp: handleBlob_def presigner_def split: sum.split)
  then have "snd (ServeHTTP he s (get_request token (''/blobs/'' @ Digest_Hex digest) '''') h) = Plain (HttpRedirect u)"
    unfolding remote_blob [OF assms(1,4)] by simp
  then show ?thesis
    unfolding blob_requests_def Let_def using assms(2,10)
    by (simp only: response.case http.case) (simp add: redirect_header_def bootstrap_http_def new_http_client_def setAuth_def request_auth)
qed

definition ex_unpinned_hub :: Hub where
  "ex_unpinned_hub = ex_hub\<lparr>hub_db := fst (MarkUnpinned (env_at 4) ''a'' (fst (Append (env_at 3) (ex_change OpCreate [9, 7]) empty_store))), hub_fs := [([''hub''], NDir)]\<rparr>"

definition ex_archive_server :: "FakeStorage HttpServer" where
  "ex_archive_server = ex_http_server\<lparr>hs_storage := Some fake_ops, hs_prefix := ''hub/''\<rparr>"

definition ex_uploaded :: FakeStorage where
  "ex_uploaded = fst (fake_Upload 3 \<lparr>up_key = ''hub/a'', up_size = 1, up_mtime = None, up_source = [7], up_digest = [], up_digest_algo = '''', up_content_sha1 = ''''\<rparr> NewFakeStorage)"

theorem bootstrapped_client_sends_token_to_archive_witness:
  "blob_requests (bootstrap_http new_http_client) ''http://hub.local:8080'' ''t'' (ex_http_env\<lparr>he_remote := ex_uploaded\<rparr>) ex_archive_server [9, 7] ex_unpinned_hub =
     [(''hub.local'', ''Bearer t''), (''fake.b2.example'', ''Bearer t'')]"
proof -
  let ?he = "ex_http_env\<lparr>he_remote := ex_uploaded\<rparr>" and ?s = ex_archive_server and ?u = "''https://fake.b2.example/hub/a''"
  obtain entry where entry: "EntryLookup no_faults ''a'' (hub_db ex_unpinned_hub) = Inr (Some entry)" "he_archive_state entry = ArchiveStateUnpinned"
  proof -
    have "case EntryLookup no_faults ''a'' (hub_db ex_unpinned_hub) of Inr (Some e) \<Rightarrow> he_archive_state e = ArchiveStateUnpinned | _ \<Rightarrow> False" by code_simp
    then show ?thesis using that by (auto split: sum.splits option.splits)
  qed
  have env: "he_sql ?he = no_faults" "he_remote ?he = ex_uploaded" by (simp_all add: ex_http_env_def)
  have server: "hs_token ?s = ''t''" "hs_storage ?s = Some fake_ops" "hs_scanner ?s = ex_cfg" "hs_prefix ?s = ''hub/''"
    by (simp_all add: ex_archive_server_def ex_http_server_def NewServer_def)
  have path: "PathByDigest no_faults [9, 7] (hub_db ex_unpinned_hub) = Some ''a''" by code_simp
  have gone: "isl (os_Open (hub_fs ex_unpinned_hub) (filepath_Join (sc_dir ex_cfg) ''a''))" by code_simp
  have url: "as_PresignDownloadURL fake_ops (JoinKey ''hub/'' ''a'') ex_uploaded = Inr ?u" by code_simp
  have hosts: "url_host ''http://hub.local:8080'' = ''hub.local''" "location_host ''http://hub.local:8080'' ?u = ''fake.b2.example''" by code_simp+
  have "\<not> keeps_header ''hub.local'' ''fake.b2.example''" by code_simp
  then show ?thesis
    using bootstrapped_client_sends_token_to_archive [where s = ?s and he = ?he and h = ex_unpinned_hub and digest = "[9, 7]" and p = "''a''" and ops = fake_ops
        and u = ?u and hubURL = "''http://hub.local:8080''" and hc = new_http_client and entry = entry and token = "''t''"]
    by (simp only: env server path gone entry url hosts) simp
qed


end
