(* ===== verification/Serve_Process.thy ===== *)
theory Serve_Process
  imports Wiring
begin

text \<open>
  The life of \<^verbatim>\<open>hubsync serve\<close> processes of one hub: the lock that \<^verbatim>\<open>cmdServe\<close> takes (\<^verbatim>\<open>cli/hubsync/main.go\<close>), the control socket that
  \<^verbatim>\<open>RPCServer.ListenAndServe\<close> (\<^verbatim>\<open>rpc.go\<close>) creates and removes, and their end on a signal or by a crash. Each process has
  two threads that matter here, the main one and the one of the control server; their steps interleave with
  those of other processes in any order.
\<close>

section \<open>Processes\<close>

text \<open>
  The main thread: not started, running with the lock, stopping after a signal, lock released, gone. The control
  thread: not begun, old socket removed, bound, serving, listener closed, done.
\<close>

datatype main_phase = M_start | M_running | M_stopping | M_released | M_gone

datatype rpc_phase = R_start | R_removed | R_bound | R_serving | R_closed | R_done

record serve_process =
  pc_main :: main_phase
  pc_rpc :: rpc_phase

text \<open>The socket file with the process that bound it and its mode; the file outlives a process that does not remove it.\<close>

record serve_state =
  sv_procs :: "nat \<Rightarrow> serve_process"
  sv_locks :: locks
  sv_socket :: "(nat \<times> nat) option"

datatype main_action = Acquire | Signal | ReleaseLock | Exit | Crash

datatype rpc_action = Remove | Bind | Chmod | Shutdown | Unlink

definition set_main :: "nat \<Rightarrow> main_phase \<Rightarrow> serve_state \<Rightarrow> serve_state" where
  "set_main i ph s = s\<lparr>sv_procs := (sv_procs s)(i := (sv_procs s i)\<lparr>pc_main := ph\<rparr>)\<rparr>"

definition set_rpc :: "nat \<Rightarrow> rpc_phase \<Rightarrow> serve_state \<Rightarrow> serve_state" where
  "set_rpc i ph s = s\<lparr>sv_procs := (sv_procs s)(i := (sv_procs s i)\<lparr>pc_rpc := ph\<rparr>)\<rparr>"

definition alive :: "main_phase \<Rightarrow> bool" where
  "alive ph \<longleftrightarrow> ph \<in> {M_running, M_stopping, M_released}"

text \<open>
  A step of the main thread of process \<open>i\<close>, if it is possible. When a process goes, its lock and its listener go with it, the socket file stays.
\<close>

fun main_act :: "fpath \<Rightarrow> main_action \<Rightarrow> nat \<Rightarrow> serve_state \<Rightarrow> serve_state option" where
  "main_act dir Acquire i s =
     (if pc_main (sv_procs s i) \<noteq> M_start then None
      else if map_of (sv_locks s) (HubLockPath dir) \<noteq> None then Some (set_main i M_gone s)
      else Some (set_main i M_running (s\<lparr>sv_locks := (HubLockPath dir, i) # sv_locks s\<rparr>)))"
| "main_act dir Signal i s = (if pc_main (sv_procs s i) = M_running then Some (set_main i M_stopping s) else None)"
| "main_act dir ReleaseLock i s =
     (if pc_main (sv_procs s i) = M_stopping then Some (set_main i M_released (s\<lparr>sv_locks := lock_Release dir i (sv_locks s)\<rparr>)) else None)"
| "main_act dir Exit i s = (if pc_main (sv_procs s i) = M_released then Some (set_main i M_gone s) else None)"
| "main_act dir Crash i s =
     (if alive (pc_main (sv_procs s i)) then Some (set_main i M_gone (s\<lparr>sv_locks := lock_Release dir i (sv_locks s)\<rparr>)) else None)"

text \<open>
  A step of its control thread. Binding fails when the file exists, and the control server ends; the mode after
  binding comes from the umask and is set to 0600 afterwards, on whatever file has the name by then. Closing the
  listener of a unix socket unlinks its name, and \<^verbatim>\<open>ListenAndServe\<close> removes it once more.
\<close>

fun rpc_act :: "nat \<Rightarrow> rpc_action \<Rightarrow> nat \<Rightarrow> serve_state \<Rightarrow> serve_state option" where
  "rpc_act umask_mode Remove i s = (if pc_rpc (sv_procs s i) = R_start then Some (set_rpc i R_removed (s\<lparr>sv_socket := None\<rparr>)) else None)"
| "rpc_act umask_mode Bind i s =
     (if pc_rpc (sv_procs s i) = R_removed
      then Some (if sv_socket s = None then set_rpc i R_bound (s\<lparr>sv_socket := Some (i, umask_mode)\<rparr>) else set_rpc i R_done s) else None)"
| "rpc_act umask_mode Chmod i s =
     (if pc_rpc (sv_procs s i) = R_bound
      then Some (case sv_socket s of
                   Some (j, md) \<Rightarrow> set_rpc i R_serving (s\<lparr>sv_socket := Some (j, 384)\<rparr>)
                 | None \<Rightarrow> set_rpc i R_done s) else None)"
| "rpc_act umask_mode Shutdown i s =
     (if pc_main (sv_procs s i) \<in> {M_stopping, M_released} \<and> pc_rpc (sv_procs s i) = R_serving then Some (set_rpc i R_closed (s\<lparr>sv_socket := None\<rparr>)) else None)"
| "rpc_act umask_mode Unlink i s = (if pc_rpc (sv_procs s i) = R_closed then Some (set_rpc i R_done (s\<lparr>sv_socket := None\<rparr>)) else None)"

datatype serve_action = Main main_action | Rpc rpc_action

fun serve_act :: "fpath \<Rightarrow> nat \<Rightarrow> serve_action \<Rightarrow> nat \<Rightarrow> serve_state \<Rightarrow> serve_state option" where
  "serve_act dir umask_mode (Main a) i s = main_act dir a i s"
| "serve_act dir umask_mode (Rpc b) i s = (if alive (pc_main (sv_procs s i)) then rpc_act umask_mode b i s else None)"

inductive host_reachable :: "fpath \<Rightarrow> nat \<Rightarrow> serve_state \<Rightarrow> bool" for dir umask_mode where
  host_init: "host_reachable dir umask_mode \<lparr>sv_procs = (\<lambda>i. \<lparr>pc_main = M_start, pc_rpc = R_start\<rparr>), sv_locks = [], sv_socket = socket\<rparr>"
| host_more: "host_reachable dir umask_mode s \<Longrightarrow> serve_act dir umask_mode a i s = Some s' \<Longrightarrow> host_reachable dir umask_mode s'"

text \<open>A connection to the socket is accepted when the file is there and the listener behind it is open.\<close>

definition listener :: "serve_state \<Rightarrow> nat option" where
  "listener s =
     (case sv_socket s of
        Some (i, md) \<Rightarrow> if alive (pc_main (sv_procs s i)) \<and> pc_rpc (sv_procs s i) \<in> {R_bound, R_serving} then Some i else None
      | None \<Rightarrow> None)"

section \<open>The lock\<close>

definition has_lock :: "main_phase \<Rightarrow> bool" where
  "has_lock ph \<longleftrightarrow> ph \<in> {M_running, M_stopping}"

definition lock_inv :: "fpath \<Rightarrow> serve_state \<Rightarrow> bool" where
  "lock_inv dir s \<longleftrightarrow>
     (\<exists>holder. sv_locks s = (case holder of None \<Rightarrow> [] | Some i \<Rightarrow> [(HubLockPath dir, i)]) \<and>
        (\<forall>j. has_lock (pc_main (sv_procs s j)) \<longleftrightarrow> holder = Some j))"

lemma serve_action_cases:
  obtains "a = Main Acquire" | "a = Main Signal" | "a = Main ReleaseLock" | "a = Main Exit" | "a = Main Crash"
    | "a = Rpc Remove" | "a = Rpc Bind" | "a = Rpc Chmod" | "a = Rpc Shutdown" | "a = Rpc Unlink"
proof (cases a)
  case (Main x)
  with that(1-5) show ?thesis by (cases x) simp_all
next
  case (Rpc y)
  with that(6-10) show ?thesis by (cases y) simp_all
qed

lemma act_keeps_lock:
  assumes "serve_act dir um a i s = Some s'" "a \<notin> {Main Acquire, Main ReleaseLock, Main Crash}"
  shows "sv_locks s' = sv_locks s \<and> (\<forall>j. has_lock (pc_main (sv_procs s' j)) = has_lock (pc_main (sv_procs s j)))"
  using assms by (cases a rule: serve_action_cases) (auto simp: set_main_def set_rpc_def has_lock_def split: if_splits option.splits)

lemma act_drops_lock:
  assumes "serve_act dir um a i s = Some s'" "a \<in> {Main ReleaseLock, Main Crash}"
  shows "sv_locks s' = lock_Release dir i (sv_locks s) \<and> (\<forall>j. has_lock (pc_main (sv_procs s' j)) \<longleftrightarrow> j \<noteq> i \<and> has_lock (pc_main (sv_procs s j)))"
  using assms by (auto simp: set_main_def has_lock_def split: if_splits)

lemma act_takes_lock:
  assumes "serve_act dir um (Main Acquire) i s = Some s'"
  shows "sv_locks s' = (if map_of (sv_locks s) (HubLockPath dir) = None then (HubLockPath dir, i) # sv_locks s else sv_locks s)"
    "has_lock (pc_main (sv_procs s' j)) \<longleftrightarrow> (if j = i then map_of (sv_locks s) (HubLockPath dir) = None else has_lock (pc_main (sv_procs s j)))"
    "\<not> has_lock (pc_main (sv_procs s i))"
  using assms by (auto simp: set_main_def has_lock_def split: if_splits)

lemma lock_inv_act:
  assumes "lock_inv dir s" "serve_act dir um a i s = Some s'"
  shows "lock_inv dir s'"
proof -
  from assms(1) obtain holder where h: "sv_locks s = (case holder of None \<Rightarrow> [] | Some i \<Rightarrow> [(HubLockPath dir, i)])"
    "\<forall>j. has_lock (pc_main (sv_procs s j)) \<longleftrightarrow> holder = Some j" by (auto simp: lock_inv_def)
  consider "a = Main Acquire" | "a \<in> {Main ReleaseLock, Main Crash}" | "a \<notin> {Main Acquire, Main ReleaseLock, Main Crash}" by blast
  then show ?thesis
  proof cases
    case 1
    show ?thesis
      using act_takes_lock [OF assms(2) [unfolded 1]] h unfolding lock_inv_def
      by (intro exI [of _ "Some (case holder of None \<Rightarrow> i | Some k \<Rightarrow> k)"], cases holder) auto
  next
    case 2
    let ?new = "if holder = Some i then None else holder"
    have "sv_locks s' = (case ?new of None \<Rightarrow> [] | Some i \<Rightarrow> [(HubLockPath dir, i)])"
      using act_drops_lock [OF assms(2) 2] h(1) by (auto simp: lock_Release_def split: option.split)
    moreover have "\<forall>j. has_lock (pc_main (sv_procs s' j)) \<longleftrightarrow> ?new = Some j" using act_drops_lock [OF assms(2) 2] h(2) by auto
    ultimately show ?thesis unfolding lock_inv_def by blast
  next
    case 3
    then show ?thesis using act_keeps_lock [OF assms(2) 3] h by (simp add: lock_inv_def) blast
  qed
qed

lemma reachable_lock_inv: "host_reachable dir um s \<Longrightarrow> lock_inv dir s"
proof (induction rule: host_reachable.induct)
  case (host_init socket)
  show ?case by (auto simp: lock_inv_def has_lock_def intro: exI [of _ None])
next
  case (host_more s a i s')
  then show ?case using lock_inv_act by blast
qed


section \<open>Schedules\<close>

fun host_run :: "fpath \<Rightarrow> nat \<Rightarrow> (nat \<times> serve_action) list \<Rightarrow> serve_state \<Rightarrow> serve_state option" where
  "host_run dir um [] s = Some s"
| "host_run dir um ((i, a) # acts) s = (case serve_act dir um a i s of Some s' \<Rightarrow> host_run dir um acts s' | None \<Rightarrow> None)"

lemma host_run_reachable: "host_reachable dir um s \<Longrightarrow> host_run dir um acts s = Some s' \<Longrightarrow> host_reachable dir um s'"
  by (induction dir um acts s rule: host_run.induct) (auto intro: host_more split: option.splits)

text \<open>A server that runs and listens on a socket whose name is gone, the only process alive.\<close>

definition hidden :: "fpath \<Rightarrow> nat \<Rightarrow> serve_state \<Rightarrow> bool" where
  "hidden dir k s \<longleftrightarrow> sv_procs s k = \<lparr>pc_main = M_running, pc_rpc = R_serving\<rparr> \<and> sv_socket s = None \<and>
     map_of (sv_locks s) (HubLockPath dir) = Some k \<and> (\<forall>j. j \<noteq> k \<longrightarrow> pc_main (sv_procs s j) \<in> {M_start, M_gone})"

lemma hidden_act:
  assumes "hidden dir k s" "serve_act dir um a i s = Some s'" "i = k \<longrightarrow> a \<notin> {Main Signal, Main Crash}"
  shows "hidden dir k s'"
proof (cases "i = k")
  case True
  with assms show ?thesis by (cases a rule: serve_action_cases) (auto simp: hidden_def alive_def)
next
  case False
  then have "pc_main (sv_procs s i) \<in> {M_start, M_gone}" using assms(1) by (simp add: hidden_def)
  with False assms(1,2) show ?thesis by (cases a rule: serve_action_cases) (auto simp: hidden_def alive_def set_main_def split: if_splits)
qed

lemma hidden_run:
  "hidden dir k s \<Longrightarrow> host_run dir um acts s = Some s' \<Longrightarrow> (k, Main Signal) \<notin> set acts \<Longrightarrow> (k, Main Crash) \<notin> set acts \<Longrightarrow> hidden dir k s'"
proof (induction dir um acts s rule: host_run.induct)
  case (2 dir um i a acts s)
  then obtain s1 where s1: "serve_act dir um a i s = Some s1" "host_run dir um acts s1 = Some s'" by (auto split: option.splits)
  have "hidden dir k s1" using hidden_act [OF "2.prems"(1) s1(1)] "2.prems"(3,4) by auto
  with "2.IH" [OF s1(1)] s1(2) "2.prems"(3,4) show ?case by simp
qed simp

definition fresh_hosts :: "(nat \<times> nat) option \<Rightarrow> serve_state" where
  "fresh_hosts socket = \<lparr>sv_procs = (\<lambda>i. \<lparr>pc_main = M_start, pc_rpc = R_start\<rparr>), sv_locks = [], sv_socket = socket\<rparr>"

text \<open>The old process releases the lock before its control thread has closed the listener.\<close>

definition handover :: "(nat \<times> serve_action) list" where
  "handover =
     [(1, Main Acquire), (1, Rpc Remove), (1, Rpc Bind), (1, Rpc Chmod), (1, Main Signal), (1, Main ReleaseLock),
      (2, Main Acquire), (2, Rpc Remove), (2, Rpc Bind), (2, Rpc Chmod), (1, Rpc Shutdown), (1, Rpc Unlink), (1, Main Exit)]"

lemma handover_hides: "\<exists>s. host_run dir um handover (fresh_hosts socket) = Some s \<and> hidden dir 2 s"
  by (simp add: handover_def fresh_hosts_def set_main_def set_rpc_def alive_def lock_Release_def hidden_def)

section \<open>Properties\<close>

text \<open>
  C16: The socket answers for the holder of the lock. However serve processes of a hub start, stop and crash, at most one of them
  holds the hub lock, and a process whose connection to the socket is accepted is the one that holds it, unless some
  process is just between releasing the lock and its end. A command that finds the lock taken and the
  socket answering therefore talks to the process that has the hub.
\<close>

theorem socket_answers_for_lock_holder:
  assumes "host_reachable dir um s"
  shows "(\<forall>j k. has_lock (pc_main (sv_procs s j)) \<and> has_lock (pc_main (sv_procs s k)) \<longrightarrow> j = k) \<and>
    ((\<forall>k. pc_main (sv_procs s k) \<noteq> M_released) \<longrightarrow>
       (\<forall>i. listener s = Some i \<longrightarrow> map_of (sv_locks s) (HubLockPath dir) = Some i))"
proof -
  from reachable_lock_inv [OF assms] obtain holder where h: "sv_locks s = (case holder of None \<Rightarrow> [] | Some i \<Rightarrow> [(HubLockPath dir, i)])"
    "\<forall>j. has_lock (pc_main (sv_procs s j)) \<longleftrightarrow> holder = Some j" by (auto simp: lock_inv_def)
  have "alive (pc_main (sv_procs s i))" if "listener s = Some i" for i using that by (auto simp: listener_def split: option.splits if_splits)
  then have "pc_main (sv_procs s i) \<noteq> M_released \<Longrightarrow> holder = Some i" if "listener s = Some i" for i
    using that h(2) by (auto simp: alive_def has_lock_def)
  with h show ?thesis by auto
qed

theorem socket_answers_for_lock_holder_witness:
  "\<exists>s. host_run [''hub''] 493 (take 4 handover) (fresh_hosts None) = Some s \<and> listener s = Some 1 \<and> map_of (sv_locks s) (HubLockPath [''hub'']) = Some 1"
proof -
  obtain s where s: "host_run [''hub''] 493 (take 4 handover) (fresh_hosts None) = Some s" "listener s = Some 1" "\<forall>k. pc_main (sv_procs s k) \<noteq> M_released"
    by (simp add: handover_def fresh_hosts_def set_main_def set_rpc_def alive_def listener_def)
  have "host_reachable [''hub''] 493 (fresh_hosts None)" unfolding fresh_hosts_def by (rule host_init)
  from socket_answers_for_lock_holder [OF host_run_reachable [OF this s(1)]] s show ?thesis by blast
qed

text \<open>
  C17: A process that ends can take the socket of its successor away. The lock is released by the main thread while the control
  thread may still be closing its listener, which unlinks the name of the socket whoever has bound it since. Two processes
  can thus reach a state in which the second one has the lock and serves, and from then on, whatever any process
  does, its socket is not found until it is stopped itself: commands that need it fail although it runs.
\<close>

theorem ending_server_hides_successor:
  "\<exists>s. host_reachable dir um s \<and> pc_rpc (sv_procs s 2) = R_serving \<and>
     (\<forall>acts s'. host_run dir um acts s = Some s' \<and> (2, Main Signal) \<notin> set acts \<and> (2, Main Crash) \<notin> set acts \<longrightarrow>
        listener s' = None \<and> map_of (sv_locks s') (HubLockPath dir) = Some 2)"
proof -
  obtain s where s: "host_run dir um handover (fresh_hosts None) = Some s" "hidden dir 2 s" using handover_hides by blast
  have "host_reachable dir um (fresh_hosts None)" unfolding fresh_hosts_def by (rule host_init)
  note reach = host_run_reachable [OF this s(1)]
  have "listener s' = None \<and> map_of (sv_locks s') (HubLockPath dir) = Some 2"
    if "host_run dir um acts s = Some s'" "(2, Main Signal) \<notin> set acts" "(2, Main Crash) \<notin> set acts" for acts s'
    using hidden_run [OF s(2) that] by (simp add: hidden_def listener_def)
  with reach s(2) show ?thesis by (intro exI [of _ s]) (auto simp: hidden_def)
qed

theorem ending_server_hides_successor_witness:
  "\<exists>s. pc_rpc (sv_procs s 2) = R_serving \<and> listener s = None \<and> map_of (sv_locks s) (HubLockPath [''hub'']) = Some 2"
proof -
  from ending_server_hides_successor [of "[''hub'']" 493] obtain s where "pc_rpc (sv_procs s 2) = R_serving"
    "\<forall>acts s'. host_run [''hub''] 493 acts s = Some s' \<and> (2, Main Signal) \<notin> set acts \<and> (2, Main Crash) \<notin> set acts \<longrightarrow>
       listener s' = None \<and> map_of (sv_locks s') (HubLockPath [''hub'']) = Some 2" by blast
  moreover from this(2) have "listener s = None \<and> map_of (sv_locks s) (HubLockPath [''hub'']) = Some 2"
    by (auto dest: spec [of _ "[]"])
  ultimately show ?thesis by blast
qed


end
