(* ===== verification/Watcher.thy ===== *)
theory Watcher
  imports Hub
begin

text \<open>
  The watcher loop (\<^verbatim>\<open>watcher.go\<close>) and \<^verbatim>\<open>Hub.Start\<close>, which scans once and then scans again whenever the
  watcher calls back. The loop, the timer and its callbacks run concurrently, so they are steps of
  a state machine; a scan is one step.
\<close>

section \<open>The loop\<close>

text \<open>
  \<open>wt_queue\<close> holds the file names fsnotify has reported and the loop has not received. Times are
  milliseconds. \<open>wt_deadline\<close> is set while the timer runs; \<open>wt_fired\<close> counts the callbacks that were started and
  have not read \<^verbatim>\<open>pending\<close> yet, \<open>wt_due\<close> those that are about to scan. The last three fields only
  record history: the paths handed over, whether a change went unreported, whether the last scan failed.
\<close>

record Watch =
  wt_hub :: Hub
  wt_running :: bool
  wt_now :: int
  wt_queue :: "string list"
  wt_pending :: "string list"
  wt_deadline :: "int option"
  wt_fired :: nat
  wt_due :: nat
  wt_calls :: "string list list"
  wt_unseen :: bool
  wt_failed :: bool

definition debounce :: int where "debounce = 50"

definition start_watch :: "int \<Rightarrow> Hub \<Rightarrow> Watch" where
  "start_watch now h = \<lparr>wt_hub = h, wt_running = True, wt_now = now, wt_queue = [], wt_pending = [], wt_deadline = None,
     wt_fired = 0, wt_due = 0, wt_calls = [], wt_unseen = False, wt_failed = False\<rparr>"

text \<open>One turn of the select: an event, or the end of the context, which stops the timer.\<close>

definition watch_notified :: "string \<Rightarrow> Watch \<Rightarrow> Watch" where
  "watch_notified name w =
     w\<lparr>wt_pending := List.insert name (wt_pending w), wt_deadline := Some (wt_now w + debounce)\<rparr>"

definition watch_done :: "Watch \<Rightarrow> Watch" where
  "watch_done w = w\<lparr>wt_running := False, wt_deadline := None\<rparr>"

text \<open>The callback of the timer: it takes the pending paths, and calls \<^verbatim>\<open>onChanges\<close> with them.\<close>

definition timer_fires :: "Watch \<Rightarrow> Watch" where
  "timer_fires w = w\<lparr>wt_deadline := None, wt_fired := wt_fired w + 1\<rparr>"

definition take_pending :: "Watch \<Rightarrow> Watch" where
  "take_pending w = w\<lparr>wt_pending := [], wt_fired := wt_fired w - 1, wt_due := wt_due w + 1, wt_calls := wt_calls w @ [wt_pending w]\<rparr>"

text \<open>The closure \<^verbatim>\<open>Start\<close> passes as \<^verbatim>\<open>onChanges\<close>: a scan whose error is only logged.\<close>

definition on_changes :: "walker \<Rightarrow> ScannerCfg \<Rightarrow> sql_faults \<Rightarrow> (nat \<Rightarrow> env) \<Rightarrow> Watch \<Rightarrow> Watch" where
  "on_changes walk sc sql envs w =
     (case FullScan walk sc sql envs (wt_hub w) of (h, r) \<Rightarrow> w\<lparr>wt_hub := h, wt_due := wt_due w - 1, wt_failed := isl r\<rparr>)"

definition Hub_Start :: "walker \<Rightarrow> ScannerCfg \<Rightarrow> sql_faults \<Rightarrow> (nat \<Rightarrow> env) \<Rightarrow> int \<Rightarrow> Hub \<Rightarrow> Watch res" where
  "Hub_Start walk sc sql envs now h =
     (case FullScan walk sc sql envs h of
        (_, Inl e) \<Rightarrow> Inl (Wrap ''initial scan'' e)
      | (h', Inr _) \<Rightarrow> Inr (start_watch now h'))"

text \<open>
  \<open>notify f f'\<close> is what fsnotify reports when the file system goes from \<open>f\<close> to \<open>f'\<close>. The timer is never
  early but may be late. Nothing is said of the hub a failing scan leaves but that it is a well-formed one.
\<close>

inductive watch_step :: "(fs \<Rightarrow> fs \<Rightarrow> string list) \<Rightarrow> walker \<Rightarrow> ScannerCfg \<Rightarrow> Watch \<Rightarrow> Watch \<Rightarrow> bool"
  for notify walk sc where
  watch_change: "watch_step notify walk sc w
     (w\<lparr>wt_hub := (wt_hub w)\<lparr>hub_fs := f\<rparr>, wt_queue := wt_queue w @ notify (hub_fs (wt_hub w)) f,
        wt_unseen := wt_unseen w \<or> notify (hub_fs (wt_hub w)) f = []\<rparr>)"
| watch_receive: "wt_running w \<Longrightarrow> wt_queue w = name # rest \<Longrightarrow>
     watch_step notify walk sc w (watch_notified name (w\<lparr>wt_queue := rest\<rparr>))"
| watch_log: "wt_running w \<Longrightarrow> watch_step notify walk sc w w"
| watch_closed: "wt_running w \<Longrightarrow> watch_step notify walk sc w (w\<lparr>wt_running := False\<rparr>)"
| watch_cancel: "wt_running w \<Longrightarrow> watch_step notify walk sc w (watch_done w)"
| watch_tick: "wt_now w \<le> t \<Longrightarrow> watch_step notify walk sc w (w\<lparr>wt_now := t\<rparr>)"
| watch_fire: "wt_deadline w = Some t \<Longrightarrow> t \<le> wt_now w \<Longrightarrow> watch_step notify walk sc w (timer_fires w)"
| watch_take: "0 < wt_fired w \<Longrightarrow> watch_step notify walk sc w (take_pending w)"
| watch_scan: "0 < wt_due w \<Longrightarrow> (\<And>i. env_sql (envs i) = no_faults) \<Longrightarrow>
     log_seq (hub_db (wt_hub w)) + int (length (found_changes walk sc (wt_hub w))) \<le> max_int64 \<Longrightarrow>
     watch_step notify walk sc w (on_changes walk sc no_faults envs w)"
| watch_bad_scan: "0 < wt_due w \<Longrightarrow> hub_inv h \<Longrightarrow>
     watch_step notify walk sc w (w\<lparr>wt_hub := h, wt_due := wt_due w - 1, wt_failed := True\<rparr>)"

abbreviation watch_steps :: "(fs \<Rightarrow> fs \<Rightarrow> string list) \<Rightarrow> walker \<Rightarrow> ScannerCfg \<Rightarrow> Watch \<Rightarrow> Watch \<Rightarrow> bool" where
  "watch_steps notify walk sc \<equiv> (watch_step notify walk sc)\<^sup>*\<^sup>*"

section \<open>Invariants\<close>

text \<open>
  While the loop runs, names wait only under a timer or a callback that will hand them over, and a change the
  database does not show is on its way to a scan, unless it was never reported or the last scan failed.
\<close>

definition on_the_way :: "Watch \<Rightarrow> bool" where
  "on_the_way w \<longleftrightarrow> wt_queue w \<noteq> [] \<or> wt_deadline w \<noteq> None \<or> 0 < wt_fired w \<or> 0 < wt_due w"

definition watch_inv :: "walker \<Rightarrow> ScannerCfg \<Rightarrow> Watch \<Rightarrow> bool" where
  "watch_inv walk sc w \<longleftrightarrow> hub_inv (wt_hub w) \<and>
     (wt_running w \<longrightarrow>
        (wt_pending w \<noteq> [] \<longrightarrow> wt_deadline w \<noteq> None \<or> 0 < wt_fired w) \<and>
        (found_changes walk sc (wt_hub w) \<noteq> [] \<longrightarrow> on_the_way w \<or> wt_unseen w \<or> wt_failed w))"

lemma watch_inv_start: "hub_inv h \<Longrightarrow> found_changes walk sc h = [] \<Longrightarrow> watch_inv walk sc (start_watch now h)"
  by (simp add: watch_inv_def start_watch_def)

lemma hub_inv_fs: "hub_inv (h\<lparr>hub_fs := f\<rparr>) \<longleftrightarrow> hub_inv h"
  by (simp add: hub_inv_def)

lemma watch_scan_inv:
  assumes "hub_inv (wt_hub w)" "walk_ok walk (hub_fs (wt_hub w)) (sc_dir sc) (sc_ignorer sc)" "\<And>i. env_sql (envs i) = no_faults"
    and "log_seq (hub_db (wt_hub w)) + int (length (found_changes walk sc (wt_hub w))) \<le> max_int64"
  shows "hub_inv (wt_hub (on_changes walk sc no_faults envs w)) \<and> found_changes walk sc (wt_hub (on_changes walk sc no_faults envs w)) = []"
proof -
  obtain h' where h': "FullScan walk sc no_faults envs (wt_hub w) = (h', Inr ())" "hub_inv h'"
    by (rule FullScan_result [where envs = envs, OF assms]) blast
  with FullScan_settled [where envs = envs, OF assms h'(1)] show ?thesis by (simp add: on_changes_def)
qed

lemma on_changes_sel:
  "wt_running (on_changes walk sc sql envs w) = wt_running w" "wt_pending (on_changes walk sc sql envs w) = wt_pending w"
  "wt_deadline (on_changes walk sc sql envs w) = wt_deadline w" "wt_fired (on_changes walk sc sql envs w) = wt_fired w"
  by (simp_all add: on_changes_def split: prod.split)

lemma watch_step_inv:
  assumes "watch_step notify walk sc w w'" "watch_inv walk sc w" "\<And>f. walk_ok walk f (sc_dir sc) (sc_ignorer sc)"
  shows "watch_inv walk sc w'"
  using assms(1,2)
proof cases
  case (watch_scan envs)
  from assms(2) have "hub_inv (wt_hub w)" by (simp add: watch_inv_def)
  from watch_scan_inv [OF this assms(3) watch_scan(3,4)] assms(2) watch_scan(1) show ?thesis
    by (simp add: watch_inv_def on_changes_sel)
qed (auto simp: watch_inv_def on_the_way_def watch_notified_def watch_done_def timer_fires_def take_pending_def hub_inv_fs)

lemma watch_steps_inv:
  assumes "watch_steps notify walk sc w w'" "watch_inv walk sc w" "\<And>f. walk_ok walk f (sc_dir sc) (sc_ignorer sc)"
  shows "watch_inv walk sc w'"
  using assms(1,2) by (induction rule: rtranclp_induct) (auto intro: watch_step_inv [OF _ _ assms(3)])

text \<open>The steps left when nothing more is reported.\<close>

definition watch_work :: "Watch \<Rightarrow> nat" where
  "watch_work w = 4 * length (wt_queue w) + (if wt_deadline w = None then 0 else 3) + 2 * wt_fired w + wt_due w"

lemma on_the_way_work: "on_the_way w \<longleftrightarrow> 0 < watch_work w"
  by (auto simp: on_the_way_def watch_work_def)

definition log_room :: "walker \<Rightarrow> ScannerCfg \<Rightarrow> Watch \<Rightarrow> bool" where
  "log_room walk sc w \<longleftrightarrow> log_seq (hub_db (wt_hub w)) + int (length (found_changes walk sc (wt_hub w))) \<le> max_int64"

lemma watch_scan_room:
  assumes "hub_inv (wt_hub w)" "walk_ok walk (hub_fs (wt_hub w)) (sc_dir sc) (sc_ignorer sc)" "\<And>i. env_sql (envs i) = no_faults" "log_room walk sc w"
  shows "log_room walk sc (on_changes walk sc no_faults envs w)"
proof -
  note found = found_changes_spec [OF assms(1,2)]
  from append_changes_ok [where envs = envs, OF assms(1,3) assms(4) [unfolded log_room_def] found(2)] obtain h' where
    "FullScan walk sc no_faults envs (wt_hub w) = (h', Inr ())" "log_seq (hub_db h') = log_seq (hub_db (wt_hub w)) + int (length (found_changes walk sc (wt_hub w)))"
    using found(1) [of envs] by auto
  with watch_scan_inv [where envs = envs, OF assms(1-3) assms(4) [unfolded log_room_def]] assms(4) show ?thesis by (simp add: log_room_def on_changes_def)
qed

text \<open>While something is on its way there is a step towards the scan.\<close>

lemma watch_progress:
  assumes "on_the_way w" "wt_running w" "hub_inv (wt_hub w)" "log_room walk sc w" "\<And>f. walk_ok walk f (sc_dir sc) (sc_ignorer sc)"
  shows "\<exists>w'. watch_steps notify walk sc w w' \<and> watch_work w' < watch_work w \<and> wt_running w' \<and> hub_inv (wt_hub w') \<and> log_room walk sc w' \<and>
    (on_the_way w' \<or> found_changes walk sc (wt_hub w') = [])"
proof -
  consider (queue) name rest where "wt_queue w = name # rest" | (timer) t where "wt_queue w = []" "wt_deadline w = Some t"
    | (fired) "0 < wt_fired w" | (due) "0 < wt_due w"
    using assms(1) unfolding on_the_way_def by (cases "wt_queue w") auto
  then show ?thesis
  proof cases
    case queue
    let ?w = "watch_notified name (w\<lparr>wt_queue := rest\<rparr>)"
    have "watch_step notify walk sc w ?w" using assms(2) queue by (rule watch_receive)
    moreover have "watch_work ?w < watch_work w" "on_the_way ?w" "log_room walk sc ?w"
      using queue assms(4) by (auto simp: watch_work_def on_the_way_def watch_notified_def log_room_def)
    ultimately show ?thesis using assms(2,3) by (intro exI [of _ ?w]) (auto simp: watch_notified_def)
  next
    case timer
    let ?m = "w\<lparr>wt_now := max (wt_now w) t\<rparr>"
    have "watch_step notify walk sc w ?m" "watch_step notify walk sc ?m (timer_fires ?m)"
      using timer by (auto intro: watch_tick watch_fire)
    then have "watch_steps notify walk sc w (timer_fires ?m)" by (rule converse_rtranclp_into_rtranclp [OF _ r_into_rtranclp])
    moreover have "watch_work (timer_fires ?m) < watch_work w" "on_the_way (timer_fires ?m)" "log_room walk sc (timer_fires ?m)"
      using timer assms(4) by (auto simp: watch_work_def on_the_way_def timer_fires_def log_room_def)
    ultimately show ?thesis using assms(2,3) by (intro exI [of _ "timer_fires ?m"]) (auto simp: timer_fires_def)
  next
    case fired
    then have "watch_step notify walk sc w (take_pending w)" by (rule watch_take)
    moreover have "watch_work (take_pending w) < watch_work w" "on_the_way (take_pending w)" "log_room walk sc (take_pending w)"
      using fired assms(4) by (auto simp: watch_work_def on_the_way_def take_pending_def log_room_def)
    ultimately show ?thesis using assms(2,3) by (intro exI [of _ "take_pending w"]) (auto simp: take_pending_def)
  next
    case due
    let ?envs = "\<lambda>i::nat. env_at 0" and ?w = "on_changes walk sc no_faults (\<lambda>i. env_at 0) w"
    have envs: "\<And>i. env_sql (?envs i) = no_faults" by simp
    have "watch_step notify walk sc w ?w" using due envs assms(4) [unfolded log_room_def] by (rule watch_scan)
    moreover have "watch_work ?w < watch_work w"
      using due by (simp add: watch_work_def on_changes_def split: prod.split)
    ultimately show ?thesis
      using assms(2) watch_scan_inv [OF assms(3,5) envs assms(4) [unfolded log_room_def]] watch_scan_room [OF assms(3,5) envs assms(4)]
      by (intro exI [of _ ?w]) (auto simp: on_changes_sel)
  qed
qed

lemma watch_drains:
  assumes "\<And>f. walk_ok walk f (sc_dir sc) (sc_ignorer sc)"
  shows "wt_running w \<Longrightarrow> hub_inv (wt_hub w) \<Longrightarrow> log_room walk sc w \<Longrightarrow> on_the_way w \<or> found_changes walk sc (wt_hub w) = [] \<Longrightarrow>
    \<exists>w'. watch_steps notify walk sc w w' \<and> \<not> on_the_way w' \<and> found_changes walk sc (wt_hub w') = []"
proof (induction "watch_work w" arbitrary: w rule: less_induct)
  case less
  show ?case
  proof (cases "on_the_way w")
    case True
    from watch_progress [OF True less.prems(1-3) assms] obtain w' where
      w': "watch_steps notify walk sc w w'" "watch_work w' < watch_work w" "wt_running w'" "hub_inv (wt_hub w')" "log_room walk sc w'"
        "on_the_way w' \<or> found_changes walk sc (wt_hub w') = []" by blast
    from less.hyps [OF w'(2-6)] w'(1) show ?thesis by (meson rtranclp_trans)
  next
    case False
    with less.prems(4) show ?thesis by blast
  qed
qed

section \<open>Properties\<close>


text \<open>
  What fsnotify documents: a watched directory reports the files in it, not those of its
  subdirectories. An event carries the name of a direct child that changed.
\<close>

definition flat_notify :: "fpath \<Rightarrow> fs \<Rightarrow> fs \<Rightarrow> string list" where
  "flat_notify dir f f' =
     map last (filter (\<lambda>p. butlast p = dir \<and> p \<noteq> [] \<and> fs_node f p \<noteq> fs_node f' p) (remdups (map fst f @ map fst f')))"

definition ex_watch :: Watch where
  "ex_watch = start_watch 0 (fst (FullScan walk_list ex_cfg no_faults (\<lambda>i. env_at 1) ex_hub))"

definition ex_rewritten :: fs where
  "ex_rewritten = [([''hub''], NDir), ([''hub'', ''a''], NFile [3] 420 6)]"

definition ex_after :: "fs \<Rightarrow> Watch" where
  "ex_after f = ex_watch\<lparr>wt_hub := (wt_hub ex_watch)\<lparr>hub_fs := f\<rparr>,
     wt_queue := wt_queue ex_watch @ flat_notify [''hub''] (hub_fs (wt_hub ex_watch)) f,
     wt_unseen := wt_unseen ex_watch \<or> flat_notify [''hub''] (hub_fs (wt_hub ex_watch)) f = []\<rparr>"

lemma ex_after_step: "watch_steps (flat_notify [''hub'']) walk_list ex_cfg ex_watch (ex_after f)"
  unfolding ex_after_def by (intro r_into_rtranclp watch_change)

lemma ex_watch_started: "Hub_Start walk_list ex_cfg no_faults (\<lambda>i. env_at 1) 0 ex_hub = Inr ex_watch"
proof -
  obtain h' where "FullScan walk_list ex_cfg no_faults (\<lambda>i. env_at 1) ex_hub = (h', Inr ())"
    by (rule FullScan_result [where envs = "\<lambda>i. env_at 1", OF ex_hub_ok(1) walk_list_ok _ ex_hub_ok(3)]) simp_all
  then show ?thesis by (simp add: Hub_Start_def ex_watch_def)
qed


definition ex_deep :: "byte \<Rightarrow> fs" where
  "ex_deep b = [([''hub''], NDir), ([''hub'', ''d''], NDir), ([''hub'', ''d'', ''x''], NFile [b] 420 (uint b))]"

definition ex_deep_watch :: Watch where
  "ex_deep_watch = start_watch 0 (fst (FullScan walk_list ex_cfg no_faults (\<lambda>i. env_at 1) (ex_hub\<lparr>hub_fs := ex_deep 1\<rparr>)))"


end
