(* ===== verification/Task_Schema.thy ===== *)
theory Task_Schema
  imports Filesystem
begin

text \<open>
  The items table of the task runner (\<^verbatim>\<open>internal/taskrunner/plan.go\<close>): its columns are inferred from the fields of
  the task's Go type, a task is bound to the arguments of an insert, and a row is turned back into
  the JSON object the task is decoded from (\<^verbatim>\<open>hydrate\<close> in \<^verbatim>\<open>runner.go\<close>). Go types are a datatype; the
  JSON encoder and the time format are parameters.
\<close>

section \<open>Types\<close>

text \<open>What \<^verbatim>\<open>reflect\<close> tells of a type. \<open>TOther\<close> is a kind that cannot be stored (channel, function, complex, \<dots>).\<close>

datatype gotype =
    TString | TBool | TInt | TUint8 | TFloat | TTime | TSlice gotype | TMap | TArray | TInterface
  | TStruct string "StructField list" | TPointer gotype | TOther string
and StructField = StructField (sf_name: string) (sf_exported: bool) (sf_tag: string) (sf_type: gotype)

text \<open>The loops \<^verbatim>\<open>for t.Kind() == reflect.Pointer\<close>.\<close>

fun elem_type :: "gotype \<Rightarrow> gotype" where
  "elem_type (TPointer t) = elem_type t"
| "elem_type t = t"

definition jsonFieldName :: "StructField \<Rightarrow> string option" where
  "jsonFieldName f =
     (let tag = sf_tag f in
      if tag = ''-'' then None
      else if tag = '''' then Some (sf_name f)
      else let name = takeWhile (\<lambda>c. c \<noteq> CHR '','') tag in Some (if name = '''' then sf_name f else name))"

definition sqliteTypeFor :: "gotype \<Rightarrow> (string \<times> bool) res" where
  "sqliteTypeFor t0 =
     (case elem_type t0 of
        TTime \<Rightarrow> Inr (''TEXT'', False)
      | TString \<Rightarrow> Inr (''TEXT'', False)
      | TBool \<Rightarrow> Inr (''INTEGER'', False)
      | TInt \<Rightarrow> Inr (''INTEGER'', False)
      | TUint8 \<Rightarrow> Inr (''INTEGER'', False)
      | TFloat \<Rightarrow> Inr (''REAL'', False)
      | TSlice e \<Rightarrow> Inr (if e = TUint8 then (''BLOB'', False) else (''TEXT'', True))
      | TMap \<Rightarrow> Inr (''TEXT'', True)
      | TStruct _ _ \<Rightarrow> Inr (''TEXT'', True)
      | TArray \<Rightarrow> Inr (''TEXT'', True)
      | TInterface \<Rightarrow> Inr (''TEXT'', True)
      | TPointer _ \<Rightarrow> Inl (Error_string ''unsupported field kind ptr'')
      | TOther k \<Rightarrow> Inl (Error_string (''unsupported field kind '' @ k)))"

section \<open>Schemas\<close>

record itemColumn =
  ic_name :: string
  ic_type :: gotype
  ic_sql_type :: string
  ic_is_json :: bool

record itemSchema =
  is_columns :: "itemColumn list"
  is_id_idx :: nat
  is_schema_type :: gotype

fun infer_fields :: "StructField list \<Rightarrow> itemColumn list \<Rightarrow> nat option \<Rightarrow> (itemColumn list \<times> nat option) res" where
  "infer_fields [] cols idIdx = Inr (cols, idIdx)"
| "infer_fields (f # fs) cols idIdx =
     (if \<not> sf_exported f then infer_fields fs cols idIdx
      else (case jsonFieldName f of
              None \<Rightarrow> infer_fields fs cols idIdx
            | Some name \<Rightarrow>
                (case sqliteTypeFor (sf_type f) of
                   Inl e \<Rightarrow> Inl (Wrap (''taskrunner: field '' @ sf_name f) e)
                 | Inr (sqlType, isJSON) \<Rightarrow>
                     infer_fields fs (cols @ [\<lparr>ic_name = name, ic_type = sf_type f, ic_sql_type = sqlType, ic_is_json = isJSON\<rparr>])
                       (if name = ''id'' then Some (length cols) else idIdx))))"

text \<open>The fields \<^verbatim>\<open>reflect\<close> gives of a struct; those of \<^verbatim>\<open>time.Time\<close> are not exported.\<close>

definition inferItemSchema :: "gotype option \<Rightarrow> itemSchema res" where
  "inferItemSchema sample =
     (case sample of
        None \<Rightarrow> Inl (Error_string ''taskrunner: factory.Hydrate returned nil'')
      | Some declaredType \<Rightarrow>
          (case (case elem_type declaredType of TStruct n fs \<Rightarrow> Some (n, fs) | TTime \<Rightarrow> Some (''Time'', []) | _ \<Rightarrow> None) of
             None \<Rightarrow> Inl (Error_string ''taskrunner: Task must be a struct (or pointer to struct)'')
           | Some (tname, flds) \<Rightarrow>
               (case infer_fields flds [] None of
                  Inl e \<Rightarrow> Inl e
                | Inr (cols, None) \<Rightarrow>
                    Inl (Error_string (''taskrunner: Task type '' @ tname @ '' has no `json:'' @ [CHR 0x22] @ ''id'' @ [CHR 0x22] @ ''` field''))
                | Inr (cols, Some idIdx) \<Rightarrow> Inr \<lparr>is_columns = cols, is_id_idx = idIdx, is_schema_type = declaredType\<rparr>)))"

section \<open>Statements\<close>

fun double_quotes :: "string \<Rightarrow> string" where
  "double_quotes [] = []"
| "double_quotes (c # cs) = (if c = CHR 0x22 then [CHR 0x22, CHR 0x22] else [c]) @ double_quotes cs"

definition quoteIdent :: "string \<Rightarrow> string" where
  "quoteIdent s = [CHR 0x22] @ double_quotes s @ [CHR 0x22]"

definition column_def :: "itemSchema \<Rightarrow> nat \<Rightarrow> string" where
  "column_def s i =
     (let c = is_columns s ! i in
      ''  '' @ quoteIdent (ic_name c) @ '' '' @ ic_sql_type c @ (if i = is_id_idx s then '' PRIMARY KEY'' else '''') @
      (if i + 1 < length (is_columns s) then '','' else '''') @ [CHR 0x0A])"

definition createTableSQL :: "itemSchema \<Rightarrow> string" where
  "createTableSQL s = ''CREATE TABLE items ('' @ [CHR 0x0A] @ concat (map (column_def s) [0..<length (is_columns s)]) @ '')''"

fun join_comma :: "string list \<Rightarrow> string" where
  "join_comma [] = ''''"
| "join_comma [x] = x"
| "join_comma (x # y # xs) = x @ '','' @ join_comma (y # xs)"

definition insertSQL :: "itemSchema \<Rightarrow> string" where
  "insertSQL s = ''INSERT INTO items('' @ join_comma (map (\<lambda>c. quoteIdent (ic_name c)) (is_columns s)) @ '') VALUES('' @
     join_comma (map (\<lambda>_. ''?'') (is_columns s)) @ '')''"

section \<open>Rows\<close>

text \<open>
  A task is a value of its type: nil pointers, and the values of the fields of the struct it leads
  to. An argument of the insert is nil (a column no field reached), JSON or time text, or the Go value.
\<close>

datatype 'v goval = NilPointer | StructVal "'v list" | OtherVal string

datatype 'v sqlarg = ArgNil | ArgText string | ArgValue 'v

record 'v codec =
  co_marshal :: "'v \<Rightarrow> string res"
  co_time :: "'v \<Rightarrow> string"
  co_string :: "'v \<Rightarrow> string option"

definition col_index :: "itemColumn list \<Rightarrow> string \<Rightarrow> nat option" where
  "col_index cols name = map_of (rev (zip (map ic_name cols) [0..<length cols])) name"

fun bind_fields :: "'v codec \<Rightarrow> itemColumn list \<Rightarrow> (StructField \<times> 'v) list \<Rightarrow> 'v sqlarg list \<Rightarrow> 'v sqlarg list res" where
  "bind_fields co cols [] args = Inr args"
| "bind_fields co cols ((f, v) # fvs) args =
     (if \<not> sf_exported f then bind_fields co cols fvs args
      else (case jsonFieldName f of
              None \<Rightarrow> bind_fields co cols fvs args
            | Some name \<Rightarrow>
                (case col_index cols name of
                   None \<Rightarrow> bind_fields co cols fvs args
                 | Some i \<Rightarrow>
                     if ic_is_json (cols ! i)
                     then (case co_marshal co v of
                             Inl e \<Rightarrow> Inl (Wrap (''marshal '' @ name) e)
                           | Inr buf \<Rightarrow> bind_fields co cols fvs (args[i := ArgText buf]))
                     else if ic_type (cols ! i) = TTime then bind_fields co cols fvs (args[i := ArgText (co_time co v)])
                     else bind_fields co cols fvs (args[i := ArgValue v]))))"

definition arg_string :: "'v codec \<Rightarrow> 'v sqlarg \<Rightarrow> string" where
  "arg_string co a = (case a of ArgNil \<Rightarrow> '''' | ArgText s \<Rightarrow> s | ArgValue v \<Rightarrow> (case co_string co v of None \<Rightarrow> '''' | Some s \<Rightarrow> s))"

text \<open>\<open>flds\<close> are the fields of the type of the value.\<close>

definition bind_task :: "'v codec \<Rightarrow> itemSchema \<Rightarrow> StructField list \<Rightarrow> 'v goval \<Rightarrow> ('v sqlarg list \<times> string) res" where
  "bind_task co s flds v =
     (case v of
        NilPointer \<Rightarrow> Inl (Error_string ''emitted nil pointer'')
      | OtherVal k \<Rightarrow> Inl (Error_string (''emitted non-struct '' @ k))
      | StructVal vals \<Rightarrow>
          (case bind_fields co (is_columns s) (zip flds vals) (replicate (length (is_columns s)) ArgNil) of
             Inl e \<Rightarrow> Inl e
           | Inr args \<Rightarrow> Inr (args, arg_string co (args ! is_id_idx s))))"

text \<open>
  The object \<^verbatim>\<open>hydrate\<close> builds from a row: columns that are missing or NULL are left out, JSON columns are
  raw messages. A row is what the database returns for each column.
\<close>

datatype 'd jsonval = RawMessage string | JsonValue 'd

definition hydrate_column :: "('d \<Rightarrow> string option) \<Rightarrow> (string \<Rightarrow> 'd option) \<Rightarrow> itemColumn \<Rightarrow> (string \<times> 'd jsonval) option" where
  "hydrate_column text row c =
     (case row (ic_name c) of
        None \<Rightarrow> None
      | Some v \<Rightarrow>
          Some (ic_name c,
                if ic_is_json c then (case text v of Some s \<Rightarrow> RawMessage s | None \<Rightarrow> JsonValue v) else JsonValue v))"

definition hydrate :: "('d \<Rightarrow> string option) \<Rightarrow> ((string \<times> 'd jsonval) list \<Rightarrow> 'j res) \<Rightarrow> ('j \<Rightarrow> 't \<Rightarrow> 't res) \<Rightarrow> 't res \<Rightarrow> itemSchema \<Rightarrow>
    (string \<Rightarrow> 'd option) \<Rightarrow> 't res" where
  "hydrate text marshal unmarshal task s row =
     (case task of
        Inl e \<Rightarrow> Inl e
      | Inr t \<Rightarrow>
          (case marshal (List.map_filter (hydrate_column text row) (is_columns s)) of
             Inl e \<Rightarrow> Inl (Wrap ''marshal row'' e)
           | Inr buf \<Rightarrow>
               (case unmarshal buf t of
                  Inl e \<Rightarrow> Inl (Wrap ''unmarshal into task'' e)
                | Inr t' \<Rightarrow> Inr t')))"

section \<open>Inference\<close>

definition kept :: "StructField \<Rightarrow> bool" where
  "kept f \<longleftrightarrow> sf_exported f \<and> jsonFieldName f \<noteq> None"

definition column_of :: "itemColumn \<Rightarrow> StructField \<Rightarrow> bool" where
  "column_of c f \<longleftrightarrow> jsonFieldName f = Some (ic_name c) \<and> ic_type c = sf_type f \<and> sqliteTypeFor (sf_type f) = Inr (ic_sql_type c, ic_is_json c)"

lemma infer_fields_ok:
  assumes "infer_fields fs cols idx = Inr (cols', idx')"
  shows "\<exists>new. cols' = cols @ new \<and> list_all2 column_of new (filter kept fs) \<and>
    (\<forall>i. idx' = Some i \<longrightarrow> idx = Some i \<or> i < length cols' \<and> ic_name (cols' ! i) = ''id'')"
  using assms
proof (induction fs cols idx rule: infer_fields.induct)
  case (2 f fs cols idx)
  show ?case
  proof (cases "kept f")
    case False
    then have "infer_fields fs cols idx = Inr (cols', idx')" using "2.prems" by (auto simp: kept_def split: if_splits)
    with False "2.IH" show ?thesis by (auto simp: kept_def)
  next
    case True
    then obtain name where f: "sf_exported f" "jsonFieldName f = Some name" by (auto simp: kept_def)
    with "2.prems" obtain st js where t: "sqliteTypeFor (sf_type f) = Inr (st, js)" by (auto split: sum.splits)
    let ?c = "\<lparr>ic_name = name, ic_type = sf_type f, ic_sql_type = st, ic_is_json = js\<rparr>"
    let ?idx = "if name = ''id'' then Some (length cols) else idx"
    have "infer_fields fs (cols @ [?c]) ?idx = Inr (cols', idx')" using "2.prems" f t by simp
    from "2.IH"(3) [OF _ f(2) t refl this] f(1) obtain new where
      new: "cols' = cols @ [?c] @ new" "list_all2 column_of new (filter kept fs)"
      "\<forall>i. idx' = Some i \<longrightarrow> ?idx = Some i \<or> i < length cols' \<and> ic_name (cols' ! i) = ''id''" by auto
    have "column_of ?c f" using f(2) t by (simp add: column_of_def)
    with new(2) True have "list_all2 column_of (?c # new) (filter kept (f # fs))" by simp
    moreover have "\<forall>i. idx' = Some i \<longrightarrow> idx = Some i \<or> i < length cols' \<and> ic_name (cols' ! i) = ''id''"
    proof (intro allI impI)
      fix i assume i: "idx' = Some i"
      have "length cols < length cols' \<and> ic_name (cols' ! length cols) = name" using new(1) by simp
      with new(3) [rule_format, OF i] show "idx = Some i \<or> i < length cols' \<and> ic_name (cols' ! i) = ''id''"
        by (cases "name = ''id''") auto
    qed
    ultimately show ?thesis using new(1) by (intro exI [of _ "?c # new"]) simp
  qed
qed simp

section \<open>Binding\<close>

definition encodes :: "'v codec \<Rightarrow> itemColumn \<Rightarrow> 'v \<Rightarrow> 'v sqlarg \<Rightarrow> bool" where
  "encodes co c v a \<longleftrightarrow>
     (if ic_is_json c then (\<exists>j. co_marshal co v = Inr j \<and> a = ArgText j)
      else if ic_type c = TTime then a = ArgText (co_time co v) else a = ArgValue v)"

lemma col_index_nth:
  assumes "distinct (map ic_name cols)" "i < length cols"
  shows "col_index cols (ic_name (cols ! i)) = Some i"
proof -
  let ?al = "zip (map ic_name cols) [0..<length cols]"
  have "distinct (map fst (rev ?al))" using assms(1) by (simp add: rev_map [symmetric])
  moreover have "(ic_name (cols ! i), i) \<in> set (rev ?al)" using assms(2) by (auto simp: in_set_zip intro!: exI [of _ i])
  ultimately show ?thesis unfolding col_index_def by (rule map_of_is_SomeI)
qed

lemma bind_fields_ok:
  assumes "distinct (map ic_name (done @ rest))" "list_all2 column_of rest (filter kept (map fst fvs))" "length as = length done"
    and "\<forall>(f, v) \<in> set fvs. \<exists>j. co_marshal co v = Inr j"
  shows "\<exists>bs. bind_fields co (done @ rest) fvs (as @ replicate (length rest) ArgNil) = Inr (as @ bs) \<and>
    length bs = length rest \<and> list_all2 (\<lambda>(c, a) (f, v). jsonFieldName f = Some (ic_name c) \<and> encodes co c v a) (zip rest bs) (filter (\<lambda>(f, v). kept f) fvs)"
  using assms
proof (induction fvs arbitrary: "done" rest as)
  case Nil
  then show ?case by simp
next
  case (Cons fv fvs)
  obtain f v where fv: "fv = (f, v)" by fastforce
  show ?case
  proof (cases "kept f")
    case False
    then have "bind_fields co (done @ rest) (fv # fvs) args = bind_fields co (done @ rest) fvs args" for args
      using fv by (auto simp: kept_def)
    with Cons.IH [of "done" rest as] Cons.prems False fv show ?thesis by simp
  next
    case True
    with Cons.prems(2) fv obtain c rest' where rest: "rest = c # rest'" "column_of c f" "list_all2 column_of rest' (filter kept (map fst fvs))"
      by (auto simp: list_all2_Cons2)
    have name: "jsonFieldName f = Some (ic_name c)" using rest(2) by (simp add: column_of_def)
    have idx: "col_index (done @ rest) (ic_name c) = Some (length done)"
      using col_index_nth [OF Cons.prems(1), of "length done"] rest(1) by simp
    obtain j where j: "co_marshal co v = Inr j" using Cons.prems(4) fv by auto
    let ?a = "if ic_is_json c then ArgText j else if ic_type c = TTime then ArgText (co_time co v) else ArgValue v"
    have enc: "encodes co c v ?a" using j by (simp add: encodes_def)
    have upd: "(as @ replicate (length rest) ArgNil)[length done := ?a] = (as @ [?a]) @ replicate (length rest') ArgNil"
      using Cons.prems(3) rest(1) by (simp add: list_update_append)
    have "bind_fields co (done @ rest) (fv # fvs) (as @ replicate (length rest) ArgNil) =
      bind_fields co (done @ rest) fvs ((as @ replicate (length rest) ArgNil)[length done := ?a])"
      using True fv name idx j rest(1) by (simp add: kept_def nth_append)
    with upd have step: "bind_fields co (done @ rest) (fv # fvs) (as @ replicate (length rest) ArgNil) =
      bind_fields co ((done @ [c]) @ rest') fvs ((as @ [?a]) @ replicate (length rest') ArgNil)" using rest(1) by simp
    from Cons.IH [of "done @ [c]" rest' "as @ [?a]"] Cons.prems rest fv obtain bs where
      bs: "bind_fields co ((done @ [c]) @ rest') fvs ((as @ [?a]) @ replicate (length rest') ArgNil) = Inr ((as @ [?a]) @ bs)" "length bs = length rest'"
      "list_all2 (\<lambda>(c, a) (f, v). jsonFieldName f = Some (ic_name c) \<and> encodes co c v a) (zip rest' bs) (filter (\<lambda>(f, v). kept f) fvs)" by auto
    show ?thesis unfolding step using bs rest(1) True fv name enc by (intro exI [of _ "?a # bs"]) simp
  qed
qed

section \<open>Reading statements back\<close>

text \<open>
  How SQLite reads a quoted identifier, after its opening quote: up to a quote that is not doubled. A list of
  identifiers is separated by commas; the fuel is at least its number of identifiers.
\<close>

fun scan_quoted :: "string \<Rightarrow> (string \<times> string) option" where
  "scan_quoted [] = None"
| "scan_quoted [c] = (if c = CHR 0x22 then Some ([], []) else None)"
| "scan_quoted (c # d # cs) =
     (if c \<noteq> CHR 0x22 then map_option (\<lambda>(s, r). (c # s, r)) (scan_quoted (d # cs))
      else if d = CHR 0x22 then map_option (\<lambda>(s, r). (CHR 0x22 # s, r)) (scan_quoted cs)
      else Some ([], d # cs))"

fun scan_idents :: "nat \<Rightarrow> string \<Rightarrow> (string list \<times> string) option" where
  "scan_idents 0 cs = None"
| "scan_idents (Suc n) cs =
     (case cs of
        [] \<Rightarrow> None
      | q # cs' \<Rightarrow>
          if q \<noteq> CHR 0x22 then None
          else (case scan_quoted cs' of
                  None \<Rightarrow> None
                | Some (name, r) \<Rightarrow>
                    (case r of
                       (c # r') \<Rightarrow> if c = CHR '','' then map_option (\<lambda>(ns, r). (name # ns, r)) (scan_idents n r') else Some ([name], r)
                     | [] \<Rightarrow> Some ([name], []))))"

lemma scan_quoted_quote:
  assumes "rest = [] \<or> hd rest \<noteq> CHR 0x22"
  shows "scan_quoted (double_quotes s @ CHR 0x22 # rest) = Some (s, rest)"
proof (induction s)
  case Nil
  show ?case using assms by (cases rest) auto
next
  case (Cons c s)
  obtain d ds where "double_quotes s @ CHR 0x22 # rest = d # ds" by (cases "double_quotes s") auto
  with Cons show ?case by auto
qed

lemma quoteIdent_append: "quoteIdent x @ t = CHR 0x22 # double_quotes x @ CHR 0x22 # t"
  by (simp add: quoteIdent_def)

lemma scan_idents_join:
  assumes "names \<noteq> []" "length names \<le> n" "rest = [] \<or> hd rest \<notin> {CHR 0x22, CHR '',''}"
  shows "scan_idents n (join_comma (map quoteIdent names) @ rest) = Some (names, rest)"
  using assms(1,2)
proof (induction names arbitrary: n rule: induct_list012)
  case (2 x)
  then obtain m where n: "n = Suc m" by (cases n) auto
  from assms(3) have "scan_quoted (double_quotes x @ CHR 0x22 # rest) = Some (x, rest)" by (intro scan_quoted_quote) auto
  with assms(3) quoteIdent_append [of x rest] show ?case by (cases rest) (auto simp: n quoteIdent_append)
next
  case (3 x y zs)
  then obtain m where n: "n = Suc m" by (cases n) auto
  let ?tail = "join_comma (map quoteIdent (y # zs)) @ rest"
  have "scan_quoted (double_quotes x @ CHR 0x22 # CHR '','' # ?tail) = Some (x, CHR '','' # ?tail)" by (rule scan_quoted_quote) simp
  moreover have "scan_idents m ?tail = Some (y # zs, rest)" using 3 n by simp
  moreover have "join_comma (map quoteIdent (x # y # zs)) @ rest = CHR 0x22 # double_quotes x @ CHR 0x22 # CHR '','' # ?tail"
    by (simp add: quoteIdent_append)
  ultimately show ?case by (simp only: n) simp
qed simp

section \<open>Properties\<close>

text \<open>
  A task fills every column of its table. When the schema inferred from a struct type has distinct column names and its
  values can be encoded, binding a task of that type yields one argument per column, in the order of the columns, each the
  encoding of the field the column was made of (JSON text for a composite, the formatted time, the value itself
  otherwise); the id column exists, is called \<^verbatim>\<open>id\<close>, and the id of the row is its text.
\<close>

theorem bind_fills_every_column:
  assumes "inferItemSchema (Some T) = Inr s" "elem_type T = TStruct n flds" "distinct (map ic_name (is_columns s))"
    and "length vals = length flds" "\<forall>v \<in> set vals. \<exists>j. co_marshal co v = Inr j"
  shows "\<exists>args. bind_task co s flds (StructVal vals) = Inr (args, arg_string co (args ! is_id_idx s)) \<and>
    length args = length (is_columns s) \<and> is_id_idx s < length args \<and> ic_name (is_columns s ! is_id_idx s) = ''id'' \<and>
    list_all2 (\<lambda>(c, a) (f, v). jsonFieldName f = Some (ic_name c) \<and> encodes co c v a)
      (zip (is_columns s) args) (filter (\<lambda>(f, v). kept f) (zip flds vals))"
proof -
  from assms(1,2) have inf: "infer_fields flds [] None = Inr (is_columns s, Some (is_id_idx s))"
    by (auto simp: inferItemSchema_def split: sum.splits option.splits)
  from infer_fields_ok [OF inf] have cols: "list_all2 column_of (is_columns s) (filter kept flds)"
    and idx: "is_id_idx s < length (is_columns s)" "ic_name (is_columns s ! is_id_idx s) = ''id''" by auto
  have "map fst (zip flds vals) = flds" using assms(4) by simp
  with cols have "list_all2 column_of (is_columns s) (filter kept (map fst (zip flds vals)))" by simp
  moreover have "\<forall>(f, v) \<in> set (zip flds vals). \<exists>j. co_marshal co v = Inr j" using assms(5) by (auto dest: set_zip_rightD)
  ultimately obtain bs where "bind_fields co (is_columns s) (zip flds vals) (replicate (length (is_columns s)) ArgNil) = Inr bs"
    "length bs = length (is_columns s)"
    "list_all2 (\<lambda>(c, a) (f, v). jsonFieldName f = Some (ic_name c) \<and> encodes co c v a) (zip (is_columns s) bs) (filter (\<lambda>(f, v). kept f) (zip flds vals))"
    using bind_fields_ok [of "[]" "is_columns s" "zip flds vals" "[]" co] assms(3) by auto
  with idx show ?thesis by (simp add: bind_task_def)
qed

definition ex_task_type :: gotype where
  "ex_task_type = TPointer (TStruct ''ArchiveTask'' [StructField ''ID'' True ''id'' TString, StructField ''Path'' True ''path,omitempty'' TString,
     StructField ''Tags'' True '''' (TSlice TString), StructField ''deps'' False '''' TInterface, StructField ''Skip'' True ''-'' TBool])"

definition ex_codec :: "string codec" where
  "ex_codec = \<lparr>co_marshal = (\<lambda>v. Inr ([CHR 0x22] @ v @ [CHR 0x22])), co_time = (\<lambda>v. v), co_string = Some\<rparr>"

definition ex_schema :: itemSchema where
  "ex_schema = (case inferItemSchema (Some ex_task_type) of Inr s \<Rightarrow> s | Inl _ \<Rightarrow> \<lparr>is_columns = [], is_id_idx = 0, is_schema_type = TString\<rparr>)"

theorem bind_fills_every_column_witness:
  "\<exists>args. bind_task ex_codec ex_schema (case elem_type ex_task_type of TStruct _ flds \<Rightarrow> flds | _ \<Rightarrow> []) (StructVal [''i'', ''p'', ''t'', ''d'', ''s'']) =
      Inr (args, arg_string ex_codec (args ! is_id_idx ex_schema)) \<and> length args = 3 \<and> is_id_idx ex_schema = 0"
proof -
  let ?flds = "case elem_type ex_task_type of TStruct _ flds \<Rightarrow> flds | _ \<Rightarrow> []"
  have "inferItemSchema (Some ex_task_type) = Inr ex_schema" by code_simp
  moreover have "elem_type ex_task_type = TStruct ''ArchiveTask'' ?flds" by (simp add: ex_task_type_def)
  moreover have "distinct (map ic_name (is_columns ex_schema))" "length (is_columns ex_schema) = 3" "is_id_idx ex_schema = 0"
    "length [''i'', ''p'', ''t'', ''d'', ''s''] = length ?flds" by code_simp+
  moreover have "\<forall>v \<in> set [''i'', ''p'', ''t'', ''d'', ''s'']. \<exists>j. co_marshal ex_codec v = Inr j" by (simp add: ex_codec_def)
  ultimately obtain args where "bind_task ex_codec ex_schema ?flds (StructVal [''i'', ''p'', ''t'', ''d'', ''s'']) =
      Inr (args, arg_string ex_codec (args ! is_id_idx ex_schema))" "length args = length (is_columns ex_schema)"
    using bind_fills_every_column [of ex_task_type ex_schema "''ArchiveTask''" ?flds "[''i'', ''p'', ''t'', ''d'', ''s'']" ex_codec] by blast
  with \<open>length (is_columns ex_schema) = 3\<close> \<open>is_id_idx ex_schema = 0\<close> show ?thesis by auto
qed

text \<open>
  The insert statement names the columns of the schema and nothing else, whatever characters their names contain: read
  back as SQLite reads quoted identifiers, the list after \<^verbatim>\<open>INSERT INTO items(\<close> is the list of column names, and the
  rest of the statement has one placeholder per column.
\<close>

theorem insert_names_exactly_the_columns:
  assumes "is_columns s \<noteq> []"
  shows "\<exists>body. insertSQL s = ''INSERT INTO items('' @ body \<and>
    scan_idents (length (is_columns s)) body =
      Some (map ic_name (is_columns s), '') VALUES('' @ join_comma (replicate (length (is_columns s)) ''?'') @ '')'')"
proof -
  let ?rest = "'') VALUES('' @ join_comma (replicate (length (is_columns s)) ''?'') @ '')''"
  have "scan_idents (length (is_columns s)) (join_comma (map quoteIdent (map ic_name (is_columns s))) @ ?rest) = Some (map ic_name (is_columns s), ?rest)"
    by (rule scan_idents_join) (use assms in simp_all)
  then show ?thesis by (simp add: insertSQL_def map_replicate_const comp_def)
qed

theorem insert_names_exactly_the_columns_witness:
  "\<exists>body. insertSQL ex_schema = ''INSERT INTO items('' @ body \<and>
     scan_idents 3 body = Some ([''id'', ''path'', ''Tags''], '') VALUES(?,?,?)'')"
proof -
  have "is_columns ex_schema \<noteq> []" "length (is_columns ex_schema) = 3" "map ic_name (is_columns ex_schema) = [''id'', ''path'', ''Tags'']"
    "join_comma (replicate 3 ''?'') = ''?,?,?''" by code_simp+
  with insert_names_exactly_the_columns [of ex_schema] show ?thesis by simp
qed

end
