(* ===== verification/Taskrunner.thy ===== *)
theory Taskrunner
  imports Task_Schema
begin

text \<open>
  The task runner (\<^verbatim>\<open>internal/taskrunner\<close>): a work queue in two SQLite tables. \<^verbatim>\<open>items\<close> holds what to do,
  \<^verbatim>\<open>tasks\<close> the state of each item; workers claim rows, run them, heartbeat and write the outcome.
  The body of an item, the JSON encoder and SQLite's \<^verbatim>\<open>json_patch\<close> are parameters. Time stamps have the
  resolution of \<^verbatim>\<open>CURRENT_TIMESTAMP\<close>, one second.
\<close>

section \<open>Tables\<close>

datatype TaskStatus = Pending | Running | Done | Failed

record TaskRow =
  tr_id :: string
  tr_status :: TaskStatus
  tr_attempts :: int
  tr_started_at :: "int option"
  tr_ended_at :: "int option"
  tr_heartbeat_at :: "int option"
  tr_error :: "string option"
  tr_meta :: string

definition new_task :: "string \<Rightarrow> TaskRow" where
  "new_task i = \<lparr>tr_id = i, tr_status = Pending, tr_attempts = 0, tr_started_at = None, tr_ended_at = None,
     tr_heartbeat_at = None, tr_error = None, tr_meta = ''{}''\<rparr>"

record 'c item =
  it_id :: string
  it_body :: 'c

text \<open>\<open>td_item_cols\<close> is the number of columns of \<^verbatim>\<open>items\<close>, 0 while the table does not exist.\<close>

record 'c TaskDB =
  td_item_cols :: nat
  td_items :: "'c item list"
  td_tasks :: "TaskRow list"

definition ensureTasksTable :: "sql_faults \<Rightarrow> 'c TaskDB option \<Rightarrow> 'c TaskDB res" where
  "ensureTasksTable sql db =
     (case sql SQL_CREATE of
        Some m \<Rightarrow> Inl (Wrap ''taskrunner: ensure schema'' (Sql_error m))
      | None \<Rightarrow> Inr (case db of None \<Rightarrow> \<lparr>td_item_cols = 0, td_items = [], td_tasks = []\<rparr> | Some d \<Rightarrow> d))"

definition itemsEmpty :: "sql_faults \<Rightarrow> 'c TaskDB \<Rightarrow> bool res" where
  "itemsEmpty sql db =
     (case sql SQL_SELECT of
        Some m \<Rightarrow> Inl (Wrap ''taskrunner: probe items table'' (Sql_error m))
      | None \<Rightarrow> Inr (td_item_cols db = 0 \<or> td_items db = []))"

section \<open>Options\<close>

record RunOptions =
  ro_db_path :: fpath
  ro_workers :: int
  ro_where :: string
  ro_max_attempts :: int
  ro_stale :: int
  ro_heartbeat_every :: int
  ro_dry :: bool
  ro_keep_db :: bool

definition second :: int where "second = 1000000000"

definition withDefaults :: "int \<Rightarrow> RunOptions \<Rightarrow> RunOptions" where
  "withDefaults numCPU o1 =
     (let o2 = (if ro_workers o1 \<le> 0 then o1\<lparr>ro_workers := numCPU\<rparr> else o1);
          o3 = (if ro_max_attempts o2 \<le> 0 then o2\<lparr>ro_max_attempts := 3\<rparr> else o2);
          o4 = (if ro_stale o3 \<le> 0 then o3\<lparr>ro_stale := 30 * second\<rparr> else o3)
      in if ro_heartbeat_every o4 \<le> 0 then o4\<lparr>ro_heartbeat_every := 5 * second\<rparr> else o4)"

text \<open>\<^verbatim>\<open>int(opts.Stale.Seconds())\<close> of a positive duration.\<close>

definition stale_seconds :: "RunOptions \<Rightarrow> int" where
  "stale_seconds opts = ro_stale opts div second"

section \<open>Planning\<close>

text \<open>
  The loop of \<^verbatim>\<open>runPlan\<close> over what the factory yields, tasks with their types; the body of an item is the
  arguments its row was inserted with. \<open>tyname\<close> prints a type.
\<close>

definition struct_fields :: "gotype \<Rightarrow> StructField list" where
  "struct_fields ty = (case elem_type ty of TStruct n flds \<Rightarrow> flds | _ \<Rightarrow> [])"

type_synonym 'v task_row = "'v sqlarg list"

fun plan_loop :: "sql_faults \<Rightarrow> (gotype \<Rightarrow> string) \<Rightarrow> 'v codec \<Rightarrow> itemSchema \<Rightarrow> (gotype \<times> 'v goval) res list \<Rightarrow>
    'v task_row item list \<Rightarrow> 'v task_row item list res" where
  "plan_loop sql tyname co s [] acc = Inr acc"
| "plan_loop sql tyname co s (Inl e # ys) acc = Inl (Wrap ''taskrunner: plan'' e)"
| "plan_loop sql tyname co s (Inr (ty, v) # ys) acc =
     (if ty \<noteq> is_schema_type s
      then Inl (Error_string (''taskrunner: plan yielded wrong type: got '' @ tyname ty @ '', want '' @ tyname (is_schema_type s)))
      else (case bind_task co s (struct_fields ty) v of
        Inl e \<Rightarrow> Inl (Wrap ''taskrunner: bind plan row'' e)
      | Inr (row, idVal) \<Rightarrow>
          if idVal = '''' then Inl (Error_string ''taskrunner: emitted row has empty id'')
          else if idVal \<in> it_id ` set acc then Inl (Error_string (''taskrunner: duplicate id in plan: '' @ fmt_q idVal))
          else (case sql SQL_INSERT of
                  Some m \<Rightarrow> Inl (Wrap (''taskrunner: insert items row '' @ fmt_q idVal) (Sql_error m))
                | None \<Rightarrow> plan_loop sql tyname co s ys (acc @ [\<lparr>it_id = idVal, it_body = row\<rparr>]))))"

text \<open>\<^verbatim>\<open>INSERT OR IGNORE INTO tasks (id) SELECT id FROM items\<close>\<close>

definition seed_tasks :: "'c item list \<Rightarrow> TaskRow list \<Rightarrow> TaskRow list" where
  "seed_tasks its rows = fold (\<lambda>it rs. if it_id it \<in> tr_id ` set rs then rs else rs @ [new_task (it_id it)]) its rows"

definition runPlan :: "sql_faults \<Rightarrow> (gotype \<Rightarrow> string) \<Rightarrow> 'v codec \<Rightarrow> itemSchema \<Rightarrow> (gotype \<times> 'v goval) res list \<Rightarrow>
    'v task_row TaskDB \<Rightarrow> 'v task_row TaskDB \<times> unit res" where
  "runPlan sql tyname co s seq db =
     (case sql SQL_BEGIN of
        Some m \<Rightarrow> (db, Inl (Wrap ''taskrunner: plan begin'' (Sql_error m)))
      | None \<Rightarrow>
     (case sql SQL_SELECT of
        Some m \<Rightarrow> (db, Inl (Wrap ''taskrunner: probe items cols'' (Sql_error m)))
      | None \<Rightarrow>
     (let ncols = length (is_columns s); stub = 0 < td_item_cols db \<and> td_item_cols db < ncols;
          existing = (if stub then 0 else td_item_cols db);
          old = (if existing = 0 then [] else td_items db);
          cols = (if existing = 0 then ncols else existing)
      in case (if stub then sql SQL_DROP else None) of
        Some m \<Rightarrow> (db, Inl (Wrap ''taskrunner: drop stub items'' (Sql_error m)))
      | None \<Rightarrow>
     (case (if existing = 0 then sql SQL_CREATE else None) of
        Some m \<Rightarrow> (db, Inl (Wrap ''taskrunner: create items'' (Sql_error m)))
      | None \<Rightarrow>
     (case sql SQL_PREPARE of
        Some m \<Rightarrow> (db, Inl (Wrap ''taskrunner: prepare insert items'' (Sql_error m)))
      | None \<Rightarrow>
     (case plan_loop sql tyname co s seq [] of
        Inl e \<Rightarrow> (db, Inl e)
      | Inr its \<Rightarrow>
     (case sql SQL_INSERT of
        Some m \<Rightarrow> (db, Inl (Wrap ''taskrunner: seed tasks'' (Sql_error m)))
      | None \<Rightarrow>
     (case sql SQL_COMMIT of
        Some m \<Rightarrow> (db, Inl (Wrap ''taskrunner: plan commit'' (Sql_error m)))
      | None \<Rightarrow> (db\<lparr>td_item_cols := cols, td_items := old @ its, td_tasks := seed_tasks (old @ its) (td_tasks db)\<rparr>, Inr ())))))))))"

section \<open>The queue\<close>

text \<open>
  \<^verbatim>\<open>workQueueWhere\<close> without and with the user's fragment, a predicate on the joined row that is only
  consulted when the option holds more than white space.
\<close>

definition TrimSpace_empty :: "string \<Rightarrow> bool" where
  "TrimSpace_empty s = list_all (\<lambda>c. c \<in> {CHR '' '', CHR 0x09, CHR 0x0A, CHR 0x0B, CHR 0x0C, CHR 0x0D}) s"

definition eligible :: "RunOptions \<Rightarrow> int \<Rightarrow> TaskRow \<Rightarrow> bool" where
  "eligible opts now r =
     (case tr_status r of
        Pending \<Rightarrow> True
      | Failed \<Rightarrow> tr_attempts r < ro_max_attempts opts
      | Running \<Rightarrow> (case tr_heartbeat_at r of None \<Rightarrow> True | Some h \<Rightarrow> h < now - stale_seconds opts)
      | Done \<Rightarrow> False)"

definition workQueueWhere :: "RunOptions \<Rightarrow> ('c item \<Rightarrow> TaskRow \<Rightarrow> bool) \<Rightarrow> int \<Rightarrow> 'c item \<Rightarrow> TaskRow \<Rightarrow> bool" where
  "workQueueWhere opts user now it r = (eligible opts now r \<and> (TrimSpace_empty (ro_where opts) \<or> user it r))"

definition work_queue :: "RunOptions \<Rightarrow> ('c item \<Rightarrow> TaskRow \<Rightarrow> bool) \<Rightarrow> int \<Rightarrow> 'c TaskDB \<Rightarrow> ('c item \<times> int) list" where
  "work_queue opts user now db =
     List.map_filter (\<lambda>it. case tbl_lookup tr_id (it_id it) (td_tasks db) of
         Some r \<Rightarrow> if workQueueWhere opts user now it r then Some (it, tr_attempts r) else None
       | None \<Rightarrow> None)
       (sort_key it_id (td_items db))"

fun batch_loop :: "('c item \<times> int) list \<Rightarrow> (string \<times> int) list \<Rightarrow> 'c item list \<times> (string \<times> int) list" where
  "batch_loop [] seen = ([], seen)"
| "batch_loop ((it, attempts) # rows) seen =
     (case map_of seen (it_id it) of
        Some prev \<Rightarrow>
          if attempts \<le> prev then batch_loop rows seen
          else (case batch_loop rows (AList.update (it_id it) attempts seen) of (b, s) \<Rightarrow> (it # b, s))
      | None \<Rightarrow> (case batch_loop rows (AList.update (it_id it) attempts seen) of (b, s) \<Rightarrow> (it # b, s)))"

definition fetchBatch :: "RunOptions \<Rightarrow> ('c item \<Rightarrow> TaskRow \<Rightarrow> bool) \<Rightarrow> env \<Rightarrow> (string \<times> int) list \<Rightarrow> 'c TaskDB \<Rightarrow>
    ('c item list \<times> (string \<times> int) list) res" where
  "fetchBatch opts user en seen db =
     (case env_sql en SQL_SELECT of
        Some m \<Rightarrow> Inl (Wrap ''taskrunner: select work queue'' (Sql_error m))
      | None \<Rightarrow> Inr (batch_loop (work_queue opts user (env_now en) db) seen))"

text \<open>
  \<^verbatim>\<open>feedQueue\<close>: pass after pass until one yields nothing. \<open>world i\<close> is the database and environment the
  \<open>i\<close>-th pass meets, since workers change the rows between passes. The result is the rows sent to
  the workers, in order; \<open>None\<close> is a loop that does not end.
\<close>

partial_function (option) feed_loop :: "RunOptions \<Rightarrow> ('c item \<Rightarrow> TaskRow \<Rightarrow> bool) \<Rightarrow> (nat \<Rightarrow> env \<times> 'c TaskDB) \<Rightarrow> nat \<Rightarrow>
    (string \<times> int) list \<Rightarrow> 'c item list \<Rightarrow> ('c item list res) option" where
  "feed_loop opts user world i seen sent =
     (case fetchBatch opts user (fst (world i)) seen (snd (world i)) of
        Inl e \<Rightarrow> Some (Inl e)
      | Inr (batch, seen') \<Rightarrow>
          if batch = [] then Some (Inr sent)
          else feed_loop opts user world (i + 1) seen' (sent @ batch))"

definition feedQueue :: "RunOptions \<Rightarrow> ('c item \<Rightarrow> TaskRow \<Rightarrow> bool) \<Rightarrow> (nat \<Rightarrow> env \<times> 'c TaskDB) \<Rightarrow> ('c item list res) option" where
  "feedQueue opts user world = feed_loop opts user world 0 [] []"

section \<open>Claiming and finishing\<close>

text \<open>\<^verbatim>\<open>claim\<close>: one UPDATE guarded by the queue predicate; the answer is whether it changed a row.\<close>

definition claimed_row :: "int \<Rightarrow> TaskRow \<Rightarrow> TaskRow" where
  "claimed_row now r = r\<lparr>tr_status := Running, tr_attempts := tr_attempts r + 1, tr_started_at := Some now,
     tr_heartbeat_at := Some now, tr_error := None\<rparr>"

definition claim :: "RunOptions \<Rightarrow> env \<Rightarrow> string \<Rightarrow> 'c TaskDB \<Rightarrow> 'c TaskDB \<times> bool res" where
  "claim opts en i db =
     (case env_sql en SQL_UPDATE of
        Some m \<Rightarrow> (db, Inl (Wrap (''taskrunner: claim '' @ i) (Sql_error m)))
      | None \<Rightarrow>
          let hit = (\<lambda>r. tr_id r = i \<and> eligible opts (env_now en) r) in
          (db\<lparr>td_tasks := map (\<lambda>r. if hit r then claimed_row (env_now en) r else r) (td_tasks db)\<rparr>,
           Inr (list_ex hit (td_tasks db))))"

definition update_task :: "string \<Rightarrow> (TaskRow \<Rightarrow> TaskRow) \<Rightarrow> 'c TaskDB \<Rightarrow> 'c TaskDB" where
  "update_task i f db = db\<lparr>td_tasks := tbl_update tr_id i f (td_tasks db)\<rparr>"

text \<open>\<^verbatim>\<open>beat\<close> ignores the errors of its statement; \<open>patch\<close> is \<^verbatim>\<open>json_patch\<close> of one key.\<close>

definition beat :: "(string \<Rightarrow> string \<Rightarrow> string \<Rightarrow> string) \<Rightarrow> ('s \<Rightarrow> string res) \<Rightarrow> env \<Rightarrow> string \<Rightarrow> 's option \<Rightarrow> 'c TaskDB \<Rightarrow> 'c TaskDB" where
  "beat patch marshal en i status db =
     (case status of
        None \<Rightarrow> (if env_sql en SQL_UPDATE = None then update_task i (\<lambda>r. r\<lparr>tr_heartbeat_at := Some (env_now en)\<rparr>) db else db)
      | Some s \<Rightarrow>
          (case marshal s of
             Inl _ \<Rightarrow> db
           | Inr buf \<Rightarrow>
               if env_sql en SQL_UPDATE = None
               then update_task i (\<lambda>r. r\<lparr>tr_heartbeat_at := Some (env_now en), tr_meta := patch (tr_meta r) ''status'' buf\<rparr>) db
               else db))"

text \<open>
  \<^verbatim>\<open>heartbeatLoop\<close>: one beat per tick of the ticker until the context is done; the ticks are given by what each of them meets. A task that
  reports its status is asked at every tick, and a report that fails counts as none.
\<close>

definition heartbeat_interval :: "int \<Rightarrow> int" where
  "heartbeat_interval every = (if every \<le> 0 then 5 * second else every)"

fun heartbeatLoop :: "(string \<Rightarrow> string \<Rightarrow> string \<Rightarrow> string) \<Rightarrow> ('s \<Rightarrow> string res) \<Rightarrow> (env \<Rightarrow> 's res) option \<Rightarrow> string \<Rightarrow> env list \<Rightarrow> 'c TaskDB \<Rightarrow> 'c TaskDB" where
  "heartbeatLoop patch marshal reporter i [] db = db"
| "heartbeatLoop patch marshal reporter i (en # ticks) db =
     (let status = (case reporter of None \<Rightarrow> None | Some rep \<Rightarrow> (case rep en of Inr s \<Rightarrow> Some s | Inl _ \<Rightarrow> None))
      in heartbeatLoop patch marshal reporter i ticks (beat patch marshal en i status db))"

text \<open>What a task ended with: an error, or a result that may be nil.\<close>

type_synonym 'r outcome = "err + 'r option"

definition failed_row :: "int \<Rightarrow> string \<Rightarrow> TaskRow \<Rightarrow> TaskRow" where
  "failed_row now msg r = r\<lparr>tr_status := Failed, tr_ended_at := Some now, tr_heartbeat_at := Some now, tr_error := Some msg\<rparr>"

definition done_row :: "(string \<Rightarrow> string \<Rightarrow> string \<Rightarrow> string) \<Rightarrow> int \<Rightarrow> string \<Rightarrow> TaskRow \<Rightarrow> TaskRow" where
  "done_row patch now resultJSON r = r\<lparr>tr_status := Done, tr_ended_at := Some now, tr_heartbeat_at := Some now, tr_error := None,
     tr_meta := (if resultJSON = '''' then tr_meta r else patch (tr_meta r) ''result'' resultJSON)\<rparr>"

definition writeTerminal :: "(string \<Rightarrow> string \<Rightarrow> string \<Rightarrow> string) \<Rightarrow> ('r \<Rightarrow> string res) \<Rightarrow> env \<Rightarrow> string \<Rightarrow> 'r outcome \<Rightarrow> 'c TaskDB \<Rightarrow>
    'c TaskDB \<times> unit res" where
  "writeTerminal patch marshal en i outcome db =
     (let failed = (\<lambda>e. case env_sql en SQL_UPDATE of
              Some m \<Rightarrow> (db, Inl (Wrap (''taskrunner: terminal-failed '' @ i) (Sql_error m)))
            | None \<Rightarrow> (update_task i (failed_row (env_now en) (err_str e)) db, Inr ()));
          success = (\<lambda>json. case env_sql en SQL_UPDATE of
              Some m \<Rightarrow> (db, Inl (Wrap (''taskrunner: terminal-done '' @ i) (Sql_error m)))
            | None \<Rightarrow> (update_task i (done_row patch (env_now en) json) db, Inr ()))
      in case outcome of
           Inl e \<Rightarrow> failed e
         | Inr None \<Rightarrow> success ''''
         | Inr (Some r) \<Rightarrow>
             (case marshal r of
                Inl e \<Rightarrow> failed (Wrap ''marshal result'' e)
              | Inr json \<Rightarrow> success json))"

text \<open>
  \<^verbatim>\<open>processRow\<close> for a worker that is not interrupted: \<open>decode\<close> is \<^const>\<open>hydrate\<close> on the row of the item, \<open>run\<close> is
  what the task does to the world \<open>x\<close>, and the environments are those of the claim and of the terminal write.
\<close>

definition processRow :: "RunOptions \<Rightarrow> (string \<Rightarrow> string \<Rightarrow> string \<Rightarrow> string) \<Rightarrow> ('r \<Rightarrow> string res) \<Rightarrow> ('c item \<Rightarrow> 't res) \<Rightarrow>
    ('t \<Rightarrow> 'x \<Rightarrow> 'x \<times> 'r outcome) \<Rightarrow> env \<Rightarrow> env \<Rightarrow> 'c item \<Rightarrow> 'c TaskDB \<times> 'x \<Rightarrow> ('c TaskDB \<times> 'x) \<times> unit res" where
  "processRow opts patch marshal decode run en1 en2 it st =
     (case st of (db, x) \<Rightarrow>
      if it_id it = '''' then (st, Inl (Error_string ''taskrunner: row missing id''))
      else (case claim opts en1 (it_id it) db of
              (db1, Inl e) \<Rightarrow> ((db1, x), Inl e)
            | (db1, Inr False) \<Rightarrow> ((db1, x), Inr ())
            | (db1, Inr True) \<Rightarrow>
                (case (case decode it of Inl e \<Rightarrow> (x, Inl (Wrap ''decode'' e)) | Inr task \<Rightarrow> run task x) of
                   (x', outcome) \<Rightarrow>
                     (case writeTerminal patch marshal en2 (it_id it) outcome db1 of (db2, r) \<Rightarrow> ((db2, x'), r)))))"

section \<open>Summary and archiving\<close>

record Summary =
  sm_pending :: int
  sm_running :: int
  sm_done :: int
  sm_failed :: int

definition count_status :: "TaskStatus \<Rightarrow> TaskRow list \<Rightarrow> int" where
  "count_status st rows = int (length (filter (\<lambda>r. tr_status r = st) rows))"

definition captureSummary :: "sql_faults \<Rightarrow> 'c TaskDB \<Rightarrow> Summary res" where
  "captureSummary sql db =
     (case sql SQL_SELECT of
        Some m \<Rightarrow> Inl (Wrap ''taskrunner: capture summary'' (Sql_error m))
      | None \<Rightarrow> Inr \<lparr>sm_pending = count_status Pending (td_tasks db), sm_running = count_status Running (td_tasks db),
                     sm_done = count_status Done (td_tasks db), sm_failed = count_status Failed (td_tasks db)\<rparr>)"

definition queueDrained :: "sql_faults \<Rightarrow> 'c TaskDB \<Rightarrow> bool res" where
  "queueDrained sql db =
     (case sql SQL_SELECT of
        Some m \<Rightarrow> Inl (Wrap ''taskrunner: probe drain'' (Sql_error m))
      | None \<Rightarrow> Inr (filter (\<lambda>r. tr_status r \<in> {Pending, Running, Failed}) (td_tasks db) = []))"

text \<open>\<open>stamp\<close> is the formatted UTC time that names the archive.\<close>

definition archiveDestPath :: "fpath \<Rightarrow> string \<Rightarrow> fpath" where
  "archiveDestPath src stamp = filepath_Dir src @ [stamp @ ''-'' @ filepath_Base src]"

definition sidecar :: "fpath \<Rightarrow> string \<Rightarrow> fpath" where
  "sidecar src ext = filepath_Dir src @ [filepath_Base src @ ext]"

text \<open>The new file system, and the path of the archive when this process moved the file.\<close>

definition archiveIfDrained :: "RunOptions \<Rightarrow> sql_faults \<Rightarrow> string \<Rightarrow> 'c TaskDB \<Rightarrow> fs \<Rightarrow> fs \<times> fpath option res" where
  "archiveIfDrained opts sql stamp db f =
     (if ro_keep_db opts then (f, Inr None)
      else if ro_db_path opts = [] then (f, Inr None)
      else (case queueDrained sql db of
              Inl e \<Rightarrow> (f, Inl e)
            | Inr False \<Rightarrow> (f, Inr None)
            | Inr True \<Rightarrow>
           (case sql SQL_UPDATE of
              Some m \<Rightarrow> (f, Inl (Wrap ''taskrunner: wal_checkpoint before archive'' (Sql_error m)))
            | None \<Rightarrow>
                let src = ro_db_path opts; dst = archiveDestPath src stamp in
                (case os_Rename src dst f of
                   (f1, Inl e) \<Rightarrow>
                     if is_not_exist e then (f1, Inr None)
                     else (f1, Inl (Wrap (''taskrunner: archive rename '' @ abs_path_str src @ '' -> '' @ abs_path_str dst) e))
                 | (f1, Inr _) \<Rightarrow>
                     (fst (os_Remove (sidecar src ''-shm'') (fst (os_Remove (sidecar src ''-wal'') f1))), Inr (Some dst))))))"

section \<open>A run\<close>

definition ErrSetup :: string where "ErrSetup = ''taskrunner: setup failed''"

definition ErrFailedRemain :: string where "ErrFailedRemain = ''taskrunner: failed row(s) remain''"

text \<open>
  \<^verbatim>\<open>New\<close>: the factory is absent, or fails to hydrate, or gives a sample whose type the items are inferred from.
  \<open>file\<close> is the content of the database file, if there is one; an empty path is a database in memory.
\<close>

definition setup_error :: "string \<Rightarrow> err" where
  "setup_error msg = Detail (Sentinel ErrSetup) msg"

definition New :: "sql_faults \<Rightarrow> int \<Rightarrow> gotype option res option \<Rightarrow> RunOptions \<Rightarrow> 'c TaskDB option \<Rightarrow> fs \<Rightarrow> fs \<times> ('c TaskDB \<times> itemSchema) res" where
  "New sql now factory opts file f =
     (case factory of
        None \<Rightarrow> (f, Inl (setup_error ''Config.Factory is required''))
      | Some (Inl e) \<Rightarrow> (f, Inl (setup_error (''factory.Hydrate probe: '' @ err_str e)))
      | Some (Inr sample) \<Rightarrow>
     (case inferItemSchema sample of
        Inl e \<Rightarrow> (f, Inl (setup_error (err_str e)))
      | Inr schema \<Rightarrow>
     (case (if ro_db_path opts = [] then (f, Inr ()) else open_create now (ro_db_path opts) f) of
        (f', Inl e) \<Rightarrow> (f', Inl (setup_error (''taskrunner: ensure schema: '' @ err_str e)))
      | (f', Inr _) \<Rightarrow>
     (case ensureTasksTable sql file of
        Inl e \<Rightarrow> (f', Inl (setup_error (err_str e)))
      | Inr db \<Rightarrow> (f', Inr (db, schema))))))"

text \<open>
  \<^verbatim>\<open>Execute\<close>: \<open>plan\<close> is \<^const>\<open>runPlan\<close> on the factory, \<open>drain\<close> what the worker pool did to the tables, the file
  system and the world \<open>x\<close> its tasks work on, and the first error it met. \<open>sql\<close> are the failures of the
  probe, the summary and the archive.
\<close>

record Outcome =
  oc_summary :: "Summary option"
  oc_archived :: "fpath option"
  oc_error :: "err option"

definition stopped :: "err option \<Rightarrow> Outcome" where
  "stopped e = \<lparr>oc_summary = None, oc_archived = None, oc_error = e\<rparr>"

definition Execute :: "RunOptions \<Rightarrow> int \<Rightarrow> ('x \<Rightarrow> 'c TaskDB \<Rightarrow> 'c TaskDB \<times> unit res) \<Rightarrow>
    (RunOptions \<Rightarrow> 'c TaskDB \<times> fs \<times> 'x \<Rightarrow> ('c TaskDB \<times> fs \<times> 'x) \<times> err option) \<Rightarrow> sql_faults \<Rightarrow> string \<Rightarrow>
    'c TaskDB \<times> fs \<times> 'x \<Rightarrow> ('c TaskDB \<times> fs \<times> 'x) \<times> Outcome" where
  "Execute opts0 numCPU plan drain sql stamp st =
     (let opts = withDefaults numCPU opts0 in
      case st of (db, f, x) \<Rightarrow>
      (case itemsEmpty sql db of
        Inl e \<Rightarrow> (st, stopped (Some e))
      | Inr unplanned \<Rightarrow>
     (case (if unplanned then plan x db else (db, Inr ())) of
        (db1, Inl e) \<Rightarrow> ((db1, f, x), stopped (Some e))
      | (db1, Inr _) \<Rightarrow>
          if ro_dry opts then ((db1, f, x), stopped None)
          else (case drain opts (db1, f, x) of
                  (st2, Some e) \<Rightarrow> (st2, stopped (Some e))
                | ((db2, f2, x2), None) \<Rightarrow>
               (case captureSummary sql db2 of
                  Inl e \<Rightarrow> ((db2, f2, x2), stopped (Some e))
                | Inr s \<Rightarrow>
                    (case archiveIfDrained opts sql stamp db2 f2 of
                       (f3, Inl e) \<Rightarrow> ((db2, f3, x2), \<lparr>oc_summary = Some s, oc_archived = None, oc_error = Some e\<rparr>)
                     | (f3, Inr dst) \<Rightarrow> ((db2, f3, x2), \<lparr>oc_summary = Some s, oc_archived = dst, oc_error = None\<rparr>)))))))"

text \<open>\<^verbatim>\<open>Run\<close> on the file system and the world; the database it leaves is the first component of the answer.\<close>

definition Run :: "sql_faults \<Rightarrow> int \<Rightarrow> gotype option res option \<Rightarrow> RunOptions \<Rightarrow> int \<Rightarrow> (itemSchema \<Rightarrow> 'x \<Rightarrow> 'c TaskDB \<Rightarrow> 'c TaskDB \<times> unit res) \<Rightarrow>
    (itemSchema \<Rightarrow> RunOptions \<Rightarrow> 'c TaskDB \<times> fs \<times> 'x \<Rightarrow> ('c TaskDB \<times> fs \<times> 'x) \<times> err option) \<Rightarrow> string \<Rightarrow> 'c TaskDB option \<Rightarrow> fs \<Rightarrow> 'x \<Rightarrow>
    'c TaskDB option \<times> fs \<times> 'x \<times> Outcome" where
  "Run sql now factory opts numCPU plan drain stamp file f x =
     (case New sql now factory opts file f of
        (f1, Inl e) \<Rightarrow> (file, f1, x, stopped (Some e))
      | (f1, Inr (db, schema)) \<Rightarrow>
          (case Execute opts numCPU (plan schema) (drain schema) sql stamp (db, f1, x) of
             ((db', f', x'), oc) \<Rightarrow>
               (Some db', f', x',
                case (oc_error oc, oc_summary oc) of
                  (None, Some s) \<Rightarrow> (if 0 < sm_failed s then oc\<lparr>oc_error := Some (Sentinel ErrFailedRemain)\<rparr> else oc)
                | _ \<Rightarrow> oc)))"

text \<open>The status \<^verbatim>\<open>Main\<close> and the archive command leave with.\<close>

definition exit_code :: "err option \<Rightarrow> nat" where
  "exit_code er = (case er of None \<Rightarrow> 0 | Some e \<Rightarrow> if errors_Is e ErrSetup then 2 else 1)"

section \<open>Plans\<close>

definition planned :: "'v codec \<Rightarrow> itemSchema \<Rightarrow> (gotype \<times> 'v goval) res \<Rightarrow> 'v task_row item \<Rightarrow> bool" where
  "planned co s y it \<longleftrightarrow> (\<exists>v. y = Inr (is_schema_type s, v) \<and> bind_task co s (struct_fields (is_schema_type s)) v = Inr (it_body it, it_id it))"

lemma plan_loop_ok:
  assumes "plan_loop sql tyname co s ys acc = Inr its" "distinct (map it_id acc)" "'''' \<notin> it_id ` set acc"
  shows "distinct (map it_id its) \<and> '''' \<notin> it_id ` set its \<and> (\<exists>new. its = acc @ new \<and> list_all2 (planned co s) ys new)"
  using assms
proof (induction sql tyname co s ys acc rule: plan_loop.induct)
  case (3 sql tyname co s ty v ys acc)
  from "3.prems"(1) obtain row idv where ty: "ty = is_schema_type s"
    and b: "bind_task co s (struct_fields ty) v = Inr (row, idv)" "idv \<noteq> ''''" "idv \<notin> it_id ` set acc" "sql SQL_INSERT = None"
    "plan_loop sql tyname co s ys (acc @ [\<lparr>it_id = idv, it_body = row\<rparr>]) = Inr its"
    by (auto split: sum.splits prod.splits if_splits option.splits)
  let ?it = "\<lparr>it_id = idv, it_body = row\<rparr>"
  have "distinct (map it_id (acc @ [?it]))" "'''' \<notin> it_id ` set (acc @ [?it])" using b(2,3) "3.prems"(2,3) by auto
  from "3.IH" [OF _ b(1) refl b(2,3,4,5) this] ty obtain new where
    *: "distinct (map it_id its)" "'''' \<notin> it_id ` set its" "its = (acc @ [?it]) @ new" "list_all2 (planned co s) ys new" by blast
  moreover have "planned co s (Inr (ty, v)) ?it" using b(1) ty by (simp add: planned_def)
  ultimately show ?case by (intro conjI exI [of _ "?it # new"]) simp_all
qed simp_all

lemma seed_tasks_old: "r \<in> set rows \<Longrightarrow> r \<in> set (seed_tasks its rows)"
  unfolding seed_tasks_def by (induction its arbitrary: rows) auto

lemma seed_tasks_new: "r \<in> set (seed_tasks its rows) \<Longrightarrow> r \<in> set rows \<or> (\<exists>it \<in> set its. r = new_task (it_id it))"
proof (induction its arbitrary: rows)
  case (Cons x its)
  have "seed_tasks (x # its) rows = seed_tasks its (if it_id x \<in> tr_id ` set rows then rows else rows @ [new_task (it_id x)])"
    by (simp add: seed_tasks_def)
  with Cons.IH Cons.prems have "r \<in> set (if it_id x \<in> tr_id ` set rows then rows else rows @ [new_task (it_id x)]) \<or>
    (\<exists>it \<in> set its. r = new_task (it_id it))" by metis
  then show ?case by (auto split: if_splits)
qed (simp add: seed_tasks_def)

lemma seed_tasks_all: "it \<in> set its \<Longrightarrow> it_id it \<in> tr_id ` set (seed_tasks its rows)"
proof (induction its arbitrary: rows)
  case (Cons x its)
  let ?rows = "if it_id x \<in> tr_id ` set rows then rows else rows @ [new_task (it_id x)]"
  have step: "seed_tasks (x # its) rows = seed_tasks its ?rows" by (simp add: seed_tasks_def)
  show ?case
  proof (cases "it = x")
    case True
    have "it_id x \<in> tr_id ` set ?rows" by (auto simp: new_task_def image_iff)
    moreover have "set ?rows \<subseteq> set (seed_tasks its ?rows)" using seed_tasks_old by blast
    ultimately show ?thesis unfolding step True by (meson image_mono subsetD)
  next
    case False
    with Cons show ?thesis unfolding step by simp
  qed
qed simp

lemma seed_tasks_inv: "tbl_inv tr_id rows \<Longrightarrow> tbl_inv tr_id (seed_tasks its rows)"
  unfolding seed_tasks_def by (induction its arbitrary: rows) (auto simp: tbl_inv_def new_task_def)

lemma runPlan_cases:
  assumes "itemsEmpty no_faults db = Inr True"
  shows "(\<exists>e. runPlan sql tyname co s seq db = (db, Inl e)) \<or>
    (\<exists>cols its. plan_loop sql tyname co s seq [] = Inr its \<and>
      runPlan sql tyname co s seq db = (db\<lparr>td_item_cols := cols, td_items := its, td_tasks := seed_tasks its (td_tasks db)\<rparr>, Inr ()))"
proof -
  have "td_item_cols db = 0 \<or> td_items db = []" using assms by (simp add: itemsEmpty_def)
  then show ?thesis
    by (auto simp: runPlan_def Let_def split: option.split sum.split) (intro exI [of _ "td_item_cols db"], cases db, simp)+
qed

section \<open>Claims\<close>

lemma claim_cases:
  assumes "claim opts en i db = (db', r)"
  shows "r = Inl e \<Longrightarrow> db' = db"
    "r = Inr b \<Longrightarrow> td_tasks db' = map (\<lambda>t. if tr_id t = i \<and> eligible opts (env_now en) t then claimed_row (env_now en) t else t) (td_tasks db) \<and>
       td_items db' = td_items db \<and> b = (\<exists>t \<in> set (td_tasks db). tr_id t = i \<and> eligible opts (env_now en) t)"
  using assms by (auto simp: claim_def Let_def list_ex_iff split: option.splits)

lemma claimed_row_sel [simp]:
  "tr_id (claimed_row now r) = tr_id r" "tr_status (claimed_row now r) = Running" "tr_heartbeat_at (claimed_row now r) = Some now"
  "tr_attempts (claimed_row now r) = tr_attempts r + 1"
  by (simp_all add: claimed_row_def)

lemma lookup_map_keep:
  assumes "\<And>r. key (f r) = key r"
  shows "tbl_lookup key k (map f rows) = map_option f (tbl_lookup key k rows)"
  using assms by (induction rows) (simp_all add: tbl_lookup_def)

lemma claim_lookup:
  assumes "claim opts en i db = (db', Inr b)"
  shows "tbl_lookup tr_id j (td_tasks db') =
    map_option (\<lambda>t. if j = i \<and> eligible opts (env_now en) t then claimed_row (env_now en) t else t) (tbl_lookup tr_id j (td_tasks db))"
proof -
  have "td_tasks db' = map (\<lambda>t. if tr_id t = i \<and> eligible opts (env_now en) t then claimed_row (env_now en) t else t) (td_tasks db)"
    using claim_cases(2) [OF assms] by blast
  then show ?thesis
    using lookup_map_keep [of tr_id "\<lambda>t. if tr_id t = i \<and> eligible opts (env_now en) t then claimed_row (env_now en) t else t" j "td_tasks db"]
    by (cases "tbl_lookup tr_id j (td_tasks db)") (auto dest: tbl_lookup_SomeD)
qed

lemma claim_true:
  assumes "claim opts en i db = (db', Inr b)" "tbl_inv tr_id (td_tasks db)"
  shows "b \<longleftrightarrow> (\<exists>r. tbl_lookup tr_id i (td_tasks db) = Some r \<and> eligible opts (env_now en) r)"
proof -
  have "b = (\<exists>t \<in> set (td_tasks db). tr_id t = i \<and> eligible opts (env_now en) t)" using claim_cases(2) [OF assms(1) refl] by blast
  then show ?thesis using tbl_lookup_in [OF assms(2)] tbl_lookup_SomeD [of tr_id i "td_tasks db"] by auto
qed

lemma claim_inv:
  assumes "claim opts en i db = (db', r)" "tbl_inv tr_id (td_tasks db)"
  shows "tbl_inv tr_id (td_tasks db')"
proof -
  have "map tr_id (td_tasks db') = map tr_id (td_tasks db)" using assms(1) by (auto simp: claim_def Let_def split: option.splits)
  with assms(2) show ?thesis by (simp add: tbl_inv_def)
qed

section \<open>Feeding ends\<close>

text \<open>
  How many more times a row may be sent: attempts only grow, and a row is sent again only after
  they grew.
\<close>

definition sends_left :: "nat \<Rightarrow> (string \<times> int) list \<Rightarrow> string \<Rightarrow> nat" where
  "sends_left B seen i = (case map_of seen i of None \<Rightarrow> B + 1 | Some a \<Rightarrow> nat (int B - a))"

definition potential :: "string set \<Rightarrow> nat \<Rightarrow> (string \<times> int) list \<Rightarrow> nat" where
  "potential S B seen = (\<Sum>i \<in> S. sends_left B seen i)"

lemma potential_send:
  assumes "finite S" "i \<in> S" "0 \<le> a" "a \<le> int B" "map_of seen i = None \<or> (\<exists>prev. map_of seen i = Some prev \<and> prev < a)"
  shows "potential S B (AList.update i a seen) + 1 \<le> potential S B seen"
proof -
  have "sends_left B (AList.update i a seen) i + 1 \<le> sends_left B seen i" using assms(3-5) by (auto simp: sends_left_def update_conv')
  moreover have "(\<Sum>j \<in> S - {i}. sends_left B (AList.update i a seen) j) = (\<Sum>j \<in> S - {i}. sends_left B seen j)"
    by (rule sum.cong) (auto simp: sends_left_def update_conv')
  ultimately show ?thesis using assms(1,2) by (simp add: potential_def sum.remove [of S i])
qed

lemma batch_potential:
  assumes "finite S" "\<forall>(it, a) \<in> set rows. it_id it \<in> S \<and> 0 \<le> a \<and> a \<le> int B" "batch_loop rows seen = (b, seen')"
  shows "potential S B seen' + length b \<le> potential S B seen"
  using assms(2,3)
proof (induction rows arbitrary: seen b)
  case Nil
  then show ?case by simp
next
  case (Cons row rows)
  obtain it a where row: "row = (it, a)" by fastforce
  show ?case
  proof (cases "\<exists>prev. map_of seen (it_id it) = Some prev \<and> a \<le> prev")
    case True
    with Cons.prems row have "batch_loop rows seen = (b, seen')" by auto
    with Cons.IH Cons.prems(1) show ?thesis by simp
  next
    case False
    obtain b2 where rest: "batch_loop rows (AList.update (it_id it) a seen) = (b2, seen')" "b = it # b2"
      using Cons.prems(2) row False by (auto split: option.splits prod.splits if_splits)
    have "potential S B seen' + length b2 \<le> potential S B (AList.update (it_id it) a seen)"
      using Cons.IH [OF _ rest(1)] Cons.prems(1) by simp
    moreover have "potential S B (AList.update (it_id it) a seen) + 1 \<le> potential S B seen"
      using Cons.prems(1) row False by (intro potential_send [OF assms(1)]) (auto simp: not_le)
    ultimately show ?thesis using rest(2) by simp
  qed
qed

text \<open>What bounds a run: finitely many ids, and attempts between 0 and a ceiling in every snapshot.\<close>

definition bounded_tasks :: "string set \<Rightarrow> nat \<Rightarrow> 'c TaskDB \<Rightarrow> bool" where
  "bounded_tasks S B db \<longleftrightarrow> it_id ` set (td_items db) \<subseteq> S \<and> (\<forall>r \<in> set (td_tasks db). 0 \<le> tr_attempts r \<and> tr_attempts r \<le> int B)"

lemma work_queue_mem:
  assumes "(it, a) \<in> set (work_queue opts user now db)"
  obtains r where "it \<in> set (td_items db)" "tbl_lookup tr_id (it_id it) (td_tasks db) = Some r" "a = tr_attempts r" "workQueueWhere opts user now it r"
proof -
  from assms obtain x where x: "x \<in> set (td_items db)"
    "(case tbl_lookup tr_id (it_id x) (td_tasks db) of
       Some r \<Rightarrow> if workQueueWhere opts user now x r then Some (x, tr_attempts r) else None | None \<Rightarrow> None) = Some (it, a)"
    unfolding work_queue_def set_map_filter_iff by auto
  then show ?thesis using that by (cases "tbl_lookup tr_id (it_id x) (td_tasks db)") (auto split: if_splits)
qed

lemma work_queue_bounded:
  assumes "bounded_tasks S B db"
  shows "\<forall>(it, a) \<in> set (work_queue opts user now db). it_id it \<in> S \<and> 0 \<le> a \<and> a \<le> int B"
proof clarify
  fix it a
  assume "(it, a) \<in> set (work_queue opts user now db)"
  then obtain r where "it \<in> set (td_items db)" "tbl_lookup tr_id (it_id it) (td_tasks db) = Some r" "a = tr_attempts r"
    by (rule work_queue_mem)
  with assms tbl_lookup_SomeD [of tr_id "it_id it" "td_tasks db" r] show "it_id it \<in> S \<and> 0 \<le> a \<and> a \<le> int B"
    by (auto simp: bounded_tasks_def)
qed

lemma feed_loop_ends:
  assumes "finite S" "\<forall>k. bounded_tasks S B (snd (world k))" "potential S B seen = n"
  shows "\<exists>r. feed_loop opts user world i seen sent = Some r \<and> (\<forall>out. r = Inr out \<longrightarrow> length out \<le> length sent + potential S B seen)"
  using assms(3)
proof (induction n arbitrary: i seen sent rule: less_induct)
  case (less n)
  show ?case
  proof (cases "fetchBatch opts user (fst (world i)) seen (snd (world i))")
    case (Inl e)
    then show ?thesis by (subst feed_loop.simps) simp
  next
    case (Inr bs)
    obtain b seen' where bs: "bs = (b, seen')" by fastforce
    then have "batch_loop (work_queue opts user (env_now (fst (world i))) (snd (world i))) seen = (b, seen')"
      using Inr by (auto simp: fetchBatch_def split: option.splits)
    from batch_potential [OF assms(1) _ this] work_queue_bounded assms(2)
    have pot: "potential S B seen' + length b \<le> potential S B seen" by blast
    have unfold: "feed_loop opts user world i seen sent = (if b = [] then Some (Inr sent) else feed_loop opts user world (i + 1) seen' (sent @ b))"
      by (subst feed_loop.simps) (simp add: Inr bs)
    show ?thesis
    proof (cases "b = []")
      case True
      then show ?thesis by (simp add: unfold)
    next
      case False
      then have "potential S B seen' < n" using pot less.prems by (cases b) auto
      from less.IH [OF this refl, of "i + 1" "sent @ b"] obtain r where
        "feed_loop opts user world (i + 1) seen' (sent @ b) = Some r" "\<forall>out. r = Inr out \<longrightarrow> length out \<le> length (sent @ b) + potential S B seen'" by blast
      with pot False show ?thesis by (auto simp: unfold)
    qed
  qed
qed

section \<open>Properties\<close>

text \<open>
  Planning is all or nothing. Run on an empty items table, a plan either fails and leaves the database as it was,
  or stores exactly one item per task the factory yielded, in order, with distinct ids that are not empty, keeps every
  row of the tasks table, and gives every item a row there that, when it is new, is pending with no attempts.
\<close>

theorem plan_all_or_nothing:
  assumes "itemsEmpty no_faults db = Inr True" "tbl_inv tr_id (td_tasks db)"
  shows "(\<exists>e. runPlan sql tyname co s seq db = (db, Inl e)) \<or>
    (\<exists>db'. runPlan sql tyname co s seq db = (db', Inr ()) \<and>
      list_all2 (planned co s) seq (td_items db') \<and>
      distinct (map it_id (td_items db')) \<and> '''' \<notin> it_id ` set (td_items db') \<and> tbl_inv tr_id (td_tasks db') \<and>
      set (td_tasks db) \<subseteq> set (td_tasks db') \<and> it_id ` set (td_items db') \<subseteq> tr_id ` set (td_tasks db') \<and>
      set (td_tasks db') - set (td_tasks db) \<subseteq> new_task ` it_id ` set (td_items db'))"
  using runPlan_cases [OF assms(1), of sql tyname co s seq]
proof
  assume "\<exists>cols its. plan_loop sql tyname co s seq [] = Inr its \<and>
      runPlan sql tyname co s seq db = (db\<lparr>td_item_cols := cols, td_items := its, td_tasks := seed_tasks its (td_tasks db)\<rparr>, Inr ())"
  then obtain cols its where loop: "plan_loop sql tyname co s seq [] = Inr its"
    and run: "runPlan sql tyname co s seq db = (db\<lparr>td_item_cols := cols, td_items := its, td_tasks := seed_tasks its (td_tasks db)\<rparr>, Inr ())" by blast
  from plan_loop_ok [OF loop] have
    "distinct (map it_id its)" "'''' \<notin> it_id ` set its" "list_all2 (planned co s) seq its" by auto
  moreover have "set (seed_tasks its (td_tasks db)) - set (td_tasks db) \<subseteq> new_task ` it_id ` set its" using seed_tasks_new by fastforce
  moreover have "set (td_tasks db) \<subseteq> set (seed_tasks its (td_tasks db))" using seed_tasks_old by blast
  moreover have "it_id ` set its \<subseteq> tr_id ` set (seed_tasks its (td_tasks db))" using seed_tasks_all by blast
  ultimately show ?thesis using run seed_tasks_inv [OF assms(2)] by (intro disjI2) simp
qed blast

definition ex_plan :: "(gotype \<times> string goval) res list" where
  "ex_plan = [Inr (ex_task_type, StructVal [''1'', ''p'', ''t'', ''d'', ''s'']), Inr (ex_task_type, StructVal [''2'', ''q'', ''t'', ''d'', ''s''])]"

theorem plan_all_or_nothing_witness:
  "\<exists>db'. runPlan no_faults (\<lambda>_. ''T'') ex_codec ex_schema ex_plan \<lparr>td_item_cols = 0, td_items = [], td_tasks = []\<rparr> = (db', Inr ()) \<and>
     distinct (map it_id (td_items db')) \<and> length (td_items db') = 2 \<and> it_id ` set (td_items db') \<subseteq> tr_id ` set (td_tasks db')"
proof -
  let ?db = "\<lparr>td_item_cols = 0, td_items = [], td_tasks = []\<rparr> :: string task_row TaskDB"
  have "\<not> isl (snd (runPlan no_faults (\<lambda>_. ''T'') ex_codec ex_schema ex_plan ?db))" by code_simp
  then have "\<nexists>e. runPlan no_faults (\<lambda>_. ''T'') ex_codec ex_schema ex_plan ?db = (?db, Inl e)" by auto
  moreover have "itemsEmpty no_faults ?db = Inr True" "tbl_inv tr_id (td_tasks ?db)" "length ex_plan = 2" by (simp_all add: itemsEmpty_def ex_plan_def)
  ultimately show ?thesis
    using plan_all_or_nothing [of ?db no_faults "\<lambda>_. ''T''" ex_codec ex_schema ex_plan] by (auto dest!: list_all2_lengthD)
qed

section \<open>Heartbeats\<close>

text \<open>A beat changes nothing of its row but the heartbeat and the meta data, and no other row.\<close>

definition task_core :: "TaskRow \<Rightarrow> TaskRow" where
  "task_core r = r\<lparr>tr_heartbeat_at := None, tr_meta := ''''\<rparr>"

lemma beat_core:
  "map task_core (td_tasks (beat patch marshal en i status db)) = map task_core (td_tasks db)"
  "filter (\<lambda>r. tr_id r \<noteq> i) (td_tasks (beat patch marshal en i status db)) = filter (\<lambda>r. tr_id r \<noteq> i) (td_tasks db)"
proof -
  have rows: "map task_core (tbl_update tr_id i f rows) = map task_core rows" "filter (\<lambda>r. tr_id r \<noteq> i) (tbl_update tr_id i f rows) = filter (\<lambda>r. tr_id r \<noteq> i) rows"
    if "\<And>r. task_core (f r) = task_core r \<and> tr_id (f r) = tr_id r" for f rows
    using that by (induction rows) (simp_all add: tbl_update_def)
  show "map task_core (td_tasks (beat patch marshal en i status db)) = map task_core (td_tasks db)"
    by (auto simp: beat_def update_task_def intro!: rows(1) split: option.split sum.split) (simp_all add: task_core_def)
  show "filter (\<lambda>r. tr_id r \<noteq> i) (td_tasks (beat patch marshal en i status db)) = filter (\<lambda>r. tr_id r \<noteq> i) (td_tasks db)"
    by (auto simp: beat_def update_task_def intro!: rows(2) split: option.split sum.split) (simp_all add: task_core_def)
qed

lemma heartbeatLoop_core:
  "map task_core (td_tasks (heartbeatLoop patch marshal reporter i ticks db)) = map task_core (td_tasks db)"
  "filter (\<lambda>r. tr_id r \<noteq> i) (td_tasks (heartbeatLoop patch marshal reporter i ticks db)) = filter (\<lambda>r. tr_id r \<noteq> i) (td_tasks db)"
  by (induction ticks arbitrary: db) (simp_all add: beat_core Let_def)

lemma beat_fresh:
  assumes "env_sql en = no_faults" "\<And>s. \<not> isl (marshal s)" "r \<in> set (td_tasks (beat patch marshal en i status db))" "tr_id r = i"
  shows "tr_heartbeat_at r = Some (env_now en)"
proof -
  have row: "tr_heartbeat_at r = Some (env_now en)"
    if "r \<in> set (tbl_update tr_id i f rows)" "\<And>q. tr_heartbeat_at (f q) = Some (env_now en) \<and> tr_id (f q) = tr_id q" for f rows
    using that assms(4) by (induction rows) (auto simp: tbl_update_def split: if_splits)
  show ?thesis
  proof (cases status)
    case None
    with assms(1,3) have "r \<in> set (tbl_update tr_id i (\<lambda>r. r\<lparr>tr_heartbeat_at := Some (env_now en)\<rparr>) (td_tasks db))"
      by (simp add: beat_def update_task_def)
    then show ?thesis by (rule row) simp
  next
    case (Some s)
    then obtain b where "marshal s = Inr b" using assms(2) [of s] by (cases "marshal s") auto
    with Some assms(1,3) have "r \<in> set (tbl_update tr_id i (\<lambda>r. r\<lparr>tr_heartbeat_at := Some (env_now en), tr_meta := patch (tr_meta r) ''status'' b\<rparr>) (td_tasks db))"
      by (simp add: beat_def update_task_def)
    then show ?thesis by (rule row) simp
  qed
qed

text \<open>After a loop whose statements went through, the heartbeat of the row is the time of the last tick.\<close>

lemma heartbeatLoop_fresh:
  assumes "\<forall>en \<in> set ticks. env_sql en = no_faults" "ticks \<noteq> []" "\<And>s. \<not> isl (marshal s)" "r \<in> set (td_tasks (heartbeatLoop patch marshal reporter i ticks db))" "tr_id r = i"
  shows "tr_heartbeat_at r = Some (env_now (last ticks))"
  using assms
proof (induction ticks arbitrary: db)
  case (Cons en ticks)
  show ?case
  proof (cases "ticks = []")
    case True
    have now: "env_sql en = no_faults" using Cons.prems(1) by (metis list.set_intros(1))
    have "r \<in> set (td_tasks (beat patch marshal en i (case reporter of None \<Rightarrow> None | Some rep \<Rightarrow> (case rep en of Inr s \<Rightarrow> Some s | Inl _ \<Rightarrow> None)) db))"
      using True Cons.prems(4) by (simp add: Let_def)
    from beat_fresh [OF now Cons.prems(3) this Cons.prems(5)] True show ?thesis by simp
  next
    case False
    with Cons.IH [of "beat patch marshal en i (case reporter of None \<Rightarrow> None | Some rep \<Rightarrow> (case rep en of Inr s \<Rightarrow> Some s | Inl _ \<Rightarrow> None)) db"] Cons.prems
    show ?thesis by (simp add: Let_def)
  qed
qed simp


end
