(* ===== verification/Task_Pool.thy ===== *)
theory Task_Pool
  imports Taskrunner
begin

text \<open>
  The worker pool of \<^verbatim>\<open>drain\<close> as a state machine: the feeder fetches batches and sends them through the
  bounded queue, workers take rows, claim them, heartbeat while the task runs and write its outcome,
  in any interleaving. The statements of one step share the mutex of the runner, so each step is
  atomic. With heartbeats in time no task runs twice at once and a finished task stays finished.
\<close>

section \<open>The machine\<close>

record 'c Pool =
  po_db :: "'c TaskDB"
  po_queue :: "'c item list"
  po_emit :: "'c item list"
  po_seen :: "(string \<times> int) list"
  po_feeding :: bool
  po_workers :: "string option list"
  po_now :: int

definition start_pool :: "RunOptions \<Rightarrow> int \<Rightarrow> 'c TaskDB \<Rightarrow> 'c Pool" where
  "start_pool opts now db = \<lparr>po_db = db, po_queue = [], po_emit = [], po_seen = [], po_feeding = True,
     po_workers = replicate (nat (ro_workers opts)) None, po_now = now\<rparr>"

text \<open>The rows of all running tasks have a heartbeat that is not stale at the given time.\<close>

definition in_time :: "RunOptions \<Rightarrow> int \<Rightarrow> 'c Pool \<Rightarrow> bool" where
  "in_time opts now s \<longleftrightarrow> (\<forall>i. Some i \<in> set (po_workers s) \<longrightarrow>
     (\<exists>r h. tbl_lookup tr_id i (td_tasks (po_db s)) = Some r \<and> tr_heartbeat_at r = Some h \<and> now - stale_seconds opts \<le> h))"

text \<open>\<open>ok\<close> bounds the database failures that may happen, \<open>timely\<close> says that the clock waits for heartbeats.\<close>

inductive pool_step :: "RunOptions \<Rightarrow> ('c item \<Rightarrow> TaskRow \<Rightarrow> bool) \<Rightarrow> (string \<Rightarrow> string \<Rightarrow> string \<Rightarrow> string) \<Rightarrow> ('r \<Rightarrow> string res) \<Rightarrow> (sql_faults \<Rightarrow> bool) \<Rightarrow> bool \<Rightarrow>
    'c Pool \<Rightarrow> 'c Pool \<Rightarrow> bool" for opts user patch marshal ok timely where
  pool_fetch: "po_feeding s \<Longrightarrow> po_emit s = [] \<Longrightarrow> env_now en = po_now s \<Longrightarrow> fetchBatch opts user en (po_seen s) (po_db s) = Inr (b, seen) \<Longrightarrow>
    pool_step opts user patch marshal ok timely s (s\<lparr>po_emit := b, po_seen := seen, po_feeding := b \<noteq> []\<rparr>)"
| pool_fetch_error: "po_feeding s \<Longrightarrow> po_emit s = [] \<Longrightarrow> env_now en = po_now s \<Longrightarrow> fetchBatch opts user en (po_seen s) (po_db s) = Inl e \<Longrightarrow>
    pool_step opts user patch marshal ok timely s (s\<lparr>po_feeding := False\<rparr>)"
| pool_cancel: "pool_step opts user patch marshal ok timely s (s\<lparr>po_emit := [], po_feeding := False\<rparr>)"
| pool_send: "po_emit s = it # rest \<Longrightarrow> length (po_queue s) < nat (2 * ro_workers opts) \<Longrightarrow>
    pool_step opts user patch marshal ok timely s (s\<lparr>po_emit := rest, po_queue := po_queue s @ [it]\<rparr>)"
| pool_take: "k < length (po_workers s) \<Longrightarrow> po_workers s ! k = None \<Longrightarrow> po_queue s = it # rest \<Longrightarrow> ok (env_sql en) \<Longrightarrow> env_now en = po_now s \<Longrightarrow>
    claim opts en (it_id it) (po_db s) = (db, c) \<Longrightarrow>
    pool_step opts user patch marshal ok timely s
      (s\<lparr>po_db := db, po_queue := rest, po_workers := (po_workers s)[k := if c = Inr True then Some (it_id it) else None]\<rparr>)"
| pool_beat: "k < length (po_workers s) \<Longrightarrow> po_workers s ! k = Some i \<Longrightarrow> ok (env_sql en) \<Longrightarrow> env_now en = po_now s \<Longrightarrow>
    pool_step opts user patch marshal ok timely s (s\<lparr>po_db := beat patch marshal en i status (po_db s)\<rparr>)"
| pool_finish: "k < length (po_workers s) \<Longrightarrow> po_workers s ! k = Some i \<Longrightarrow> ok (env_sql en) \<Longrightarrow> env_now en = po_now s \<Longrightarrow>
    writeTerminal patch marshal en i outcome (po_db s) = (db, r) \<Longrightarrow>
    pool_step opts user patch marshal ok timely s (s\<lparr>po_db := db, po_workers := (po_workers s)[k := None]\<rparr>)"
| pool_tick: "(timely \<longrightarrow> in_time opts (po_now s + 1) s) \<Longrightarrow> pool_step opts user patch marshal ok timely s (s\<lparr>po_now := po_now s + 1\<rparr>)"

inductive pool_reachable :: "RunOptions \<Rightarrow> ('c item \<Rightarrow> TaskRow \<Rightarrow> bool) \<Rightarrow> (string \<Rightarrow> string \<Rightarrow> string \<Rightarrow> string) \<Rightarrow> ('r \<Rightarrow> string res) \<Rightarrow> (sql_faults \<Rightarrow> bool) \<Rightarrow> bool \<Rightarrow>
    'c TaskDB \<Rightarrow> 'c Pool \<Rightarrow> bool" for opts user patch marshal ok timely db where
  pool_init: "pool_reachable opts user patch marshal ok timely db (start_pool opts now db)"
| pool_next: "pool_reachable opts user patch marshal ok timely db s \<Longrightarrow> pool_step opts user patch marshal ok timely s s' \<Longrightarrow>
    pool_reachable opts user patch marshal ok timely db s'"

section \<open>Exclusive execution\<close>

text \<open>Every busy worker owns its row: the row runs with a fresh heartbeat, and no other worker has it.\<close>

definition owns :: "RunOptions \<Rightarrow> 'c Pool \<Rightarrow> bool" where
  "owns opts s \<longleftrightarrow> tbl_inv tr_id (td_tasks (po_db s)) \<and>
     (\<forall>i. Some i \<in> set (po_workers s) \<longrightarrow>
       (\<exists>r h. tbl_lookup tr_id i (td_tasks (po_db s)) = Some r \<and> tr_status r = Running \<and> tr_heartbeat_at r = Some h \<and>
          po_now s - stale_seconds opts \<le> h)) \<and>
     (\<forall>j k i. j < length (po_workers s) \<longrightarrow> k < length (po_workers s) \<longrightarrow> po_workers s ! j = Some i \<longrightarrow> po_workers s ! k = Some i \<longrightarrow> j = k)"

lemma update_task_lookup:
  assumes "\<And>r. tr_id (f r) = tr_id r"
  shows "tbl_lookup tr_id j (td_tasks (update_task i f db)) =
    map_option (\<lambda>r. if j = i then f r else r) (tbl_lookup tr_id j (td_tasks db))"
  using assms by (cases "tbl_lookup tr_id j (td_tasks db)") (auto simp: update_task_def tbl_lookup_update split: option.splits)

lemma update_task_inv:
  assumes "\<And>r. tr_id (f r) = tr_id r" "tbl_inv tr_id (td_tasks db)"
  shows "tbl_inv tr_id (td_tasks (update_task i f db))"
  using tbl_inv_update [of tr_id i f "td_tasks db"] assms by (simp add: update_task_def)

text \<open>A heartbeat and a terminal write change one row, and keep its id.\<close>

lemma beat_update:
  "\<exists>f. (\<forall>r. tr_id (f r) = tr_id r \<and> tr_status (f r) = tr_status r \<and> tr_attempts (f r) = tr_attempts r \<and>
        (tr_heartbeat_at (f r) = tr_heartbeat_at r \<or> tr_heartbeat_at (f r) = Some (env_now en))) \<and>
     beat patch marshal en i status db = update_task i f db"
proof -
  have keep: "update_task i (\<lambda>r. r) db = db" by (simp add: update_task_def tbl_update_def)
  have "beat patch marshal en i status db = db \<or>
    beat patch marshal en i status db = update_task i (\<lambda>r. r\<lparr>tr_heartbeat_at := Some (env_now en)\<rparr>) db \<or>
    (\<exists>buf. beat patch marshal en i status db = update_task i (\<lambda>r. r\<lparr>tr_heartbeat_at := Some (env_now en), tr_meta := patch (tr_meta r) ''status'' buf\<rparr>) db)"
    by (auto simp: beat_def split: option.split sum.split)
  then consider "beat patch marshal en i status db = db"
    | "beat patch marshal en i status db = update_task i (\<lambda>r. r\<lparr>tr_heartbeat_at := Some (env_now en)\<rparr>) db"
    | buf where "beat patch marshal en i status db = update_task i (\<lambda>r. r\<lparr>tr_heartbeat_at := Some (env_now en), tr_meta := patch (tr_meta r) ''status'' buf\<rparr>) db"
    by blast
  then show ?thesis
  proof cases
    case 1
    with keep show ?thesis by (intro exI [of _ "\<lambda>r. r"]) simp
  next
    case 2
    then show ?thesis by (intro exI [of _ "\<lambda>r. r\<lparr>tr_heartbeat_at := Some (env_now en)\<rparr>"]) simp
  next
    case 3
    then show ?thesis by (intro exI [of _ "\<lambda>r. r\<lparr>tr_heartbeat_at := Some (env_now en), tr_meta := patch (tr_meta r) ''status'' buf\<rparr>"]) simp
  qed
qed

lemma terminal_update:
  assumes "writeTerminal patch marshal en i outcome db = (db', res)"
  shows "db' = db \<and> env_sql en SQL_UPDATE \<noteq> None \<or>
    (\<exists>f. (\<forall>r. tr_id (f r) = tr_id r \<and> tr_status (f r) \<in> {Done, Failed} \<and> tr_attempts (f r) = tr_attempts r) \<and> db' = update_task i f db)"
proof (cases "env_sql en SQL_UPDATE")
  case (Some m)
  with assms show ?thesis by (auto simp: writeTerminal_def Let_def split: sum.splits option.splits)
next
  case None
  with assms consider msg where "db' = update_task i (failed_row (env_now en) msg) db" | json where "db' = update_task i (done_row patch (env_now en) json) db"
    by (auto simp: writeTerminal_def Let_def split: sum.splits option.splits)
  then show ?thesis
  proof cases
    case 1
    then show ?thesis by (intro disjI2 exI [of _ "failed_row (env_now en) msg"]) (simp add: failed_row_def)
  next
    case 2
    then show ?thesis by (intro disjI2 exI [of _ "done_row patch (env_now en) json"]) (simp add: done_row_def)
  qed
qed

lemma owns_unique:
  "owns opts s \<Longrightarrow> a < length (po_workers s) \<Longrightarrow> b < length (po_workers s) \<Longrightarrow> po_workers s ! a = Some i \<Longrightarrow> po_workers s ! b = Some i \<Longrightarrow> a = b"
  by (auto simp: owns_def)

lemma owned_not_eligible:
  assumes "owns opts s" "Some i \<in> set (po_workers s)" "tbl_lookup tr_id i (td_tasks (po_db s)) = Some r"
  shows "\<not> eligible opts (po_now s) r"
  using assms by (auto simp: owns_def eligible_def)

lemma owns_take:
  assumes "owns opts s" "k < length (po_workers s)" "po_workers s ! k = None" "0 \<le> stale_seconds opts" "env_now en = po_now s"
    and "claim opts en i (po_db s) = (db, c)"
  shows "owns opts (s\<lparr>po_db := db, po_queue := q, po_workers := (po_workers s)[k := if c = Inr True then Some i else None]\<rparr>)"
proof (cases "c = Inr True")
  case False
  then have ws: "(po_workers s)[k := None] = po_workers s" using assms(3) by (metis list_update_id)
  have "tbl_lookup tr_id j (td_tasks db) = tbl_lookup tr_id j (td_tasks (po_db s))" for j
  proof (cases c)
    case (Inl e)
    with assms(6) claim_cases(1) show ?thesis by metis
  next
    case (Inr b)
    with False have "\<not> b" by simp
    with assms(1,5,6) Inr claim_true [of opts en i "po_db s" db b] claim_lookup [of opts en i "po_db s" db b j]
    show ?thesis by (cases "tbl_lookup tr_id j (td_tasks (po_db s))") (auto simp: owns_def)
  qed
  with assms(1) ws False claim_inv [OF assms(6)] show ?thesis by (simp add: owns_def)
next
  case True
  have look: "tbl_lookup tr_id j (td_tasks db) =
      map_option (\<lambda>t. if j = i \<and> eligible opts (po_now s) t then claimed_row (po_now s) t else t) (tbl_lookup tr_id j (td_tasks (po_db s)))" for j
    using claim_lookup [of opts en i "po_db s" db True j] assms(6) True unfolding assms(5) by simp
  obtain r where r: "tbl_lookup tr_id i (td_tasks (po_db s)) = Some r" "eligible opts (po_now s) r"
    using claim_true [of opts en i "po_db s" db True] assms(1,5,6) True by (auto simp: owns_def)
  have free: "Some i \<notin> set (po_workers s)" using owned_not_eligible [OF assms(1)] r by blast
  have inv: "tbl_inv tr_id (td_tasks db)" using claim_inv [OF assms(6)] assms(1) by (simp add: owns_def)
  let ?ws = "(po_workers s)[k := Some i]"
  have "\<exists>r h. tbl_lookup tr_id j (td_tasks db) = Some r \<and> tr_status r = Running \<and> tr_heartbeat_at r = Some h \<and> po_now s - stale_seconds opts \<le> h"
    if "Some j \<in> set ?ws" for j
  proof (cases "j = i")
    case True
    with look r assms(4) show ?thesis by auto
  next
    case False
    then have "Some j \<in> set (po_workers s)" using that set_update_subset_insert [of "po_workers s" k "Some i"] by auto
    with assms(1) have "\<exists>r h. tbl_lookup tr_id j (td_tasks (po_db s)) = Some r \<and> tr_status r = Running \<and> tr_heartbeat_at r = Some h \<and>
      po_now s - stale_seconds opts \<le> h" by (simp add: owns_def)
    with look [of j] False show ?thesis by auto
  qed
  moreover have "a = b" if "a < length ?ws" "b < length ?ws" "?ws ! a = Some j" "?ws ! b = Some j" for a b j
  proof (cases "j = i")
    case True
    with that free have "a = k" "b = k" by (metis length_list_update nth_list_update_neq nth_mem)+
    then show ?thesis by simp
  next
    case False
    with that assms(1,2) show ?thesis by (auto simp: owns_def nth_list_update split: if_splits)
  qed
  ultimately show ?thesis using inv True by (simp add: owns_def)
qed

lemma owns_beat:
  assumes "owns opts s" "0 \<le> stale_seconds opts" "env_now en = po_now s"
  shows "owns opts (s\<lparr>po_db := beat patch marshal en i status (po_db s)\<rparr>)"
proof -
  from beat_update [of en patch marshal i status "po_db s"] obtain f where
    f: "\<And>r. tr_id (f r) = tr_id r" "\<And>r. tr_status (f r) = tr_status r"
      "\<And>r. tr_heartbeat_at (f r) = tr_heartbeat_at r \<or> tr_heartbeat_at (f r) = Some (env_now en)"
    and db: "beat patch marshal en i status (po_db s) = update_task i f (po_db s)" by blast
  have "\<exists>r h. tbl_lookup tr_id j (td_tasks (update_task i f (po_db s))) = Some r \<and> tr_status r = Running \<and> tr_heartbeat_at r = Some h \<and>
      po_now s - stale_seconds opts \<le> h" if "Some j \<in> set (po_workers s)" for j
  proof -
    from assms(1) that obtain r h where "tbl_lookup tr_id j (td_tasks (po_db s)) = Some r" "tr_status r = Running" "tr_heartbeat_at r = Some h"
      "po_now s - stale_seconds opts \<le> h" by (auto simp: owns_def)
    then show ?thesis using f(2) [of r] f(3) [of r] assms(2,3) by (auto simp: update_task_lookup [OF f(1)])
  qed
  with assms(1) update_task_inv [of f "po_db s" i, OF f(1)] show ?thesis unfolding db by (simp add: owns_def)
qed

lemma owns_finish:
  assumes "owns opts s" "k < length (po_workers s)" "po_workers s ! k = Some i" "writeTerminal patch marshal en i outcome (po_db s) = (db, res)"
  shows "owns opts (s\<lparr>po_db := db, po_workers := (po_workers s)[k := None]\<rparr>)"
proof -
  let ?ws = "(po_workers s)[k := None]"
  have gone: "Some j \<in> set (po_workers s) \<and> j \<noteq> i" if "Some j \<in> set ?ws" for j
  proof -
    from that obtain a where a: "a < length (po_workers s)" "?ws ! a = Some j" by (metis in_set_conv_nth length_list_update)
    then have "a \<noteq> k" "po_workers s ! a = Some j" using assms(2) by (auto simp: nth_list_update split: if_splits)
    with a(1) assms(2,3) owns_unique [OF assms(1)] show ?thesis by (metis nth_mem)
  qed
  have "tbl_inv tr_id (td_tasks db) \<and> (\<forall>j. j \<noteq> i \<longrightarrow> tbl_lookup tr_id j (td_tasks db) = tbl_lookup tr_id j (td_tasks (po_db s)))"
    using terminal_update [OF assms(4)]
  proof
    assume "\<exists>f. (\<forall>r. tr_id (f r) = tr_id r \<and> tr_status (f r) \<in> {Done, Failed} \<and> tr_attempts (f r) = tr_attempts r) \<and> db = update_task i f (po_db s)"
    then obtain f where f: "\<And>r. tr_id (f r) = tr_id r" "db = update_task i f (po_db s)" by blast
    have "tbl_lookup tr_id j (td_tasks db) = tbl_lookup tr_id j (td_tasks (po_db s))" if "j \<noteq> i" for j
      using update_task_lookup [OF f(1), of j i "po_db s"] that f(2) by (cases "tbl_lookup tr_id j (td_tasks (po_db s))") simp_all
    moreover have "tbl_inv tr_id (td_tasks db)" using update_task_inv [OF f(1)] assms(1) unfolding f(2) owns_def by blast
    ultimately show ?thesis by blast
  qed (use assms(1) in \<open>simp add: owns_def\<close>)
  moreover have "a = b" if "a < length ?ws" "b < length ?ws" "?ws ! a = Some j" "?ws ! b = Some j" for a b j
    using that assms(1,2) by (auto simp: owns_def nth_list_update split: if_splits)
  ultimately show ?thesis using gone assms(1) by (auto simp: owns_def)
qed

lemma pool_step_owns:
  assumes "pool_step opts user patch marshal ok True s s'" "owns opts s" "0 \<le> stale_seconds opts"
  shows "owns opts s'"
  using assms(1)
proof cases
  case (pool_take k it rest en db c)
  with owns_take [OF assms(2) pool_take(2,3) assms(3) pool_take(6,7)] show ?thesis by simp
next
  case (pool_beat k i en status)
  with owns_beat [OF assms(2,3)] show ?thesis by simp
next
  case (pool_finish k i en outcome db r)
  with owns_finish [OF assms(2) pool_finish(2,3,6)] show ?thesis by simp
next
  case pool_tick
  then show ?thesis using assms(2) by (auto simp: owns_def in_time_def) fastforce
qed (use assms(2) in \<open>simp_all add: owns_def\<close>)

lemma pool_reachable_owns:
  assumes "pool_reachable opts user patch marshal ok True db s" "tbl_inv tr_id (td_tasks db)" "0 \<le> stale_seconds opts"
  shows "owns opts s"
  using assms
proof (induction rule: pool_reachable.induct)
  case (pool_init now)
  then show ?case by (auto simp: owns_def start_pool_def)
next
  case (pool_next s s')
  then show ?case using pool_step_owns by blast
qed

section \<open>Attempts\<close>

text \<open>Without database failures a row runs only while a worker has it, and attempts respect the ceiling.\<close>

definition tried :: "RunOptions \<Rightarrow> 'c Pool \<Rightarrow> bool" where
  "tried opts s \<longleftrightarrow> (\<forall>i r. tbl_lookup tr_id i (td_tasks (po_db s)) = Some r \<longrightarrow>
     0 \<le> tr_attempts r \<and> tr_attempts r \<le> ro_max_attempts opts \<and> (tr_status r = Pending \<longrightarrow> tr_attempts r < ro_max_attempts opts) \<and>
     (tr_status r = Running \<longrightarrow> Some i \<in> set (po_workers s)))"

lemma claim_no_fault: "env_sql en = no_faults \<Longrightarrow> claim opts en i db = (db', c) \<Longrightarrow> \<exists>b. c = Inr b"
  by (auto simp: claim_def Let_def)

lemma tried_take:
  assumes "owns opts s" "tried opts s" "k < length (po_workers s)" "po_workers s ! k = None" "env_sql en = no_faults" "env_now en = po_now s"
    and "claim opts en i (po_db s) = (db, c)"
  shows "tried opts (s\<lparr>po_db := db, po_queue := q, po_workers := (po_workers s)[k := if c = Inr True then Some i else None]\<rparr>)"
proof -
  obtain b where c: "c = Inr b" using claim_no_fault [OF assms(5,7)] by blast
  let ?ws = "(po_workers s)[k := if c = Inr True then Some i else None]"
  have keep: "Some j \<in> set ?ws" if "Some j \<in> set (po_workers s)" for j
    using that assms(3,4) by (metis in_set_conv_nth length_list_update nth_list_update_neq option.distinct(1))
  have "0 \<le> tr_attempts r' \<and> tr_attempts r' \<le> ro_max_attempts opts \<and> (tr_status r' = Pending \<longrightarrow> tr_attempts r' < ro_max_attempts opts) \<and>
     (tr_status r' = Running \<longrightarrow> Some j \<in> set ?ws)" if look: "tbl_lookup tr_id j (td_tasks db) = Some r'" for j r'
  proof -
    from look claim_lookup [of opts en i "po_db s" db b j] assms(7) c obtain r where
      r: "tbl_lookup tr_id j (td_tasks (po_db s)) = Some r" "r' = (if j = i \<and> eligible opts (env_now en) r then claimed_row (env_now en) r else r)" by auto
    note old = assms(2) [unfolded tried_def, rule_format, OF r(1)]
    show ?thesis
    proof (cases "j = i \<and> eligible opts (env_now en) r")
      case True
      have "b" using claim_true [of opts en i "po_db s" db b] assms(1,7) c True r(1) by (auto simp: owns_def)
      then have "Some j \<in> set ?ws" using True c assms(3) by (simp add: set_update_memI)
      moreover have "tr_status r \<noteq> Running"
        using True old owned_not_eligible [OF assms(1) _ r(1)] assms(6) by auto
      then have "tr_attempts r < ro_max_attempts opts" using True old by (auto simp: eligible_def split: TaskStatus.splits)
      ultimately show ?thesis using True r(2) old by simp
    next
      case False
      with r(2) have "r' = r" by simp
      with old keep show ?thesis by blast
    qed
  qed
  then show ?thesis by (simp add: tried_def)
qed

lemma tried_beat:
  assumes "tried opts s"
  shows "tried opts (s\<lparr>po_db := beat patch marshal en i status (po_db s)\<rparr>)"
proof -
  from beat_update [of en patch marshal i status "po_db s"] obtain f where
    f: "\<And>r. tr_id (f r) = tr_id r" "\<And>r. tr_status (f r) = tr_status r" "\<And>r. tr_attempts (f r) = tr_attempts r"
    and db: "beat patch marshal en i status (po_db s) = update_task i f (po_db s)" by blast
  from assms show ?thesis unfolding db tried_def by (auto simp: update_task_lookup [OF f(1)] f(2,3) split: if_splits)
qed

lemma tried_finish:
  assumes "owns opts s" "tried opts s" "k < length (po_workers s)" "po_workers s ! k = Some i" "env_sql en = no_faults"
    and "writeTerminal patch marshal en i outcome (po_db s) = (db, res)"
  shows "tried opts (s\<lparr>po_db := db, po_workers := (po_workers s)[k := None]\<rparr>)"
proof -
  from terminal_update [OF assms(6)] assms(5) obtain f where
    f: "\<And>r. tr_id (f r) = tr_id r" "\<And>r. tr_status (f r) \<in> {Done, Failed}" "\<And>r. tr_attempts (f r) = tr_attempts r" and db: "db = update_task i f (po_db s)"
    by auto
  have keep: "Some j \<in> set ((po_workers s)[k := None])" if "Some j \<in> set (po_workers s)" "j \<noteq> i" for j
    using that assms(3,4) by (metis in_set_conv_nth length_list_update nth_list_update_neq option.inject)
  have fin: "tr_status (f r) \<noteq> Pending \<and> tr_status (f r) \<noteq> Running" for r using f(2) [of r] by auto
  show ?thesis unfolding db tried_def
  proof (intro allI impI)
    fix j r'
    assume "tbl_lookup tr_id j (td_tasks (po_db (s\<lparr>po_db := update_task i f (po_db s), po_workers := (po_workers s)[k := None]\<rparr>))) = Some r'"
    then obtain r where r: "tbl_lookup tr_id j (td_tasks (po_db s)) = Some r" "r' = (if j = i then f r else r)" by (auto simp: update_task_lookup [OF f(1)])
    note old = assms(2) [unfolded tried_def, rule_format, OF r(1)]
    show "0 \<le> tr_attempts r' \<and> tr_attempts r' \<le> ro_max_attempts opts \<and> (tr_status r' = Pending \<longrightarrow> tr_attempts r' < ro_max_attempts opts) \<and>
      (tr_status r' = Running \<longrightarrow> Some j \<in> set (po_workers (s\<lparr>po_db := update_task i f (po_db s), po_workers := (po_workers s)[k := None]\<rparr>)))"
      using old r(2) fin [of r] f(3) [of r] keep [of j] by (cases "j = i") simp_all
  qed
qed

lemma pool_step_tried:
  assumes "pool_step opts user patch marshal (\<lambda>sql. sql = no_faults) True s s'" "owns opts s" "tried opts s"
  shows "tried opts s'"
  using assms(1)
proof cases
  case (pool_take k it rest en db c)
  with tried_take [OF assms(2,3) pool_take(2,3,5,6,7)] show ?thesis by simp
next
  case (pool_beat k i en status)
  with tried_beat [OF assms(3)] show ?thesis by simp
next
  case (pool_finish k i en outcome db r)
  with tried_finish [OF assms(2,3) pool_finish(2,3,4,6)] show ?thesis by simp
qed (use assms(3) in \<open>simp_all add: tried_def\<close>)

definition fresh_plan :: "'c TaskDB \<Rightarrow> bool" where
  "fresh_plan db \<longleftrightarrow> tbl_inv tr_id (td_tasks db) \<and> (\<forall>r \<in> set (td_tasks db). tr_status r = Pending \<and> tr_attempts r = 0)"

lemma pool_reachable_tried:
  assumes "pool_reachable opts user patch marshal (\<lambda>sql. sql = no_faults) True db s" "fresh_plan db" "0 \<le> stale_seconds opts" "0 < ro_max_attempts opts"
  shows "owns opts s \<and> tried opts s"
  using assms(1)
proof (induction rule: pool_reachable.induct)
  case (pool_init now)
  have "owns opts (start_pool opts now db)" using assms(2) by (auto simp: owns_def start_pool_def fresh_plan_def)
  moreover have "tried opts (start_pool opts now db)"
    using assms(2,4) by (auto simp: tried_def start_pool_def fresh_plan_def dest: tbl_lookup_SomeD)
  ultimately show ?case ..
next
  case (pool_next s s')
  then show ?case using pool_step_owns [OF _ _ assms(3)] pool_step_tried by blast
qed

lemma done_kept:
  assumes "pool_step opts user patch marshal ok True s s'" "owns opts s"
    and "tbl_lookup tr_id i (td_tasks (po_db s)) = Some r" "tr_status r = Done"
  shows "tbl_lookup tr_id i (td_tasks (po_db s')) = Some r"
  using assms(1)
proof cases
  case (pool_take k it rest en db c)
  have "\<not> eligible opts (env_now en) r" using assms(4) by (simp add: eligible_def)
  then have "tbl_lookup tr_id i (td_tasks db) = Some r"
    using claim_cases(1) [OF pool_take(7)] claim_lookup [of opts en "it_id it" "po_db s" db] pool_take(7) assms(3) by (cases c) auto
  with pool_take(1) show ?thesis by simp
next
  case (pool_beat k j en status)
  have "j \<noteq> i" using pool_beat(2,3) assms(2-4) by (auto simp: owns_def) (metis TaskStatus.distinct(7) nth_mem option.inject)
  from beat_update [of en patch marshal j status "po_db s"] obtain f where
    f: "\<And>r. tr_id (f r) = tr_id r" and db: "beat patch marshal en j status (po_db s) = update_task j f (po_db s)" by blast
  from pool_beat(1) db update_task_lookup [OF f, of i j "po_db s"] assms(3) \<open>j \<noteq> i\<close> show ?thesis by simp
next
  case (pool_finish k j en outcome db res)
  have ji: "j \<noteq> i" using pool_finish(2,3) assms(2-4) by (auto simp: owns_def) (metis TaskStatus.distinct(7) nth_mem option.inject)
  from terminal_update [OF pool_finish(6)] show ?thesis
  proof
    assume "\<exists>f. (\<forall>r. tr_id (f r) = tr_id r \<and> tr_status (f r) \<in> {Done, Failed} \<and> tr_attempts (f r) = tr_attempts r) \<and> db = update_task j f (po_db s)"
    then obtain f where f: "\<And>r. tr_id (f r) = tr_id r" "db = update_task j f (po_db s)" by blast
    from pool_finish(1) f(2) update_task_lookup [OF f(1), of i j "po_db s"] assms(3) ji show ?thesis by simp
  qed (use pool_finish(1) assms(3) in simp)
qed (use assms(3) in simp_all)

section \<open>Properties\<close>

text \<open>
  C15: With heartbeats in time, a task never runs twice at once and a finished task stays finished. In every state the
  worker pool can reach, in any interleaving and with any database failures, no two workers have the same task, the row
  of a task in work is running and cannot be claimed again, and no further step changes a row that is done.
\<close>

theorem task_runs_exclusively:
  assumes "pool_reachable opts user patch marshal ok True db s" "tbl_inv tr_id (td_tasks db)" "0 \<le> stale_seconds opts"
  shows "(\<forall>j k i. j < length (po_workers s) \<longrightarrow> k < length (po_workers s) \<longrightarrow> po_workers s ! j = Some i \<longrightarrow> po_workers s ! k = Some i \<longrightarrow> j = k) \<and>
    (\<forall>i. Some i \<in> set (po_workers s) \<longrightarrow> (\<exists>r. tbl_lookup tr_id i (td_tasks (po_db s)) = Some r \<and> tr_status r = Running \<and> \<not> eligible opts (po_now s) r)) \<and>
    (\<forall>s' i r. pool_step opts user patch marshal ok True s s' \<longrightarrow> tbl_lookup tr_id i (td_tasks (po_db s)) = Some r \<longrightarrow> tr_status r = Done \<longrightarrow>
       tbl_lookup tr_id i (td_tasks (po_db s')) = Some r)"
proof -
  have owns: "owns opts s" by (rule pool_reachable_owns [OF assms])
  then have "\<exists>r. tbl_lookup tr_id i (td_tasks (po_db s)) = Some r \<and> tr_status r = Running \<and> \<not> eligible opts (po_now s) r"
    if "Some i \<in> set (po_workers s)" for i
    using that owned_not_eligible [OF owns that] by (auto simp: owns_def)
  with owns_unique [OF owns] done_kept [OF _ owns] show ?thesis by blast
qed

text \<open>
  C24: The retry ceiling holds. After a fresh plan and without database failures, with heartbeats in time, no row is ever
  attempted more than \<^verbatim>\<open>MaxAttempts\<close> times, whatever its tasks do.
\<close>

theorem attempts_never_exceed_ceiling:
  assumes "pool_reachable opts user patch marshal (\<lambda>sql. sql = no_faults) True db s" "fresh_plan db" "0 \<le> stale_seconds opts" "0 < ro_max_attempts opts"
    and "r \<in> set (td_tasks (po_db s))"
  shows "tr_attempts r \<le> ro_max_attempts opts"
proof -
  have "owns opts s \<and> tried opts s" by (rule pool_reachable_tried [OF assms(1-4)])
  then have inv: "tbl_inv tr_id (td_tasks (po_db s))" and t: "tried opts s" by (simp_all add: owns_def)
  have "tbl_lookup tr_id (tr_id r) (td_tasks (po_db s)) = Some r" by (rule tbl_lookup_in [OF inv assms(5)])
  with t show ?thesis by (simp add: tried_def)
qed

text \<open>
  C31: Feeding the workers ends. When the ids of the items come from a finite set and attempts stay between 0 and a
  ceiling in every snapshot a pass meets, the loop returns, however the workers change the rows between its passes,
  and it has sent at most one row per id and possible number of attempts.
\<close>

theorem feeding_terminates:
  assumes "finite S" "\<forall>k. bounded_tasks S B (snd (world k))"
  shows "\<exists>r. feedQueue opts user world = Some r \<and> (\<forall>out. r = Inr out \<longrightarrow> length out \<le> card S * (B + 1))"
proof -
  have "potential S B [] = card S * (B + 1)" by (simp add: potential_def sends_left_def)
  with feed_loop_ends [OF assms refl, of opts user 0 "[]" "[]"] show ?thesis by (simp add: feedQueue_def)
qed

definition ex_opts :: RunOptions where
  "ex_opts = withDefaults 2 \<lparr>ro_db_path = [''t.db''], ro_workers = 0, ro_where = '''', ro_max_attempts = 0, ro_stale = 0, ro_heartbeat_every = 0,
     ro_dry = False, ro_keep_db = False\<rparr>"

definition ex_tasks :: "unit TaskDB" where
  "ex_tasks = \<lparr>td_item_cols = 1, td_items = [\<lparr>it_id = ''a'', it_body = ()\<rparr>], td_tasks = [new_task ''a'']\<rparr>"

definition ex_patch :: "string \<Rightarrow> string \<Rightarrow> string \<Rightarrow> string" where
  "ex_patch meta key v = v"

text \<open>The pool after one worker has claimed the task.\<close>

definition ex_pool :: "unit Pool" where
  "ex_pool = (start_pool ex_opts 0 ex_tasks)\<lparr>po_seen := [(''a'', 0)], po_feeding := True, po_workers := [Some ''a'', None],
     po_db := fst (claim ex_opts (env_at 0) ''a'' ex_tasks)\<rparr>"

lemma ex_opts_sel: "stale_seconds ex_opts = 30" "ro_max_attempts ex_opts = 3" "ro_workers ex_opts = 2"
  by code_simp+

lemma ex_pool_reachable:
  "pool_reachable ex_opts (\<lambda>_ _. True) ex_patch (\<lambda>x::string. Inr x) (\<lambda>sql. sql = no_faults) True ex_tasks ex_pool"
proof -
  let ?R = "pool_reachable ex_opts (\<lambda>_ _. True) ex_patch (\<lambda>x::string. Inr x) (\<lambda>sql. sql = no_faults) True ex_tasks"
  let ?it = "\<lparr>it_id = ''a'', it_body = ()\<rparr>"
  let ?s0 = "start_pool ex_opts 0 ex_tasks"
  let ?s1 = "?s0\<lparr>po_emit := [?it], po_seen := [(''a'', 0)], po_feeding := True\<rparr>"
  let ?s2 = "?s1\<lparr>po_emit := [], po_queue := [?it]\<rparr>"
  have fetch: "fetchBatch ex_opts (\<lambda>_ _. True) (env_at 0) [] ex_tasks = Inr ([?it], [(''a'', 0)])" by code_simp
  have 0: "?R ?s0" by (rule pool_init)
  have 1: "?R ?s1" using pool_next [OF 0 pool_fetch [of _ "env_at 0" _ _ "[?it]" "[(''a'', 0)]"]] fetch by (simp add: start_pool_def)
  have 2: "?R ?s2" using pool_next [OF 1 pool_send [of _ ?it "[]"]] by (simp add: start_pool_def ex_opts_sel)
  have "snd (claim ex_opts (env_at 0) ''a'' ex_tasks) = Inr True" by code_simp
  then have cl: "claim ex_opts (env_at 0) ''a'' ex_tasks = (fst (claim ex_opts (env_at 0) ''a'' ex_tasks), Inr True)" by (metis prod.collapse)
  have "?R (?s2\<lparr>po_db := fst (claim ex_opts (env_at 0) ''a'' ex_tasks), po_queue := [], po_workers := (po_workers ?s2)[0 := Some ''a'']\<rparr>)"
    using pool_next [OF 2 pool_take [of 0 _ ?it "[]" _ "env_at 0" _ "fst (claim ex_opts (env_at 0) ''a'' ex_tasks)" "Inr True"]] cl
    by (simp add: start_pool_def ex_opts_sel)
  moreover have "replicate 2 None = [None :: string option, None]" by (simp add: numeral_2_eq_2)
  ultimately show ?thesis by (simp add: ex_pool_def start_pool_def ex_opts_sel)
qed

theorem task_runs_exclusively_witness:
  "\<exists>r. tbl_lookup tr_id ''a'' (td_tasks (po_db ex_pool)) = Some r \<and> tr_status r = Running \<and> \<not> eligible ex_opts (po_now ex_pool) r"
proof -
  have "tbl_inv tr_id (td_tasks ex_tasks)" "0 \<le> stale_seconds ex_opts" "Some ''a'' \<in> set (po_workers ex_pool)"
    by (simp_all add: ex_tasks_def tbl_inv_def ex_opts_sel ex_pool_def)
  with task_runs_exclusively [OF ex_pool_reachable] show ?thesis by blast
qed

theorem attempts_never_exceed_ceiling_witness:
  "td_tasks (po_db ex_pool) \<noteq> [] \<and> list_all (\<lambda>r. tr_attempts r \<le> 3) (td_tasks (po_db ex_pool))"
proof -
  have "fresh_plan ex_tasks" by (simp add: fresh_plan_def ex_tasks_def tbl_inv_def new_task_def)
  then have "\<forall>r \<in> set (td_tasks (po_db ex_pool)). tr_attempts r \<le> 3"
    using attempts_never_exceed_ceiling [OF ex_pool_reachable] by (auto simp: ex_opts_sel)
  moreover have "td_tasks (po_db ex_pool) \<noteq> []" by code_simp
  ultimately show ?thesis by (simp add: list_all_iff)
qed

theorem feeding_terminates_witness:
  "\<exists>r. feedQueue ex_opts (\<lambda>_ _. True) (\<lambda>k. (env_at 0, ex_tasks)) = Some r"
proof -
  have "bounded_tasks {''a''} 1 ex_tasks" by (simp add: bounded_tasks_def ex_tasks_def new_task_def)
  with feeding_terminates [of "{''a''}" 1 "\<lambda>k. (env_at 0, ex_tasks)" ex_opts "\<lambda>_ _. True"] show ?thesis by auto
qed

text \<open>
  A drain may give up retries that are due. The feeder stops at the first pass that finds nothing new; when that
  pass comes while the only task is still running, and the task fails afterwards, it is never sent again in this run,
  although it has had one attempt of three and its row is eligible.
\<close>

theorem feeder_gives_up_while_task_runs:
  "let run = (\<lambda>db. fst (claim ex_opts (env_at 0) ''a'' db)); failed = (\<lambda>db. fst (writeTerminal ex_patch (\<lambda>x::string. Inr x) (env_at 1) ''a'' (Inl (Error_string ''timeout'')) db));
       world = (\<lambda>k::nat. if k = 0 then (env_at 0, ex_tasks) else if k = 1 then (env_at 0, run ex_tasks) else (env_at 1, failed (run ex_tasks)))
   in feedQueue ex_opts (\<lambda>_ _. True) world = Some (Inr [\<lparr>it_id = ''a'', it_body = ()\<rparr>]) \<and>
      list_all (\<lambda>r. tr_status r = Failed \<and> tr_attempts r = 1 \<and> eligible ex_opts 1 r) (td_tasks (snd (world 2)))"
proof -
  let ?it = "\<lparr>it_id = ''a'', it_body = ()\<rparr>"
  let ?run = "fst (claim ex_opts (env_at 0) ''a'' ex_tasks)"
  have "fetchBatch ex_opts (\<lambda>_ _. True) (env_at 0) [] ex_tasks = Inr ([?it], [(''a'', 0)])"
    "fetchBatch ex_opts (\<lambda>_ _. True) (env_at 0) [(''a'', 0)] ?run = Inr ([], [(''a'', 0)])" by code_simp+
  moreover have "list_all (\<lambda>r. tr_status r = Failed \<and> tr_attempts r = 1 \<and> eligible ex_opts 1 r)
      (td_tasks (fst (writeTerminal ex_patch (\<lambda>x::string. Inr x) (env_at 1) ''a'' (Inl (Error_string ''timeout'')) ?run)))" by code_simp
  ultimately show ?thesis unfolding Let_def feedQueue_def by (subst feed_loop.simps, subst feed_loop.simps) simp
qed

text \<open>
  Without heartbeats in time a finished task can be reopened. When the first worker's heartbeats stop for longer
  than the stale limit, a second worker claims the row and finishes it; the terminal write of the first, which checks
  neither status nor attempt, then turns the done row into a failed one that is eligible again.
\<close>

theorem late_terminal_write_reopens_done:
  "let db1 = fst (claim ex_opts (env_at 0) ''a'' ex_tasks);
       second_claim = claim ex_opts (env_at 40) ''a'' db1;
       db3 = fst (writeTerminal ex_patch (\<lambda>x::string. Inr x) (env_at 41) ''a'' (Inr None) (fst second_claim));
       db4 = fst (writeTerminal ex_patch (\<lambda>x::string. Inr x) (env_at 42) ''a'' (Inl (Error_string ''interrupted'')) db3)
   in snd second_claim = Inr True \<and> map tr_status (td_tasks db3) = [Done] \<and>
      map tr_status (td_tasks db4) = [Failed] \<and> list_all (eligible ex_opts 42) (td_tasks db4)"
  by code_simp

end
