(* ===== verification/Archive_System.thy ===== *)
theory Archive_System
  imports Archive_GC Rpc
begin

text \<open>
  The archive as one system: the scanner and pushes append changes, the archiver uploads, pin and
  unpin runs move files in and out, garbage collection deletes orphans, and users edit the
  watch directory at any time. Each upload, run and collection is one step here; an upload during
  which its row changes is the subject of \<open>Archive_Worker\<close>. The invariant is that no claimed object is ever missing.
\<close>

section \<open>Runs of the control interface keep the invariant\<close>

context archive_storage
begin

lemma reconcile_path_ok:
  assumes "backed_world inv remote deps w" "\<not> HasPrefix p ''/''"
  shows "backed_world inv remote deps (fst (reconcile_path ops deps pe target dry m p w))"
  using reconcile_path_db [of ops deps pe target dry m p w]
proof
  assume "\<exists>plan. plan_for target deps (pe_sql pe) p w = (plan, None) \<and> \<not> dry \<and>
    fst (reconcile_path ops deps pe target dry m p w) = fst (Apply ops deps (pe_envs pe) m (pe_tmp pe) plan w)"
  then obtain plan where plan: "plan_for target deps (pe_sql pe) p w = (plan, None)"
    "fst (reconcile_path ops deps pe target dry m p w) = fst (Apply ops deps (pe_envs pe) m (pe_tmp pe) plan w)" by blast
  then have "PlanPin deps (pe_sql pe) p w = (plan, None) \<or> PlanUnpin deps (pe_sql pe) p w = (plan, None)"
    by (cases target) (simp_all add: plan_for_def)
  with Apply_ok [OF assms] plan(2) show ?thesis by simp
qed (simp add: assms(1))

lemma reconcile_paths_ok:
  assumes "backed_world inv remote deps w" "\<forall>p \<in> set ps. \<not> HasPrefix p ''/''"
  shows "backed_world inv remote deps (fst (reconcile_paths ops deps pes target dry m ps w))"
  using assms
proof (induction ps arbitrary: w pes)
  case Nil
  then show ?case by simp
next
  case (Cons p ps)
  obtain w1 r where one: "reconcile_path ops deps (pes 0) target dry m p w = (w1, r)" by fastforce
  have "backed_world inv remote deps w1"
    using reconcile_path_ok [OF Cons.prems(1), of p "pes 0" target dry m] Cons.prems(2) one by simp
  with Cons.IH [of w1 "\<lambda>i. pes (Suc i)"] Cons.prems(2) one show ?case by (auto split: prod.split)
qed

lemma RunReconcile_ok:
  assumes "backed_world inv remote deps w"
  shows "backed_world inv remote deps (fst (RunReconcile ops deps sql glob pes req target w))"
proof (cases "fst (RunReconcile ops deps sql glob pes req target w) = w")
  case False
  obtain ps where ps: "MatchGlobs sql glob (pq_globs req) (aw_db w) = Inr ps"
    using False by (auto simp: RunReconcile_def split: sum.splits)
  have "\<forall>p \<in> set ps. \<not> HasPrefix p ''/''"
    using MatchGlobs_rows [OF ps] assms by (auto simp: backed_world_def archive_backed_def)
  then have run: "backed_world inv remote deps (fst (reconcile_paths ops deps pes target (pq_dry req) m ps w))" for m
    using reconcile_paths_ok [OF assms] by blast
  have "\<exists>m. fst (RunReconcile ops deps sql glob pes req target w) = fst (reconcile_paths ops deps pes target (pq_dry req) m ps w)"
    using False ps by (auto simp: RunReconcile_def Let_def split: sum.splits list.splits prod.splits if_splits) (metis fst_conv)+
  with run show ?thesis by metis
qed (simp add: assms)

end

section \<open>The step relation\<close>

text \<open>
  Changes come from the scanner or a push, which only append file entries with relative paths.
  Every operation runs with any environment, so with any clock and any database failure.
\<close>

inductive arch_step :: "ArchiveTaskDeps \<Rightarrow> FakeStorage ArchWorld \<Rightarrow> FakeStorage ArchWorld \<Rightarrow> bool" for deps where
  step_change: "\<not> HasPrefix (ce_path e) ''/'' \<Longrightarrow> ce_kind e = FileKindFile \<Longrightarrow>
    arch_step deps w (w\<lparr>aw_db := fst (Append en e (aw_db w))\<rparr>)"
| step_edit: "arch_step deps w (w\<lparr>aw_fs := f\<rparr>)"
| step_archive_one: "arch_step deps w (fst (archiveOne fake_ops deps en p w))"
| step_reconcile: "arch_step deps w (fst (RunReconcile fake_ops deps sql glob pes req target w))"
| step_gc: "HasPrefix L (dp_prefix deps) \<Longrightarrow> g = \<lparr>ag_store = Some (aw_db w), ag_storage = Some fake_ops, ag_prefix = dp_prefix deps\<rparr> \<Longrightarrow>
    arch_step deps w (w\<lparr>aw_remote := fst (gc_Run sql g L dry (aw_remote w))\<rparr>)"

inductive_cases arch_stepE: "arch_step deps w w'"

inductive arch_reachable :: "ArchiveTaskDeps \<Rightarrow> FakeStorage ArchWorld \<Rightarrow> bool" for deps where
  arch_start: "aw_db w = empty_store \<Longrightarrow> fake_inv (aw_remote w) \<Longrightarrow> arch_reachable deps w"
| arch_next: "arch_reachable deps w \<Longrightarrow> arch_step deps w w' \<Longrightarrow> arch_reachable deps w'"

lemma arch_step_backed:
  assumes "arch_step deps w w'" "slash_prefix (dp_prefix deps)" "backed_world fake_inv fake_remote deps w"
  shows "backed_world fake_inv fake_remote deps w'"
  using assms(1)
proof cases
  case (step_change e en)
  with assms(3) show ?thesis by (simp add: backed_world_def Append_backed)
next
  case (step_edit f)
  with assms(3) show ?thesis by (simp add: backed_world_def)
next
  case (step_archive_one en p)
  with assms(3) fake.archiveOne_backed [OF _ _ prod.collapse [symmetric], of w deps en p] show ?thesis by (simp add: backed_world_def)
next
  case (step_reconcile sql glob pes req target)
  with fake.RunReconcile_ok [OF assms(3)] show ?thesis by simp
next
  case (step_gc L g sql dry)
  with fake.gc_Run_backed [OF assms(3,2), of L g sql dry] show ?thesis by simp
qed

lemma arch_reachable_backed:
  "arch_reachable deps w \<Longrightarrow> slash_prefix (dp_prefix deps) \<Longrightarrow> backed_world fake_inv fake_remote deps w"
proof (induction rule: arch_reachable.induct)
  case (arch_start w)
  then show ?case using store_inv_empty by (simp add: backed_world_def archive_backed_def) (simp add: empty_store_def)
next
  case (arch_next w w')
  then show ?case using arch_step_backed by blast
qed

section \<open>A pass over the pending rows\<close>

definition pending_row :: "hubEntryRow \<Rightarrow> bool" where
  "pending_row r \<longleftrightarrow> hr_kind r = 0 \<and> (hr_archive_state r = None \<or> hr_archive_state r = Some ArchiveStateDirty)"

lemma enqueuePending_paths: "enqueuePending no_faults s = Inr ps \<longleftrightarrow> ps = map hr_path (sort_key hr_path (filter pending_row (hub_entry s)))"
  by (auto simp: enqueuePending_def PendingArchiveRows_def pending_row_def [abs_def] comp_def)

lemma archiveOne_db:
  "aw_db (fst (archiveOne ops deps en p w)) = aw_db w \<or>
   (\<exists>fid sha t. aw_db (fst (archiveOne ops deps en p w)) = fst (MarkArchived en p fid sha t (aw_db w)))"
  by (auto simp: archiveOne_def archive_upload_def Let_def split: sum.split option.split prod.split) (metis fst_conv)+

lemma archiveOne_row_other:
  assumes "q \<noteq> p"
  shows "tbl_lookup hr_path q (hub_entry (aw_db (fst (archiveOne ops deps en p w)))) = tbl_lookup hr_path q (hub_entry (aw_db w))"
  using archiveOne_db [of ops deps en p w] mark_row_other(1) [OF assms] by auto

lemma archiveOne_fs: "aw_fs (fst (archiveOne ops deps en p w)) = aw_fs w"
  by (simp add: archiveOne_def archive_upload_def Let_def split: sum.split option.split prod.split)

lemma archive_upload_settles:
  assumes "tbl_lookup hr_path p (hub_entry (aw_db w)) = Some r" "env_sql en = no_faults" "is_file (aw_fs w) (filepath_Join (dp_hub_dir deps) p)"
  shows "row_in p ArchiveStateArchived (aw_db (fst (archive_upload fake_ops deps en p e w)))"
proof -
  obtain src where "os_Open (aw_fs w) (filepath_Join (dp_hub_dir deps) p) = Inr src" "\<not> is_dir (aw_fs w) (filepath_Join (dp_hub_dir deps) p)"
    using assms(3) by (auto simp: is_file_def is_dir_def os_Open_def split: option.splits node.splits)
  moreover obtain db where "MarkArchived en p fid sha t (aw_db w) = (db fid sha t, Inr ())" for fid sha t
    using that [of "\<lambda>fid sha t. fst (MarkArchived en p fid sha t (aw_db w))"] assms(2) by (simp add: MarkArchived_def update_entry_def)
  moreover from this have "row_in p ArchiveStateArchived (db fid sha t)" for fid sha t using mark_row_in(1) [OF assms(1)] by blast
  ultimately show ?thesis by (simp add: archive_upload_def upload_source_def fake_ops_def fake_Upload_def Let_def)
qed

lemma archiveOne_settles:
  assumes "tbl_lookup hr_path p (hub_entry (aw_db w)) = Some r" "pending_row r" "env_sql en = no_faults"
    and "is_file (aw_fs w) (filepath_Join (dp_hub_dir deps) p)"
  shows "row_in p ArchiveStateArchived (aw_db (fst (archiveOne fake_ops deps en p w)))"
proof -
  have look: "EntryLookup (env_sql en) p (aw_db w) = Inr (Some (toEntry r))" using assms(1,3) by (simp add: EntryLookup_def)
  have st: "he_kind (toEntry r) = FileKindFile" "he_archive_state (toEntry r) \<noteq> ArchiveStateArchived" "he_archive_state (toEntry r) \<noteq> ArchiveStateUnpinned"
    using assms(2) by (auto simp: pending_row_def toEntry_def FileKindFile_def)
  obtain db where mark: "MarkArchived en p fid sha t (aw_db w) = (db fid sha t, Inr ())" for fid sha t
    using that [of "\<lambda>fid sha t. fst (MarkArchived en p fid sha t (aw_db w))"] assms(3) by (simp add: MarkArchived_def update_entry_def)
  have err: "errors_Is e ErrNotExist" if "as_HeadByKey fake_ops k rem = Inl e" for k rem e
    using that by (auto simp: fake_ops_def fake_HeadByKey_def Let_def split: if_splits)
  show ?thesis
    using archive_upload_settles [OF assms(1,3,4), of "toEntry r"] mark mark_row_in(1) [OF assms(1) mark] err look st
    by (auto simp: archiveOne_def Let_def split: sum.split)
qed

lemma uploadOne_world: "fst (uploadOne ops deps en p w) = fst (archiveOne ops deps en p w)"
  by (simp add: uploadOne_def split: prod.split sum.split)

lemma drain_inv: "store_inv (aw_db w) \<Longrightarrow> store_inv (aw_db (drain_queue ops deps envs ps w))"
proof (induction ps arbitrary: w envs)
  case (Cons p ps)
  have "store_inv (aw_db (fst (archiveOne ops deps (envs 0) p w)))"
    using archiveOne_db [of ops deps "envs 0" p w] Cons.prems Mark_inv by metis
  with Cons.IH show ?case by (simp add: uploadOne_world)
qed simp

lemma drain_settles:
  assumes "\<forall>i. env_sql (envs i) = no_faults" "\<forall>p \<in> set ps. is_file (aw_fs w) (filepath_Join (dp_hub_dir deps) p)"
    and "tbl_lookup hr_path q (hub_entry (aw_db (drain_queue fake_ops deps envs ps w))) = Some r" "pending_row r"
  shows "tbl_lookup hr_path q (hub_entry (aw_db w)) = Some r \<and> q \<notin> set ps"
  using assms
proof (induction ps arbitrary: w envs)
  case Nil
  then show ?case by simp
next
  case (Cons p ps)
  let ?w = "fst (archiveOne fake_ops deps (envs 0) p w)"
  have IH: "tbl_lookup hr_path q (hub_entry (aw_db ?w)) = Some r \<and> q \<notin> set ps"
    using Cons.IH [of "\<lambda>i. envs (Suc i)" ?w] Cons.prems by (simp add: uploadOne_world archiveOne_fs)
  show ?case
  proof (cases "q = p")
    case False
    with IH archiveOne_row_other [OF False, of fake_ops deps "envs 0" w] show ?thesis by simp
  next
    case True
    have "\<not> row_in p ArchiveStateArchived (aw_db ?w)" using IH True Cons.prems(4) by (auto simp: row_in_def pending_row_def)
    then have keep: "\<not> (tbl_lookup hr_path p (hub_entry (aw_db w)) = Some r0 \<and> pending_row r0)" for r0
      using archiveOne_settles [of p w r0 "envs 0" deps, OF _ _ spec [OF Cons.prems(1)]] Cons.prems(2) by auto
    have "pending_row r \<Longrightarrow> tbl_lookup hr_path p (hub_entry (fst (MarkArchived (envs 0) p fid sha t (aw_db w)))) \<noteq> Some r" for fid sha t
      using Cons.prems(1) by (auto simp: MarkArchived_def update_entry_def tbl_lookup_update pending_row_def split: option.splits)
    with IH True Cons.prems(4) archiveOne_db [of fake_ops deps "envs 0" p w] have "aw_db ?w = aw_db w" by metis
    with IH True keep Cons.prems(4) show ?thesis by auto
  qed
qed

section \<open>Properties\<close>

text \<open>
  One pass of the archiver settles every pending file. When the worker queues the pending rows and works the queue
  off, every queued file exists and the database does not fail, then no row is pending afterwards, so a second pass has
  nothing to do.
\<close>

theorem archive_pass_leaves_nothing_pending:
  assumes "enqueuePending no_faults (aw_db w) = Inr ps" "store_inv (aw_db w)" "\<forall>i. env_sql (envs i) = no_faults"
    and "\<forall>p \<in> set ps. is_file (aw_fs w) (filepath_Join (dp_hub_dir deps) p)"
  shows "enqueuePending no_faults (aw_db (drain_queue fake_ops deps envs ps w)) = Inr []"
proof -
  let ?db = "aw_db (drain_queue fake_ops deps envs ps w)"
  have False if r: "r \<in> set (hub_entry ?db)" "pending_row r" for r
  proof -
    have "tbl_lookup hr_path (hr_path r) (hub_entry ?db) = Some r" using drain_inv [OF assms(2), of fake_ops deps envs ps] r(1) by (simp add: store_inv_def tbl_lookup_in)
    from drain_settles [OF assms(3,4) this r(2)] have "r \<in> set (hub_entry (aw_db w))" "hr_path r \<notin> set ps" by (auto dest: tbl_lookup_SomeD)
    with r(2) assms(1) show False unfolding enqueuePending_paths by auto
  qed
  then have "filter pending_row (hub_entry ?db) = []" by (auto simp: filter_empty_conv)
  then show ?thesis by (simp add: enqueuePending_paths)
qed


theorem archive_pass_leaves_nothing_pending_witness:
  "enqueuePending no_faults (aw_db ex_world) = Inr [''a''] \<and>
   enqueuePending no_faults (aw_db (drain_queue fake_ops ex_deps (\<lambda>i. env_at 3) [''a''] ex_world)) = Inr []"
proof -
  have q: "enqueuePending no_faults (aw_db ex_world) = Inr [''a'']" by code_simp
  have inv: "store_inv (aw_db ex_world)" using Append_inv [OF store_inv_empty] by (simp add: ex_world_def)
  have files: "\<forall>p \<in> set [''a'']. is_file (aw_fs ex_world) (filepath_Join (dp_hub_dir ex_deps) p)" by code_simp
  with archive_pass_leaves_nothing_pending [OF q inv _ files, of "\<lambda>i. env_at 3"] q show ?thesis by simp
qed

lemma ex_pinned_reachable: "arch_reachable ex_deps ex_pinned"
proof -
  let ?e = "\<lparr>ce_version = 0, ce_path = ''a'', ce_op = OpCreate, ce_kind = 0, ce_digest = [9, 1, 2], ce_size = 2, ce_mode = 420, ce_mtime = 7\<rparr>"
  let ?w = "\<lparr>aw_db = empty_store, aw_fs = aw_fs ex_world, aw_remote = NewFakeStorage\<rparr>"
  have "arch_reachable ex_deps ?w" by (rule arch_start) (simp_all add: empty_fake_inv)
  moreover have "arch_step ex_deps ?w (?w\<lparr>aw_db := fst (Append (env_at 2) ?e (aw_db ?w))\<rparr>)"
    by (rule step_change) (simp_all add: FileKindFile_def)
  moreover have "?w\<lparr>aw_db := fst (Append (env_at 2) ?e (aw_db ?w))\<rparr> = ex_world" by (simp add: ex_world_def)
  ultimately have "arch_reachable ex_deps ex_world" using arch_next by metis
  then show ?thesis unfolding ex_pinned_def by (rule arch_next) (rule step_archive_one)
qed


end
