(* ===== verification/Archive_Tasks.thy ===== *)
theory Archive_Tasks
  imports Task_Pool Archive_System
begin

text \<open>
  The archive queue: the factory of \<^verbatim>\<open>archive_task.go\<close> plans one task per pending row, the pool of the task runner
  works the plan off, and every task uploads one file with \<^const>\<open>archiveOne\<close>. The pool and the world its tasks
  work on form one state machine. A worker hands a row to its task as JSON, and Go's encoder replaces
  bytes that are not UTF-8; a task for a file with such a name is a task for another name.
\<close>

section \<open>Strings in JSON\<close>

text \<open>The length of the well-formed UTF-8 sequence at the front of a string, 0 if there is none.\<close>

definition byte :: "char \<Rightarrow> nat" where "byte c = of_char c"

definition continues :: "nat \<Rightarrow> nat \<Rightarrow> char \<Rightarrow> bool" where
  "continues lo hi c \<longleftrightarrow> lo \<le> byte c \<and> byte c \<le> hi"

definition rune_len :: "string \<Rightarrow> nat" where
  "rune_len s =
     (case s of
        [] \<Rightarrow> 0
      | c # cs \<Rightarrow>
          let b = byte c;
              tail = (\<lambda>n lo hi. n \<le> length cs \<and> continues lo hi (cs ! 0) \<and> list_all (continues 0x80 0xBF) (take (n - 1) (tl cs)))
          in if b < 0x80 then 1
             else if 0xC2 \<le> b \<and> b \<le> 0xDF \<and> tail 1 0x80 0xBF then 2
             else if 0xE0 \<le> b \<and> b \<le> 0xEF \<and> tail 2 (if b = 0xE0 then 0xA0 else 0x80) (if b = 0xED then 0x9F else 0xBF) then 3
             else if 0xF0 \<le> b \<and> b \<le> 0xF4 \<and> tail 3 (if b = 0xF0 then 0x90 else 0x80) (if b = 0xF4 then 0x8F else 0xBF) then 4
             else 0)"

text \<open>What a string is after it went through \<^verbatim>\<open>json.Marshal\<close> and \<^verbatim>\<open>json.Unmarshal\<close>.\<close>

fun json_string :: "string \<Rightarrow> string" where
  "json_string [] = []"
| "json_string (c # cs) =
     (let n = rune_len (c # cs) in
      if n = 0 then [CHR 0xEF, CHR 0xBF, CHR 0xBD] @ json_string cs
      else take n (c # cs) @ json_string (drop (n - 1) cs))"

section \<open>The factory\<close>

text \<open>A field of the task: text, a number, or a dependency that is not stored.\<close>

datatype field_value = GoString string | GoInt int | GoDep

definition archive_task_fields :: "StructField list" where
  "archive_task_fields =
     [StructField ''ID'' True ''id'' TString, StructField ''Path'' True ''path'' TString, StructField ''Size'' True ''size'' TInt,
      StructField ''DigestHex'' True ''digest'' TString, StructField ''MTime'' True ''mtime'' TInt,
      StructField ''store'' False ''-'' (TPointer (TStruct ''HubStore'' [])), StructField ''storage'' False ''-'' TInterface,
      StructField ''hasher'' False ''-'' TInterface, StructField ''hubDir'' False ''-'' TString, StructField ''prefix'' False ''-'' TString]"

definition archive_task_type :: gotype where
  "archive_task_type = TPointer (TStruct ''ArchiveTask'' archive_task_fields)"

definition task_fields :: "ArchiveTask \<Rightarrow> field_value list" where
  "task_fields t = [GoString (at_id t), GoString (at_path t), GoInt (at_size t), GoString (at_digest_hex t), GoInt (at_mtime t),
     GoDep, GoDep, GoDep, GoDep, GoDep]"

text \<open>\<open>stop\<close> is the task at which the context is found cancelled, if it is.\<close>

definition ctx_canceled :: err where "ctx_canceled = Sentinel ''context canceled''"

definition archive_List :: "nat option \<Rightarrow> sql_faults \<Rightarrow> HubStore \<Rightarrow> (gotype \<times> field_value goval) res list" where
  "archive_List stop sql s =
     (case task_List sql s of
        Inl e \<Rightarrow> [Inl e]
      | Inr ts \<Rightarrow>
          let ys = map (\<lambda>t. Inr (archive_task_type, StructVal (task_fields t))) ts in
          (case stop of Some n \<Rightarrow> (if n < length ys then take n ys @ [Inl ctx_canceled] else ys) | None \<Rightarrow> ys))"

definition archive_codec :: "(field_value \<Rightarrow> string res) \<Rightarrow> (field_value \<Rightarrow> string) \<Rightarrow> field_value codec" where
  "archive_codec marshal time = \<lparr>co_marshal = marshal, co_time = time, co_string = (\<lambda>v. case v of GoString s \<Rightarrow> Some s | _ \<Rightarrow> None)\<rparr>"

text \<open>What the database returns for the columns of an item.\<close>

definition item_row :: "itemSchema \<Rightarrow> field_value task_row item \<Rightarrow> string \<Rightarrow> field_value option" where
  "item_row s it name =
     Option.bind (map_of (zip (map ic_name (is_columns s)) (it_body it)) name)
       (\<lambda>a. case a of ArgNil \<Rightarrow> None | ArgText t \<Rightarrow> Some (GoString t) | ArgValue v \<Rightarrow> Some v)"

text \<open>
  Decoding the JSON object into the task that \<^verbatim>\<open>Hydrate\<close> made: its fields one after the other, a value of the wrong
  type being an error. No column of this task holds JSON of its own.
\<close>

fun json_fields :: "(string \<times> field_value jsonval) list \<Rightarrow> ArchiveTask \<Rightarrow> ArchiveTask res" where
  "json_fields [] t = Inr t"
| "json_fields ((k, v) # kvs) t =
     (case (if k = ''id'' then (case v of JsonValue (GoString s) \<Rightarrow> Some (t\<lparr>at_id := json_string s\<rparr>) | _ \<Rightarrow> None)
            else if k = ''path'' then (case v of JsonValue (GoString s) \<Rightarrow> Some (t\<lparr>at_path := json_string s\<rparr>) | _ \<Rightarrow> None)
            else if k = ''size'' then (case v of JsonValue (GoInt n) \<Rightarrow> Some (t\<lparr>at_size := n\<rparr>) | _ \<Rightarrow> None)
            else if k = ''digest'' then (case v of JsonValue (GoString s) \<Rightarrow> Some (t\<lparr>at_digest_hex := json_string s\<rparr>) | _ \<Rightarrow> None)
            else if k = ''mtime'' then (case v of JsonValue (GoInt n) \<Rightarrow> Some (t\<lparr>at_mtime := n\<rparr>) | _ \<Rightarrow> None)
            else Some t) of
        None \<Rightarrow> Inl (Error_string (''json: cannot unmarshal into Go struct field ArchiveTask.'' @ k))
      | Some t' \<Rightarrow> json_fields kvs t')"

definition bare_task :: ArchiveTask where
  "bare_task = \<lparr>at_id = '''', at_path = '''', at_size = 0, at_digest_hex = '''', at_mtime = 0\<rparr>"

definition archive_decode :: "itemSchema \<Rightarrow> field_value task_row item \<Rightarrow> ArchiveTask res" where
  "archive_decode s it =
     hydrate (\<lambda>v. case v of GoString t \<Rightarrow> Some t | _ \<Rightarrow> None) Inr json_fields (Inr bare_task) s (item_row s it)"

section \<open>Planned items\<close>

definition archive_schema :: itemSchema where
  "archive_schema =
     \<lparr>is_columns =
        [\<lparr>ic_name = ''id'', ic_type = TString, ic_sql_type = ''TEXT'', ic_is_json = False\<rparr>,
         \<lparr>ic_name = ''path'', ic_type = TString, ic_sql_type = ''TEXT'', ic_is_json = False\<rparr>,
         \<lparr>ic_name = ''size'', ic_type = TInt, ic_sql_type = ''INTEGER'', ic_is_json = False\<rparr>,
         \<lparr>ic_name = ''digest'', ic_type = TString, ic_sql_type = ''TEXT'', ic_is_json = False\<rparr>,
         \<lparr>ic_name = ''mtime'', ic_type = TInt, ic_sql_type = ''INTEGER'', ic_is_json = False\<rparr>],
      is_id_idx = 0, is_schema_type = archive_task_type\<rparr>"

lemma archive_schema_inferred: "inferItemSchema (Some archive_task_type) = Inr archive_schema"
  by code_simp

definition task_item :: "ArchiveTask \<Rightarrow> field_value task_row item" where
  "task_item t = \<lparr>it_id = at_id t,
     it_body = [ArgValue (GoString (at_id t)), ArgValue (GoString (at_path t)), ArgValue (GoInt (at_size t)),
       ArgValue (GoString (at_digest_hex t)), ArgValue (GoInt (at_mtime t))]\<rparr>"

lemma archive_fields_types: "struct_fields (is_schema_type archive_schema) = archive_task_fields"
  by (simp add: archive_schema_def archive_task_type_def struct_fields_def)

lemma col_index_archive:
  "col_index (is_columns archive_schema) ''id'' = Some 0" "col_index (is_columns archive_schema) ''path'' = Some 1"
  "col_index (is_columns archive_schema) ''size'' = Some 2" "col_index (is_columns archive_schema) ''digest'' = Some 3"
  "col_index (is_columns archive_schema) ''mtime'' = Some 4"
  by code_simp+

lemma bind_archive_task:
  "bind_task (archive_codec mar time) archive_schema archive_task_fields (StructVal (task_fields t)) = Inr (it_body (task_item t), at_id t)"
proof -
  have cols: "length (is_columns archive_schema) = 5" "is_id_idx archive_schema = 0" "\<And>i. i < 5 \<Longrightarrow> \<not> ic_is_json (is_columns archive_schema ! i)"
    "\<And>i. i < 5 \<Longrightarrow> ic_type (is_columns archive_schema ! i) \<noteq> TTime"
    by (auto simp: archive_schema_def less_Suc_eq numeral_eq_Suc)
  have names: "map jsonFieldName (take 5 archive_task_fields) = map Some [''id'', ''path'', ''size'', ''digest'', ''mtime'']" by code_simp
  show ?thesis
    using names by (simp add: bind_task_def archive_task_fields_def task_fields_def cols col_index_archive task_item_def arg_string_def archive_codec_def
        numeral_eq_Suc)
qed

lemma decode_task_item: "\<exists>t'. archive_decode archive_schema (task_item t) = Inr t' \<and> at_path t' = json_string (at_path t)"
  by (simp add: archive_decode_def hydrate_def archive_schema_def item_row_def task_item_def map_filter_simps hydrate_column_def bare_task_def)

lemma planned_archive_task:
  assumes "planned (archive_codec mar time) archive_schema y it"
  shows "(\<exists>v. y = Inr (archive_task_type, v)) \<and> (\<forall>t. y = Inr (archive_task_type, StructVal (task_fields t)) \<longrightarrow> it = task_item t)"
proof -
  have "is_schema_type archive_schema = archive_task_type" by (simp add: archive_schema_def)
  with assms obtain v where v: "y = Inr (archive_task_type, v)" "bind_task (archive_codec mar time) archive_schema archive_task_fields v = Inr (it_body it, it_id it)"
    using archive_fields_types by (auto simp: planned_def)
  moreover have "it = task_item t" if "v = StructVal (task_fields t)" for t
    using v(2) that by (cases it) (simp add: bind_archive_task task_item_def)
  ultimately show ?thesis by auto
qed

lemma planned_map:
  "list_all2 (planned (archive_codec mar time) archive_schema) (map (\<lambda>t. Inr (archive_task_type, StructVal (task_fields t))) ts) its \<Longrightarrow>
   its = map task_item ts"
proof (induction ts arbitrary: its)
  case (Cons t ts)
  then obtain it its' where "its = it # its'" "planned (archive_codec mar time) archive_schema (Inr (archive_task_type, StructVal (task_fields t))) it"
    "list_all2 (planned (archive_codec mar time) archive_schema) (map (\<lambda>t. Inr (archive_task_type, StructVal (task_fields t))) ts) its'"
    by (auto simp: list_all2_Cons1)
  with Cons.IH planned_archive_task show ?case by fastforce
qed simp

lemma archive_plan_items:
  assumes "itemsEmpty no_faults db = Inr True"
    and "runPlan sql tyname (archive_codec mar time) archive_schema (archive_List stop sql' hs) db = (db', Inr ())"
  shows "\<exists>ts. task_List sql' hs = Inr ts \<and> td_items db' = map task_item ts \<and> td_tasks db' = seed_tasks (map task_item ts) (td_tasks db) \<and>
    distinct (map it_id (td_items db'))"
proof -
  from runPlan_cases [OF assms(1), of sql tyname "archive_codec mar time" archive_schema "archive_List stop sql' hs"] assms(2) obtain its where
    its: "plan_loop sql tyname (archive_codec mar time) archive_schema (archive_List stop sql' hs) [] = Inr its"
    "td_items db' = its" "td_tasks db' = seed_tasks its (td_tasks db)" by auto
  from plan_loop_ok [OF its(1)] have all: "list_all2 (planned (archive_codec mar time) archive_schema) (archive_List stop sql' hs) its"
    and dist: "distinct (map it_id its)" by auto
  then have noerr: "y \<in> set (archive_List stop sql' hs) \<Longrightarrow> \<not> isl y" for y
    using planned_archive_task by (fastforce simp: list_all2_conv_all_nth in_set_conv_nth)
  then obtain ts where ts: "task_List sql' hs = Inr ts" by (cases "task_List sql' hs") (auto simp: archive_List_def)
  have "Inl ctx_canceled \<notin> set (archive_List stop sql' hs)" using noerr by force
  with ts have ys: "archive_List stop sql' hs = map (\<lambda>t. Inr (archive_task_type, StructVal (task_fields t))) ts"
    by (auto simp: archive_List_def Let_def split: option.splits if_splits)
  with all planned_map ts its(2,3) dist show ?thesis by metis
qed

section \<open>The machine\<close>

text \<open>
  One task on the world: the row is decoded and the file uploaded. The uploads of different workers concern different
  rows and the statements of the store are serialised, so a task is one step of the machine.
\<close>

definition run_archive_task :: "'w ArchiveStorage option \<Rightarrow> ArchiveTaskDeps \<Rightarrow> env \<Rightarrow> ArchiveTask \<Rightarrow> 'w ArchWorld \<Rightarrow> 'w ArchWorld \<times> archive_outcome outcome" where
  "run_archive_task storage deps en t w =
     (case task_Run storage deps en t w of (w', Inl e) \<Rightarrow> (w', Inl e) | (w', Inr oc) \<Rightarrow> (w', Inr (Some oc)))"

definition run_item :: "'w ArchiveStorage option \<Rightarrow> ArchiveTaskDeps \<Rightarrow> env \<Rightarrow> field_value task_row item \<Rightarrow> 'w ArchWorld \<Rightarrow> 'w ArchWorld \<times> archive_outcome outcome" where
  "run_item storage deps en it w =
     (case archive_decode archive_schema it of Inl e \<Rightarrow> (w, Inl (Wrap ''decode'' e)) | Inr t \<Rightarrow> run_archive_task storage deps en t w)"

record 'w ArchRun =
  ar_pool :: "field_value task_row Pool"
  ar_world :: "'w ArchWorld"
  ar_error :: "err option"

definition note_error :: "err option \<Rightarrow> 'a res \<Rightarrow> err option" where
  "note_error er r = (case (er, r) of (None, Inl e) \<Rightarrow> Some e | _ \<Rightarrow> er)"

inductive run_step :: "RunOptions \<Rightarrow> (field_value task_row item \<Rightarrow> TaskRow \<Rightarrow> bool) \<Rightarrow> (string \<Rightarrow> string \<Rightarrow> string \<Rightarrow> string) \<Rightarrow>
    (archive_outcome \<Rightarrow> string res) \<Rightarrow> 'w ArchiveStorage option \<Rightarrow> ArchiveTaskDeps \<Rightarrow> 'w ArchRun \<Rightarrow> 'w ArchRun \<Rightarrow> bool"
  for opts user patch marshal storage deps where
  run_fetch: "p = ar_pool s \<Longrightarrow> po_feeding p \<Longrightarrow> po_emit p = [] \<Longrightarrow> env_now en = po_now p \<Longrightarrow>
    fetchBatch opts user en (po_seen p) (po_db p) = Inr (b, seen) \<Longrightarrow>
    run_step opts user patch marshal storage deps s (s\<lparr>ar_pool := p\<lparr>po_emit := b, po_seen := seen, po_feeding := b \<noteq> []\<rparr>\<rparr>)"
| run_fetch_error: "p = ar_pool s \<Longrightarrow> po_feeding p \<Longrightarrow> po_emit p = [] \<Longrightarrow> env_now en = po_now p \<Longrightarrow>
    fetchBatch opts user en (po_seen p) (po_db p) = Inl e \<Longrightarrow>
    run_step opts user patch marshal storage deps s (s\<lparr>ar_pool := p\<lparr>po_feeding := False\<rparr>, ar_error := Some e\<rparr>)"
| run_cancel: "p = ar_pool s \<Longrightarrow> po_feeding p \<Longrightarrow>
    run_step opts user patch marshal storage deps s (s\<lparr>ar_pool := p\<lparr>po_emit := [], po_feeding := False\<rparr>, ar_error := Some ctx_canceled\<rparr>)"
| run_send: "p = ar_pool s \<Longrightarrow> po_emit p = it # rest \<Longrightarrow> length (po_queue p) < nat (2 * ro_workers opts) \<Longrightarrow>
    run_step opts user patch marshal storage deps s (s\<lparr>ar_pool := p\<lparr>po_emit := rest, po_queue := po_queue p @ [it]\<rparr>\<rparr>)"
| run_missing_id: "p = ar_pool s \<Longrightarrow> None \<in> set (po_workers p) \<Longrightarrow> po_queue p = it # rest \<Longrightarrow> it_id it = '''' \<Longrightarrow>
    run_step opts user patch marshal storage deps s
      (s\<lparr>ar_pool := p\<lparr>po_queue := rest\<rparr>, ar_error := note_error (ar_error s) (Inl (Error_string ''taskrunner: row missing id'') :: unit res)\<rparr>)"
| run_take: "p = ar_pool s \<Longrightarrow> k < length (po_workers p) \<Longrightarrow> po_workers p ! k = None \<Longrightarrow> po_queue p = it # rest \<Longrightarrow> it_id it \<noteq> '''' \<Longrightarrow> env_now en = po_now p \<Longrightarrow>
    claim opts en (it_id it) (po_db p) = (db, c) \<Longrightarrow>
    run_step opts user patch marshal storage deps s
      (s\<lparr>ar_pool := p\<lparr>po_db := db, po_queue := rest, po_workers := (po_workers p)[k := if c = Inr True then Some (it_id it) else None]\<rparr>,
         ar_error := note_error (ar_error s) c\<rparr>)"
| run_beat: "p = ar_pool s \<Longrightarrow> k < length (po_workers p) \<Longrightarrow> po_workers p ! k = Some i \<Longrightarrow> env_now en = po_now p \<Longrightarrow>
    run_step opts user patch marshal storage deps s (s\<lparr>ar_pool := p\<lparr>po_db := beat patch marshal en i None (po_db p)\<rparr>\<rparr>)"
| run_finish: "p = ar_pool s \<Longrightarrow> k < length (po_workers p) \<Longrightarrow> po_workers p ! k = Some (it_id it) \<Longrightarrow> it \<in> set (td_items (po_db p)) \<Longrightarrow>
    env_now en2 = po_now p \<Longrightarrow> run_item storage deps en1 it (ar_world s) = (w, outcome) \<Longrightarrow>
    writeTerminal patch marshal en2 (it_id it) outcome (po_db p) = (db, r) \<Longrightarrow>
    run_step opts user patch marshal storage deps s
      (s\<lparr>ar_pool := p\<lparr>po_db := db, po_workers := (po_workers p)[k := None]\<rparr>, ar_world := w, ar_error := note_error (ar_error s) r\<rparr>)"
| run_tick: "p = ar_pool s \<Longrightarrow> run_step opts user patch marshal storage deps s (s\<lparr>ar_pool := p\<lparr>po_now := po_now p + 1\<rparr>\<rparr>)"
| run_edit: "run_step opts user patch marshal storage deps s (s\<lparr>ar_world := (ar_world s)\<lparr>aw_fs := f\<rparr>\<rparr>)"

definition start_run :: "RunOptions \<Rightarrow> int \<Rightarrow> field_value task_row TaskDB \<Rightarrow> 'w ArchWorld \<Rightarrow> 'w ArchRun" where
  "start_run opts now db w = \<lparr>ar_pool = start_pool opts now db, ar_world = w, ar_error = None\<rparr>"

inductive run_reachable :: "RunOptions \<Rightarrow> (field_value task_row item \<Rightarrow> TaskRow \<Rightarrow> bool) \<Rightarrow> (string \<Rightarrow> string \<Rightarrow> string \<Rightarrow> string) \<Rightarrow>
    (archive_outcome \<Rightarrow> string res) \<Rightarrow> 'w ArchiveStorage option \<Rightarrow> ArchiveTaskDeps \<Rightarrow> field_value task_row TaskDB \<Rightarrow> 'w ArchWorld \<Rightarrow> 'w ArchRun \<Rightarrow> bool"
  for opts user patch marshal storage deps db w where
  run_start: "run_reachable opts user patch marshal storage deps db w (start_run opts now db w)"
| run_next: "run_reachable opts user patch marshal storage deps db w s \<Longrightarrow> run_step opts user patch marshal storage deps s s' \<Longrightarrow>
    run_reachable opts user patch marshal storage deps db w s'"

text \<open>\<^verbatim>\<open>drain\<close> returns when the feeder has ended, the closed queue is empty and every worker is done.\<close>

definition drained :: "'w ArchRun \<Rightarrow> bool" where
  "drained s \<longleftrightarrow> \<not> po_feeding (ar_pool s) \<and> po_emit (ar_pool s) = [] \<and> po_queue (ar_pool s) = [] \<and> set (po_workers (ar_pool s)) \<subseteq> {None}"

section \<open>Rows that are settled\<close>

definition pending_at :: "string \<Rightarrow> 'w ArchWorld \<Rightarrow> bool" where
  "pending_at p w \<longleftrightarrow> (\<exists>r. tbl_lookup hr_path p (hub_entry (aw_db w)) = Some r \<and> pending_row r)"

lemma MarkArchived_pending:
  assumes "tbl_lookup hr_path q (hub_entry (fst (MarkArchived en p fid sha t s))) = Some r" "pending_row r"
  shows "tbl_lookup hr_path q (hub_entry s) = Some r"
  using assms by (auto simp: MarkArchived_def update_entry_def tbl_lookup_update pending_row_def split: option.splits if_splits)

lemma archiveOne_pending:
  assumes "pending_at q (fst (archiveOne ops deps en p w))"
  shows "pending_at q w"
  using archiveOne_db [of ops deps en p w] assms MarkArchived_pending unfolding pending_at_def by metis

text \<open>A task that succeeds leaves a row that is no longer pending.\<close>

lemma archiveOne_success:
  assumes "archiveOne ops deps en p w = (w', Inr oc)"
  shows "\<not> pending_at p w'"
proof
  assume "pending_at p w'"
  then have "pending_at p w" using archiveOne_pending [of p ops deps en p w] assms by simp
  then obtain r where r: "tbl_lookup hr_path p (hub_entry (aw_db w)) = Some r" "pending_row r" by (auto simp: pending_at_def)
  then have st: "he_kind (toEntry r) = FileKindFile" "he_archive_state (toEntry r) \<noteq> ArchiveStateArchived" "he_archive_state (toEntry r) \<noteq> ArchiveStateUnpinned"
    by (auto simp: pending_row_def toEntry_def FileKindFile_def)
  have "\<exists>fid sha t. MarkArchived en p fid sha t (aw_db w) = (aw_db w', Inr ())"
    using assms st r(1)
    by (auto simp: archiveOne_def archive_upload_def EntryLookup_def Let_def split: sum.splits option.splits prod.splits if_splits) blast+
  with mark_row_in(1) [OF r(1)] have "row_in p ArchiveStateArchived (aw_db w')" by blast
  with \<open>pending_at p w'\<close> show False by (auto simp: row_in_def pending_at_def pending_row_def)
qed

lemma run_item_pending:
  assumes "run_item storage deps en it w = (w', outcome)"
  shows "pending_at q w' \<Longrightarrow> pending_at q w"
    "outcome = Inr x \<Longrightarrow> archive_decode archive_schema it = Inr t \<Longrightarrow> \<not> pending_at (at_path t) w'"
  using assms archiveOne_pending [of q _ deps en _ w] archiveOne_success [of _ deps en _ w]
  by (auto simp: run_item_def run_archive_task_def task_Run_def split: sum.splits option.splits prod.splits) (metis fst_conv)+

lemma terminal_done:
  assumes "writeTerminal patch marshal en i outcome db = (db', r)" "tbl_lookup tr_id j (td_tasks db') = Some row" "tr_status row = Done"
  shows "tbl_lookup tr_id j (td_tasks db) = Some row \<or> j = i \<and> (\<exists>x. outcome = Inr x)"
proof (cases "j = i")
  case True
  show ?thesis
  proof (cases outcome)
    case (Inl e)
    have row: "tr_id (failed_row (env_now en) (err_str e) r) = tr_id r" "tr_status (failed_row (env_now en) (err_str e) r) = Failed" for r
      by (simp_all add: failed_row_def)
    from assms Inl True row(2) show ?thesis
      by (auto simp: writeTerminal_def Let_def update_task_lookup [OF row(1)] split: option.splits)
  qed (use True in auto)
next
  case False
  from terminal_update [OF assms(1)] show ?thesis
  proof
    assume "\<exists>f. (\<forall>r. tr_id (f r) = tr_id r \<and> tr_status (f r) \<in> {Done, Failed} \<and> tr_attempts (f r) = tr_attempts r) \<and> db' = update_task i f db"
    then obtain f where f: "\<And>r. tr_id (f r) = tr_id r" "db' = update_task i f db" by blast
    from assms(2) False update_task_lookup [OF f(1), of j i db] show ?thesis by (auto simp: f(2))
  qed (use assms(2) in simp)
qed

section \<open>A run settles what it marks done\<close>

text \<open>The file of a task that is done is not pending.\<close>

definition settled :: "field_value task_row item list \<Rightarrow> 'w ArchRun \<Rightarrow> bool" where
  "settled items s \<longleftrightarrow> (\<forall>it \<in> set items. \<forall>r t. tbl_lookup tr_id (it_id it) (td_tasks (po_db (ar_pool s))) = Some r \<longrightarrow> tr_status r = Done \<longrightarrow>
     archive_decode archive_schema it = Inr t \<longrightarrow> \<not> pending_at (at_path t) (ar_world s))"

lemma claim_items: "claim opts en i db = (db', c) \<Longrightarrow> td_items db' = td_items db"
  by (auto simp: claim_def Let_def split: option.splits)

lemma terminal_items: "writeTerminal patch marshal en i outcome db = (db', r) \<Longrightarrow> td_items db' = td_items db"
  using terminal_update by (fastforce simp: update_task_def)

lemma run_step_items:
  assumes "run_step opts user patch marshal storage deps s s'"
  shows "td_items (po_db (ar_pool s')) = td_items (po_db (ar_pool s))"
  using assms
proof cases
  case (run_beat p k i en)
  then show ?thesis using beat_update [of en patch marshal i None "po_db p"] by (auto simp: update_task_def)
qed (auto dest: claim_items terminal_items)

lemma update_task_items [simp]: "td_items (update_task i f db) = td_items db"
  by (simp add: update_task_def)

lemma update_task_ids: "(\<And>r. tr_id (f r) = tr_id r) \<Longrightarrow> map tr_id (td_tasks (update_task i f db)) = map tr_id (td_tasks db)"
  by (simp add: update_task_def tbl_update_def)

lemma run_step_ids:
  assumes "run_step opts user patch marshal storage deps s s'"
  shows "map tr_id (td_tasks (po_db (ar_pool s'))) = map tr_id (td_tasks (po_db (ar_pool s)))"
  using assms
proof cases
  case (run_take p k it rest en db c)
  have "map tr_id (td_tasks db) = map tr_id (td_tasks (po_db p))" using run_take(8) by (auto simp: claim_def Let_def split: option.splits)
  with run_take(1,2) show ?thesis by simp
next
  case (run_beat p k i en)
  from beat_update [of en patch marshal i None "po_db p"] obtain f where
    f: "\<And>r. tr_id (f r) = tr_id r" "beat patch marshal en i None (po_db p) = update_task i f (po_db p)" by blast
  with run_beat(1,2) update_task_ids [of f i "po_db p", OF f(1)] show ?thesis by simp
next
  case (run_finish p k it en2 en1 w outcome db r)
  have "map tr_id (td_tasks db) = map tr_id (td_tasks (po_db p))"
    using terminal_update [OF run_finish(8)] update_task_ids [of _ "it_id it" "po_db p"] by metis
  with run_finish(1,2) show ?thesis by simp
qed simp_all

lemma run_step_world:
  assumes "run_step opts user patch marshal storage deps s s'"
  shows "store_inv (aw_db (ar_world s)) \<Longrightarrow> store_inv (aw_db (ar_world s'))" "pending_at q (ar_world s') \<Longrightarrow> pending_at q (ar_world s)"
proof -
  have one: "store_inv (aw_db w') \<and> (pending_at q w' \<longrightarrow> pending_at q w)"
    if "run_item storage deps en it w = (w', outcome)" "store_inv (aw_db w)" for en it w w' outcome
  proof -
    have "\<exists>ops p. aw_db w' = aw_db w \<or> aw_db w' = aw_db (fst (archiveOne ops deps en p w))"
      using that(1) by (auto simp: run_item_def run_archive_task_def task_Run_def split: sum.splits option.splits prod.splits) (metis fst_conv)+
    then have "store_inv (aw_db w')" using archiveOne_db that(2) Mark_inv by metis
    with run_item_pending(1) [OF that(1)] show ?thesis by blast
  qed
  show "store_inv (aw_db (ar_world s)) \<Longrightarrow> store_inv (aw_db (ar_world s'))" using assms by cases (auto dest: one)
  show "pending_at q (ar_world s') \<Longrightarrow> pending_at q (ar_world s)"
    using assms by cases (auto simp: pending_at_def [of q "ar_world s\<lparr>aw_fs := _\<rparr>"] pending_at_def [of q "ar_world s"] dest: run_item_pending(1))
qed

lemma claim_done:
  assumes "claim opts en i db = (db', c)" "tbl_lookup tr_id j (td_tasks db') = Some r" "tr_status r = Done"
  shows "tbl_lookup tr_id j (td_tasks db) = Some r"
proof (cases c)
  case (Inl e)
  with assms(1,2) claim_cases(1) show ?thesis by metis
next
  case (Inr b)
  with claim_lookup [of opts en i db db' b j] assms show ?thesis
    by (cases "tbl_lookup tr_id j (td_tasks db)") (auto split: if_splits)
qed

lemma run_step_settled:
  assumes "run_step opts user patch marshal storage deps s s'" "settled items s"
    and "td_items (po_db (ar_pool s)) = items" "distinct (map it_id items)"
  shows "settled items s'"
  using assms(1)
proof cases
  case (run_take p k it rest en db c)
  with assms(2) claim_done [OF run_take(8)] show ?thesis by (simp add: settled_def)
next
  case (run_beat p k i en)
  from beat_update [of en patch marshal i None "po_db p"] obtain f where
    f: "\<And>r. tr_id (f r) = tr_id r" "\<And>r. tr_status (f r) = tr_status r" "beat patch marshal en i None (po_db p) = update_task i f (po_db p)" by blast
  with run_beat(1,2) assms(2) show ?thesis by (auto simp: settled_def f(3) update_task_lookup [OF f(1)])
next
  case (run_finish p k it en2 en1 w outcome db r)
  have "\<not> pending_at (at_path t) w"
    if that: "it' \<in> set items" "tbl_lookup tr_id (it_id it') (td_tasks db) = Some row" "tr_status row = Done" "archive_decode archive_schema it' = Inr t" for it' row t
    using terminal_done [OF run_finish(8) that(2,3)]
  proof
    assume "tbl_lookup tr_id (it_id it') (td_tasks (po_db p)) = Some row"
    with that assms(2) run_finish(2) have "\<not> pending_at (at_path t) (ar_world s)" by (auto simp: settled_def)
    with run_item_pending(1) [OF run_finish(7)] show ?thesis by blast
  next
    assume same: "it_id it' = it_id it \<and> (\<exists>x. outcome = Inr x)"
    then have "it' = it" using that(1) run_finish(2,5) assms(3,4) by (auto simp: distinct_map dest: inj_onD)
    with same that(4) run_item_pending(2) [OF run_finish(7)] show ?thesis by blast
  qed
  with run_finish(1) show ?thesis by (simp add: settled_def)
qed (use assms(2) in \<open>simp_all add: settled_def pending_at_def\<close>)

section \<open>A run without an error reaches every task\<close>

text \<open>
  While no error has been met, a task that is pending has not been fetched yet or is on its way to a worker, and a task
  that runs has a worker.
\<close>

definition on_course :: "'w ArchRun \<Rightarrow> bool" where
  "on_course s \<longleftrightarrow> (\<forall>i r. tbl_lookup tr_id i (td_tasks (po_db (ar_pool s))) = Some r \<longrightarrow> i \<in> it_id ` set (td_items (po_db (ar_pool s))) \<and>
     (ar_error s = None \<longrightarrow>
        (tr_status r = Pending \<longrightarrow> po_feeding (ar_pool s) \<and> map_of (po_seen (ar_pool s)) i = None \<or>
           i \<in> it_id ` set (po_emit (ar_pool s) @ po_queue (ar_pool s))) \<and>
        (tr_status r = Running \<longrightarrow> Some i \<in> set (po_workers (ar_pool s)))))"

lemma batch_loop_emits:
  assumes "(it, a) \<in> set rows" "map_of seen (it_id it) = None"
  shows "it_id it \<in> it_id ` set (fst (batch_loop rows seen))"
  using assms
proof (induction rows seen rule: batch_loop.induct)
  case (2 it' attempts rows seen)
  show ?case
  proof (cases "it_id it' = it_id it")
    case True
    with "2.prems"(2) show ?thesis by (simp split: prod.split)
  next
    case False
    then have rest: "(it, a) \<in> set rows" using "2.prems"(1) by auto
    have new: "map_of (AList.update (it_id it') attempts seen) (it_id it) = None" using "2.prems"(2) False by (simp add: update_conv')
    show ?thesis
    proof (cases "map_of seen (it_id it')")
      case None
      with "2.IH"(1) rest new show ?thesis by (auto split: prod.split)
    next
      case (Some prev)
      with "2.IH"(2,3) rest new "2.prems"(2) show ?thesis by (auto split: prod.split)
    qed
  qed
qed simp

lemma work_queue_pending:
  assumes "it \<in> set (td_items db)" "tbl_lookup tr_id (it_id it) (td_tasks db) = Some r" "tr_status r = Pending" "TrimSpace_empty (ro_where opts)"
  shows "(it, tr_attempts r) \<in> set (work_queue opts user now db)"
  using assms by (force simp: work_queue_def map_filter_def workQueueWhere_def eligible_def)

lemma on_course_fetch:
  assumes "on_course s" "TrimSpace_empty (ro_where opts)" "p = ar_pool s" "po_emit p = []"
    and "fetchBatch opts user en (po_seen p) (po_db p) = Inr (b, seen)"
  shows "on_course (s\<lparr>ar_pool := p\<lparr>po_emit := b, po_seen := seen, po_feeding := b \<noteq> []\<rparr>\<rparr>)"
proof -
  have b: "b = fst (batch_loop (work_queue opts user (env_now en) (po_db p)) (po_seen p))"
    using assms(5) by (auto simp: fetchBatch_def split: option.splits dest: arg_cong [of _ _ fst])
  have "i \<in> it_id ` set b" if "tbl_lookup tr_id i (td_tasks (po_db p)) = Some r" "tr_status r = Pending" "map_of (po_seen p) i = None" for i r
  proof -
    have "i \<in> it_id ` set (td_items (po_db p))" using assms(1,3) that(1) by (simp add: on_course_def)
    then obtain it where "it \<in> set (td_items (po_db p))" "i = it_id it" by blast
    with work_queue_pending [of it "po_db p" r opts user "env_now en"] batch_loop_emits [of it "tr_attempts r"] that assms(2) b show ?thesis by blast
  qed
  then have "tr_status r = Pending \<Longrightarrow> ar_error s = None \<Longrightarrow> i \<in> it_id ` set (b @ po_queue p)"
    if "tbl_lookup tr_id i (td_tasks (po_db p)) = Some r" for i r
    using assms(1) [unfolded on_course_def, rule_format, of i r, folded assms(3), OF that] that assms(4) by auto
  with assms(1,3) show ?thesis by (simp add: on_course_def)
qed

lemma on_course_take:
  assumes "on_course s" "p = ar_pool s" "tbl_inv tr_id (td_tasks (po_db p))" "k < length (po_workers p)" "po_workers p ! k = None" "po_queue p = it # rest"
    and "claim opts en (it_id it) (po_db p) = (db, c)"
  shows "on_course (s\<lparr>ar_pool := p\<lparr>po_db := db, po_queue := rest, po_workers := (po_workers p)[k := if c = Inr True then Some (it_id it) else None]\<rparr>,
    ar_error := note_error (ar_error s) c\<rparr>)"
proof (cases c)
  case (Inl e)
  then have "db = po_db p" using assms(7) claim_cases(1) by metis
  with assms(1,2) Inl show ?thesis by (auto simp: on_course_def note_error_def split: option.splits)
next
  case (Inr b)
  let ?ws = "(po_workers p)[k := if c = Inr True then Some (it_id it) else None]"
  have keep: "Some j \<in> set ?ws" if "Some j \<in> set (po_workers p)" for j
    using that assms(4,5) by (metis in_set_conv_nth length_list_update nth_list_update_neq option.distinct(1))
  have "i \<in> it_id ` set (td_items db) \<and> (ar_error s = None \<longrightarrow>
      (tr_status r' = Pending \<longrightarrow> po_feeding p \<and> map_of (po_seen p) i = None \<or> i \<in> it_id ` set (po_emit p @ rest)) \<and>
      (tr_status r' = Running \<longrightarrow> Some i \<in> set ?ws))" if look: "tbl_lookup tr_id i (td_tasks db) = Some r'" for i r'
  proof -
    from look claim_lookup [of opts en "it_id it" "po_db p" db b i] assms(7) Inr obtain r where
      r: "tbl_lookup tr_id i (td_tasks (po_db p)) = Some r" "r' = (if i = it_id it \<and> eligible opts (env_now en) r then claimed_row (env_now en) r else r)" by auto
    note old = assms(1) [unfolded on_course_def, rule_format, of i r, folded assms(2), OF r(1)]
    show ?thesis
    proof (cases "i = it_id it \<and> eligible opts (env_now en) r")
      case True
      have b using claim_true [of opts en "it_id it" "po_db p" db b] assms(3,7) Inr True r(1) by auto
      then have "Some i \<in> set ?ws" using True Inr assms(4) by (simp add: set_update_memI)
      with True r(2) old claim_items [OF assms(7)] show ?thesis by simp
    next
      case False
      then have "tr_status r = Pending \<Longrightarrow> i \<noteq> it_id it" by (auto simp: eligible_def)
      with False r(2) old assms(6) claim_items [OF assms(7)] keep show ?thesis by auto
    qed
  qed
  with assms(2) Inr show ?thesis by (auto simp: on_course_def note_error_def split: option.splits)
qed

lemma on_course_row:
  assumes "on_course s" "\<And>i r'. tbl_lookup tr_id i (td_tasks db) = Some r' \<Longrightarrow> \<exists>r. tbl_lookup tr_id i (td_tasks (po_db (ar_pool s))) = Some r \<and>
      (tr_status r' = Pending \<longrightarrow> tr_status r = Pending) \<and> (tr_status r' = Running \<and> ar_error s' = None \<longrightarrow> tr_status r = Running \<and> (Some i \<in> set (po_workers (ar_pool s)) \<longrightarrow> Some i \<in> set ws))"
    and "ar_pool s' = (ar_pool s)\<lparr>po_db := db, po_workers := ws\<rparr>" "td_items db = td_items (po_db (ar_pool s))" "ar_error s' = None \<Longrightarrow> ar_error s = None"
  shows "on_course s'"
  unfolding on_course_def
proof (intro allI impI conjI)
  fix i r'
  assume "tbl_lookup tr_id i (td_tasks (po_db (ar_pool s'))) = Some r'"
  then have look: "tbl_lookup tr_id i (td_tasks db) = Some r'" using assms(3) by simp
  from assms(2) [OF this] obtain r where r: "tbl_lookup tr_id i (td_tasks (po_db (ar_pool s))) = Some r" "tr_status r' = Pending \<longrightarrow> tr_status r = Pending"
    "tr_status r' = Running \<and> ar_error s' = None \<longrightarrow> tr_status r = Running \<and> (Some i \<in> set (po_workers (ar_pool s)) \<longrightarrow> Some i \<in> set ws)" by blast
  note old = assms(1) [unfolded on_course_def, rule_format, OF r(1)]
  show "i \<in> it_id ` set (td_items (po_db (ar_pool s')))" using old assms(3,4) by simp
  show "po_feeding (ar_pool s') \<and> map_of (po_seen (ar_pool s')) i = None \<or> i \<in> it_id ` set (po_emit (ar_pool s') @ po_queue (ar_pool s'))"
    if "ar_error s' = None" "tr_status r' = Pending" using that r(2) old assms(3,5) by simp
  show "Some i \<in> set (po_workers (ar_pool s'))" if "ar_error s' = None" "tr_status r' = Running" using that r(3) old assms(3,5) by simp
qed

lemma on_course_beat:
  assumes "on_course s" "p = ar_pool s"
  shows "on_course (s\<lparr>ar_pool := p\<lparr>po_db := beat patch marshal en i None (po_db p)\<rparr>\<rparr>)"
proof -
  from beat_update [of en patch marshal i None "po_db p"] obtain f where
    f: "\<And>r. tr_id (f r) = tr_id r" "\<And>r. tr_status (f r) = tr_status r" "beat patch marshal en i None (po_db p) = update_task i f (po_db p)" by blast
  have "on_course (s\<lparr>ar_pool := p\<lparr>po_db := update_task i f (po_db p), po_workers := po_workers p\<rparr>\<rparr>)"
    using f(2) by (intro on_course_row [OF assms(1), of "update_task i f (po_db p)" _ "po_workers p"]) (auto simp: assms(2) update_task_lookup [OF f(1)] split: if_splits)
  then show ?thesis by (simp add: f(3))
qed

lemma on_course_finish:
  assumes "on_course s" "p = ar_pool s" "k < length (po_workers p)" "po_workers p ! k = Some i" "writeTerminal patch marshal en i outcome (po_db p) = (db, r)"
  shows "on_course (s\<lparr>ar_pool := p\<lparr>po_db := db, po_workers := (po_workers p)[k := None]\<rparr>, ar_world := w, ar_error := note_error (ar_error s) r\<rparr>)"
proof -
  have keep: "Some j \<in> set ((po_workers p)[k := None])" if "Some j \<in> set (po_workers p)" "j \<noteq> i" for j
    using that assms(3,4) by (metis in_set_conv_nth length_list_update nth_list_update_neq option.inject)
  show ?thesis
  proof (cases "env_sql en SQL_UPDATE")
    case (Some m)
    with assms(5) have "db = po_db p" "isl r" by (auto simp: writeTerminal_def Let_def split: sum.splits option.splits)
    then show ?thesis
      by (intro on_course_row [OF assms(1), of db _ "(po_workers p)[k := None]"]) (auto simp: assms(2) note_error_def split: option.splits sum.splits)
  next
    case None
    with terminal_update [OF assms(5)] obtain f where
      f: "\<And>r. tr_id (f r) = tr_id r" "\<And>r. tr_status (f r) \<in> {Done, Failed}" "db = update_task i f (po_db p)" by auto
    have "tr_status (f r) \<noteq> Pending \<and> tr_status (f r) \<noteq> Running" for r using f(2) [of r] by auto
    then show ?thesis using keep
      by (intro on_course_row [OF assms(1), of db _ "(po_workers p)[k := None]"])
        (auto simp: assms(2) f(3) update_task_lookup [OF f(1)] note_error_def split: if_splits option.splits sum.splits, metis)
  qed
qed

lemma run_step_on_course:
  assumes "run_step opts user patch marshal storage deps s s'" "on_course s" "TrimSpace_empty (ro_where opts)" "tbl_inv tr_id (td_tasks (po_db (ar_pool s)))"
  shows "on_course s'"
  using assms(1)
proof cases
  case (run_fetch p en b seen)
  with on_course_fetch [OF assms(2,3) run_fetch(2,4,6)] show ?thesis by simp
next
  case (run_take p k it rest en db c)
  with on_course_take [OF assms(2) run_take(2) _ run_take(3,4,5,8)] assms(4) show ?thesis by simp
next
  case (run_beat p k i en)
  with on_course_beat [OF assms(2)] show ?thesis by simp
next
  case (run_finish p k it en2 en1 w outcome db r)
  with on_course_finish [OF assms(2) run_finish(2,3,4,8)] show ?thesis by simp
next
  case (run_missing_id p it rest)
  with assms(2) show ?thesis by (auto simp: on_course_def note_error_def split: option.splits)
qed (use assms(2) in \<open>auto simp: on_course_def\<close>)

lemma run_reachable_keeps:
  assumes "run_reachable opts user patch marshal storage deps db w s" "TrimSpace_empty (ro_where opts)"
    and "tbl_inv tr_id (td_tasks db)" "distinct (map it_id (td_items db))" "\<forall>r \<in> set (td_tasks db). tr_status r = Pending \<and> tr_id r \<in> it_id ` set (td_items db)"
  shows "td_items (po_db (ar_pool s)) = td_items db \<and> map tr_id (td_tasks (po_db (ar_pool s))) = map tr_id (td_tasks db) \<and>
    settled (td_items db) s \<and> on_course s \<and> (store_inv (aw_db w) \<longrightarrow> store_inv (aw_db (ar_world s))) \<and> (\<forall>q. pending_at q (ar_world s) \<longrightarrow> pending_at q w)"
  using assms(1)
proof (induction rule: run_reachable.induct)
  case (run_start now)
  have "r \<in> set (td_tasks db) \<and> tr_id r = i" if "tbl_lookup tr_id i (td_tasks db) = Some r" for i r using tbl_lookup_SomeD [OF that] by simp
  with assms(5) show ?case by (auto simp: start_run_def start_pool_def settled_def on_course_def) (metis TaskStatus.distinct)+
next
  case (run_next s s')
  then have inv: "tbl_inv tr_id (td_tasks (po_db (ar_pool s)))" using assms(3) by (simp add: tbl_inv_def)
  show ?case
    using run_next.IH run_step_items [OF run_next.hyps(2)] run_step_ids [OF run_next.hyps(2)] run_step_settled [OF run_next.hyps(2) _ _ assms(4)]
      run_step_on_course [OF run_next.hyps(2) _ assms(2) inv] run_step_world [OF run_next.hyps(2)] by auto
qed

text \<open>When the pool has drained without an error and no row has failed, every task of the plan has done its work.\<close>

lemma drained_run_settles:
  assumes "run_reachable opts user patch marshal storage deps db w s" "TrimSpace_empty (ro_where opts)"
    and "tbl_inv tr_id (td_tasks db)" "distinct (map it_id (td_items db))" "\<forall>r \<in> set (td_tasks db). tr_status r = Pending \<and> tr_id r \<in> it_id ` set (td_items db)"
    and "drained s" "ar_error s = None" "\<forall>r \<in> set (td_tasks (po_db (ar_pool s))). tr_status r \<noteq> Failed"
    and "it \<in> set (td_items db)" "it_id it \<in> tr_id ` set (td_tasks db)" "archive_decode archive_schema it = Inr t"
  shows "\<not> pending_at (at_path t) (ar_world s)"
proof -
  note keeps = run_reachable_keeps [OF assms(1-5)]
  have inv: "tbl_inv tr_id (td_tasks (po_db (ar_pool s)))" using keeps assms(3) by (simp add: tbl_inv_def)
  have "it_id it \<in> tr_id ` set (td_tasks (po_db (ar_pool s)))" using keeps assms(10) by (metis list.set_map)
  then obtain r where r: "r \<in> set (td_tasks (po_db (ar_pool s)))" "tr_id r = it_id it" by auto
  then have look: "tbl_lookup tr_id (it_id it) (td_tasks (po_db (ar_pool s))) = Some r" using tbl_lookup_in [OF inv] by metis
  have "tr_status r \<noteq> Pending" "tr_status r \<noteq> Running"
    using keeps look assms(6,7) unfolding on_course_def drained_def by auto
  with assms(8) r(1) have "tr_status r = Done" by (cases "tr_status r") auto
  with keeps look assms(9,11) show ?thesis by (auto simp: settled_def)
qed

section \<open>One schedule\<close>

text \<open>
  A pool of one worker that takes each row as soon as it is sent, with \<open>envs\<close> the environments of its statements and
  at most \<open>n\<close> passes of the feeder before the run is cancelled.
\<close>

fun work_batch :: "RunOptions \<Rightarrow> (string \<Rightarrow> string \<Rightarrow> string \<Rightarrow> string) \<Rightarrow> (archive_outcome \<Rightarrow> string res) \<Rightarrow> 'w ArchiveStorage option \<Rightarrow> ArchiveTaskDeps \<Rightarrow>
    env \<Rightarrow> field_value task_row item list \<Rightarrow> (field_value task_row TaskDB \<times> 'w ArchWorld) \<times> err option \<Rightarrow> (field_value task_row TaskDB \<times> 'w ArchWorld) \<times> err option" where
  "work_batch opts patch marshal storage deps en [] st = st"
| "work_batch opts patch marshal storage deps en (it # its) (st, er) =
     (case processRow opts patch marshal (archive_decode archive_schema) (run_archive_task storage deps en) en en it st of
        (st', r) \<Rightarrow> work_batch opts patch marshal storage deps en its (st', note_error er r))"

fun drain_passes :: "RunOptions \<Rightarrow> (field_value task_row item \<Rightarrow> TaskRow \<Rightarrow> bool) \<Rightarrow> (string \<Rightarrow> string \<Rightarrow> string \<Rightarrow> string) \<Rightarrow> (archive_outcome \<Rightarrow> string res) \<Rightarrow>
    'w ArchiveStorage option \<Rightarrow> ArchiveTaskDeps \<Rightarrow> env \<Rightarrow> nat \<Rightarrow> (string \<times> int) list \<Rightarrow> (field_value task_row TaskDB \<times> 'w ArchWorld) \<times> err option \<Rightarrow>
    (field_value task_row TaskDB \<times> 'w ArchWorld) \<times> err option" where
  "drain_passes opts user patch marshal storage deps en 0 seen (st, er) = (st, Some ctx_canceled)"
| "drain_passes opts user patch marshal storage deps en (Suc n) seen (st, er) =
     (case fetchBatch opts user en seen (fst st) of
        Inl e \<Rightarrow> (st, Some e)
      | Inr (b, seen') \<Rightarrow>
          if b = [] then (st, er)
          else drain_passes opts user patch marshal storage deps en n seen' (work_batch opts patch marshal storage deps en b (st, er)))"

definition world_of :: "fs \<Rightarrow> HubStore \<times> 'w \<Rightarrow> 'w ArchWorld" where
  "world_of f x = \<lparr>aw_db = fst x, aw_fs = f, aw_remote = snd x\<rparr>"

text \<open>What \<^verbatim>\<open>drain\<close> may return: the state in which some run of the machine has drained.\<close>

definition drain_result :: "RunOptions \<Rightarrow> (field_value task_row item \<Rightarrow> TaskRow \<Rightarrow> bool) \<Rightarrow> (string \<Rightarrow> string \<Rightarrow> string \<Rightarrow> string) \<Rightarrow> (archive_outcome \<Rightarrow> string res) \<Rightarrow>
    'w ArchiveStorage option \<Rightarrow> ArchiveTaskDeps \<Rightarrow> field_value task_row TaskDB \<times> fs \<times> HubStore \<times> 'w \<Rightarrow>
    (field_value task_row TaskDB \<times> fs \<times> HubStore \<times> 'w) \<times> err option \<Rightarrow> bool" where
  "drain_result opts user patch marshal storage deps st res \<longleftrightarrow>
     (case st of (db, f, x) \<Rightarrow> \<exists>s. run_reachable opts user patch marshal storage deps db (world_of f x) s \<and> drained s \<and>
        res = ((po_db (ar_pool s), aw_fs (ar_world s), aw_db (ar_world s), aw_remote (ar_world s)), ar_error s))"

definition seq_drain :: "(field_value task_row item \<Rightarrow> TaskRow \<Rightarrow> bool) \<Rightarrow> (string \<Rightarrow> string \<Rightarrow> string \<Rightarrow> string) \<Rightarrow> (archive_outcome \<Rightarrow> string res) \<Rightarrow> env \<Rightarrow> nat \<Rightarrow>
    'w ArchiveStorage option \<Rightarrow> ArchiveTaskDeps \<Rightarrow> RunOptions \<Rightarrow> field_value task_row TaskDB \<times> fs \<times> HubStore \<times> 'w \<Rightarrow>
    (field_value task_row TaskDB \<times> fs \<times> HubStore \<times> 'w) \<times> err option" where
  "seq_drain user patch marshal en n storage deps opts st =
     (case st of (db, f, x) \<Rightarrow>
      (case drain_passes opts user patch marshal storage deps en n [] ((db, world_of f x), None) of
         ((db', w), er) \<Rightarrow> ((db', aw_fs w, aw_db w, aw_remote w), er)))"

text \<open>The pool between two rows of a batch.\<close>

definition between :: "env \<Rightarrow> field_value task_row item list \<Rightarrow> (field_value task_row TaskDB \<times> 'w ArchWorld) \<times> err option \<Rightarrow> 'w ArchRun \<Rightarrow> bool" where
  "between en b st s \<longleftrightarrow> po_db (ar_pool s) = fst (fst st) \<and> ar_world s = snd (fst st) \<and> ar_error s = snd st \<and> po_emit (ar_pool s) = b \<and> po_queue (ar_pool s) = [] \<and>
     po_feeding (ar_pool s) \<and> (\<exists>m. po_workers (ar_pool s) = None # replicate m None) \<and> po_now (ar_pool s) = env_now en"

lemma note_error_ok [simp]: "note_error er (Inr x) = er"
  by (simp add: note_error_def split: option.split)

lemma between_row:
  assumes "run_reachable opts user patch marshal storage deps db0 w0 s" "between en (it # b) (st, er) s" "0 < ro_workers opts" "it \<in> set (td_items (fst st))"
    and "processRow opts patch marshal (archive_decode archive_schema) (run_archive_task storage deps en) en en it st = (st', r)"
  shows "\<exists>s'. run_reachable opts user patch marshal storage deps db0 w0 s' \<and> between en b (st', note_error er r) s' \<and> po_seen (ar_pool s') = po_seen (ar_pool s)"
proof -
  let ?p = "ar_pool s" and ?reach = "run_reachable opts user patch marshal storage deps db0 w0"
  obtain db w m where st: "st = (db, w)" and s: "po_db ?p = db" "ar_world s = w" "ar_error s = er" "po_emit ?p = it # b" "po_queue ?p = []" "po_feeding ?p"
    "po_workers ?p = None # replicate m None" "po_now ?p = env_now en" using assms(2) by (cases st) (auto simp: between_def)
  let ?p1 = "?p\<lparr>po_emit := b, po_queue := [it]\<rparr>"
  let ?s1 = "s\<lparr>ar_pool := ?p1\<rparr>"
  have r1: "?reach ?s1" using run_next [OF assms(1) run_send [OF refl s(4)]] s(5) assms(3) by simp
  show ?thesis
  proof (cases "it_id it = ''''")
    case True
    let ?s2 = "?s1\<lparr>ar_pool := ?p1\<lparr>po_queue := []\<rparr>, ar_error := note_error er (Inl (Error_string ''taskrunner: row missing id'') :: unit res)\<rparr>"
    have "?reach ?s2" using run_next [OF r1 run_missing_id [OF refl]] s True by simp
    moreover have "st' = st" "r = Inl (Error_string ''taskrunner: row missing id'')" using assms(5) True by (simp_all add: processRow_def st)
    ultimately show ?thesis using s st by (intro exI [of _ ?s2]) (simp add: between_def)
  next
    case False
    obtain db1 c where cl: "claim opts en (it_id it) db = (db1, c)" by fastforce
    let ?p2 = "?p1\<lparr>po_db := db1, po_queue := [], po_workers := (if c = Inr True then Some (it_id it) else None) # replicate m None\<rparr>"
    let ?s2 = "?s1\<lparr>ar_pool := ?p2, ar_error := note_error er c\<rparr>"
    have r2: "?reach ?s2" using run_next [OF r1 run_take [of ?p1 ?s1 0 it "[]" en opts db1 c]] s cl False by simp
    show ?thesis
    proof (cases "c = Inr True")
      case False
      then have "st' = (db1, w)" "note_error er r = note_error er c"
        using assms(5) cl \<open>it_id it \<noteq> ''''\<close> by (auto simp: processRow_def st note_error_def split: sum.splits bool.splits)
      with False r2 s show ?thesis by (intro exI [of _ ?s2]) (simp add: between_def)
    next
      case True
      obtain w' oc where run: "run_item storage deps en it w = (w', oc)" by fastforce
      obtain db2 r2 where wt: "writeTerminal patch marshal en (it_id it) oc db1 = (db2, r2)" by fastforce
      have res: "st' = (db2, w')" "r = r2"
        using assms(5) cl True False run wt by (auto simp: processRow_def st run_item_def split: sum.splits)
      let ?s3 = "?s2\<lparr>ar_pool := ?p2\<lparr>po_db := db2, po_workers := None # replicate m None\<rparr>, ar_world := w', ar_error := note_error er r\<rparr>"
      have "?reach ?s3" using run_next [OF r2 run_finish [of ?p2 ?s2 0 it en storage deps en w' oc patch marshal db2 r]] s True run wt res(2) assms(4)
          claim_items [OF cl] st by simp
      with s res show ?thesis by (intro exI [of _ ?s3]) (simp add: between_def)
    qed
  qed

qed

lemma processRow_items:
  assumes "processRow opts patch marshal dec run en1 en2 it st = (st', r)"
  shows "td_items (fst st') = td_items (fst st)"
proof -
  obtain db x where st: "st = (db, x)" by fastforce
  obtain db1 c where cl: "claim opts en1 (it_id it) db = (db1, c)" by fastforce
  obtain x' oc where task: "(case dec it of Inl e \<Rightarrow> (x, Inl (Wrap ''decode'' e)) | Inr t \<Rightarrow> run t x) = (x', oc)" by fastforce
  obtain db2 r2 where wt: "writeTerminal patch marshal en2 (it_id it) oc db1 = (db2, r2)" by fastforce
  have "fst st' \<in> {db, db1, db2}" using assms by (auto simp: processRow_def st cl task wt split: if_splits sum.splits bool.splits)
  with claim_items [OF cl] terminal_items [OF wt] show ?thesis by (auto simp: st)
qed

lemma between_batch:
  assumes "run_reachable opts user patch marshal storage deps db0 w0 s" "between en b (st, er) s" "0 < ro_workers opts" "set b \<subseteq> set (td_items (fst st))"
  shows "\<exists>s'. run_reachable opts user patch marshal storage deps db0 w0 s' \<and> between en [] (work_batch opts patch marshal storage deps en b (st, er)) s' \<and>
    po_seen (ar_pool s') = po_seen (ar_pool s)"
  using assms
proof (induction b arbitrary: s st er)
  case (Cons it b)
  obtain st' r where row: "processRow opts patch marshal (archive_decode archive_schema) (run_archive_task storage deps en) en en it st = (st', r)" by fastforce
  from between_row [OF Cons.prems(1-3) _ row] Cons.prems(4) obtain s1 where
    s1: "run_reachable opts user patch marshal storage deps db0 w0 s1" "between en b (st', note_error er r) s1" "po_seen (ar_pool s1) = po_seen (ar_pool s)" by auto
  from Cons.IH [OF s1(1,2) Cons.prems(3)] Cons.prems(4) processRow_items [OF row] s1(3) show ?case by (simp add: row)
qed auto

lemma fetchBatch_items:
  assumes "fetchBatch opts user en seen db = Inr (b, seen')"
  shows "set b \<subseteq> set (td_items db)"
proof -
  have sub: "set (fst (batch_loop rows seen)) \<subseteq> fst ` set rows" for rows :: "('a item \<times> int) list" and seen
    by (induction rows seen rule: batch_loop.induct) (auto split: option.splits prod.splits)
  have "b = fst (batch_loop (work_queue opts user (env_now en) db) seen)" using assms by (auto simp: fetchBatch_def split: option.splits dest: arg_cong [of _ _ fst])
  moreover have "fst ` set (work_queue opts user (env_now en) db) \<subseteq> set (td_items db)"
  proof
    fix it
    assume "it \<in> fst ` set (work_queue opts user (env_now en) db)"
    then obtain a where a: "(it, a) \<in> set (work_queue opts user (env_now en) db)" by auto
    let ?g = "\<lambda>it. case tbl_lookup tr_id (it_id it) (td_tasks db) of Some r \<Rightarrow> if workQueueWhere opts user (env_now en) it r then Some (it, tr_attempts r) else None | None \<Rightarrow> None"
    from a obtain it' where it': "it' \<in> set (td_items db)" "?g it' = Some (it, a)" by (auto simp: work_queue_def map_filter_def)
    then have "it' = it" by (simp split: option.splits if_splits)
    with it'(1) show "it \<in> set (td_items db)" by simp
  qed
  ultimately show ?thesis using sub by blast
qed

lemma drain_passes_run:
  assumes "run_reachable opts user patch marshal storage deps db0 w0 s" "between en [] (st, er) s" "0 < ro_workers opts"
  shows "\<exists>s'. run_reachable opts user patch marshal storage deps db0 w0 s' \<and> drained s' \<and>
    drain_passes opts user patch marshal storage deps en n (po_seen (ar_pool s)) (st, er) = ((po_db (ar_pool s'), ar_world s'), ar_error s')"
  using assms
proof (induction n arbitrary: s st er)
  case 0
  let ?s = "s\<lparr>ar_pool := (ar_pool s)\<lparr>po_emit := [], po_feeding := False\<rparr>, ar_error := Some ctx_canceled\<rparr>"
  have "run_reachable opts user patch marshal storage deps db0 w0 ?s" using run_next [OF "0.prems"(1) run_cancel] "0.prems"(2) by (simp add: between_def)
  with "0.prems"(2) show ?case by (intro exI [of _ ?s]) (auto simp: between_def drained_def)
next
  case (Suc n)
  let ?p = "ar_pool s"
  have p: "po_feeding ?p" "po_emit ?p = []" "env_now en = po_now ?p" "po_db ?p = fst st" using Suc.prems(2) by (auto simp: between_def)
  show ?case
  proof (cases "fetchBatch opts user en (po_seen ?p) (po_db ?p)")
    case (Inl e)
    let ?s = "s\<lparr>ar_pool := ?p\<lparr>po_feeding := False\<rparr>, ar_error := Some e\<rparr>"
    have "run_reachable opts user patch marshal storage deps db0 w0 ?s" using run_next [OF Suc.prems(1) run_fetch_error [OF refl p(1,2,3) Inl]] .
    with Suc.prems(2) Inl p(4) show ?thesis by (intro exI [of _ ?s]) (auto simp: between_def drained_def)
  next
    case (Inr bs)
    then obtain b seen where f: "fetchBatch opts user en (po_seen ?p) (po_db ?p) = Inr (b, seen)" by (cases bs) auto
    let ?s = "s\<lparr>ar_pool := ?p\<lparr>po_emit := b, po_seen := seen, po_feeding := b \<noteq> []\<rparr>\<rparr>"
    have r: "run_reachable opts user patch marshal storage deps db0 w0 ?s" using run_next [OF Suc.prems(1) run_fetch [OF refl p(1,2,3) f]] .
    show ?thesis
    proof (cases "b = []")
      case True
      with Suc.prems(2) f p(4) r show ?thesis by (intro exI [of _ ?s]) (auto simp: between_def drained_def)
    next
      case False
      then have "between en b (st, er) ?s" using Suc.prems(2) by (auto simp: between_def)
      from between_batch [OF r this Suc.prems(3)] fetchBatch_items [OF f] p(4) obtain s1 where
        s1: "run_reachable opts user patch marshal storage deps db0 w0 s1" "between en [] (work_batch opts patch marshal storage deps en b (st, er)) s1"
        "po_seen (ar_pool s1) = seen" by auto
      obtain st1 er1 where wb: "work_batch opts patch marshal storage deps en b (st, er) = (st1, er1)" by fastforce
      from Suc.IH [OF s1(1) s1(2) [unfolded wb] Suc.prems(3)] f False p(4) s1(3) wb show ?thesis by simp
    qed
  qed
qed

lemma seq_drain_result:
  assumes "0 < ro_workers opts"
  shows "drain_result opts user patch marshal storage deps st (seq_drain user patch marshal en n storage deps opts st)"
proof -
  obtain db f x where st: "st = (db, f, x)" by (metis surj_pair)
  let ?s = "start_run opts (env_now en) db (world_of f x)"
  obtain m where "nat (ro_workers opts) = Suc m" using assms by (cases "nat (ro_workers opts)") auto
  then have "between en [] ((db, world_of f x), None) ?s" by (simp add: between_def start_run_def start_pool_def)
  from drain_passes_run [OF run_start this assms, of user patch marshal storage deps n] obtain s' where
    "run_reachable opts user patch marshal storage deps db (world_of f x) s'" "drained s'"
    "drain_passes opts user patch marshal storage deps en n (po_seen (ar_pool ?s)) ((db, world_of f x), None) = ((po_db (ar_pool s'), ar_world s'), ar_error s')" by blast
  moreover have "po_seen (ar_pool ?s) = []" by (simp add: start_run_def start_pool_def)
  ultimately show ?thesis by (auto simp: drain_result_def seq_drain_def st)
qed

end
