(* ===== verification/Archive_Verb.thy ===== *)
theory Archive_Verb
  imports Archive_Tasks One_Shot
begin

text \<open>
  The command \<^verbatim>\<open>hubsync archive\<close> (\<^verbatim>\<open>cli/hubsync/archive.go\<close>): it takes the hub lock, scans the hub, plans the pending
  files into a task database when that has no plan yet, and drains the queue. The task database is the
  content of a file of the hub; what the worker pool does is a parameter that some run of the
  machine of \<open>Archive_Tasks\<close> has to explain.
\<close>

section \<open>Options\<close>

definition BindFlags :: RunOptions where
  "BindFlags = \<lparr>ro_db_path = [], ro_workers = 0, ro_where = '''', ro_max_attempts = 3, ro_stale = 30 * second, ro_heartbeat_every = 5 * second,
     ro_dry = False, ro_keep_db = False\<rparr>"

definition archivePrefix :: "'w oneShotStack \<Rightarrow> string" where
  "archivePrefix s = (case cf_archive (ss_config s) of None \<Rightarrow> '''' | Some a \<Rightarrow> ac_bucket_prefix a)"

definition archive_db_path :: "fpath \<Rightarrow> RunOptions \<Rightarrow> RunOptions" where
  "archive_db_path hubDir opts = (if ro_db_path opts = [] then opts\<lparr>ro_db_path := hubDir @ [''.hubsync'', ''archive.duckdb'']\<rparr> else opts)"

section \<open>The command\<close>

text \<open>
  What the command meets beside \<^typ>\<open>run_env\<close>: the number of processors, the time stamp of an archived task database,
  where the context is cancelled while planning, the encoders, and the worker pool.
\<close>

record 'w archive_env =
  ae_cpus :: int
  ae_stamp :: string
  ae_stop :: "nat option"
  ae_tyname :: "gotype \<Rightarrow> string"
  ae_marshal :: "field_value \<Rightarrow> string res"
  ae_time :: "field_value \<Rightarrow> string"
  ae_drain :: "'w ArchiveStorage option \<Rightarrow> ArchiveTaskDeps \<Rightarrow> RunOptions \<Rightarrow> field_value task_row TaskDB \<times> fs \<times> HubStore \<times> 'w \<Rightarrow>
    (field_value task_row TaskDB \<times> fs \<times> HubStore \<times> 'w) \<times> err option"

definition run_archive :: "run_env \<Rightarrow> 'w archive_env \<Rightarrow> RunOptions \<Rightarrow> fpath \<Rightarrow> 'w oneShotStack \<Rightarrow> field_value task_row TaskDB option \<Rightarrow> 'w ArchWorld \<Rightarrow>
    field_value task_row TaskDB option \<times> 'w ArchWorld \<times> Outcome" where
  "run_archive re ae opts hubDir stack file w =
     (let deps = \<lparr>dp_hasher = sc_hasher (ss_scanner stack), dp_hub_dir = hubDir, dp_prefix = archivePrefix stack\<rparr>;
          storage = map_option fst (ss_reconciler stack)
      in case Run (re_sql re) (re_now re) (Some (Inr (Some archive_task_type))) (archive_db_path hubDir opts) (ae_cpus ae)
                (\<lambda>schema x. runPlan (re_sql re) (ae_tyname ae) (archive_codec (ae_marshal ae) (ae_time ae)) schema (archive_List (ae_stop ae) (re_sql re) (fst x)))
                (\<lambda>schema. ae_drain ae storage deps) (ae_stamp ae) file (aw_fs w) (aw_db w, aw_remote w) of
           (file', f, (hs, rem), oc) \<Rightarrow> (file', \<lparr>aw_db = hs, aw_fs = f, aw_remote = rem\<rparr>, oc))"

definition cmdArchive :: "'w Setup \<Rightarrow> run_env \<Rightarrow> 'w archive_env \<Rightarrow> fpath \<Rightarrow> string list \<Rightarrow> RunOptions \<Rightarrow> field_value task_row TaskDB option \<Rightarrow> 'w Machine \<Rightarrow>
    'w Machine \<times> field_value task_row TaskDB option \<times> nat" where
  "cmdArchive su re ae cwd args opts file m =
     (if args \<noteq> [] then (m, file, 2)
      else case hubContext (aw_fs (mc_world m)) cwd of
        Inl _ \<Rightarrow> (m, file, 2)
      | Inr hc \<Rightarrow>
     (case acquireOneShot su (re_sql re) (re_now re) (re_flock re) (re_fd re) (hx_root hc) (\<not> ro_dry opts) m of
        (m1, Inl _) \<Rightarrow> (m1, file, 2)
      | (m1, Inr stack) \<Rightarrow>
     (let release = lock_Release (hx_root hc) (re_fd re) (mc_locks m1) in
      case scan_world su re (ss_scanner stack) (mc_world m1) of
        (w, Inl _) \<Rightarrow> (m1\<lparr>mc_world := w, mc_locks := release\<rparr>, file, 2)
      | (w, Inr _) \<Rightarrow>
          (case run_archive re ae opts (hx_root hc) stack file w of
             (file', w', oc) \<Rightarrow> (m1\<lparr>mc_world := w', mc_locks := release\<rparr>, file', exit_code (oc_error oc))))))"

section \<open>A clean run\<close>

lemma withDefaults_keeps: "ro_dry (withDefaults n opts) = ro_dry opts" "ro_where (withDefaults n opts) = ro_where opts"
  "0 < n \<Longrightarrow> 0 < ro_workers (withDefaults n opts)"
  by (simp_all add: withDefaults_def Let_def)

lemma Execute_clean:
  assumes "Execute opts n plan drain sql stamp (db, f, x) = ((db', f', x'), oc)" "oc_error oc = None" "\<not> ro_dry opts" "itemsEmpty no_faults db = Inr True"
  shows "\<exists>db1 f2 s. plan x db = (db1, Inr ()) \<and> drain (withDefaults n opts) (db1, f, x) = ((db', f2, x'), None) \<and>
    captureSummary no_faults db' = Inr s \<and> oc_summary oc = Some s"
proof -
  have "itemsEmpty sql db = Inr True" using assms(1,2,4) by (auto simp: Execute_def Let_def itemsEmpty_def stopped_def split: option.splits)
  moreover obtain db1 r where plan: "plan x db = (db1, r)" by fastforce
  moreover obtain db2 f2 x2 er where drain: "drain (withDefaults n opts) (db1, f, x) = ((db2, f2, x2), er)" by (metis surj_pair)
  moreover obtain f3 ar where arch: "archiveIfDrained (withDefaults n opts) sql stamp db2 f2 = (f3, ar)" by fastforce
  ultimately show ?thesis
    using assms(1-3)
    by (auto simp: Execute_def Let_def stopped_def withDefaults_keeps captureSummary_def split: sum.splits option.splits)
qed

lemma Run_clean:
  fixes plan :: "itemSchema \<Rightarrow> 'x \<Rightarrow> 'c TaskDB \<Rightarrow> 'c TaskDB \<times> unit res"
  assumes "Run sql now (Some (Inr sample)) opts n plan drain stamp None f x = (file', f', x', oc)" "oc_error oc = None" "\<not> ro_dry opts"
  shows "\<exists>schema db1 f1 db2 f2. inferItemSchema sample = Inr schema \<and> plan schema x \<lparr>td_item_cols = 0, td_items = [], td_tasks = []\<rparr> = (db1, Inr ()) \<and>
    drain schema (withDefaults n opts) (db1, f1, x) = ((db2, f2, x'), None) \<and> (\<forall>r \<in> set (td_tasks db2). tr_status r \<noteq> Failed) \<and> file' = Some db2"
proof -
  let ?db = "\<lparr>td_item_cols = 0, td_items = [], td_tasks = []\<rparr> :: 'c TaskDB"
  obtain f1 nr where new: "New sql now (Some (Inr sample)) opts (None :: 'c TaskDB option) f = (f1, nr)" by fastforce
  obtain schema where schema: "nr = Inr (?db, schema)" "inferItemSchema sample = Inr schema"
    using assms(1,2) new by (auto simp: Run_def New_def ensureTasksTable_def stopped_def setup_error_def split: sum.splits prod.splits option.splits if_splits)
  obtain db2 f2 x2 oc' where ex: "Execute opts n (plan schema) (drain schema) sql stamp (?db, f1, x) = ((db2, f2, x2), oc')" by (metis surj_pair)
  have oc: "x2 = x'" "file' = Some db2" "oc_error oc' = None" "\<And>s. oc_summary oc' = Some s \<Longrightarrow> \<not> 0 < sm_failed s"
    using assms(1,2) new schema(1) ex by (auto simp: Run_def split: option.splits if_splits)
  have empty: "itemsEmpty no_faults ?db = Inr True" by (simp add: itemsEmpty_def)
  from Execute_clean [OF ex oc(3) assms(3) empty] obtain db1 f3 s where run: "plan schema x ?db = (db1, Inr ())"
    "drain schema (withDefaults n opts) (db1, f1, x) = ((db2, f3, x2), None)" "captureSummary no_faults db2 = Inr s" "oc_summary oc' = Some s" by blast
  have "count_status Failed (td_tasks db2) \<le> 0" using run(3) oc(4) [OF run(4)] by (auto simp: captureSummary_def)
  then have "\<forall>r \<in> set (td_tasks db2). tr_status r \<noteq> Failed" by (auto simp: count_status_def filter_empty_conv)
  with schema(2) run(1,2) oc(1,2) show ?thesis by blast
qed

section \<open>The store\<close>

lemma append_changes_store_inv: "store_inv (hub_db h) \<Longrightarrow> store_inv (hub_db (fst (append_changes envs cs h)))"
proof (induction envs cs h rule: append_changes.induct)
  case (2 envs c cs h)
  obtain s r where app: "Append (envs 0) c (hub_db h) = (s, r)" by fastforce
  with Append_inv [OF "2.prems", of "envs 0" c] have "store_inv s" by simp
  with "2.IH" app show ?case by (cases r) (auto split: option.split)
qed simp

lemma scan_world_inv:
  assumes "scan_world su re sc w = (w', r)" "store_inv (aw_db w)"
  shows "store_inv (aw_db w')"
proof -
  let ?h = "\<lparr>hub_db = aw_db w, hub_bc = NewBroadcaster, hub_fs = aw_fs w\<rparr>"
  obtain h r' where scan: "FullScan (su_walk su) sc (re_sql re) (re_envs re) ?h = (h, r')" by fastforce
  then have "h = ?h \<or> (\<exists>cs. h = fst (append_changes (re_envs re) cs ?h))" by (auto simp: FullScan_def Let_def split: sum.splits) (metis fst_conv)+
  with append_changes_store_inv [of ?h "re_envs re"] assms(2) have "store_inv (hub_db h)" by auto
  with assms(1) scan show ?thesis by (auto simp: scan_world_def)
qed

lemma open_store_inv: "open_store sql now hubDir algo w = (w', r) \<Longrightarrow> store_inv (aw_db w) \<Longrightarrow> store_inv (aw_db w')"
  using ensureHashAlgo_inv [of "aw_db w" sql algo]
  by (auto simp: open_store_def NewHubStore_def initHubSchema_def Let_def split: prod.splits sum.splits)

lemma acquireOneShot_inv:
  assumes "acquireOneShot su sql now flock fd hubDir need m = (m', r)" "store_inv (aw_db (mc_world m))"
  shows "store_inv (aw_db (mc_world m'))"
proof -
  obtain f ls r0 where acq: "AcquireHubLock now flock fd hubDir (aw_fs (mc_world m), mc_locks m) = ((f, ls), r0)" by (metis surj_pair)
  obtain w r1 where st: "newOneShotStack su sql now hubDir need ((mc_world m)\<lparr>aw_fs := f\<rparr>) = (w, r1)" by fastforce
  have "aw_db w = aw_db (mc_world m) \<or> (\<exists>algo r2. open_store sql now hubDir algo ((mc_world m)\<lparr>aw_fs := f\<rparr>) = (w, r2))"
    using st by (auto simp: newOneShotStack_def Let_def split: sum.splits prod.splits if_splits option.splits)
  then have "store_inv (aw_db w)" using open_store_inv [of sql now hubDir _ "(mc_world m)\<lparr>aw_fs := f\<rparr>" w] assms(2) by auto
  with assms acq st show ?thesis by (cases r0; cases r1) (auto simp: acquireOneShot_def)
qed

section \<open>What a clean run has archived\<close>

lemma pending_planned:
  assumes "pending_at q w" "task_List sql (aw_db w) = Inr ts"
  shows "\<exists>t \<in> set ts. at_path t = q"
proof -
  from assms(1) obtain r where r: "r \<in> set (hub_entry (aw_db w))" "hr_path r = q" "pending_row r" by (auto simp: pending_at_def dest: tbl_lookup_SomeD)
  have "he_path (toEntry r) = q" using r(2) by (simp add: toEntry_def)
  moreover have "toEntry r \<in> set rows" if "PendingArchiveRows sql (aw_db w) = Inr rows" for rows
    using that r(1,3) by (auto simp: PendingArchiveRows_def pending_row_def split: option.splits)
  ultimately show ?thesis using assms(2) by (auto simp: task_List_def split: sum.splits) force
qed

lemma archive_plan_ready:
  assumes "runPlan sql tyname (archive_codec mar time) archive_schema (archive_List stop sql' hs) \<lparr>td_item_cols = 0, td_items = [], td_tasks = []\<rparr> = (db, Inr ())"
  shows "\<exists>ts. task_List sql' hs = Inr ts \<and> td_items db = map task_item ts \<and> distinct (map it_id (td_items db)) \<and> tbl_inv tr_id (td_tasks db) \<and>
    (\<forall>r \<in> set (td_tasks db). tr_status r = Pending \<and> tr_id r \<in> it_id ` set (td_items db)) \<and> it_id ` set (td_items db) \<subseteq> tr_id ` set (td_tasks db)"
proof -
  have empty: "itemsEmpty no_faults \<lparr>td_item_cols = 0, td_items = [], td_tasks = []\<rparr> = Inr True" by (simp add: itemsEmpty_def)
  from archive_plan_items [OF empty assms] obtain ts where
    ts: "task_List sql' hs = Inr ts" "td_items db = map task_item ts" "td_tasks db = seed_tasks (map task_item ts) []" "distinct (map it_id (td_items db))" by auto
  have "tbl_inv tr_id (td_tasks db)" unfolding ts(3) by (rule seed_tasks_inv) (simp add: tbl_inv_def)
  moreover have "tr_status r = Pending \<and> tr_id r \<in> it_id ` set (td_items db)" if "r \<in> set (td_tasks db)" for r
    using seed_tasks_new [of r "map task_item ts" "[]"] that ts(2,3) by (auto simp: new_task_def)
  moreover have "it_id ` set (td_items db) \<subseteq> tr_id ` set (td_tasks db)" using seed_tasks_all [of _ "map task_item ts" "[]"] ts(2,3) by auto
  ultimately show ?thesis using ts(1,2,4) by blast
qed

lemma run_archive_settles:
  assumes "run_archive re ae opts hubDir stack None w = (file', w', oc)" "oc_error oc = None" "\<not> ro_dry opts" "TrimSpace_empty (ro_where opts)" "0 < ae_cpus ae"
    and "\<forall>storage deps os st. 0 < ro_workers os \<longrightarrow> drain_result os user patch marshal storage deps st (ae_drain ae storage deps os st)"
    and "store_inv (aw_db w)"
  shows "store_inv (aw_db w') \<and> (\<forall>q. pending_at q w' \<longrightarrow> json_string q \<noteq> q)"
proof -
  let ?deps = "\<lparr>dp_hasher = sc_hasher (ss_scanner stack), dp_hub_dir = hubDir, dp_prefix = archivePrefix stack\<rparr>" and ?storage = "map_option fst (ss_reconciler stack)"
  let ?plan = "\<lambda>schema x. runPlan (re_sql re) (ae_tyname ae) (archive_codec (ae_marshal ae) (ae_time ae)) schema (archive_List (ae_stop ae) (re_sql re) (fst x))"
  let ?opts = "withDefaults (ae_cpus ae) (archive_db_path hubDir opts)"
  obtain f' hs rem where run: "Run (re_sql re) (re_now re) (Some (Inr (Some archive_task_type))) (archive_db_path hubDir opts) (ae_cpus ae) ?plan
      (\<lambda>schema. ae_drain ae ?storage ?deps) (ae_stamp ae) None (aw_fs w) (aw_db w, aw_remote w) = (file', f', (hs, rem), oc)"
    and w': "w' = \<lparr>aw_db = hs, aw_fs = f', aw_remote = rem\<rparr>" using assms(1) by (auto simp: run_archive_def Let_def split: prod.splits)
  have opt: "\<not> ro_dry (archive_db_path hubDir opts)" "TrimSpace_empty (ro_where ?opts)" "0 < ro_workers ?opts"
    using assms(3-5) by (simp_all add: archive_db_path_def withDefaults_keeps)
  from Run_clean [OF run assms(2) opt(1)] archive_schema_inferred obtain db1 f1 db2 f2 where
    db1: "?plan archive_schema (aw_db w, aw_remote w) \<lparr>td_item_cols = 0, td_items = [], td_tasks = []\<rparr> = (db1, Inr ())"
    and drain: "ae_drain ae ?storage ?deps ?opts (db1, f1, aw_db w, aw_remote w) = ((db2, f2, hs, rem), None)" "\<forall>r \<in> set (td_tasks db2). tr_status r \<noteq> Failed"
    by auto
  let ?w = "world_of f1 (aw_db w, aw_remote w)"
  from assms(6) opt(3) have "drain_result ?opts user patch marshal ?storage ?deps (db1, f1, aw_db w, aw_remote w) ((db2, f2, hs, rem), None)" unfolding drain(1) [symmetric] by blast
  then obtain s where s: "run_reachable ?opts user patch marshal ?storage ?deps db1 ?w s" "drained s" "ar_error s = None" "db2 = po_db (ar_pool s)" "hs = aw_db (ar_world s)"
    by (auto simp: drain_result_def)
  from archive_plan_ready [OF db1 [unfolded fst_conv]] obtain ts where ts: "task_List (re_sql re) (aw_db w) = Inr ts" "td_items db1 = map task_item ts" "distinct (map it_id (td_items db1))"
    "tbl_inv tr_id (td_tasks db1)" "\<forall>r \<in> set (td_tasks db1). tr_status r = Pending \<and> tr_id r \<in> it_id ` set (td_items db1)"
    "it_id ` set (td_items db1) \<subseteq> tr_id ` set (td_tasks db1)" by blast
  note keeps = run_reachable_keeps [OF s(1) opt(2) ts(4,3,5)]
  have at: "pending_at q w' \<longleftrightarrow> pending_at q (ar_world s)" "pending_at q ?w \<longleftrightarrow> pending_at q w" for q using s(5) w' by (simp_all add: pending_at_def world_of_def)
  have "json_string q \<noteq> q" if "pending_at q w'" for q
  proof
    assume valid: "json_string q = q"
    have "pending_at q w" using that keeps at by blast
    from pending_planned [OF this ts(1)] obtain t where t: "t \<in> set ts" "at_path t = q" by blast
    obtain t' where t': "archive_decode archive_schema (task_item t) = Inr t'" "at_path t' = q" using decode_task_item [of t] t(2) valid by auto
    have item: "task_item t \<in> set (td_items db1)" "it_id (task_item t) \<in> tr_id ` set (td_tasks db1)" using t(1) ts(2,6) by auto
    have "\<not> pending_at (at_path t') (ar_world s)"
      using drained_run_settles [OF s(1) opt(2) ts(4,3,5) s(2,3) _ item t'(1)] drain(2) s(4) by simp
    with t'(2) that at show False by simp
  qed
  with keeps assms(7) s(5) w' show ?thesis by (simp add: world_of_def)
qed

section \<open>Properties\<close>

text \<open>
  C7: The archive command does what its exit status says. When \<^verbatim>\<open>hubsync archive\<close>, started on a hub without a task
  database, neither dry nor restricted by \<^verbatim>\<open>--where\<close>, exits with 0, no file of the hub is waiting to be archived any
  more, whatever the interleaving of its workers, whatever failed and was retried on the way and whatever happened to
  the files meanwhile; only files whose names are not UTF-8 are left out.
\<close>

theorem archive_exit_zero_archives_everything:
  assumes "cmdArchive su re ae cwd args opts None m = (m', file', 0)" "\<not> ro_dry opts" "TrimSpace_empty (ro_where opts)" "0 < ae_cpus ae"
    and "\<forall>storage deps os st. 0 < ro_workers os \<longrightarrow> drain_result os user patch marshal storage deps st (ae_drain ae storage deps os st)"
    and "store_inv (aw_db (mc_world m))" "enqueuePending no_faults (aw_db (mc_world m')) = Inr ps"
  shows "\<forall>p \<in> set ps. json_string p \<noteq> p"
proof
  fix p
  assume "p \<in> set ps"
  obtain hc where hc: "hubContext (aw_fs (mc_world m)) cwd = Inr hc" using assms(1) by (auto simp: cmdArchive_def split: if_splits sum.splits)
  obtain m1 r where acq: "acquireOneShot su (re_sql re) (re_now re) (re_flock re) (re_fd re) (hx_root hc) (\<not> ro_dry opts) m = (m1, r)" by fastforce
  obtain stack where stack: "r = Inr stack" using assms(1) hc acq by (cases r) (auto simp: cmdArchive_def split: if_splits)
  obtain w s where scan: "scan_world su re (ss_scanner stack) (mc_world m1) = (w, s)" by fastforce
  obtain w' oc where run: "run_archive re ae opts (hx_root hc) stack None w = (file', w', oc)" "mc_world m' = w'" "exit_code (oc_error oc) = 0"
    using assms(1) hc acq stack scan by (cases s) (auto simp: cmdArchive_def Let_def split: if_splits prod.splits)
  have "oc_error oc = None" using run(3) by (auto simp: exit_code_def split: option.splits if_splits)
  moreover have "store_inv (aw_db w)" using acquireOneShot_inv [OF acq assms(6)] scan_world_inv [OF scan] by blast
  ultimately have end_state: "store_inv (aw_db w')" "\<And>q. pending_at q w' \<Longrightarrow> json_string q \<noteq> q"
    using run_archive_settles [OF run(1) _ assms(2-5)] by blast+
  from assms(7) \<open>p \<in> set ps\<close> obtain r where r: "r \<in> set (hub_entry (aw_db w'))" "pending_row r" "hr_path r = p" by (auto simp: enqueuePending_paths run(2))
  with end_state(1) have "pending_at p w'" using tbl_lookup_in [of hr_path "hub_entry (aw_db w')" r] by (auto simp: pending_at_def store_inv_def)
  with end_state(2) show "json_string p \<noteq> p" by blast
qed

definition ex_archive_env :: "FakeStorage archive_env" where
  "ex_archive_env = \<lparr>ae_cpus = 1, ae_stamp = ''t'', ae_stop = None, ae_tyname = (\<lambda>_. ''T''), ae_marshal = (\<lambda>_. Inr ''{}''), ae_time = (\<lambda>_. ''''),
     ae_drain = seq_drain (\<lambda>_ _. True) ex_patch (\<lambda>_. Inr ''{}'') (env_at 9) 5\<rparr>"

text \<open>A hub with the given files that has never been scanned.\<close>

definition ex_new_hub :: "string list \<Rightarrow> FakeStorage Machine" where
  "ex_new_hub names = \<lparr>mc_world = \<lparr>aw_db = empty_store, aw_fs = ex_hub_dir @ map (\<lambda>n. ([''hub'', n], NFile [1, 2] 420 7)) names,
     aw_remote = aw_remote ex_hub_world\<rparr>, mc_locks = []\<rparr>"

theorem archive_exit_zero_archives_everything_witness:
  "case cmdArchive ex_setup ex_run ex_archive_env [''hub''] [] BindFlags None (ex_new_hub [''a'', ''b'']) of
     (m, file, n) \<Rightarrow> n = 0 \<and> length (hub_entry (aw_db (mc_world m))) = 2 \<and> (\<forall>ps. enqueuePending no_faults (aw_db (mc_world m)) = Inr ps \<longrightarrow> (\<forall>p \<in> set ps. json_string p \<noteq> p))"
proof -
  let ?run = "cmdArchive ex_setup ex_run ex_archive_env [''hub''] [] BindFlags None (ex_new_hub [''a'', ''b''])"
  obtain m db n where run: "?run = (m, db, n)" by (metis surj_pair)
  have "case ?run of (m, file, n) \<Rightarrow> n = 0 \<and> length (hub_entry (aw_db (mc_world m))) = 2" by code_simp
  then have n: "n = 0" "length (hub_entry (aw_db (mc_world m))) = 2" unfolding run by simp_all
  have opts: "\<not> ro_dry BindFlags" "TrimSpace_empty (ro_where BindFlags)" "0 < ae_cpus ex_archive_env" by code_simp+
  have "\<forall>storage deps os st. 0 < ro_workers os \<longrightarrow>
      drain_result os (\<lambda>_ _. True) ex_patch (\<lambda>_. Inr ''{}'') storage deps st (ae_drain ex_archive_env storage deps os st)"
    by (simp add: ex_archive_env_def seq_drain_result)
  moreover have "store_inv (aw_db (mc_world (ex_new_hub [''a'', ''b''])))" by (simp add: ex_new_hub_def store_inv_empty)
  ultimately show ?thesis unfolding run using archive_exit_zero_archives_everything [OF run [unfolded n(1)] opts] n by simp
qed

text \<open>A file whose name is not UTF-8 is planned under its name, looked up under another one and skipped: the command exits with 0 and the file is still pending.\<close>

theorem undecodable_name_is_skipped:
  "case cmdArchive ex_setup ex_run ex_archive_env [''hub''] [] BindFlags None (ex_new_hub [[CHR 0xFF]]) of
     (m, file, n) \<Rightarrow> n = 0 \<and> enqueuePending no_faults (aw_db (mc_world m)) = Inr [[CHR 0xFF]] \<and> aw_remote (mc_world m) = aw_remote ex_hub_world"
  by code_simp

text \<open>
  A plan is never extended: when an interrupted run has left a task database, the scan of the next run records a new
  file, but only the old plan is worked off; the command exits with 0 and the new file is still pending.
\<close>

theorem resumed_plan_misses_new_file:
  "case cmdArchive ex_setup ex_run ex_archive_env [''hub''] [] BindFlags
       (Some \<lparr>td_item_cols = 5, td_items = [task_item \<lparr>at_id = ''a'', at_path = ''a'', at_size = 2, at_digest_hex = ''090102'', at_mtime = 7\<rparr>], td_tasks = [new_task ''a'']\<rparr>)
       (ex_new_hub [''a'', ''b'']) of
     (m, file, n) \<Rightarrow> n = 0 \<and> enqueuePending no_faults (aw_db (mc_world m)) = Inr [''b'']"
  by code_simp

end
