(* ===== verification/Command_Line.thy ===== *)
theory Command_Line
  imports Wiring Archive_Verb
begin

text \<open>
  The command line as a whole (\<^verbatim>\<open>cli/hubsync/main.go\<close>): Go's \<^verbatim>\<open>flag\<close> package, the flags of every verb, and \<^verbatim>\<open>main\<close>, which sends the
  arguments to a verb and ends with its exit status. A verb that keeps running, \<^verbatim>\<open>serve\<close> or \<^verbatim>\<open>client\<close>, is the value it starts
  its loops with. Printing is not modelled.
\<close>

section \<open>Numbers in flags\<close>

text \<open>\<^verbatim>\<open>strconv.ParseInt(s, 0, 64)\<close>: the prefix chooses the base, underscores may separate digits.\<close>

definition lower :: "char \<Rightarrow> char" where
  "lower c = (let n = of_char c :: nat in if 65 \<le> n \<and> n \<le> 90 then char_of (n + 32) else c)"

definition digit_value :: "char \<Rightarrow> nat option" where
  "digit_value c =
     (let n = of_char (lower c) :: nat in
      if is_digit c then Some (n - 48) else if 97 \<le> n \<and> n \<le> 122 then Some (n - 87) else None)"

fun read_base :: "nat \<Rightarrow> nat \<Rightarrow> string \<Rightarrow> nat option" where
  "read_base b acc [] = Some acc"
| "read_base b acc (c # cs) =
     (if c = CHR ''_'' then read_base b acc cs
      else (case digit_value c of
              Some d \<Rightarrow> if d < b then read_base b (acc * b + d) cs else None
            | None \<Rightarrow> None))"

definition base_prefix :: "string \<Rightarrow> nat \<times> string" where
  "base_prefix s =
     (if s \<noteq> '''' \<and> hd s = CHR ''0''
      then (if 3 \<le> length s \<and> lower (s ! 1) = CHR ''b'' then (2, drop 2 s)
            else if 3 \<le> length s \<and> lower (s ! 1) = CHR ''o'' then (8, drop 2 s)
            else if 3 \<le> length s \<and> lower (s ! 1) = CHR ''x'' then (16, drop 2 s)
            else (8, tl s))
      else (10, s))"

text \<open>An underscore stands between digits, or between a base prefix and a digit.\<close>

fun underscores :: "bool \<Rightarrow> char \<Rightarrow> string \<Rightarrow> bool" where
  "underscores hex prev [] \<longleftrightarrow> prev \<noteq> CHR ''_''"
| "underscores hex prev (c # cs) \<longleftrightarrow>
     (if is_digit c \<or> hex \<and> from_hex_char c \<noteq> None then underscores hex (CHR ''0'') cs
      else if c = CHR ''_'' then prev = CHR ''0'' \<and> underscores hex (CHR ''_'') cs
      else prev \<noteq> CHR ''_'' \<and> underscores hex (CHR ''!'') cs)"

definition underscoreOK :: "string \<Rightarrow> bool" where
  "underscoreOK s =
     (let u = (if s \<noteq> '''' \<and> (hd s = CHR ''-'' \<or> hd s = CHR ''+'') then tl s else s) in
      if 2 \<le> length u \<and> hd u = CHR ''0'' \<and> lower (u ! 1) \<in> {CHR ''b'', CHR ''o'', CHR ''x''}
      then underscores (lower (u ! 1) = CHR ''x'') (CHR ''0'') (drop 2 u)
      else underscores False (CHR ''^'') u)"

definition parse_int_flag :: "string \<Rightarrow> int res" where
  "parse_int_flag s =
     (let neg = HasPrefix s ''-'';
          u = (if neg \<or> HasPrefix s ''+'' then tl s else s);
          (b, ds) = base_prefix u
      in if u = '''' then Inl (Error_string ''parse error'')
         else (case read_base b 0 ds of
                 None \<Rightarrow> Inl (Error_string ''parse error'')
               | Some n \<Rightarrow>
                   let v = (if neg then - int n else int n) in
                   if CHR ''_'' \<in> set u \<and> \<not> underscoreOK u then Inl (Error_string ''parse error'')
                   else if v < - (2 ^ 63) \<or> 2 ^ 63 - 1 < v then Inl (Error_string ''value out of range'')
                   else Inr v))"

definition parse_bool :: "string \<Rightarrow> bool res" where
  "parse_bool s =
     (if s \<in> set [''1'', ''t'', ''T'', ''TRUE'', ''true'', ''True''] then Inr True
      else if s \<in> set [''0'', ''f'', ''F'', ''FALSE'', ''false'', ''False''] then Inr False
      else Inl (Error_string ''parse error''))"

section \<open>The flag package\<close>

datatype flag_value = FBool bool | FString string | FInt int | FDuration int

type_synonym flags = "(string \<times> flag_value) list"

text \<open>\<open>dur\<close> is \<^verbatim>\<open>time.ParseDuration\<close>, in nanoseconds.\<close>

fun flag_Set :: "(string \<Rightarrow> int res) \<Rightarrow> flag_value \<Rightarrow> string \<Rightarrow> flag_value res" where
  "flag_Set dur (FBool _) s = map_sum id FBool (parse_bool s)"
| "flag_Set dur (FString _) s = Inr (FString s)"
| "flag_Set dur (FInt _) s = map_sum id FInt (parse_int_flag s)"
| "flag_Set dur (FDuration _) s = map_sum id FDuration (dur s)"

definition is_bool :: "flag_value \<Rightarrow> bool" where
  "is_bool v = (case v of FBool _ \<Rightarrow> True | _ \<Rightarrow> False)"

text \<open>The first equals sign, if it is not the first character, ends the name.\<close>

definition split_value :: "string \<Rightarrow> string \<times> string option" where
  "split_value name =
     (let rest = dropWhile (\<lambda>c. c \<noteq> CHR ''='') (tl name) in
      if rest = '''' then (name, None) else (hd name # takeWhile (\<lambda>c. c \<noteq> CHR ''='') (tl name), Some (tl rest)))"

definition no_flag :: "string \<Rightarrow> bool" where
  "no_flag s \<longleftrightarrow> length s < 2 \<or> hd s \<noteq> CHR ''-''"

definition flag_name :: "string \<Rightarrow> string" where
  "flag_name s = drop (if s ! 1 = CHR ''-'' then 2 else 1) s"

datatype parse_result = Parsed flags "string list" | ParseHelp | ParseFail string

text \<open>
  \<^verbatim>\<open>FlagSet.Parse\<close>: flags are read up to the first argument that is none, or up to two dashes. A flag that is not boolean
  takes its value from the text after the equals sign or from the next argument, whatever that is.
\<close>

definition flag_argument :: "flag_value \<Rightarrow> string option \<Rightarrow> string list \<Rightarrow> (string \<times> string list) option" where
  "flag_argument v value args =
     (case value of
        Some t \<Rightarrow> Some (t, args)
      | None \<Rightarrow> if is_bool v then Some (''true'', args) else (case args of [] \<Rightarrow> None | t # rest \<Rightarrow> Some (t, rest)))"

lemma flag_argument_rest: "flag_argument v value args = Some (t, rest) \<Longrightarrow> length rest \<le> length args"
  by (auto simp: flag_argument_def split: option.splits if_splits list.splits)

function (sequential) Parse :: "(string \<Rightarrow> int res) \<Rightarrow> flags \<Rightarrow> string list \<Rightarrow> parse_result" where
  "Parse dur fs [] = Parsed fs []"
| "Parse dur fs (s # args) =
     (if no_flag s then Parsed fs (s # args)
      else if s = ''--'' then Parsed fs args
      else if flag_name s = '''' \<or> hd (flag_name s) \<in> {CHR ''-'', CHR ''=''} then ParseFail (''bad flag syntax: '' @ s)
      else (case split_value (flag_name s) of (name, value) \<Rightarrow>
        (case map_of fs name of
           None \<Rightarrow> if name = ''help'' \<or> name = ''h'' then ParseHelp else ParseFail (''flag provided but not defined: -'' @ name)
         | Some v \<Rightarrow>
             (case flag_argument v value args of
                None \<Rightarrow> ParseFail (''flag needs an argument: -'' @ name)
              | Some (t, rest) \<Rightarrow>
                  (case flag_Set dur v t of
                     Inl e \<Rightarrow> ParseFail (''invalid '' @ (if is_bool v then ''boolean value '' else ''value '') @ fmt_q t @
                       (if is_bool v then '' for -'' else '' for flag -'') @ name @ '': '' @ err_str e)
                   | Inr v' \<Rightarrow> Parse dur (AList.update name v' fs) rest)))))"
  by pat_completeness auto
termination
  by (relation "measure (\<lambda>(dur, fs, args). length args)") (auto dest: flag_argument_rest)

definition bool_flag :: "flags \<Rightarrow> string \<Rightarrow> bool" where
  "bool_flag fs name = (case map_of fs name of Some (FBool b) \<Rightarrow> b | _ \<Rightarrow> False)"

definition string_flag :: "flags \<Rightarrow> string \<Rightarrow> string" where
  "string_flag fs name = (case map_of fs name of Some (FString t) \<Rightarrow> t | _ \<Rightarrow> '''')"

definition int_flag :: "flags \<Rightarrow> string \<Rightarrow> int" where
  "int_flag fs name = (case map_of fs name of Some (FInt n) \<Rightarrow> n | Some (FDuration n) \<Rightarrow> n | _ \<Rightarrow> 0)"

section \<open>The verbs\<close>

text \<open>
  What a process is given by its surroundings beside its arguments. The other end of the control socket is given
  by \<open>ve_send\<close> and \<open>ve_status\<close>, the embedded template by \<open>ve_template\<close>.
\<close>

record 'w verb_env =
  ve_setup :: "'w Setup"
  ve_run :: run_env
  ve_archive :: "'w archive_env"
  ve_cwd :: fpath
  ve_dial :: bool
  ve_send :: "string \<Rightarrow> string \<Rightarrow> PinRequest \<Rightarrow> 'w ArchWorld \<Rightarrow> 'w ArchWorld \<times> PinResult list reply"
  ve_status :: "string \<Rightarrow> string \<Rightarrow> StatusResponse reply"
  ve_template :: bytes
  ve_watcher :: "fpath \<Rightarrow> unit res"
  ve_duration :: "string \<Rightarrow> int res"
  ve_client_sql :: "err option"

text \<open>The machine with the task database and the client database of the directory, when they exist.\<close>

record 'w Host =
  ho_machine :: "'w Machine"
  ho_tasks :: "field_value task_row TaskDB option"
  ho_client :: "ClientStore option"

datatype 'w process = Exited nat | Serving "'w HubApp" | Syncing "Client \<times> int" | Catching_up "Client \<times> int"

text \<open>With \<^verbatim>\<open>flag.ExitOnError\<close> a request for help ends the process with 0, any other error with 2.\<close>

definition with_flags :: "'w verb_env \<Rightarrow> flags \<Rightarrow> string list \<Rightarrow> (flags \<Rightarrow> string list \<Rightarrow> 'w Host \<Rightarrow> 'w Host \<times> 'w process) \<Rightarrow> 'w Host \<Rightarrow> 'w Host \<times> 'w process" where
  "with_flags ve fs args run ho =
     (case Parse (ve_duration ve) fs args of
        Parsed fs' rest \<Rightarrow> run fs' rest ho
      | ParseHelp \<Rightarrow> (ho, Exited 0)
      | ParseFail _ \<Rightarrow> (ho, Exited 2))"

definition host_fs :: "'w Host \<Rightarrow> fs" where
  "host_fs ho = aw_fs (mc_world (ho_machine ho))"

definition set_host_fs :: "fs \<Rightarrow> 'w Host \<Rightarrow> 'w Host" where
  "set_host_fs f ho = ho\<lparr>ho_machine := (ho_machine ho)\<lparr>mc_world := (mc_world (ho_machine ho))\<lparr>aw_fs := f\<rparr>\<rparr>\<rparr>"

text \<open>The meaning of a path given on the command line.\<close>

definition abs_arg :: "fpath \<Rightarrow> string \<Rightarrow> fpath" where
  "abs_arg cwd p = (if HasPrefix p ''/'' then filepath_Join [] p else filepath_Join cwd p)"

definition token_of :: "'w verb_env \<Rightarrow> string" where
  "token_of ve = su_getenv (ve_setup ve) ''HUBSYNC_TOKEN''"

definition verb_init :: "'w verb_env \<Rightarrow> string list \<Rightarrow> 'w Host \<Rightarrow> 'w Host \<times> 'w process" where
  "verb_init ve args = with_flags ve [] args (\<lambda>fs rest ho.
     if 1 < length rest then (ho, Exited 2)
     else (case runInit (ve_template ve) (re_now (ve_run ve)) (ve_cwd ve) (if rest = [] then ''.'' else hd rest) (host_fs ho) of
             (f, Inl _) \<Rightarrow> (set_host_fs f ho, Exited 1)
           | (f, Inr _) \<Rightarrow> (set_host_fs f ho, Exited 0)))"

definition serve_flags :: flags where
  "serve_flags = [(''listen'', FString ''127.0.0.1:8080''), (''db'', FString '''')]"

definition verb_serve :: "'w verb_env \<Rightarrow> string list \<Rightarrow> 'w Host \<Rightarrow> 'w Host \<times> 'w process" where
  "verb_serve ve args = with_flags ve serve_flags args (\<lambda>fs rest ho.
     let db = string_flag fs ''db'' in
     case cmdServe (ve_setup ve) (ve_watcher ve) (ve_run ve) (ve_cwd ve) (string_flag fs ''listen'')
            (if db = '''' then None else Some (abs_arg (ve_cwd ve) db)) (ho_machine ho) of
       (m, Inr app) \<Rightarrow> (ho\<lparr>ho_machine := m\<rparr>, Serving app)
     | (m, Inl _) \<Rightarrow> (ho\<lparr>ho_machine := m\<rparr>, Exited (if isl (hubContext (host_fs ho) (ve_cwd ve)) then 2 else 1)))"

definition client_flag_set :: flags where
  "client_flag_set = [(''hub'', FString ''''), (''db'', FString ''''), (''mode'', FString ''read''), (''scan-interval'', FString ''5s''), (''once'', FBool False)]"

text \<open>\<^verbatim>\<open>OpenClientStore\<close>: the file of the database is created when there is none; \<open>exec\<close> is an error of creating the tables.\<close>

definition OpenClientStore :: "int \<Rightarrow> err option \<Rightarrow> fpath \<Rightarrow> ClientStore option \<Rightarrow> fs \<Rightarrow> fs \<times> ClientStore res" where
  "OpenClientStore now exec db st f =
     (case open_create now db f of
        (f', Inl e) \<Rightarrow> (f', Inl e)
      | (f', Inr _) \<Rightarrow> (f', case exec of Some e \<Rightarrow> Inl e | None \<Rightarrow> Inr (initClientSchema st)))"

definition InitializeClientApp :: "int \<Rightarrow> err option \<Rightarrow> (string \<Rightarrow> int res) \<Rightarrow> fpath \<Rightarrow> ClientConfig \<Rightarrow> ClientStore option \<Rightarrow> fs \<Rightarrow> fs \<times> (Client \<times> int) res" where
  "InitializeClientApp now exec dur db cfg st f =
     (case OpenClientStore now exec db st f of
        (f', Inl e) \<Rightarrow> (f', Inl e)
      | (f', Inr store) \<Rightarrow> (f', Inr (ProvideClient (\<lambda>t. case dur t of Inr d \<Rightarrow> d | Inl _ \<Rightarrow> 0) store cfg f')))"

definition verb_client :: "'w verb_env \<Rightarrow> string list \<Rightarrow> 'w Host \<Rightarrow> 'w Host \<times> 'w process" where
  "verb_client ve args = with_flags ve client_flag_set args (\<lambda>fs rest ho.
     case client_flags (string_flag fs ''hub'') (string_flag fs ''mode'') (bool_flag fs ''once'') of
       Inl _ \<Rightarrow> (ho, Exited 1)
     | Inr _ \<Rightarrow>
     (case hubContext (host_fs ho) (ve_cwd ve) of
        Inl _ \<Rightarrow> (ho, Exited 2)
      | Inr hc \<Rightarrow>
          let flag_db = string_flag fs ''db'';
              db = (if flag_db = '''' then hx_root hc @ [''.hubsync'', ''client.db''] else abs_arg (ve_cwd ve) flag_db)
          in (case os_MkdirAll (filepath_Dir db) (host_fs ho) of
                (f, Inl _) \<Rightarrow> (set_host_fs f ho, Exited 1)
              | (f, Inr _) \<Rightarrow>
                  (case InitializeClientApp (re_now (ve_run ve)) (ve_client_sql ve) (ve_duration ve) db
                          \<lparr>ci_hub_url = string_flag fs ''hub'', ci_token = token_of ve, ci_sync_dir = hx_root hc,
                           ci_mode = string_flag fs ''mode'', ci_scan_interval = string_flag fs ''scan-interval''\<rparr> (ho_client ho) f of
                     (f', Inl _) \<Rightarrow> (set_host_fs f' ho, Exited 1)
                   | (f', Inr c) \<Rightarrow> (set_host_fs f' (ho\<lparr>ho_client := Some (cl_store (fst c))\<rparr>), if bool_flag fs ''once'' then Catching_up c else Syncing c)))))"

definition archive_flags :: flags where
  "archive_flags =
     [(''resume'', FString ''''), (''where'', FString ''''), (''dry'', FBool False), (''workers'', FInt (ro_workers BindFlags)),
      (''max-attempts'', FInt (ro_max_attempts BindFlags)), (''stale'', FDuration (ro_stale BindFlags)),
      (''heartbeat'', FDuration (ro_heartbeat_every BindFlags)), (''keep-db'', FBool False)]"

text \<open>An empty \<open>ro_db_path\<close> is the flag left out; the root directory is no task database.\<close>

definition archive_options :: "fpath \<Rightarrow> flags \<Rightarrow> RunOptions" where
  "archive_options cwd fs =
     \<lparr>ro_db_path = (let p = string_flag fs ''resume'' in if p = '''' then [] else abs_arg cwd p), ro_workers = int_flag fs ''workers'',
      ro_where = string_flag fs ''where'', ro_max_attempts = int_flag fs ''max-attempts'', ro_stale = int_flag fs ''stale'',
      ro_heartbeat_every = int_flag fs ''heartbeat'', ro_dry = bool_flag fs ''dry'', ro_keep_db = bool_flag fs ''keep-db''\<rparr>"

definition verb_archive :: "'w verb_env \<Rightarrow> string list \<Rightarrow> 'w Host \<Rightarrow> 'w Host \<times> 'w process" where
  "verb_archive ve args = with_flags ve archive_flags args (\<lambda>fs rest ho.
     case cmdArchive (ve_setup ve) (ve_run ve) (ve_archive ve) (ve_cwd ve) rest (archive_options (ve_cwd ve) fs) (ho_tasks ho) (ho_machine ho) of
       (m, tasks, code) \<Rightarrow> (ho\<lparr>ho_machine := m, ho_tasks := tasks\<rparr>, Exited code))"

text \<open>\<^verbatim>\<open>taskrunner.Main\<close>, for a program of its own around a factory; arguments behind the flags are ignored.\<close>

definition taskrunner_Main :: "(string \<Rightarrow> int res) \<Rightarrow> fpath \<Rightarrow> (RunOptions \<Rightarrow> 's \<Rightarrow> 's \<times> Outcome) \<Rightarrow> string list \<Rightarrow> 's \<Rightarrow> 's \<times> nat" where
  "taskrunner_Main dur cwd run args s =
     (case Parse dur archive_flags args of
        ParseHelp \<Rightarrow> (s, 0)
      | ParseFail _ \<Rightarrow> (s, 2)
      | Parsed fs rest \<Rightarrow> (case run (archive_options cwd fs) s of (s', oc) \<Rightarrow> (s', exit_code (oc_error oc))))"

definition dry_flags :: flags where "dry_flags = [(''dry'', FBool False)]"

definition set_world :: "'w ArchWorld \<Rightarrow> 'w Host \<Rightarrow> 'w Host" where
  "set_world w ho = ho\<lparr>ho_machine := (ho_machine ho)\<lparr>mc_world := w\<rparr>\<rparr>"

definition verb_archive_gc :: "'w verb_env \<Rightarrow> string list \<Rightarrow> 'w Host \<Rightarrow> 'w Host \<times> 'w process" where
  "verb_archive_gc ve args = with_flags ve dry_flags args (\<lambda>fs rest ho.
     if 1 < length rest then (ho, Exited 2)
     else (case cmdArchiveGC (ve_setup ve) (re_sql (ve_run ve)) (ve_cwd ve) (if rest = [] then ''.'' else hd rest) (bool_flag fs ''dry'') (mc_world (ho_machine ho)) of
             (w, code) \<Rightarrow> (set_world w ho, Exited code)))"

definition verb_pin :: "'w verb_env \<Rightarrow> TargetState \<Rightarrow> string list \<Rightarrow> 'w Host \<Rightarrow> 'w Host \<times> 'w process" where
  "verb_pin ve target args = with_flags ve dry_flags args (\<lambda>fs rest ho.
     case cmdPin (ve_setup ve) (ve_run ve) (ve_dial ve) (token_of ve) (ve_send ve) (ve_cwd ve) rest (bool_flag fs ''dry'') target (ho_machine ho) of
       (m, code) \<Rightarrow> (ho\<lparr>ho_machine := m\<rparr>, Exited code))"

text \<open>The errors of \<^verbatim>\<open>ls\<close> before the query end the process with 2.\<close>

definition ls_starts :: "fpath \<Rightarrow> string \<Rightarrow> 'w ArchWorld \<Rightarrow> bool" where
  "ls_starts cwd arg w =
     (case hubContext (aw_fs w) cwd of
        Inl _ \<Rightarrow> False
      | Inr hc \<Rightarrow> \<not> isl (resolvePrefix hc arg) \<and> \<not> isl (openHubStoreRO (hx_root hc) w))"

definition verb_ls :: "'w verb_env \<Rightarrow> string list \<Rightarrow> 'w Host \<Rightarrow> 'w Host \<times> 'w process" where
  "verb_ls ve args = with_flags ve [(''all'', FBool False)] args (\<lambda>fs rest ho.
     if 1 < length rest then (ho, Exited 2)
     else let arg = (if rest = [] then ''.'' else hd rest); w = mc_world (ho_machine ho) in
       (ho, Exited (case cmdLs (re_sql (ve_run ve)) (ve_cwd ve) arg (bool_flag fs ''all'') w of
                      Inr _ \<Rightarrow> 0 | Inl _ \<Rightarrow> if ls_starts (ve_cwd ve) arg w then 1 else 2)))"

definition verb_status :: "'w verb_env \<Rightarrow> string list \<Rightarrow> 'w Host \<Rightarrow> 'w Host \<times> 'w process" where
  "verb_status ve args = with_flags ve [(''json'', FBool False)] args (\<lambda>fs rest ho.
     case hubContext (host_fs ho) (ve_cwd ve) of
       Inl _ \<Rightarrow> (ho, Exited 2)
     | Inr hc \<Rightarrow>
         (ho, Exited (if isl (fetchStatus (re_sql (ve_run ve)) (ve_dial ve) (token_of ve) (ve_status ve) (hx_root hc) (mc_world (ho_machine ho))) then 1 else 0)))"

text \<open>\<open>argv\<close> are the arguments after the name of the program.\<close>

definition main :: "'w verb_env \<Rightarrow> string list \<Rightarrow> 'w Host \<Rightarrow> 'w Host \<times> 'w process" where
  "main ve argv ho =
     (case argv of
        [] \<Rightarrow> (ho, Exited 1)
      | verb # args \<Rightarrow>
          if verb = ''init'' then verb_init ve args ho
          else if verb = ''serve'' then verb_serve ve args ho
          else if verb = ''client'' then verb_client ve args ho
          else if verb = ''archive'' then verb_archive ve args ho
          else if verb = ''archive-gc'' then verb_archive_gc ve args ho
          else if verb = ''pin'' then verb_pin ve TargetArchived args ho
          else if verb = ''unpin'' then verb_pin ve TargetUnpinned args ho
          else if verb = ''ls'' then verb_ls ve args ho
          else if verb = ''status'' then verb_status ve args ho
          else (ho, Exited 1))"

section \<open>Flags that are given\<close>

text \<open>Flags written with a dash and an equals sign, and closed by two dashes, are read as they are meant, and what follows is left alone.\<close>

definition spelled :: "string \<times> string \<Rightarrow> string" where
  "spelled a = CHR ''-'' # fst a @ CHR ''='' # snd a"

definition flag_word :: "string \<Rightarrow> bool" where
  "flag_word n \<longleftrightarrow> n \<noteq> '''' \<and> hd n \<noteq> CHR ''-'' \<and> CHR ''='' \<notin> set n"

fun assign :: "(string \<Rightarrow> int res) \<Rightarrow> (string \<times> string) list \<Rightarrow> flags \<Rightarrow> flags option" where
  "assign dur [] fs = Some fs"
| "assign dur ((n, t) # as) fs =
     (case map_of fs n of
        None \<Rightarrow> None
      | Some v \<Rightarrow> (case flag_Set dur v t of Inl _ \<Rightarrow> None | Inr v' \<Rightarrow> assign dur as (AList.update n v' fs)))"

lemma split_value_spelled:
  assumes "flag_word n"
  shows "split_value (n @ CHR ''='' # t) = (n, Some t)"
proof -
  obtain c cs where n: "n = c # cs" using assms by (cases n) (auto simp: flag_word_def)
  with assms have "CHR ''='' \<notin> set cs" by (simp add: flag_word_def)
  then have "dropWhile (\<lambda>c. c \<noteq> CHR ''='') (cs @ CHR ''='' # t) = CHR ''='' # t" "takeWhile (\<lambda>c. c \<noteq> CHR ''='') (cs @ CHR ''='' # t) = cs"
    by (induction cs) auto
  with n show ?thesis by (simp add: split_value_def)
qed

lemma Parse_spelled:
  assumes "flag_word n"
  shows "Parse dur fs (spelled (n, t) # args) =
    (case map_of fs n of
       None \<Rightarrow> Parse dur fs (spelled (n, t) # args)
     | Some v \<Rightarrow> (case flag_Set dur v t of
         Inl e \<Rightarrow> Parse dur fs (spelled (n, t) # args)
       | Inr v' \<Rightarrow> Parse dur (AList.update n v' fs) args))"
proof -
  obtain c cs where n: "n = c # cs" "c \<noteq> CHR ''-''" "c \<noteq> CHR ''=''" using assms by (cases n) (auto simp: flag_word_def)
  then have name: "flag_name (spelled (n, t)) = n @ CHR ''='' # t" "\<not> no_flag (spelled (n, t))" "spelled (n, t) \<noteq> ''--''"
    by (simp_all add: flag_name_def spelled_def no_flag_def)
  moreover have "n @ CHR ''='' # t \<noteq> ''''" "hd (n @ CHR ''='' # t) \<notin> {CHR ''-'', CHR ''=''}" using n by simp_all
  ultimately show ?thesis
    by (cases "map_of fs n") (simp_all add: split_value_spelled [OF assms] flag_argument_def split: sum.split)
qed

lemma Parse_assigned:
  "\<forall>a \<in> set as. flag_word (fst a) \<Longrightarrow> assign dur as fs = Some fs' \<Longrightarrow> Parse dur fs (map spelled as @ ''--'' # rest) = Parsed fs' rest"
proof (induction dur as fs rule: assign.induct)
  case (2 dur n t as fs)
  then have w: "flag_word n" by simp
  from "2.prems"(2) obtain v v' where v: "map_of fs n = Some v" "flag_Set dur v t = Inr v'" "assign dur as (AList.update n v' fs) = Some fs'"
    by (auto split: option.splits sum.splits)
  have "Parse dur (AList.update n v' fs) (map spelled as @ ''--'' # rest) = Parsed fs' rest" using "2.IH" [OF v(1,2)] "2.prems"(1) v(3) by simp
  then show ?case using Parse_spelled [OF w, of dur fs t "map spelled as @ ''--'' # rest"] v(1,2) by simp
qed (simp add: no_flag_def)

section \<open>Dry runs\<close>

text \<open>The remote store is as it was and every file and directory is still there as it was.\<close>

definition untouched :: "'w ArchWorld \<Rightarrow> 'w ArchWorld \<Rightarrow> bool" where
  "untouched w w' \<longleftrightarrow> aw_remote w' = aw_remote w \<and> (\<forall>q n. fs_node (aw_fs w) q = Some n \<longrightarrow> fs_node (aw_fs w') q = Some n)"

lemma untouched_refl [simp]: "untouched w w"
  by (simp add: untouched_def)

lemma untouched_trans: "untouched a b \<Longrightarrow> untouched b c \<Longrightarrow> untouched a c"
  by (simp add: untouched_def)

lemma append_changes_fs: "hub_fs (fst (append_changes envs cs h)) = hub_fs h"
  by (induction envs cs h rule: append_changes.induct) (auto split: prod.splits sum.splits option.splits)

lemma scan_world_untouched:
  assumes "scan_world su re sc w = (w', r)"
  shows "untouched w w'"
proof -
  let ?h = "\<lparr>hub_db = aw_db w, hub_bc = NewBroadcaster, hub_fs = aw_fs w\<rparr>"
  obtain h r' where scan: "FullScan (su_walk su) sc (re_sql re) (re_envs re) ?h = (h, r')" by fastforce
  then have "h = ?h \<or> (\<exists>cs. h = fst (append_changes (re_envs re) cs ?h))" by (auto simp: FullScan_def Let_def split: sum.splits) (metis fst_conv)+
  then have "hub_fs h = aw_fs w" using append_changes_fs [of "re_envs re" _ ?h] by auto
  with assms scan show ?thesis by (auto simp: scan_world_def untouched_def)
qed

lemma open_store_untouched: "open_store sql now hubDir algo w = (w', r) \<Longrightarrow> untouched w w'"
  using os_MkdirAll_file [of "aw_fs w" _ _ "filepath_Dir (HubDBPath hubDir)"] open_create_keeps [of _ _ _ now "HubDBPath hubDir"]
  by (auto simp: open_store_def untouched_def split: prod.splits sum.splits) (metis fst_conv)+

lemma acquireOneShot_untouched:
  assumes "acquireOneShot su sql now flock fd hubDir need m = (m', r)"
  shows "untouched (mc_world m) (mc_world m')"
proof -
  obtain f ls r0 where acq: "AcquireHubLock now flock fd hubDir (aw_fs (mc_world m), mc_locks m) = ((f, ls), r0)" by (metis surj_pair)
  let ?w = "(mc_world m)\<lparr>aw_fs := f\<rparr>"
  obtain w r1 where st: "newOneShotStack su sql now hubDir need ?w = (w, r1)" by fastforce
  have "untouched (mc_world m) ?w" using AcquireHubLock_cases(3) [OF acq] by (simp add: untouched_def)
  moreover have "w = ?w \<or> (\<exists>algo r2. open_store sql now hubDir algo ?w = (w, r2))"
    using st by (auto simp: newOneShotStack_def Let_def split: sum.splits prod.splits if_splits option.splits)
  then have "untouched ?w w" using open_store_untouched [of sql now hubDir _ ?w w] by auto
  ultimately show ?thesis using assms acq st untouched_trans by (cases r0; cases r1) (auto simp: acquireOneShot_def)
qed

lemma reconcile_path_dry: "reconcile_path ops deps pe target True m p w = (w', r) \<Longrightarrow> w' = w"
  by (auto simp: reconcile_path_def Let_def split: prod.splits option.splits)

lemma reconcile_paths_dry: "reconcile_paths ops deps pes target True m ps w = (w', rs) \<Longrightarrow> w' = w"
  by (induction ps arbitrary: pes rs) (auto dest: reconcile_path_dry split: prod.splits)

lemma RunReconcile_dry: "RunReconcile ops deps sql glob pes req target w = (w', r) \<Longrightarrow> pq_dry req \<Longrightarrow> w' = w"
  by (auto simp: RunReconcile_def Let_def dest!: reconcile_path_dry reconcile_paths_dry split: sum.splits list.splits prod.splits)

lemma handleReconcile_dry: "handleReconcile reconciler sql glob pes (Inr req) target w = (w', r) \<Longrightarrow> pq_dry req \<Longrightarrow> w' = w"
  by (auto simp: handleReconcile_def dest: RunReconcile_dry split: option.splits prod.splits sum.splits if_splits)

lemma rpc_routes_dry: "pq_dry req \<Longrightarrow> fst (rpc_routes token reconciler sql glob pes path auth req w) = w"
  by (auto simp: rpc_routes_def rpc_auth_def handlePin_def handleUnpin_def dest: handleReconcile_dry split: prod.splits)


lemma runPinOrUnpin_dry:
  assumes "runPinOrUnpin su re dial token send hubDir req target m = (m', r)" "pq_dry req"
    and "\<And>path auth w. fst (send path auth req w) = w"
  shows "untouched (mc_world m) (mc_world m')"
proof -
  obtain m1 r1 where acq: "acquireOneShot su (re_sql re) (re_now re) (re_flock re) (re_fd re) hubDir True m = (m1, r1)" by fastforce
  have "untouched (mc_world m1) (mc_world m')"
  proof (cases r1)
    case (Inl e)
    have sent: "send path auth req w = (w', x) \<Longrightarrow> w' = w" for path auth w w' x using assms(3) [of path auth w] by simp
    from Inl assms(1) acq show ?thesis
      by (auto simp: runPinOrUnpin_def rpc_Pin_def rpc_Unpin_def dest: sent split: if_splits prod.splits)
  next
    case (Inr stack)
    obtain w1 r2 where scan: "scan_world su re (ss_scanner stack) (mc_world m1) = (w1, r2)" by fastforce
    obtain w r3 where ip: "in_process su re req target stack (mc_world m1) = (w, r3)" by fastforce
    have "w = w1" using ip scan assms(2) by (auto simp: in_process_def dest: RunReconcile_dry split: sum.splits option.splits)
    with scan_world_untouched [OF scan] assms(1) acq Inr ip show ?thesis by (auto simp: runPinOrUnpin_def)
  qed
  with acquireOneShot_untouched [OF acq] show ?thesis by (rule untouched_trans)
qed

lemma Parse_no_flags: "args = [] \<or> no_flag (hd args) \<Longrightarrow> Parse dur fs args = Parsed fs args"
  by (cases args) simp_all

lemma Parse_dry: "args = [] \<or> no_flag (hd args) \<Longrightarrow> Parse dur dry_flags (''--dry'' # args) = Parsed [(''dry'', FBool True)] args"
  by (simp add: Parse_no_flags no_flag_def flag_name_def split_value_def dry_flags_def flag_argument_def is_bool_def parse_bool_def)


section \<open>Properties\<close>


text \<open>
  C19: A dry flag behind the globs, where the usage text puts it, is no flag: parsing stops at the first glob, so the command
  is the real run over the globs and one more glob that is spelled like the flag.
\<close>

theorem trailing_dry_runs_for_real:
  assumes "verb = ''pin'' \<and> target = TargetArchived \<or> verb = ''unpin'' \<and> target = TargetUnpinned" "globs \<noteq> []" "no_flag (hd globs)"
  shows "main ve (verb # globs @ [''--dry'']) ho =
    (case cmdPin (ve_setup ve) (ve_run ve) (ve_dial ve) (token_of ve) (ve_send ve) (ve_cwd ve) (globs @ [''--dry'']) False target (ho_machine ho) of
       (m, code) \<Rightarrow> (ho\<lparr>ho_machine := m\<rparr>, Exited code))"
proof -
  have "Parse (ve_duration ve) dry_flags (globs @ [''--dry'']) = Parsed dry_flags (globs @ [''--dry''])"
    using assms(2,3) by (intro Parse_no_flags) simp
  moreover have "bool_flag dry_flags ''dry'' = False" by (simp add: bool_flag_def dry_flags_def)
  ultimately have "verb_pin ve target (globs @ [''--dry'']) ho =
    (case cmdPin (ve_setup ve) (ve_run ve) (ve_dial ve) (token_of ve) (ve_send ve) (ve_cwd ve) (globs @ [''--dry'']) False target (ho_machine ho) of
       (m, code) \<Rightarrow> (ho\<lparr>ho_machine := m\<rparr>, Exited code))"
    by (simp only: verb_pin_def with_flags_def parse_result.case)
  with assms(1) show ?thesis by (elim disjE conjE) (simp_all add: main_def)
qed

definition ex_verb_env :: "FakeStorage verb_env" where
  "ex_verb_env = \<lparr>ve_setup = ex_setup, ve_run = ex_run\<lparr>re_glob := (\<lambda>g p. Inr (g = ''*''))\<rparr>, ve_archive = ex_archive_env, ve_cwd = [''hub''], ve_dial = False,
     ve_send = rpc_routes '''' None no_faults ex_glob ex_pes, ve_status = (\<lambda>path auth. No_reply io_EOF), ve_template = [],
     ve_watcher = (\<lambda>d. Inr ()), ve_duration = (\<lambda>s. Inr 0), ve_client_sql = None\<rparr>"

definition ex_host :: "FakeStorage Host" where
  "ex_host = \<lparr>ho_machine = \<lparr>mc_world = ex_hub_world, mc_locks = []\<rparr>, ho_tasks = None, ho_client = None\<rparr>"


text \<open>On a hub whose only file is archived, the command with the flag at the end deletes the file and reports success.\<close>

theorem trailing_dry_runs_for_real_witness:
  "\<exists>ho. main ex_verb_env [''unpin'', ''*'', ''--dry''] ex_host = (ho, Exited 0) \<and>
     is_file (host_fs ex_host) [''hub'', ''d'', ''x''] \<and> \<not> is_file (host_fs ho) [''hub'', ''d'', ''x'']"
proof -
  let ?cmd = "cmdPin (ve_setup ex_verb_env) (ve_run ex_verb_env) (ve_dial ex_verb_env) (token_of ex_verb_env) (ve_send ex_verb_env) (ve_cwd ex_verb_env)
    [''*'', ''--dry''] False TargetUnpinned (ho_machine ex_host)"
  have "snd ?cmd = 0" "\<not> is_file (aw_fs (mc_world (fst ?cmd))) [''hub'', ''d'', ''x'']" "is_file (host_fs ex_host) [''hub'', ''d'', ''x'']" by code_simp+
  with trailing_dry_runs_for_real [of "''unpin''" TargetUnpinned "[''*'']" ex_verb_env ex_host] show ?thesis
    by (cases ?cmd) (auto simp: no_flag_def host_fs_def)
qed


end
