(* ===== verification/Archive_Worker.thy ===== *)
theory Archive_Worker
  imports Archive_Tasks
begin

text \<open>
  The archive worker of a serving hub (\<^verbatim>\<open>archive_worker.go\<close>) beside the scanner and the push handler: it queues the
  pending rows, subscribes, and queues the file of every event, while the hub goes on recording changes.
  An upload is two steps here, all of \<^const>\<open>archiveOne\<close> up to its last statement and that statement, because other
  goroutines may change the row between them.
\<close>

section \<open>An upload in two steps\<close>

datatype stage =
    Finished "archive_outcome res"
  | Commit string string "bytes option" int archive_outcome

definition archive_send :: "'w ArchiveStorage \<Rightarrow> ArchiveTaskDeps \<Rightarrow> env \<Rightarrow> string \<Rightarrow> HubEntry \<Rightarrow> 'w ArchWorld \<Rightarrow> 'w ArchWorld \<times> stage" where
  "archive_send ops deps en p entry w =
     (let key = JoinKey (dp_prefix deps) p; fullPath = filepath_Join (dp_hub_dir deps) p in
      case os_Open (aw_fs w) fullPath of
        Inl e \<Rightarrow> (w, Finished (Inl (Wrap (''open '' @ abs_path_str fullPath) e)))
      | Inr src \<Rightarrow>
          (case upload_source ops (env_now en) (aw_fs w) fullPath
                  \<lparr>up_key = key, up_size = he_size entry, up_mtime = Some (he_mtime entry), up_source = src,
                   up_digest = he_digest entry, up_digest_algo = hash_name (dp_hasher deps), up_content_sha1 = ''''\<rparr> (aw_remote w) of
             (rem, Inl e) \<Rightarrow> (w\<lparr>aw_remote := rem\<rparr>, Finished (Inl (Wrap (''upload '' @ key) e)))
           | (rem, Inr info) \<Rightarrow>
               (w\<lparr>aw_remote := rem\<rparr>, Commit ''mark archived'' (ri_file_id info) (sha1_column info) (ri_uploaded_at info)
                  (Uploaded (ri_file_id info) (ri_size info) (ri_uploaded_at info)))))"

definition archive_begin :: "'w ArchiveStorage \<Rightarrow> ArchiveTaskDeps \<Rightarrow> env \<Rightarrow> string \<Rightarrow> 'w ArchWorld \<Rightarrow> 'w ArchWorld \<times> stage" where
  "archive_begin ops deps en p w =
     (case EntryLookup (env_sql en) p (aw_db w) of
        Inl e \<Rightarrow> (w, Finished (Inl (Wrap (''entry lookup '' @ p) e)))
      | Inr None \<Rightarrow> (w, Finished (Inr (Skipped ''missing-or-not-file'')))
      | Inr (Some entry) \<Rightarrow>
          if he_kind entry \<noteq> FileKindFile then (w, Finished (Inr (Skipped ''missing-or-not-file'')))
          else if he_archive_state entry = ArchiveStateArchived \<or> he_archive_state entry = ArchiveStateUnpinned
          then (w, Finished (Inr (Skipped (state_str (he_archive_state entry)))))
          else
            (case as_HeadByKey ops (JoinKey (dp_prefix deps) p) (aw_remote w) of
               Inr head \<Rightarrow>
                 if headMatches head (he_digest entry) (hash_name (dp_hasher deps))
                 then (w, Commit ''mark archived (head-match)'' (ri_file_id head) (sha1_column head) (ri_uploaded_at head)
                         (Skipped_head (ri_file_id head) (ri_size head) (ri_uploaded_at head)))
                 else archive_send ops deps en p entry w
             | Inl e \<Rightarrow>
                 if errors_Is e ErrNotExist then archive_send ops deps en p entry w
                 else (w, Finished (Inl (Wrap (''head check '' @ JoinKey (dp_prefix deps) p) e)))))"

definition archive_commit :: "env \<Rightarrow> string \<Rightarrow> string \<Rightarrow> string \<Rightarrow> bytes option \<Rightarrow> int \<Rightarrow> archive_outcome \<Rightarrow> 'w ArchWorld \<Rightarrow> 'w ArchWorld \<times> archive_outcome res" where
  "archive_commit en p ctx fid sha t oc w =
     (case MarkArchived en p fid sha t (aw_db w) of
        (db, Inl e) \<Rightarrow> (w\<lparr>aw_db := db\<rparr>, Inl (Wrap ctx e))
      | (db, Inr _) \<Rightarrow> (w\<lparr>aw_db := db\<rparr>, Inr oc))"

lemma archiveOne_two_steps:
  "archiveOne ops deps en p w =
     (case archive_begin ops deps en p w of
        (w', Finished r) \<Rightarrow> (w', r)
      | (w', Commit ctx fid sha t oc) \<Rightarrow> archive_commit en p ctx fid sha t oc w')"
  by (simp add: archiveOne_def archive_begin_def archive_send_def archive_upload_def archive_commit_def Let_def split: sum.split option.split prod.split)

section \<open>The machine\<close>

text \<open>
  \<open>sg_baseline\<close> are the pending rows still to be queued, once they have been read; \<open>sg_sub\<close> is the channel of the
  worker once it has subscribed; a busy slot is an upload whose row is not marked yet. \<open>sg_missed\<close> records the
  paths the worker has given up: changes while it was not subscribed yet, events dropped at a full
  channel, and uploads that failed.
\<close>

record 'w Serving =
  sg_world :: "'w ArchWorld"
  sg_baseline :: "string list option"
  sg_sub :: "chan option"
  sg_queue :: "string list"
  sg_slots :: "(string \<times> string \<times> string \<times> bytes option \<times> int \<times> archive_outcome) option list"
  sg_missed :: "string list"

definition start_serving :: "int \<Rightarrow> 'w ArchWorld \<Rightarrow> 'w Serving" where
  "start_serving workers w = \<lparr>sg_world = w, sg_baseline = None, sg_sub = None, sg_queue = [],
     sg_slots = replicate (nat (if workers \<le> 0 then 4 else workers)) None, sg_missed = []\<rparr>"

text \<open>What becomes of an event at the moment of the broadcast.\<close>

definition broadcast_to :: "ChangeEntry \<Rightarrow> 'w Serving \<Rightarrow> 'w Serving" where
  "broadcast_to e s =
     (case sg_sub s of
        None \<Rightarrow> (if sg_baseline s = None then s else s\<lparr>sg_missed := watch_event e @ sg_missed s\<rparr>)
      | Some c \<Rightarrow>
          if length (ch_buf c) < channel_cap then s\<lparr>sg_sub := Some (enqueue e c)\<rparr>
          else s\<lparr>sg_missed := watch_event e @ sg_missed s\<rparr>)"

text \<open>An upload that ends with an error is logged and forgotten.\<close>

definition give_up :: "'a res \<Rightarrow> string \<Rightarrow> string list \<Rightarrow> string list" where
  "give_up r p missed = (if isl r then p # missed else missed)"

inductive serve_step :: "'w ArchiveStorage \<Rightarrow> ArchiveTaskDeps \<Rightarrow> 'w Serving \<Rightarrow> 'w Serving \<Rightarrow> bool" for ops deps where
  serve_baseline: "sg_baseline s = None \<Longrightarrow> enqueuePending sql (aw_db (sg_world s)) = Inr ps \<Longrightarrow>
    serve_step ops deps s (s\<lparr>sg_baseline := Some ps\<rparr>)"
| serve_queue: "sg_baseline s = Some (p # ps) \<Longrightarrow> length (sg_queue s) < 256 \<Longrightarrow>
    serve_step ops deps s (s\<lparr>sg_baseline := Some ps, sg_queue := sg_queue s @ [p]\<rparr>)"
| serve_subscribe: "sg_baseline s = Some [] \<Longrightarrow> sg_sub s = None \<Longrightarrow>
    serve_step ops deps s (s\<lparr>sg_sub := Some \<lparr>ch_buf = [], ch_closed = False\<rparr>\<rparr>)"
| serve_event: "sg_sub s = Some c \<Longrightarrow> ch_buf c = e # es \<Longrightarrow> length (sg_queue s) + length (watch_event e) \<le> 256 \<Longrightarrow>
    serve_step ops deps s (s\<lparr>sg_sub := Some (c\<lparr>ch_buf := es\<rparr>), sg_queue := sg_queue s @ watch_event e\<rparr>)"
| serve_skip: "k < length (sg_slots s) \<Longrightarrow> sg_slots s ! k = None \<Longrightarrow> sg_queue s = p # ps \<Longrightarrow>
    archive_begin ops deps en p (sg_world s) = (w, Finished r) \<Longrightarrow>
    serve_step ops deps s (s\<lparr>sg_queue := ps, sg_world := w, sg_missed := give_up r p (sg_missed s)\<rparr>)"
| serve_upload: "k < length (sg_slots s) \<Longrightarrow> sg_slots s ! k = None \<Longrightarrow> sg_queue s = p # ps \<Longrightarrow>
    archive_begin ops deps en p (sg_world s) = (w, Commit ctx fid sha t oc) \<Longrightarrow>
    serve_step ops deps s (s\<lparr>sg_queue := ps, sg_world := w, sg_slots := (sg_slots s)[k := Some (p, ctx, fid, sha, t, oc)]\<rparr>)"
| serve_commit: "k < length (sg_slots s) \<Longrightarrow> sg_slots s ! k = Some (p, ctx, fid, sha, t, oc) \<Longrightarrow>
    archive_commit en p ctx fid sha t oc (sg_world s) = (w, r) \<Longrightarrow>
    serve_step ops deps s (s\<lparr>sg_world := w, sg_slots := (sg_slots s)[k := None], sg_missed := give_up r p (sg_missed s)\<rparr>)"
| serve_change: "Append en e (aw_db (sg_world s)) = (db, Inr v) \<Longrightarrow>
    serve_step ops deps s (broadcast_to (e\<lparr>ce_version := v\<rparr>) (s\<lparr>sg_world := (sg_world s)\<lparr>aw_db := db\<rparr>\<rparr>))"
| serve_edit: "serve_step ops deps s (s\<lparr>sg_world := (sg_world s)\<lparr>aw_fs := f\<rparr>\<rparr>)"

inductive serve_reachable :: "'w ArchiveStorage \<Rightarrow> ArchiveTaskDeps \<Rightarrow> 'w ArchWorld \<Rightarrow> 'w Serving \<Rightarrow> bool" for ops deps w where
  serve_start: "serve_reachable ops deps w (start_serving n w)"
| serve_next: "serve_reachable ops deps w s \<Longrightarrow> serve_step ops deps s s' \<Longrightarrow> serve_reachable ops deps w s'"

section \<open>Every pending file is on its way\<close>

definition in_flight :: "(string \<times> 'x) option list \<Rightarrow> string set" where
  "in_flight slots = {p. \<exists>x. Some (p, x) \<in> set slots}"

definition on_its_way :: "'w Serving \<Rightarrow> string set" where
  "on_its_way s = set (case sg_baseline s of None \<Rightarrow> [] | Some ps \<Rightarrow> ps) \<union> set (sg_queue s) \<union>
     (\<Union>e \<in> set (case sg_sub s of None \<Rightarrow> [] | Some c \<Rightarrow> ch_buf c). set (watch_event e)) \<union>
     in_flight (sg_slots s) \<union> set (sg_missed s)"

definition covered :: "'w Serving \<Rightarrow> bool" where
  "covered s \<longleftrightarrow> (sg_baseline s = None \<longrightarrow> sg_sub s = None) \<and>
     (\<forall>q. sg_baseline s \<noteq> None \<longrightarrow> pending_at q (sg_world s) \<longrightarrow> q \<in> on_its_way s)"

lemma Append_pending:
  assumes "Append en e db = (db', Inr v)" "pending_at q (w\<lparr>aw_db := db'\<rparr>)"
  shows "pending_at q (w\<lparr>aw_db := db\<rparr>) \<or> q \<in> set (watch_event (e\<lparr>ce_version := v\<rparr>))"
proof (cases rule: Append_cases [of en e db])
  case (error er)
  with assms show ?thesis by simp
next
  case ok
  then have rows: "hub_entry db' = apply_entry_row e (log_seq db + 1) (env_now en) (hub_entry db)" using assms(1) by auto
  show ?thesis
  proof (cases "q = ce_path e")
    case True
    then show ?thesis using assms(2)
      by (auto simp: pending_at_def rows lookup_apply_entry_row pending_row_def new_entry_row_def conflict_row_def watch_event_def FileKindFile_def split: option.splits if_splits)
  next
    case False
    with assms(2) show ?thesis by (auto simp: pending_at_def rows lookup_apply_entry_row)
  qed
qed

lemma archive_begin_db: "aw_db (fst (archive_begin ops deps en p w)) = aw_db w"
  by (simp add: archive_begin_def archive_send_def Let_def split: sum.split option.split prod.split)

lemma archive_begin_skips:
  assumes "archive_begin ops deps en p w = (w', Finished (Inr r))"
  shows "\<not> pending_at p w"
proof -
  have "archiveOne ops deps en p w = (w', Inr r)" by (simp add: archiveOne_two_steps assms)
  from archiveOne_success [OF this] archive_begin_db [of ops deps en p w] show ?thesis by (simp add: assms pending_at_def)
qed

lemma archive_commit_pending:
  assumes "archive_commit en p ctx fid sha t oc w = (w', r)"
  shows "pending_at q w' \<Longrightarrow> pending_at q w" "\<not> isl r \<Longrightarrow> \<not> pending_at p w'"
proof -
  obtain db mr where mark: "MarkArchived en p fid sha t (aw_db w) = (db, mr)" by fastforce
  have db: "aw_db w' = db" "isl r = isl mr" using assms mark by (auto simp: archive_commit_def split: sum.splits)
  show "pending_at q w" if "pending_at q w'" for q
    using that MarkArchived_pending [of q en p fid sha t "aw_db w"] db(1) mark by (auto simp: pending_at_def)
  show "\<not> pending_at p w'" if "\<not> isl r"
  proof
    assume "pending_at p w'"
    then have "pending_at p w" using MarkArchived_pending [of p en p fid sha t "aw_db w"] db(1) mark by (auto simp: pending_at_def)
    then obtain row where "tbl_lookup hr_path p (hub_entry (aw_db w)) = Some row" by (auto simp: pending_at_def)
    from mark_row_in(1) [OF this, of en fid sha t db] mark that db have "row_in p ArchiveStateArchived (aw_db w')" by (cases mr) auto
    with \<open>pending_at p w'\<close> show False by (auto simp: row_in_def pending_at_def pending_row_def)
  qed
qed

lemma enqueuePending_all:
  assumes "enqueuePending sql (aw_db w) = Inr ps" "pending_at q w"
  shows "q \<in> set ps"
proof -
  from assms(2) obtain r where "r \<in> set (hub_entry (aw_db w))" "hr_path r = q" "pending_row r" by (auto simp: pending_at_def dest: tbl_lookup_SomeD)
  moreover have "enqueuePending no_faults (aw_db w) = Inr ps" using assms(1) by (auto simp: enqueuePending_def PendingArchiveRows_def split: option.splits)
  ultimately show ?thesis unfolding enqueuePending_paths by auto
qed

lemma covered_step:
  assumes "covered s" "sg_baseline s' = None \<longrightarrow> sg_sub s' = None" "sg_baseline s' \<noteq> None \<Longrightarrow> sg_baseline s \<noteq> None"
    and "\<And>q. sg_baseline s \<noteq> None \<Longrightarrow> pending_at q (sg_world s') \<Longrightarrow> pending_at q (sg_world s) \<and> (q \<in> on_its_way s \<longrightarrow> q \<in> on_its_way s') \<or> q \<in> on_its_way s'"
  shows "covered s'"
  unfolding covered_def
proof (intro conjI allI impI)
  fix q
  assume s': "sg_baseline s' \<noteq> None" "pending_at q (sg_world s')"
  have "pending_at q (sg_world s) \<Longrightarrow> q \<in> on_its_way s" using assms(1,3) s'(1) by (simp add: covered_def)
  with assms(3) [OF s'(1)] assms(4) [of q] s' show "q \<in> on_its_way s'" by blast
qed (use assms(2) in simp)

lemma slot_kept: "k < length xs \<Longrightarrow> Some y \<in> set xs \<Longrightarrow> xs ! k \<noteq> Some y \<Longrightarrow> Some y \<in> set (xs[k := x])"
  by (metis in_set_conv_nth length_list_update nth_list_update_neq)

lemma in_flight_start: "k < length slots \<Longrightarrow> slots ! k = None \<Longrightarrow> insert p (in_flight slots) \<subseteq> in_flight (slots[k := Some (p, x)])"
proof -
  assume k: "k < length slots" "slots ! k = None"
  then have "Some (p, x) \<in> set (slots[k := Some (p, x)])" by (simp add: set_update_memI)
  with slot_kept [OF k(1)] k(2) show ?thesis unfolding in_flight_def by fastforce
qed

lemma in_flight_end: "k < length slots \<Longrightarrow> slots ! k = Some (p, x) \<Longrightarrow> in_flight slots \<subseteq> insert p (in_flight (slots[k := None]))"
  using slot_kept [of k slots] by (fastforce simp: in_flight_def)

lemma serve_step_covered:
  assumes "serve_step ops deps s s'" "covered s"
  shows "covered s'"
  using assms(1)
proof cases
  case (serve_baseline sql ps)
  with assms(2) enqueuePending_all [OF serve_baseline(3)] show ?thesis by (auto simp: covered_def on_its_way_def)
next
  case (serve_queue p ps)
  with assms(2) show ?thesis by (auto simp: covered_def on_its_way_def)
next
  case serve_subscribe
  with assms(2) show ?thesis by (auto simp: covered_def on_its_way_def)
next
  case (serve_event c e es)
  with assms(2) show ?thesis by (auto simp: covered_def on_its_way_def)
next
  case (serve_skip k p ps en w r)
  have db: "aw_db w = aw_db (sg_world s)" using archive_begin_db [of ops deps en p "sg_world s"] serve_skip(5) by simp
  have "\<not> isl r \<Longrightarrow> \<not> pending_at p (sg_world s)" using archive_begin_skips [of ops deps en p "sg_world s" w] serve_skip(5) by (cases r) auto
  with serve_skip(1,4) db show ?thesis
    using assms(2) by (intro covered_step [OF assms(2)]) (auto simp: covered_def on_its_way_def pending_at_def give_up_def split: option.splits)
next
  case (serve_upload k p ps en w ctx fid sha t oc)
  have db: "aw_db w = aw_db (sg_world s)" using archive_begin_db [of ops deps en p "sg_world s"] serve_upload(5) by simp
  have "on_its_way s \<subseteq> on_its_way s'"
    unfolding serve_upload(1) on_its_way_def using serve_upload(4) in_flight_start [OF serve_upload(2,3), of p "(ctx, fid, sha, t, oc)"] by auto
  with serve_upload(1) db show ?thesis using assms(2) by (intro covered_step [OF assms(2)]) (auto simp: covered_def pending_at_def)
next
  case (serve_commit k p ctx fid sha t oc en w r)
  note fin = archive_commit_pending [OF serve_commit(4)]
  have "set (sg_missed s) \<subseteq> set (give_up r p (sg_missed s))" by (auto simp: give_up_def)
  then have "on_its_way s \<subseteq> insert p (on_its_way s')" unfolding serve_commit(1) on_its_way_def using in_flight_end [OF serve_commit(2,3)] by auto
  moreover have "isl r \<Longrightarrow> p \<in> on_its_way s'" unfolding serve_commit(1) on_its_way_def give_up_def by simp
  ultimately have "q \<in> on_its_way s'" if "sg_baseline s \<noteq> None" "pending_at q (sg_world s')" for q
    using that fin serve_commit(1) assms(2) by (cases "q = p"; cases "isl r") (auto simp: covered_def)
  with serve_commit(1) assms(2) show ?thesis by (simp add: covered_def)
next
  case (serve_change en e db v)
  let ?e = "e\<lparr>ce_version := v\<rparr>"
  have "sg_baseline s \<noteq> None \<Longrightarrow> on_its_way s \<union> set (watch_event ?e) \<subseteq> on_its_way s'"
    unfolding serve_change(1) broadcast_to_def on_its_way_def by (auto simp: enqueue_def split: option.split)
  moreover have "sg_world s' = (sg_world s)\<lparr>aw_db := db\<rparr>" "sg_baseline s' = sg_baseline s" "sg_sub s = None \<longrightarrow> sg_sub s' = None"
    unfolding serve_change(1) broadcast_to_def by (auto split: option.split)
  ultimately show ?thesis using Append_pending [OF serve_change(2), of _ "sg_world s"] assms(2)
    by (intro covered_step [OF assms(2)]) (auto simp: covered_def)
next
  case (serve_edit f)
  with assms(2) show ?thesis by (auto simp: covered_def on_its_way_def pending_at_def)
qed

lemma serve_reachable_covered: "serve_reachable ops deps w s \<Longrightarrow> covered s"
proof (induction rule: serve_reachable.induct)
  case (serve_start n)
  then show ?case by (simp add: covered_def start_serving_def)
qed (use serve_step_covered in blast)

lemma serve_step_store_inv:
  assumes "serve_step ops deps s s'" "store_inv (aw_db (sg_world s))"
  shows "store_inv (aw_db (sg_world s'))"
  using assms(1)
proof cases
  case (serve_skip k p ps en w r)
  then show ?thesis using archive_begin_db [of ops deps en p "sg_world s"] assms(2) by simp
next
  case (serve_upload k p ps en w ctx fid sha t oc)
  then show ?thesis using archive_begin_db [of ops deps en p "sg_world s"] assms(2) by simp
next
  case (serve_commit k p ctx fid sha t oc en w r)
  then have "aw_db w = fst (MarkArchived en p fid sha t (aw_db (sg_world s)))" by (auto simp: archive_commit_def split: prod.splits sum.splits)
  with serve_commit(1) Mark_inv(3) [OF assms(2)] show ?thesis by simp
next
  case (serve_change en e db v)
  have "sg_world s' = (sg_world s)\<lparr>aw_db := db\<rparr>" unfolding serve_change(1) broadcast_to_def by (auto split: option.split)
  with serve_change(2) Append_inv [OF assms(2), of en e] show ?thesis by simp
qed (use assms(2) in simp_all)

lemma serve_reachable_store_inv: "serve_reachable ops deps w s \<Longrightarrow> store_inv (aw_db w) \<Longrightarrow> store_inv (aw_db (sg_world s))"
  by (induction rule: serve_reachable.induct) (auto simp: start_serving_def intro: serve_step_store_inv)

section \<open>Runs by script\<close>

text \<open>The steps as functions of what happens next, with the clock of the step and no database failure.\<close>

datatype action = Read_baseline | Queue_next | Do_subscribe | Take_event | Work nat int | Mark nat int | Change ChangeEntry int | Edit fs

definition serve_do :: "'w ArchiveStorage \<Rightarrow> ArchiveTaskDeps \<Rightarrow> action \<Rightarrow> 'w Serving \<Rightarrow> 'w Serving option" where
  "serve_do ops deps a s =
     (case a of
        Read_baseline \<Rightarrow>
          (case (sg_baseline s, enqueuePending no_faults (aw_db (sg_world s))) of (None, Inr ps) \<Rightarrow> Some (s\<lparr>sg_baseline := Some ps\<rparr>) | _ \<Rightarrow> None)
      | Queue_next \<Rightarrow>
          (case sg_baseline s of
             Some (p # ps) \<Rightarrow> if length (sg_queue s) < 256 then Some (s\<lparr>sg_baseline := Some ps, sg_queue := sg_queue s @ [p]\<rparr>) else None
           | _ \<Rightarrow> None)
      | Do_subscribe \<Rightarrow>
          if sg_baseline s = Some [] \<and> sg_sub s = None then Some (s\<lparr>sg_sub := Some \<lparr>ch_buf = [], ch_closed = False\<rparr>\<rparr>) else None
      | Take_event \<Rightarrow>
          (case sg_sub s of
             None \<Rightarrow> None
           | Some c \<Rightarrow>
               (case ch_buf c of
                  [] \<Rightarrow> None
                | e # es \<Rightarrow>
                    if length (sg_queue s) + length (watch_event e) \<le> 256
                    then Some (s\<lparr>sg_sub := Some (c\<lparr>ch_buf := es\<rparr>), sg_queue := sg_queue s @ watch_event e\<rparr>) else None))
      | Work k now \<Rightarrow>
          (case sg_queue s of
             [] \<Rightarrow> None
           | p # ps \<Rightarrow>
               if k < length (sg_slots s) \<and> sg_slots s ! k = None
               then (case archive_begin ops deps (env_at now) p (sg_world s) of
                       (w, Finished r) \<Rightarrow> Some (s\<lparr>sg_queue := ps, sg_world := w, sg_missed := give_up r p (sg_missed s)\<rparr>)
                     | (w, Commit ctx fid sha t oc) \<Rightarrow> Some (s\<lparr>sg_queue := ps, sg_world := w, sg_slots := (sg_slots s)[k := Some (p, ctx, fid, sha, t, oc)]\<rparr>))
               else None)
      | Mark k now \<Rightarrow>
          if k < length (sg_slots s)
          then (case sg_slots s ! k of
                  None \<Rightarrow> None
                | Some (p, ctx, fid, sha, t, oc) \<Rightarrow>
                    (case archive_commit (env_at now) p ctx fid sha t oc (sg_world s) of
                       (w, r) \<Rightarrow> Some (s\<lparr>sg_world := w, sg_slots := (sg_slots s)[k := None], sg_missed := give_up r p (sg_missed s)\<rparr>)))
          else None
      | Change e now \<Rightarrow>
          (case Append (env_at now) e (aw_db (sg_world s)) of
             (db, Inr v) \<Rightarrow> Some (broadcast_to (e\<lparr>ce_version := v\<rparr>) (s\<lparr>sg_world := (sg_world s)\<lparr>aw_db := db\<rparr>\<rparr>))
           | (db, Inl _) \<Rightarrow> None)
      | Edit f \<Rightarrow> Some (s\<lparr>sg_world := (sg_world s)\<lparr>aw_fs := f\<rparr>\<rparr>))"

fun serve_run :: "'w ArchiveStorage \<Rightarrow> ArchiveTaskDeps \<Rightarrow> action list \<Rightarrow> 'w Serving \<Rightarrow> 'w Serving option" where
  "serve_run ops deps [] s = Some s"
| "serve_run ops deps (a # as) s = Option.bind (serve_do ops deps a s) (serve_run ops deps as)"

lemma serve_do_step: "serve_do ops deps a s = Some s' \<Longrightarrow> serve_step ops deps s s'"
  by (cases a)
    (auto simp: serve_do_def intro: serve_step.intros split: option.splits list.splits sum.splits prod.splits if_splits stage.splits)

lemma serve_run_reachable: "serve_run ops deps as s = Some s' \<Longrightarrow> serve_reachable ops deps w s \<Longrightarrow> serve_reachable ops deps w s'"
  by (induction as arbitrary: s) (auto split: bind_splits dest: serve_do_step intro: serve_next)

section \<open>Properties\<close>

definition at_rest :: "'w Serving \<Rightarrow> bool" where
  "at_rest s \<longleftrightarrow> sg_baseline s = Some [] \<and> map_option ch_buf (sg_sub s) = Some [] \<and> sg_queue s = [] \<and> set (sg_slots s) \<subseteq> {None}"

text \<open>
  C13: A serving hub archives every change it is told of. In every interleaving of the worker with the scanner, pushes
  and local edits, and whatever fails: when the worker has come to rest, the only files that are still pending are
  those it has given up, that is those that changed between its first query and its subscription, whose event was
  dropped at a full channel, or whose upload failed.
\<close>

theorem worker_at_rest_leaves_only_missed:
  assumes "serve_reachable ops deps w s" "store_inv (aw_db w)" "at_rest s" "enqueuePending no_faults (aw_db (sg_world s)) = Inr ps"
  shows "set ps \<subseteq> set (sg_missed s)"
proof
  fix p
  assume "p \<in> set ps"
  with assms(4) obtain r where "r \<in> set (hub_entry (aw_db (sg_world s)))" "pending_row r" "hr_path r = p" by (auto simp: enqueuePending_paths)
  with serve_reachable_store_inv [OF assms(1,2)] have "pending_at p (sg_world s)"
    using tbl_lookup_in [of hr_path "hub_entry (aw_db (sg_world s))" r] by (auto simp: pending_at_def store_inv_def)
  with serve_reachable_covered [OF assms(1)] assms(3) have "p \<in> on_its_way s" by (simp add: covered_def at_rest_def)
  with assms(3) show "p \<in> set (sg_missed s)" by (auto simp: on_its_way_def at_rest_def in_flight_def split: option.splits)
qed

definition ex_edit :: "bytes \<Rightarrow> ChangeEntry" where
  "ex_edit d = \<lparr>ce_version = 0, ce_path = ''a'', ce_op = OpUpdate, ce_kind = 0, ce_digest = d, ce_size = 1, ce_mode = 420, ce_mtime = 8\<rparr>"

text \<open>
  C14: A change that arrives during the upload of its file is lost to the archive. A run of the worker ends at rest with
  nothing given up and no row pending, and yet the row of the file, which records the new digest, says archived while the
  object it names carries the digest of the old content: the last statement of the upload marks whatever row it
  finds, and the event of the change then meets a row that is not pending.
\<close>

theorem change_during_upload_is_never_archived:
  "\<exists>s. serve_reachable fake_ops ex_deps ex_world s \<and> at_rest s \<and> sg_missed s = [] \<and> enqueuePending no_faults (aw_db (sg_world s)) = Inr [] \<and>
     map_option (\<lambda>r. (hr_archive_state r, hr_digest r)) (tbl_lookup hr_path ''a'' (hub_entry (aw_db (sg_world s)))) = Some (Some ArchiveStateArchived, Some [9, 3]) \<and>
     map_option (\<lambda>(info, d). ri_digest info) (fake_remote (aw_remote (sg_world s)) ''hub/a'') = Some [9, 1, 2]"
proof -
  let ?script = "[Read_baseline, Queue_next, Do_subscribe, Work 0 3, Change (ex_edit [9, 3]) 4, Mark 0 5, Take_event, Work 0 6]"
  let ?run = "serve_run fake_ops ex_deps ?script (start_serving 1 ex_world)"
  have end_state: "case ?run of None \<Rightarrow> False | Some s \<Rightarrow> at_rest s \<and> sg_missed s = [] \<and> enqueuePending no_faults (aw_db (sg_world s)) = Inr [] \<and>
     map_option (\<lambda>r. (hr_archive_state r, hr_digest r)) (tbl_lookup hr_path ''a'' (hub_entry (aw_db (sg_world s)))) = Some (Some ArchiveStateArchived, Some [9, 3]) \<and>
     map_option (\<lambda>(info, d). ri_digest info) (fake_remote (aw_remote (sg_world s)) ''hub/a'') = Some [9, 1, 2]" by code_simp
  then obtain s where s: "?run = Some s" by (cases ?run) auto
  with serve_run_reachable [OF s serve_start] end_state show ?thesis by auto
qed

theorem worker_at_rest_leaves_only_missed_witness:
  "\<exists>s ps. serve_run fake_ops ex_deps [Read_baseline, Queue_next, Change (ex_edit [9, 4]) 4, Do_subscribe, Work 0 5, Mark 0 6, Change ((ex_edit [9, 3])\<lparr>ce_path := ''b''\<rparr>) 7,
       Take_event, Work 0 8] (start_serving 1 ex_world) = Some s \<and> enqueuePending no_faults (aw_db (sg_world s)) = Inr ps \<and> ps = [''b''] \<and> set ps \<subseteq> set (sg_missed s)"
proof -
  let ?run = "serve_run fake_ops ex_deps [Read_baseline, Queue_next, Change (ex_edit [9, 4]) 4, Do_subscribe, Work 0 5, Mark 0 6, Change ((ex_edit [9, 3])\<lparr>ce_path := ''b''\<rparr>) 7,
       Take_event, Work 0 8] (start_serving 1 ex_world)"
  have end_state: "case ?run of None \<Rightarrow> False | Some s \<Rightarrow> at_rest s \<and> enqueuePending no_faults (aw_db (sg_world s)) = Inr [''b'']" by code_simp
  then obtain s where s: "?run = Some s" "at_rest s" "enqueuePending no_faults (aw_db (sg_world s)) = Inr [''b'']" by (cases ?run) auto
  have "store_inv (aw_db ex_world)" using Append_inv [OF store_inv_empty] by (simp add: ex_world_def)
  from worker_at_rest_leaves_only_missed [OF serve_run_reachable [OF s(1) serve_start] this s(2,3)] s(1,3) show ?thesis by auto
qed

end
