(* ===== verification/Json_Text.thy ===== *)
theory Json_Text
  imports Archive_Tasks
begin

text \<open>
  Text as \<^verbatim>\<open>encoding/json\<close> writes and reads it, byte by byte, and what hubsync prints and exchanges with it: the JSON forms of
  digests and kinds (\<^verbatim>\<open>hubsync.go\<close>) and the lines of \<^verbatim>\<open>hubsync ls\<close> (\<^verbatim>\<open>cli/hubsync/render.go\<close>, tags of \<^verbatim>\<open>store.go\<close>). The codec is proved to
  be what \<^const>\<open>json_string\<close> says of it.
\<close>

section \<open>Writing strings\<close>

text \<open>The encoder with HTML escaping: quote, backslash, control characters and the three HTML characters are escaped.\<close>

definition json_ascii :: "char \<Rightarrow> string" where
  "json_ascii c =
     (if c = CHR 0x22 \<or> c = CHR 0x5C then [CHR 0x5C, c]
      else if c = CHR 0x08 then [CHR 0x5C, CHR ''b'']
      else if c = CHR 0x0C then [CHR 0x5C, CHR ''f'']
      else if c = CHR 0x0A then [CHR 0x5C, CHR ''n'']
      else if c = CHR 0x0D then [CHR 0x5C, CHR ''r'']
      else if c = CHR 0x09 then [CHR 0x5C, CHR ''t'']
      else if byte c < 0x20 \<or> c = CHR ''<'' \<or> c = CHR ''>'' \<or> c = CHR ''&'' then [CHR 0x5C, CHR ''u'', CHR ''0'', CHR ''0''] @ hex_byte (word_of_nat (byte c))
      else [c])"

definition json_rune :: "string \<Rightarrow> string" where
  "json_rune r =
     (if r = [CHR 0xE2, CHR 0x80, CHR 0xA8] then CHR 0x5C # ''u2028''
      else if r = [CHR 0xE2, CHR 0x80, CHR 0xA9] then CHR 0x5C # ''u2029''
      else r)"

fun json_body :: "string \<Rightarrow> string" where
  "json_body [] = []"
| "json_body (c # cs) =
     (let n = rune_len (c # cs) in
      if n = 0 then CHR 0x5C # ''ufffd'' @ json_body cs
      else if n = 1 then json_ascii c @ json_body cs
      else json_rune (take n (c # cs)) @ json_body (drop (n - 1) cs))"

definition json_Marshal_string :: "string \<Rightarrow> string" where
  "json_Marshal_string s = CHR 0x22 # json_body s @ [CHR 0x22]"

section \<open>Reading strings\<close>

definition utf8 :: "nat \<Rightarrow> string" where
  "utf8 r =
     (if r < 0x80 then [char_of r]
      else if r < 0x800 then [char_of (0xC0 + r div 64), char_of (0x80 + r mod 64)]
      else if r < 0x10000 then [char_of (0xE0 + r div 4096), char_of (0x80 + r div 64 mod 64), char_of (0x80 + r mod 64)]
      else [char_of (0xF0 + r div 262144), char_of (0x80 + r div 4096 mod 64), char_of (0x80 + r div 64 mod 64), char_of (0x80 + r mod 64)])"

fun hex4 :: "string \<Rightarrow> (nat \<times> string) option" where
  "hex4 (a # b # c # d # rest) =
     (case (from_hex_char a, from_hex_char b, from_hex_char c, from_hex_char d) of
        (Some w, Some x, Some y, Some z) \<Rightarrow> Some (4096 * w + 256 * x + 16 * y + z, rest)
      | _ \<Rightarrow> None)"
| "hex4 _ = None"

text \<open>The rune of a \<^verbatim>\<open>\u\<close> escape and what follows it: two halves of a surrogate pair are one rune, half a pair is the replacement character.\<close>

definition low_half :: "string \<Rightarrow> (nat \<times> string) option" where
  "low_half s =
     (case s of
        x # y # rest \<Rightarrow>
          if x = CHR 0x5C \<and> y = CHR ''u''
          then (case hex4 rest of Some (r, rest') \<Rightarrow> if 0xDC00 \<le> r \<and> r \<le> 0xDFFF then Some (r, rest') else None | None \<Rightarrow> None)
          else None
      | _ \<Rightarrow> None)"

definition read_rune :: "string \<Rightarrow> (nat \<times> string) option" where
  "read_rune s =
     (case hex4 s of
        None \<Rightarrow> None
      | Some (r, rest) \<Rightarrow>
          if r < 0xD800 \<or> 0xDFFF < r then Some (r, rest)
          else (case (if r < 0xDC00 then low_half rest else None) of
                  Some (r2, rest2) \<Rightarrow> Some (0x10000 + (r - 0xD800) * 0x400 + (r2 - 0xDC00), rest2)
                | None \<Rightarrow> Some (0xFFFD, rest)))"

definition simple_escape :: "char \<Rightarrow> char option" where
  "simple_escape e =
     (if e = CHR 0x22 \<or> e = CHR 0x5C \<or> e = CHR ''/'' then Some e
      else if e = CHR ''b'' then Some (CHR 0x08)
      else if e = CHR ''f'' then Some (CHR 0x0C)
      else if e = CHR ''n'' then Some (CHR 0x0A)
      else if e = CHR ''r'' then Some (CHR 0x0D)
      else if e = CHR ''t'' then Some (CHR 0x09)
      else None)"

lemma hex4_shorter: "hex4 s = Some (r, rest) \<Longrightarrow> length rest < length s"
  by (cases s rule: hex4.cases) (auto split: option.splits)

lemma low_half_shorter: "low_half s = Some (r, rest) \<Longrightarrow> length rest < length s"
  by (auto simp: low_half_def dest!: hex4_shorter split: list.splits if_splits option.splits)

lemma read_rune_shorter: "read_rune s = Some (r, rest) \<Longrightarrow> length rest < length s"
  by (auto simp: read_rune_def dest!: hex4_shorter low_half_shorter split: option.splits if_splits)

text \<open>The text between the quotes; bytes that are not UTF-8 become the replacement character.\<close>

function (sequential) json_unbody :: "string \<Rightarrow> string option" where
  "json_unbody [] = Some []"
| "json_unbody (c # cs) =
     (if c = CHR 0x22 \<or> byte c < 0x20 then None
      else if c = CHR 0x5C
      then (case cs of
              [] \<Rightarrow> None
            | e # ds \<Rightarrow>
                if e = CHR ''u''
                then (case read_rune ds of None \<Rightarrow> None | Some (r, rest) \<Rightarrow> map_option ((@) (utf8 r)) (json_unbody rest))
                else (case simple_escape e of None \<Rightarrow> None | Some x \<Rightarrow> map_option ((#) x) (json_unbody ds)))
      else let n = rune_len (c # cs) in
           if n = 0 then map_option ((@) [CHR 0xEF, CHR 0xBF, CHR 0xBD]) (json_unbody cs)
           else map_option ((@) (take n (c # cs))) (json_unbody (drop (n - 1) cs)))"
  by pat_completeness auto
termination
  by (relation "measure length") (auto dest: read_rune_shorter)

text \<open>\<^verbatim>\<open>json.Unmarshal\<close> into a string; \<^verbatim>\<open>null\<close> leaves it empty.\<close>

definition json_Unmarshal_string :: "string \<Rightarrow> string res" where
  "json_Unmarshal_string data =
     (if data = ''null'' then Inr ''''
      else if length data < 2 \<or> hd data \<noteq> CHR 0x22 \<or> last data \<noteq> CHR 0x22 then Inl (Error_string ''json: cannot unmarshal into Go value of type string'')
      else (case json_unbody (butlast (tl data)) of
              None \<Rightarrow> Inl (Error_string ''invalid character in string literal'')
            | Some s \<Rightarrow> Inr s))"

section \<open>What the codec does to a string\<close>

lemma rune_len_ascii: "byte c < 0x80 \<Longrightarrow> rune_len (c # cs) = 1"
  by (simp add: rune_len_def)

lemma rune_len_one: "rune_len (c # cs) = 1 \<Longrightarrow> byte c < 0x80"
  by (simp add: rune_len_def Let_def split: if_splits)

lemma rune_len_bound: "rune_len s \<le> length s"
  by (cases s) (auto simp: rune_len_def Let_def split: if_splits)

lemma rune_len_upto: "rune_len s \<in> {0, 1, 2, 3, 4}"
  by (cases s) (auto simp: rune_len_def Let_def)

lemma rune_len_two: "rune_len (c # a # x) = 2 \<Longrightarrow> rune_len (c # a # y) = 2"
  by (simp add: rune_len_def Let_def split: if_splits)

lemma rune_len_three: "rune_len (c # a # b # x) = 3 \<Longrightarrow> rune_len (c # a # b # y) = 3"
  by (simp add: rune_len_def Let_def split: if_splits)

lemma rune_len_four: "rune_len (c # a # b # d # x) = 4 \<Longrightarrow> rune_len (c # a # b # d # y) = 4"
  by (simp add: rune_len_def Let_def numeral_3_eq_3 split: if_splits)

lemma rune_len_take:
  assumes "rune_len s = n" "0 < n"
  shows "rune_len (take n s @ y) = n"
proof -
  have len: "n \<le> length s" and n: "n \<in> {1, 2, 3, 4}" using rune_len_bound [of s] rune_len_upto [of s] assms by auto
  then consider c x where "n = 1" "s = c # x" | c a x where "n = 2" "s = c # a # x" | c a b x where "n = 3" "s = c # a # b # x"
    | c a b d x where "n = 4" "s = c # a # b # d # x"
    by (auto simp: Suc_le_length_iff numeral_2_eq_2 numeral_3_eq_3 eval_nat_numeral)
  then show ?thesis
  proof cases
    case 1
    then have "byte c < 0x80" using rune_len_one assms by simp
    with 1 show ?thesis by (simp add: rune_len_ascii)
  next
    case 2
    with rune_len_two assms show ?thesis by simp
  next
    case 3
    with rune_len_three assms show ?thesis by (simp add: numeral_3_eq_3)
  next
    case 4
    with rune_len_four assms show ?thesis by (simp add: eval_nat_numeral)
  qed
qed


lemma byte_char_of: "char_of (byte c) = c"
  by (simp add: byte_def)

lemma hex4_byte:
  assumes "byte c < 0x80"
  shows "hex4 (CHR ''0'' # CHR ''0'' # hex_byte (word_of_nat (byte c)) @ x) = Some (byte c, x)"
proof -
  have u: "unat (word_of_nat (byte c) :: 8 word) = byte c" using assms by (simp add: unat_of_nat)
  have "from_hex_char (CHR ''0'') = Some 0" by (simp add: from_hex_char_def)
  moreover have "byte c div 16 < 16" "byte c mod 16 < 16" using assms by (simp_all add: less_mult_imp_div_less)
  ultimately show ?thesis using hex_char_lt16 by (simp add: hex_byte_def u)
qed

lemma unbody_u:
  assumes "hex4 s = Some (r, x)" "r < 0xD800 \<or> 0xDFFF < r"
  shows "json_unbody (CHR 0x5C # CHR ''u'' # s) = map_option ((@) (utf8 r)) (json_unbody x)"
  using assms by (subst json_unbody.simps(2)) (simp add: read_rune_def byte_def)

lemma unbody_simple:
  assumes "simple_escape e = Some c"
  shows "json_unbody (CHR 0x5C # e # x) = map_option ((#) c) (json_unbody x)"
proof -
  have "e \<noteq> CHR ''u''" using assms by (auto simp: simple_escape_def)
  with assms show ?thesis by (subst json_unbody.simps(2)) (simp add: byte_def)
qed

lemma unbody_plain:
  assumes "byte c < 0x80" "\<not> byte c < 0x20" "c \<noteq> CHR 0x22" "c \<noteq> CHR 0x5C"
  shows "json_unbody (c # x) = map_option ((#) c) (json_unbody x)"
  using assms by (subst json_unbody.simps(2)) (simp add: rune_len_ascii, metis append_Cons append_Nil)

lemma unbody_ascii:
  assumes "byte c < 0x80"
  shows "json_unbody (json_ascii c @ x) = map_option ((#) c) (json_unbody x)"
proof (cases "c \<in> {CHR 0x22, CHR 0x5C, CHR 0x08, CHR 0x0C, CHR 0x0A, CHR 0x0D, CHR 0x09}")
  case True
  then have "simple_escape (last (json_ascii c)) = Some c \<and> json_ascii c = [CHR 0x5C, last (json_ascii c)]"
    by (elim insertE) (simp_all add: simple_escape_def json_ascii_def)
  with unbody_simple show ?thesis by (metis append_Cons append_Nil)
next
  case False
  show ?thesis
  proof (cases "byte c < 0x20 \<or> c = CHR ''<'' \<or> c = CHR ''>'' \<or> c = CHR ''&''")
    case True
    with False have "json_ascii c @ x = CHR 0x5C # CHR ''u'' # CHR ''0'' # CHR ''0'' # hex_byte (word_of_nat (byte c)) @ x" by (simp add: json_ascii_def)
    moreover have "utf8 (byte c) = [c]" using assms by (simp add: utf8_def byte_char_of)
    ultimately show ?thesis using unbody_u [OF hex4_byte [OF assms, of x]] assms by (simp add: fun_eq_iff) (metis append_Cons append_Nil)
  next
    case False
    then show ?thesis using unbody_plain [OF assms, of x] \<open>c \<notin> _\<close> by (simp add: json_ascii_def)
  qed
qed


lemma utf8_special:
  "utf8 0x2028 = [CHR 0xE2, CHR 0x80, CHR 0xA8]" "utf8 0x2029 = [CHR 0xE2, CHR 0x80, CHR 0xA9]" "utf8 0xFFFD = [CHR 0xEF, CHR 0xBF, CHR 0xBD]"
  by (simp_all add: utf8_def char_of_def bit_0)

lemma unbody_rune:
  assumes "rune_len s = n" "1 < n"
  shows "json_unbody (json_rune (take n s) @ x) = map_option ((@) (take n s)) (json_unbody x)"
proof (cases "json_rune (take n s) = take n s")
  case True
  obtain c cs where s: "s = c # cs" using assms by (cases s) (auto simp: rune_len_def)
  have "\<not> byte c < 0x80" using rune_len_ascii [of c cs] assms s by auto
  then have "c \<noteq> CHR 0x22" "c \<noteq> CHR 0x5C" "\<not> byte c < 0x20" by (auto simp: byte_def)
  moreover have "rune_len (c # take (n - 1) cs @ x) = n" using rune_len_take [of s n x] assms s by (simp add: take_Cons')
  moreover have "take n s @ x = c # take (n - 1) cs @ x" using assms s by (simp add: take_Cons')
  moreover have "n - 1 \<le> length cs" using rune_len_bound [of s] assms s by simp
  ultimately show ?thesis unfolding True using assms s by (simp add: json_unbody.simps(2) [of c] take_Cons')
next
  case False
  then consider "take n s = [CHR 0xE2, CHR 0x80, CHR 0xA8]" | "take n s = [CHR 0xE2, CHR 0x80, CHR 0xA9]" by (auto simp: json_rune_def split: if_splits)
  then show ?thesis
  proof cases
    case 1
    moreover have "hex4 (''2028'' @ x) = Some (0x2028, x)" by (simp add: from_hex_char_def)
    ultimately show ?thesis using unbody_u [of "''2028'' @ x" "0x2028" x] by (simp add: json_rune_def utf8_special)
  next
    case 2
    moreover have "hex4 (''2029'' @ x) = Some (0x2029, x)" by (simp add: from_hex_char_def)
    ultimately show ?thesis using unbody_u [of "''2029'' @ x" "0x2029" x] by (simp add: json_rune_def utf8_special)
  qed
qed

lemma json_unbody_body: "json_unbody (json_body s) = Some (json_string s)"
proof (induction s rule: json_body.induct)
  case (2 c cs)
  let ?n = "rune_len (c # cs)"
  consider "?n = 0" | "?n = 1" | "1 < ?n" by linarith
  then show ?case
  proof cases
    case 1
    have "hex4 (''fffd'' @ x) = Some (0xFFFD, x)" for x by (simp add: from_hex_char_def)
    then show ?thesis using unbody_u [of "''fffd'' @ json_body cs" "0xFFFD"] 2(1) [OF refl 1] 1 by (simp add: utf8_special)
  next
    case 2
    then show ?thesis using unbody_ascii [OF rune_len_one [OF 2]] "2.IH"(2) [OF refl _ 2] by simp
  next
    case 3
    then show ?thesis using unbody_rune [OF refl 3] "2.IH"(3) [OF refl] by (simp add: Let_def)
  qed
qed simp


lemma json_Unmarshal_Marshal: "json_Unmarshal_string (json_Marshal_string s) = Inr (json_string s)"
  by (simp add: json_Unmarshal_string_def json_Marshal_string_def butlast_append json_unbody_body)

section \<open>Digests and kinds\<close>

definition Digest_MarshalJSON :: "Digest \<Rightarrow> string" where
  "Digest_MarshalJSON d = json_Marshal_string (Digest_Hex d)"

definition Digest_UnmarshalJSON :: "string \<Rightarrow> Digest res" where
  "Digest_UnmarshalJSON data =
     (case json_Unmarshal_string data of
        Inl e \<Rightarrow> Inl e
      | Inr s \<Rightarrow>
          if s = '''' then Inr []
          else (case hex_DecodeString s of
                  Inl e \<Rightarrow> Inl (Wrap ''Digest.UnmarshalJSON'' e)
                | Inr b \<Rightarrow> Inr b))"

definition FileKind_MarshalJSON :: "FileKind \<Rightarrow> string" where
  "FileKind_MarshalJSON k = json_Marshal_string (FileKind_Label k)"

definition FileKind_UnmarshalJSON :: "string \<Rightarrow> FileKind res" where
  "FileKind_UnmarshalJSON data = (case json_Unmarshal_string data of Inl e \<Rightarrow> Inl e | Inr s \<Rightarrow> FileKind_of_label s)"

lemma json_string_ascii: "\<forall>c \<in> set s. byte c < 0x80 \<Longrightarrow> json_string s = s"
  by (induction s) (simp_all add: rune_len_ascii)

lemma Digest_Hex_ascii: "c \<in> set (Digest_Hex d) \<Longrightarrow> byte c < 0x80"
proof -
  have "list_all (\<lambda>n. byte (hex_char n) < 0x80) [0..<16]" by code_simp
  then have digit: "n < 16 \<Longrightarrow> byte (hex_char n) < 0x80" for n by (auto simp: list_all_iff)
  have "unat (x :: 8 word) < 16 * 16" for x using unsigned_less [of x, where 'a = nat] by simp
  then have "unat (x :: 8 word) div 16 < 16" for x by (rule less_mult_imp_div_less)
  with digit show "c \<in> set (Digest_Hex d) \<Longrightarrow> byte c < 0x80" by (auto simp: Digest_Hex_def hex_byte_def)
qed

section \<open>The lines of a listing\<close>

text \<open>A field of the object, left out when it is empty and tagged so.\<close>

definition json_key :: "string \<Rightarrow> string" where
  "json_key k = CHR 0x22 # k @ [CHR 0x22, CHR '':'']"

fun comma_join :: "string list \<Rightarrow> string" where
  "comma_join [] = []"
| "comma_join [x] = x"
| "comma_join (x # y # ys) = x @ CHR '','' # comma_join (y # ys)"

definition json_object :: "(string \<times> string) list \<Rightarrow> string" where
  "json_object kvs = ''{'' @ comma_join (map (\<lambda>(k, v). json_key k @ v) kvs) @ ''}''"

definition HubEntry_json :: "HubEntry \<Rightarrow> string" where
  "HubEntry_json e = json_object
     ([(''path'', json_Marshal_string (he_path e)), (''kind'', FileKind_MarshalJSON (he_kind e))] @
      (if he_digest e = [] then [] else [(''digest'', Digest_MarshalJSON (he_digest e))]) @
      [(''size'', fmt_d (he_size e)), (''mode'', fmt_d (uint (he_mode e))), (''mtime'', fmt_d (he_mtime e)), (''version'', fmt_d (he_version e)),
       (''archive_state'', json_Marshal_string (state_str (he_archive_state e)))] @
      (if he_archive_file_id e = '''' then [] else [(''archive_file_id'', json_Marshal_string (he_archive_file_id e))]) @
      (if he_archive_sha1 e = [] then [] else [(''archive_sha1'', Digest_MarshalJSON (he_archive_sha1 e))]) @
      (if he_archive_uploaded_at e = 0 then [] else [(''archive_uploaded_at'', fmt_d (he_archive_uploaded_at e))]) @
      [(''updated_at'', fmt_d (he_updated_at e))])"

definition single_quoted :: "string \<Rightarrow> string" where
  "single_quoted s = CHR 0x27 # s @ [CHR 0x27]"

definition em_dash :: string where "em_dash = [CHR 0xE2, CHR 0x80, CHR 0x94]"

definition renderLsDocstring :: "string \<Rightarrow> string list" where
  "renderLsDocstring absDB =
     [''// hubsync ls '' @ em_dash @ '' hub tree entries (files + archive state)'',
      ''// Columns:'',
      ''//   path                text    hub-relative path (first key)'',
      ''//   kind                text    file | directory'',
      ''//   digest              text    content hash (hex)'',
      ''//   size                int     bytes'',
      ''//   mode                int     unix mode bits'',
      ''//   mtime               int     unix seconds'',
      ''//   version             int     monotonic version per entry'',
      ''//   archive_state       text    pinned | archived | unpinned | null'',
      ''//   archive_file_id     text    remote handle (archived only)'',
      ''//   archive_sha1        text    remote content hash (archived only)'',
      ''//   archive_uploaded_at int     unix millis (archived only)'',
      ''//   updated_at          int     unix seconds (row version timestamp)'',
      ''// Underlying DB: '' @ absDB @ ''  (SQLite, WAL-safe read alongside serve)'',
      ''// Deeper queries:'',
      ''//   hubsync ls | duckql '' @ fmt_q (''WHERE archive_state='' @ single_quoted ''unpinned''),
      ''//   hubsync ls | duckql '' @ fmt_q ''SELECT archive_state, count(*) GROUP BY 1'',
      ''//   duckql -i '' @ single_quoted (''sqlite:'' @ absDB) @ '' '' @ fmt_q (''FROM hub_entry WHERE archive_state='' @ single_quoted ''unpinned''),
      ''// Note: `hubsync ls | jq ...` requires `grep -v '' @ single_quoted ''^//'' @ ''` first; `duckql` strips automatically.'']"

text \<open>What the command writes: every line ends with a newline.\<close>

definition renderLs :: "string \<Rightarrow> HubEntry list \<Rightarrow> string" where
  "renderLs absDB entries = concat (map (\<lambda>l. l @ [CHR 0x0A]) (renderLsDocstring absDB @ map HubEntry_json entries))"

text \<open>What a reader makes of it: its lines, without those that start with two slashes.\<close>

fun text_lines :: "string \<Rightarrow> string list" where
  "text_lines [] = []"
| "text_lines (c # cs) =
     (if c = CHR 0x0A then [] # text_lines cs
      else (case text_lines cs of [] \<Rightarrow> [[c]] | l # ls \<Rightarrow> (c # l) # ls))"

definition strip_comments :: "string \<Rightarrow> string list" where
  "strip_comments out = filter (\<lambda>l. \<not> HasPrefix l ''//'') (text_lines out)"

lemma text_lines_line: "CHR 0x0A \<notin> set l \<Longrightarrow> text_lines (l @ CHR 0x0A # rest) = l # text_lines rest"
  by (induction l) auto

lemma text_lines_concat:
  "\<forall>l \<in> set ls. CHR 0x0A \<notin> set l \<Longrightarrow> text_lines (concat (map (\<lambda>l. l @ [CHR 0x0A]) ls)) = ls"
  by (induction ls) (simp_all add: text_lines_line)

section \<open>No line break in an object\<close>

lemma json_ascii_line: "CHR 0x0A \<notin> set (json_ascii c)"
proof -
  have "CHR 0x0A \<notin> set (hex_byte w)" for w
  proof -
    have "list_all (\<lambda>n. hex_char n \<noteq> CHR 0x0A) [0..<16]" by code_simp
    then have digit: "n < 16 \<Longrightarrow> hex_char n \<noteq> CHR 0x0A" for n by (auto simp: list_all_iff)
    have "unat w < 16 * 16" using unsigned_less [of w, where 'a = nat] by simp
    then have "unat w div 16 < 16" by (rule less_mult_imp_div_less)
    with digit [of "unat w div 16"] digit [of "unat w mod 16"] show ?thesis by (auto simp: hex_byte_def)
  qed
  then show ?thesis by (auto simp: json_ascii_def)
qed


lemma rune_two_bytes: "rune_len (c # a # x) = 2 \<Longrightarrow> \<not> byte c < 0x80 \<and> \<not> byte a < 0x80"
  by (simp add: rune_len_def Let_def continues_def split: if_splits)

lemma rune_three_bytes: "rune_len (c # a # b # x) = 3 \<Longrightarrow> \<not> byte c < 0x80 \<and> \<not> byte a < 0x80 \<and> \<not> byte b < 0x80"
  by (simp add: rune_len_def Let_def continues_def split: if_splits)

lemma rune_four_bytes: "rune_len (c # a # b # d # x) = 4 \<Longrightarrow> \<not> byte c < 0x80 \<and> \<not> byte a < 0x80 \<and> \<not> byte b < 0x80 \<and> \<not> byte d < 0x80"
  by (simp add: rune_len_def Let_def continues_def numeral_3_eq_3 split: if_splits)

lemma rune_bytes:
  assumes "1 < rune_len s" "x \<in> set (take (rune_len s) s)"
  shows "\<not> byte x < 0x80"
proof -
  define n where "n = rune_len s"
  have len: "n \<le> length s" and n: "n \<in> {2, 3, 4}" using rune_len_bound [of s] rune_len_upto [of s] assms by (auto simp: n_def)
  then consider c a y where "n = 2" "s = c # a # y" | c a b y where "n = 3" "s = c # a # b # y" | c a b d y where "n = 4" "s = c # a # b # d # y"
    by (auto simp: Suc_le_length_iff numeral_2_eq_2 numeral_3_eq_3 eval_nat_numeral)
  then show ?thesis
  proof cases
    case 1
    then have "x \<in> {c, a}" using assms(2) n_def by (simp add: numeral_eq_Suc)
    with rune_two_bytes [of c a y] 1 n_def show ?thesis by auto
  next
    case 2
    then have "x \<in> {c, a, b}" using assms(2) n_def by (simp add: numeral_eq_Suc)
    with rune_three_bytes [of c a b y] 2 n_def show ?thesis by auto
  next
    case 3
    then have "x \<in> {c, a, b, d}" using assms(2) n_def by (simp add: numeral_eq_Suc)
    with rune_four_bytes [of c a b d y] 3 n_def show ?thesis by auto
  qed
qed

lemma json_body_line: "CHR 0x0A \<notin> set (json_body s)"
proof (induction s rule: json_body.induct)
  case (2 c cs)
  let ?n = "rune_len (c # cs)"
  have "byte (CHR 0x0A) < 0x80" by (simp add: byte_def)
  then have rune: "CHR 0x0A \<notin> set (json_rune (take ?n (c # cs)))" if "1 < ?n"
    using rune_bytes [OF that] by (auto simp: json_rune_def)
  consider "?n = 0" | "?n = 1" | "1 < ?n" by linarith
  then show ?case
  proof cases
    case 1
    with "2.IH"(1) [OF refl 1] show ?thesis by simp
  next
    case 2
    with "2.IH"(2) [OF refl _ 2] json_ascii_line show ?thesis by simp
  next
    case 3
    with "2.IH"(3) [OF refl] rune show ?thesis by (simp add: Let_def)
  qed
qed simp

lemma json_Marshal_line: "CHR 0x0A \<notin> set (json_Marshal_string s)"
  by (simp add: json_Marshal_string_def json_body_line)

lemma fmt_d_line: "CHR 0x0A \<notin> set (fmt_d v)"
proof -
  have "CHR 0x0A \<notin> set (dec_digits n)" for n using dec_digits_ok [of n] by (auto simp: is_digit_def)
  then show ?thesis by (simp add: fmt_d_def)
qed

lemma comma_join_line: "\<forall>x \<in> set xs. c \<notin> set x \<Longrightarrow> c \<noteq> CHR '','' \<Longrightarrow> c \<notin> set (comma_join xs)"
  by (induction xs rule: comma_join.induct) auto

lemma HubEntry_json_line: "CHR 0x0A \<notin> set (HubEntry_json e)"
  unfolding HubEntry_json_def json_object_def
  by (simp add: comma_join_line json_key_def json_Marshal_line fmt_d_line FileKind_MarshalJSON_def Digest_MarshalJSON_def)

lemma docstring_line: "CHR 0x0A \<notin> set absDB \<Longrightarrow> \<forall>l \<in> set (renderLsDocstring absDB). CHR 0x0A \<notin> set l"
  by (simp add: renderLsDocstring_def em_dash_def single_quoted_def fmt_q_def)

section \<open>Properties\<close>

text \<open>
  A listing can be read back line by line: when the name of the hub has no line break, what is left of the output without
  the comment lines is one line per entry, in order, the JSON object of that entry, whatever bytes the paths hold.
\<close>

theorem ls_prints_one_line_per_entry:
  assumes "CHR 0x0A \<notin> set absDB"
  shows "strip_comments (renderLs absDB entries) = map HubEntry_json entries"
proof -
  have "text_lines (renderLs absDB entries) = renderLsDocstring absDB @ map HubEntry_json entries"
    unfolding renderLs_def using docstring_line [OF assms] HubEntry_json_line by (intro text_lines_concat) auto
  moreover have "\<forall>l \<in> set (renderLsDocstring absDB). HasPrefix l ''//''" by (simp add: renderLsDocstring_def HasPrefix_iff)
  moreover have "\<not> HasPrefix (HubEntry_json e) ''//''" for e by (simp add: HubEntry_json_def json_object_def HasPrefix_iff)
  ultimately show ?thesis by (simp add: strip_comments_def filter_map comp_def)
qed

text \<open>Text that is UTF-8, read in the same steps as the encoder reads it.\<close>

fun valid_utf8 :: "string \<Rightarrow> bool" where
  "valid_utf8 [] = True"
| "valid_utf8 (c # cs) = (let n = rune_len (c # cs) in 0 < n \<and> valid_utf8 (drop (n - 1) cs))"

lemma replacement_valid: "rune_len (CHR 0xEF # CHR 0xBF # CHR 0xBD # x) = 3"
  by (simp add: rune_len_def Let_def byte_def continues_def)

lemma split_at: "n \<noteq> 0 \<Longrightarrow> take n (c # cs) @ drop (n - 1) cs = c # cs"
  by (cases n) simp_all

lemma json_string_id_iff: "json_string s = s \<longleftrightarrow> valid_utf8 s"
proof (induction s rule: valid_utf8.induct)
  case (2 c cs)
  let ?n = "rune_len (c # cs)"
  show ?case
  proof (cases "?n = 0")
    case True
    have "json_string (c # cs) \<noteq> c # cs"
    proof
      assume "json_string (c # cs) = c # cs"
      with True have "c # cs = CHR 0xEF # CHR 0xBF # CHR 0xBD # json_string cs" by (simp add: Let_def)
      from arg_cong [OF this, of rune_len] replacement_valid have "?n = 3" by (rule trans)
      with True show False by linarith
    qed
    with True show ?thesis by simp
  next
    case False
    have whole: "take ?n (c # cs) @ drop (?n - 1) cs = c # cs" by (rule split_at [OF False])
    have "json_string (c # cs) = take ?n (c # cs) @ json_string (drop (?n - 1) cs)" using False by (simp add: Let_def)
    with whole have "json_string (c # cs) = c # cs \<longleftrightarrow> json_string (drop (?n - 1) cs) = drop (?n - 1) cs" by (metis same_append_eq)
    then have "json_string (c # cs) = c # cs \<longleftrightarrow> valid_utf8 (drop (?n - 1) cs)" unfolding 2 [OF refl] .
    moreover have "valid_utf8 (c # cs) \<longleftrightarrow> valid_utf8 (drop (?n - 1) cs)" using False by (simp add: Let_def)
    ultimately show ?thesis by blast
  qed
qed simp

text \<open>
  C32: What hubsync writes as JSON it reads back. Encoding a string and decoding it gives the string itself exactly when its
  bytes are UTF-8, and otherwise the string with every stray byte replaced; a digest comes back as the bytes it was, and a
  kind as the kind it was, unless it is none of the three, which is written but not read.
\<close>

theorem json_roundtrip:
  "json_Unmarshal_string (json_Marshal_string s) = Inr (json_string s) \<and> (json_string s = s \<longleftrightarrow> valid_utf8 s) \<and>
   Digest_UnmarshalJSON (Digest_MarshalJSON d) = Inr d \<and>
   (if k \<in> {FileKindFile, FileKindDirectory, FileKindSymlink} then FileKind_UnmarshalJSON (FileKind_MarshalJSON k) = Inr k
    else isl (FileKind_UnmarshalJSON (FileKind_MarshalJSON k)))"
proof -
  have "json_string (Digest_Hex d) = Digest_Hex d" using Digest_Hex_ascii by (blast intro: json_string_ascii)
  moreover have "Digest_Hex d = '''' \<longrightarrow> [] = d" by (cases d) (simp_all add: Digest_Hex_def hex_byte_def)
  ultimately have "Digest_UnmarshalJSON (Digest_MarshalJSON d) = Inr d"
    by (simp add: Digest_UnmarshalJSON_def Digest_MarshalJSON_def json_Unmarshal_Marshal hex_decode_encode)
  moreover have "json_string (FileKind_Label k) = FileKind_Label k"
    by (rule json_string_ascii) (auto simp: FileKind_Label_def byte_def)
  then have "FileKind_UnmarshalJSON (FileKind_MarshalJSON k) = FileKind_of_label (FileKind_Label k)"
    by (simp add: FileKind_UnmarshalJSON_def FileKind_MarshalJSON_def json_Unmarshal_Marshal)
  then have "if k \<in> {FileKindFile, FileKindDirectory, FileKindSymlink} then FileKind_UnmarshalJSON (FileKind_MarshalJSON k) = Inr k
    else isl (FileKind_UnmarshalJSON (FileKind_MarshalJSON k))" by (auto simp: FileKind_of_label_def FileKind_Label_def FileKind_defs)
  ultimately show ?thesis using json_Unmarshal_Marshal json_string_id_iff by blast
qed


end
