(* ===== verification/Spec2Isabelle.thy ===== *)
theory Spec2Isabelle
  imports Http_Api Serve_Process Watcher Command_Line Archive_Worker Json_Text
begin

text \<open>
  A verification library for hubsync, a file synchroniser with one hub and many replicas.

  \<^bold>\<open>The program.\<close> A hub watches a directory. Its scanner compares the directory with the tree in the hub's
  database and appends one row per change to a log; every row has the next version number, and a table holds the
  tree the log amounts to. Replicas download a snapshot, fetch the blobs, and follow the log over a stream: old rows
  first, then live events. Large files travel as rsync deltas. A replica in write mode also pushes its own edits,
  which the hub accepts only against the version the replica had seen. Beside that, the hub archives its
  files in a bucket: a worker or the command \<^verbatim>\<open>hubsync archive\<close> uploads files that are pending, \<^verbatim>\<open>unpin\<close> removes
  local copies of archived files, \<^verbatim>\<open>pin\<close> brings them back, and a garbage collection deletes objects that no row claims.
  Commands work on the hub in place when they get its lock, and otherwise ask the serving process over a socket.

  \<^bold>\<open>Conventions.\<close> Every Go function is a function of the state it reads to the state it leaves and its results; an error
  is the left part of a sum, with its context as the code wraps it. Databases are records of tables, a file system is a
  list of nodes by path, 64-bit versions on the wire are words. SQL statements fail when the parameter of type
  \<^typ>\<open>sql_faults\<close> says so, so theorems that do not assume \<^const>\<open>no_faults\<close> hold whatever fails. Concurrent parts are step
  relations whose steps are the statements or critical sections of the code, and their theorems hold for every
  interleaving. Code outside of the repository is a parameter: the blazer client of Backblaze, the walk of go-lstree,
  the TOML and protobuf codecs, the hash functions, glob matching, SQLite's \<^verbatim>\<open>json_patch\<close>, what
  fsnotify reports; what is relied on is a hypothesis of the theorem that needs it, with a witness
  that instantiates it.

  \<^bold>\<open>The hub.\<close>
    \<^item> \<open>Prelude\<close>: machine types, errors, SQL failures, Go's string functions, tables with a key, and the locale
      \<^verbatim>\<open>log_view\<close> of a state that a log of changes determines.
    \<^item> \<open>Hubsync_Types\<close> (\<^verbatim>\<open>hubsync.go\<close>, \<^verbatim>\<open>hasher.go\<close>) and \<open>Filesystem\<close> (the part of \<^verbatim>\<open>os\<close> and \<^verbatim>\<open>filepath\<close> in use).
    \<^item> \<open>Hub_Store\<close> (\<^verbatim>\<open>store.go\<close>): every operation of the database. The tree is the replay of the log, an append is atomic and
      takes the next version.
    \<^item> \<open>Scanner\<close> (\<^verbatim>\<open>scanner.go\<close>) and \<open>Hub\<close> (\<^verbatim>\<open>hub.go\<close>, \<^verbatim>\<open>broadcast.go\<close>): a full scan makes the tree that of the directory.
    \<^item> \<open>Watcher\<close> (\<^verbatim>\<open>watcher.go\<close>): the debounced loop reaches a scan after every change that is reported; a change
      below a subdirectory is not.
    \<^item> \<open>Push\<close> (\<^verbatim>\<open>push.go\<close>): an accepted update was made against the current version, a conflict changes nothing.
    \<^item> \<open>Delta\<close> (\<^verbatim>\<open>delta.go\<close>): applying a computed delta rebuilds the file, for a strong hash without collisions among its blocks.
    \<^item> \<open>Protocol\<close> (\<^verbatim>\<open>protocol.go\<close>, \<^verbatim>\<open>auth.go\<close>) and \<open>Server\<close> (\<^verbatim>\<open>server.go\<close>, \<^verbatim>\<open>snapshot.go\<close>): framing round trips; a subscriber is
      sent every row of the log once and in order, unless its channel overflowed.
    \<^item> \<open>Http_Api\<close> (\<^verbatim>\<open>server.go\<close>): the routes, the token check and Go's routing in front of the handlers. Without the token nothing is
      learned or changed; with it a client sees the handlers that the theorems about replicas speak of; a client that
      has bootstrapped sends the token to the object store as well.

  \<^bold>\<open>The replica.\<close>
    \<^item> \<open>Client_Store\<close> (\<^verbatim>\<open>client_store.go\<close>), \<open>Client\<close> (\<^verbatim>\<open>client.go\<close>), \<open>Client_Push\<close> (\<^verbatim>\<open>client_push.go\<close>): catch-up mirrors the tree,
      delta transfer ends with the hub's content, conflicts keep the local edit.
    \<^item> \<open>Replication\<close> and \<open>Replica_Files\<close>: hub and replica as one machine; the client database is the hub's tree at the version it
      records, and its files have the digests it lists. \<open>Write_Mode\<close>: the write mode loses changes of others.

  \<^bold>\<open>The archive.\<close>
    \<^item> \<open>Archive_Storage\<close> (\<^verbatim>\<open>archive/\<close>): the interface as the locales \<^verbatim>\<open>archive_objects\<close> and \<^verbatim>\<open>archive_storage\<close>, interpreted on the
      in-memory store; \<open>B2_Storage\<close> (\<^verbatim>\<open>archive/b2store.go\<close>) meets the first on any client that behaves as
      documented, and its directory markers break the second.
    \<^item> \<open>Archive_One\<close> (\<^verbatim>\<open>archive_one.go\<close>), \<open>Reconciler\<close> (\<^verbatim>\<open>reconciler.go\<close>), \<open>Archive_GC\<close> (\<^verbatim>\<open>archive_gc.go\<close>), \<open>Rpc\<close> (\<^verbatim>\<open>rpc.go\<close>): a retried
      upload is not repeated, unpin and pin restore the file, the collection deletes what no row claims and only that.
    \<^item> \<open>Archive_System\<close>: all of them in any order never lose a claimed object. \<open>Archive_Worker\<close> (\<^verbatim>\<open>archive_worker.go\<close>): the worker
      of a serving hub with uploads in two steps; it misses what its ghost state lists, and marks a row that changed meanwhile.
    \<^item> \<open>Task_Schema\<close>, \<open>Taskrunner\<close>, \<open>Task_Pool\<close> (\<^verbatim>\<open>internal/taskrunner\<close>): schema inference, planning, claiming, the pool of workers; a
      task never runs twice at once, the retry ceiling holds, feeding ends.
    \<^item> \<open>Archive_Tasks\<close> (\<^verbatim>\<open>archive_task.go\<close>) and \<open>Archive_Verb\<close> (\<^verbatim>\<open>cli/hubsync/archive.go\<close>): the pool with the archive tasks and the world
      they work on; an exit status of 0 means that every file with a UTF-8 name is archived.

  \<^bold>\<open>The commands.\<close>
    \<^item> \<open>Config\<close> (\<^verbatim>\<open>config_file.go\<close>, \<^verbatim>\<open>config.go\<close>, \<^verbatim>\<open>cli/hubsync/init.go\<close>), \<open>Hub_Context\<close> (\<^verbatim>\<open>cli/hubsync/main.go\<close>), \<open>One_Shot\<close> (\<^verbatim>\<open>hub_lock.go\<close>,
      \<^verbatim>\<open>cli/hubsync\<close>), \<open>Wiring\<close> (\<^verbatim>\<open>providers.go\<close>, \<^verbatim>\<open>wire_gen.go\<close>): a loaded configuration is usable, a path argument names its
      directory, a command without the lock changes nothing, the socket gives the answer the work in place would have given,
      and the parts of a hub agree on database, bucket prefix and token.
    \<^item> \<open>Command_Line\<close> (\<^verbatim>\<open>cli/hubsync/main.go\<close>): \<^verbatim>\<open>main\<close>, the flags of every verb and the flag package that reads them. A dry run touches
      nothing; a dry flag behind the globs is no flag.
    \<^item> \<open>Serve_Process\<close> (\<^verbatim>\<open>rpc.go\<close>, \<^verbatim>\<open>cli/hubsync/main.go\<close>): serve processes with lock and control socket as a machine of interleaved
      threads. The socket answers for the holder of the lock; a process that ends can take its successor's socket away.
    \<^item> \<open>Json_Text\<close> (\<^verbatim>\<open>hubsync.go\<close>, \<^verbatim>\<open>cli/hubsync/render.go\<close>): JSON strings byte by byte; round trips of strings, digests and kinds, and
      the lines of \<^verbatim>\<open>ls\<close>, one per entry whatever a path holds.

  \<^bold>\<open>Loops and bounds.\<close> Loops over lists are structural recursion. The reconnect loops of a client take a number of turns, and
  their invariants hold for every number. The feeder of the task pool and the search for the name of a conflicted copy
  are partial functions: the first is proved to return within one pass per item and attempt, the second returns exactly
  when no ancestor of the path is a file. \<^verbatim>\<open>seq_drain\<close>, the one schedule of the pool that is written as a
  function, takes a number of passes after which it is cancelled; it only serves the witnesses, the theorem is
  about every schedule. Channels have the capacity of the code, 256 events.

  \<^bold>\<open>Not modelled.\<close> Usage texts, log lines and the table that \<^verbatim>\<open>status\<close> prints: they are output only. The text of durations
  (\<^verbatim>\<open>time.ParseDuration\<close> computes with floats) is a parameter. The pragmas of SQLite (\<^verbatim>\<open>db.go\<close>) and the temporary file of a
  snapshot: a database is the state of its tables and a transaction is atomic. The TCP listener; transport errors are
  values the parameters return. Generated protobuf code, \<^verbatim>\<open>wire.go\<close> and the test injectors. The push ticker of a
  write-mode client interleaves with its stream only between connections, and two scans of one hub never overlap, although
  the watcher's timer may start them so. The iOS and Rust clients are separate programs.
\<close>

end
